(* ===== verification/Prelude.thy ===== *)
theory Prelude
  imports Main "HOL-Library.Word" "HOL-Library.Char_ord"
begin

text \<open>
  Shared vocabulary of the development: machine integer types, characters as the C code
  compares them, constant tables indexed by a byte, and the theorem collections that the
  component theories fill.

  A C \<open>char\<close> is a HOL \<^typ>\<open>char\<close> (eight bits). The sources compare characters only for
  equality and against ASCII ranges; a byte from 128 on is outside every such range whether
  \<open>char\<close> is signed or not, so the unsigned order of \<open>Char_ord\<close> gives the same answers.
\<close>

unbundle bit_operations_syntax

section \<open>Machine integers\<close>

type_synonym u8 = "8 word"
type_synonym u16 = "16 word"
type_synonym u32 = "32 word"
type_synonym u64 = "64 word"

abbreviation ULLONG_MAX :: u64 where
  "ULLONG_MAX \<equiv> - 1"

section \<open>Theorem collections\<close>

named_theorems handler_defs
  \<open>definitions of the per-state handlers of the HTTP parser\<close>

named_theorems macro_defs
  \<open>definitions of the control macros of the HTTP parser\<close>

named_theorems ok_rules
  \<open>introduction rules of the safety judgement, one per control macro\<close>

section \<open>Characters\<close>

abbreviation NUL :: char where "NUL \<equiv> CHR 0x00"
abbreviation HT :: char where "HT \<equiv> CHR 0x09"
abbreviation LF :: char where "LF \<equiv> CHR 0x0A"
abbreviation FF :: char where "FF \<equiv> CHR 0x0C"
abbreviation CR :: char where "CR \<equiv> CHR 0x0D"

abbreviation ord :: "char \<Rightarrow> nat" where
  "ord c \<equiv> of_char c"

lemma ord_less_256 [simp]: "ord c < 256"
  by simp

lemma enum_nth_ord [simp]: "(Enum.enum :: char list) ! ord c = c"
  by (simp add: enum_char_unfold)

text \<open>
  A C table \<open>T[256]\<close> indexed by an unsigned char, once it is known to be the list of the
  values of a function on all characters, is that function.
\<close>

lemma table_nth_ord:
  assumes "t = map f (Enum.enum :: char list)"
  shows "t ! ord c = f c"
proof -
  have "length (Enum.enum :: char list) = 256"
    by (simp add: enum_char_unfold)
  then show ?thesis
    using assms by simp
qed

text \<open>Reading a NUL-terminated string literal: the terminator is at index \<open>length s\<close>.\<close>

definition cstr_at :: "string \<Rightarrow> nat \<Rightarrow> char" where
  "cstr_at s i = (if i < length s then s ! i else NUL)"

lemma cstr_at_less [simp]: "i < length s \<Longrightarrow> cstr_at s i = s ! i"
  by (simp add: cstr_at_def)

lemma cstr_at_end [simp]: "length s \<le> i \<Longrightarrow> cstr_at s i = NUL"
  by (simp add: cstr_at_def)

section \<open>Lists\<close>

lemma take_drop_Suc:
  "i + n < length xs \<Longrightarrow> take (Suc n) (drop i xs) = take n (drop i xs) @ [xs ! (i + n)]"
  by (simp add: take_Suc_conv_app_nth)

lemma in_set_take_drop: "x \<in> set (take n (drop i xs)) \<Longrightarrow> x \<in> set xs"
  by (meson in_set_dropD in_set_takeD)

lemma nth_concat_map_width:
  assumes "\<And>x. length (f x) = w" and "i < w * length xs"
  shows "concat (map f xs) ! i = f (xs ! (i div w)) ! (i mod w)"
  using assms(2)
proof (induction xs arbitrary: i)
  case Nil
  then show ?case by simp
next
  case (Cons x xs)
  show ?case
  proof (cases "i < w")
    case True
    then show ?thesis by (simp add: nth_append assms(1))
  next
    case False
    with Cons.prems have w: "0 < w" and "i - w < w * length xs"
      by (auto intro: gr0I)
    with Cons.IH have "concat (map f xs) ! (i - w) = f (xs ! ((i - w) div w)) ! ((i - w) mod w)"
      by blast
    moreover have "i div w = Suc ((i - w) div w)" and "i mod w = (i - w) mod w"
      using w False by (simp_all add: le_div_geq le_mod_geq)
    ultimately show ?thesis
      using False by (simp add: nth_append assms(1))
  qed
qed

section \<open>Words\<close>

lemma word_or_idem_bit [simp]: "(x OR y) AND y = (y :: 'a::len word)"
  by (rule bit_eqI) (auto simp: bit_simps)

lemma word_and_or_mono: "x AND m \<noteq> 0 \<Longrightarrow> (x OR y) AND m \<noteq> (0 :: 'a::len word)"
proof
  assume nz: "x AND m \<noteq> 0" and z: "(x OR y) AND m = 0"
  have "(x AND m) OR (y AND m) = 0"
    using z by (metis bit.conj_disj_distrib2)
  with nz show False
    by (simp add: or_eq_0_iff)
qed

lemma unat_ULLONG_MAX: "unat ULLONG_MAX = 2 ^ 64 - 1"
  using unat_sub_if' [of 0 "1 :: u64"] by simp

section \<open>Numbers as text\<close>

text \<open>\<open>os << n\<close> for an unsigned number.\<close>

fun dec_str :: "nat \<Rightarrow> string" where
  "dec_str n = (if n < 10 then [char_of (48 + n)] else dec_str (n div 10) @ [char_of (48 + n mod 10)])"

declare dec_str.simps [simp del]

section \<open>State machines\<close>

text \<open>
  A step relation with an invariant: what holds in the initial states and is kept by every step
  holds in every reachable state.
\<close>

definition reachable :: "('s \<Rightarrow> bool) \<Rightarrow> ('s \<Rightarrow> 's \<Rightarrow> bool) \<Rightarrow> 's \<Rightarrow> bool" where
  "reachable init step s \<longleftrightarrow> (\<exists>s0. init s0 \<and> step\<^sup>*\<^sup>* s0 s)"

lemma reachable_init: "init s \<Longrightarrow> reachable init step s"
  by (auto simp: reachable_def)

lemma reachable_step: "reachable init step s \<Longrightarrow> step s s' \<Longrightarrow> reachable init step s'"
  by (auto simp: reachable_def intro: rtranclp.rtrancl_into_rtrancl)

locale step_invariant =
  fixes init :: "'s \<Rightarrow> bool" and step :: "'s \<Rightarrow> 's \<Rightarrow> bool" and inv :: "'s \<Rightarrow> bool"
  assumes init_inv: "init s \<Longrightarrow> inv s"
    and step_inv: "step s s' \<Longrightarrow> inv s \<Longrightarrow> inv s'"
begin

lemma reachable_inv: "reachable init step s \<Longrightarrow> inv s"
proof -
  have "step\<^sup>*\<^sup>* s0 s \<Longrightarrow> inv s0 \<Longrightarrow> inv s" for s0
    by (induction rule: rtranclp_induct) (auto intro: step_inv)
  then show "reachable init step s \<Longrightarrow> inv s"
    by (auto simp: reachable_def init_inv)
qed

end

end
