(* ===== verification/Http_Enums.thy ===== *)
theory Http_Enums
  imports Prelude
begin

text \<open>
  The enumerations of \<open>src/sylar-from-scratch/sylar/http/http-parser/http_parser.h\<close> and
  \<open>http_parser.c\<close>: parser and header-matching states, host states, request methods, status
  codes, error numbers, and the string tables the macros \<open>HTTP_METHOD_MAP\<close>,
  \<open>HTTP_STATUS_MAP\<close> and \<open>HTTP_ERRNO_MAP\<close> generate.
\<close>

section \<open>Parser states\<close>

datatype (plugins only: code size) state
  = s_dead | s_start_req_or_res | s_res_or_resp_H | s_start_res | s_res_H | s_res_HT
  | s_res_HTT | s_res_HTTP | s_res_http_major | s_res_http_dot | s_res_http_minor
  | s_res_http_end | s_res_first_status_code | s_res_status_code | s_res_status_start
  | s_res_status | s_res_line_almost_done | s_start_req | s_req_method
  | s_req_spaces_before_url | s_req_schema | s_req_schema_slash | s_req_schema_slash_slash
  | s_req_server_start | s_req_server | s_req_server_with_at | s_req_path
  | s_req_query_string_start | s_req_query_string | s_req_fragment_start | s_req_fragment
  | s_req_http_start | s_req_http_H | s_req_http_HT | s_req_http_HTT | s_req_http_HTTP
  | s_req_http_I | s_req_http_IC | s_req_http_major | s_req_http_dot | s_req_http_minor
  | s_req_http_end | s_req_line_almost_done | s_header_field_start | s_header_field
  | s_header_value_discard_ws | s_header_value_discard_ws_almost_done
  | s_header_value_discard_lws | s_header_value_start | s_header_value | s_header_value_lws
  | s_header_almost_done | s_chunk_size_start | s_chunk_size | s_chunk_parameters
  | s_chunk_size_almost_done | s_headers_almost_done | s_headers_done | s_chunk_data
  | s_chunk_data_almost_done | s_chunk_data_done | s_body_identity | s_body_identity_eof
  | s_message_done

text \<open>The value of each enumerator; \<open>s_dead\<close> is 1.\<close>

primrec state_num :: "state \<Rightarrow> nat" where
  "state_num s_dead = 1"
| "state_num s_start_req_or_res = 2"
| "state_num s_res_or_resp_H = 3"
| "state_num s_start_res = 4"
| "state_num s_res_H = 5"
| "state_num s_res_HT = 6"
| "state_num s_res_HTT = 7"
| "state_num s_res_HTTP = 8"
| "state_num s_res_http_major = 9"
| "state_num s_res_http_dot = 10"
| "state_num s_res_http_minor = 11"
| "state_num s_res_http_end = 12"
| "state_num s_res_first_status_code = 13"
| "state_num s_res_status_code = 14"
| "state_num s_res_status_start = 15"
| "state_num s_res_status = 16"
| "state_num s_res_line_almost_done = 17"
| "state_num s_start_req = 18"
| "state_num s_req_method = 19"
| "state_num s_req_spaces_before_url = 20"
| "state_num s_req_schema = 21"
| "state_num s_req_schema_slash = 22"
| "state_num s_req_schema_slash_slash = 23"
| "state_num s_req_server_start = 24"
| "state_num s_req_server = 25"
| "state_num s_req_server_with_at = 26"
| "state_num s_req_path = 27"
| "state_num s_req_query_string_start = 28"
| "state_num s_req_query_string = 29"
| "state_num s_req_fragment_start = 30"
| "state_num s_req_fragment = 31"
| "state_num s_req_http_start = 32"
| "state_num s_req_http_H = 33"
| "state_num s_req_http_HT = 34"
| "state_num s_req_http_HTT = 35"
| "state_num s_req_http_HTTP = 36"
| "state_num s_req_http_I = 37"
| "state_num s_req_http_IC = 38"
| "state_num s_req_http_major = 39"
| "state_num s_req_http_dot = 40"
| "state_num s_req_http_minor = 41"
| "state_num s_req_http_end = 42"
| "state_num s_req_line_almost_done = 43"
| "state_num s_header_field_start = 44"
| "state_num s_header_field = 45"
| "state_num s_header_value_discard_ws = 46"
| "state_num s_header_value_discard_ws_almost_done = 47"
| "state_num s_header_value_discard_lws = 48"
| "state_num s_header_value_start = 49"
| "state_num s_header_value = 50"
| "state_num s_header_value_lws = 51"
| "state_num s_header_almost_done = 52"
| "state_num s_chunk_size_start = 53"
| "state_num s_chunk_size = 54"
| "state_num s_chunk_parameters = 55"
| "state_num s_chunk_size_almost_done = 56"
| "state_num s_headers_almost_done = 57"
| "state_num s_headers_done = 58"
| "state_num s_chunk_data = 59"
| "state_num s_chunk_data_almost_done = 60"
| "state_num s_chunk_data_done = 61"
| "state_num s_body_identity = 62"
| "state_num s_body_identity_eof = 63"
| "state_num s_message_done = 64"

text \<open>All states in the order of the enumeration: the numbering is injective.\<close>

definition all_states :: "state list" where
  "all_states =
    [s_dead, s_start_req_or_res, s_res_or_resp_H, s_start_res, s_res_H, s_res_HT,
     s_res_HTT, s_res_HTTP, s_res_http_major, s_res_http_dot, s_res_http_minor,
     s_res_http_end, s_res_first_status_code, s_res_status_code, s_res_status_start,
     s_res_status, s_res_line_almost_done, s_start_req, s_req_method,
     s_req_spaces_before_url, s_req_schema, s_req_schema_slash, s_req_schema_slash_slash,
     s_req_server_start, s_req_server, s_req_server_with_at, s_req_path,
     s_req_query_string_start, s_req_query_string, s_req_fragment_start, s_req_fragment,
     s_req_http_start, s_req_http_H, s_req_http_HT, s_req_http_HTT, s_req_http_HTTP,
     s_req_http_I, s_req_http_IC, s_req_http_major, s_req_http_dot, s_req_http_minor,
     s_req_http_end, s_req_line_almost_done, s_header_field_start, s_header_field,
     s_header_value_discard_ws, s_header_value_discard_ws_almost_done,
     s_header_value_discard_lws, s_header_value_start, s_header_value, s_header_value_lws,
     s_header_almost_done, s_chunk_size_start, s_chunk_size, s_chunk_parameters,
     s_chunk_size_almost_done, s_headers_almost_done, s_headers_done, s_chunk_data,
     s_chunk_data_almost_done, s_chunk_data_done, s_body_identity, s_body_identity_eof,
     s_message_done]"

lemma all_states_nth: "all_states ! (state_num s - 1) = s"
  by (cases s) (simp_all add: all_states_def)

lemma state_num_inj: "state_num s = state_num t \<longleftrightarrow> s = t"
  by (metis all_states_nth)

text \<open>The C code orders states by their enumerator value (\<open>PARSING_HEADER\<close>).\<close>

instantiation state :: linorder
begin

definition less_eq_state :: "state \<Rightarrow> state \<Rightarrow> bool" where
  "s \<le> t \<longleftrightarrow> state_num s \<le> state_num t"

definition less_state :: "state \<Rightarrow> state \<Rightarrow> bool" where
  "s < t \<longleftrightarrow> state_num s < state_num t"

instance
  by standard (auto simp: less_eq_state_def less_state_def simp flip: state_num_inj)

end

definition PARSING_HEADER :: "state \<Rightarrow> bool" where
  "PARSING_HEADER s \<longleftrightarrow> s \<le> s_headers_done"

datatype (plugins only: code size) header_states
  = h_general | h_C | h_CO | h_CON | h_matching_connection | h_matching_proxy_connection
  | h_matching_content_length | h_matching_transfer_encoding | h_matching_upgrade
  | h_connection | h_content_length | h_content_length_num | h_content_length_ws
  | h_transfer_encoding | h_upgrade | h_matching_transfer_encoding_chunked
  | h_matching_connection_token_start | h_matching_connection_keep_alive
  | h_matching_connection_close | h_matching_connection_upgrade | h_matching_connection_token
  | h_transfer_encoding_chunked | h_connection_keep_alive | h_connection_close
  | h_connection_upgrade

datatype (plugins only: code size) http_host_state
  = s_http_host_dead | s_http_userinfo_start | s_http_userinfo | s_http_host_start
  | s_http_host_v6_start | s_http_host | s_http_host_v6 | s_http_host_v6_end
  | s_http_host_v6_zone_start | s_http_host_v6_zone | s_http_host_port_start
  | s_http_host_port

section \<open>Requests and responses\<close>

datatype http_parser_type = HTTP_REQUEST | HTTP_RESPONSE | HTTP_BOTH

datatype (plugins only: code size) http_method
  = HTTP_DELETE | HTTP_GET | HTTP_HEAD | HTTP_POST | HTTP_PUT | HTTP_CONNECT | HTTP_OPTIONS
  | HTTP_TRACE | HTTP_COPY | HTTP_LOCK | HTTP_MKCOL | HTTP_MOVE | HTTP_PROPFIND
  | HTTP_PROPPATCH | HTTP_SEARCH | HTTP_UNLOCK | HTTP_BIND | HTTP_REBIND | HTTP_UNBIND
  | HTTP_ACL | HTTP_REPORT | HTTP_MKACTIVITY | HTTP_CHECKOUT | HTTP_MERGE | HTTP_MSEARCH
  | HTTP_NOTIFY | HTTP_SUBSCRIBE | HTTP_UNSUBSCRIBE | HTTP_PATCH | HTTP_PURGE
  | HTTP_MKCALENDAR | HTTP_LINK | HTTP_UNLINK | HTTP_SOURCE

text \<open>The enumerator values of \<open>enum http_method\<close>, which index \<open>method_strings\<close>.\<close>

primrec http_method_num :: "http_method \<Rightarrow> nat" where
  "http_method_num HTTP_DELETE = 0"
| "http_method_num HTTP_GET = 1"
| "http_method_num HTTP_HEAD = 2"
| "http_method_num HTTP_POST = 3"
| "http_method_num HTTP_PUT = 4"
| "http_method_num HTTP_CONNECT = 5"
| "http_method_num HTTP_OPTIONS = 6"
| "http_method_num HTTP_TRACE = 7"
| "http_method_num HTTP_COPY = 8"
| "http_method_num HTTP_LOCK = 9"
| "http_method_num HTTP_MKCOL = 10"
| "http_method_num HTTP_MOVE = 11"
| "http_method_num HTTP_PROPFIND = 12"
| "http_method_num HTTP_PROPPATCH = 13"
| "http_method_num HTTP_SEARCH = 14"
| "http_method_num HTTP_UNLOCK = 15"
| "http_method_num HTTP_BIND = 16"
| "http_method_num HTTP_REBIND = 17"
| "http_method_num HTTP_UNBIND = 18"
| "http_method_num HTTP_ACL = 19"
| "http_method_num HTTP_REPORT = 20"
| "http_method_num HTTP_MKACTIVITY = 21"
| "http_method_num HTTP_CHECKOUT = 22"
| "http_method_num HTTP_MERGE = 23"
| "http_method_num HTTP_MSEARCH = 24"
| "http_method_num HTTP_NOTIFY = 25"
| "http_method_num HTTP_SUBSCRIBE = 26"
| "http_method_num HTTP_UNSUBSCRIBE = 27"
| "http_method_num HTTP_PATCH = 28"
| "http_method_num HTTP_PURGE = 29"
| "http_method_num HTTP_MKCALENDAR = 30"
| "http_method_num HTTP_LINK = 31"
| "http_method_num HTTP_UNLINK = 32"
| "http_method_num HTTP_SOURCE = 33"

definition method_strings :: "string list" where
  "method_strings =
    [''DELETE'', ''GET'', ''HEAD'', ''POST'', ''PUT'', ''CONNECT'', ''OPTIONS'',
     ''TRACE'', ''COPY'', ''LOCK'', ''MKCOL'', ''MOVE'', ''PROPFIND'', ''PROPPATCH'',
     ''SEARCH'', ''UNLOCK'', ''BIND'', ''REBIND'', ''UNBIND'', ''ACL'', ''REPORT'',
     ''MKACTIVITY'', ''CHECKOUT'', ''MERGE'', ''M-SEARCH'', ''NOTIFY'', ''SUBSCRIBE'',
     ''UNSUBSCRIBE'', ''PATCH'', ''PURGE'', ''MKCALENDAR'', ''LINK'', ''UNLINK'',
     ''SOURCE'']"

text \<open>\<open>ELEM_AT(method_strings, m, "<unknown>")\<close>, for any value of the enum's integer type.\<close>

definition http_method_str :: "nat \<Rightarrow> string" where
  "http_method_str m =
     (if m < length method_strings then method_strings ! m else ''<unknown>'')"

definition HTTP_STATUS_MAP :: "(nat \<times> string) list" where
  "HTTP_STATUS_MAP =
    [(100, ''Continue''),
     (101, ''Switching Protocols''),
     (102, ''Processing''),
     (200, ''OK''),
     (201, ''Created''),
     (202, ''Accepted''),
     (203, ''Non-Authoritative Information''),
     (204, ''No Content''),
     (205, ''Reset Content''),
     (206, ''Partial Content''),
     (207, ''Multi-Status''),
     (208, ''Already Reported''),
     (226, ''IM Used''),
     (300, ''Multiple Choices''),
     (301, ''Moved Permanently''),
     (302, ''Found''),
     (303, ''See Other''),
     (304, ''Not Modified''),
     (305, ''Use Proxy''),
     (307, ''Temporary Redirect''),
     (308, ''Permanent Redirect''),
     (400, ''Bad Request''),
     (401, ''Unauthorized''),
     (402, ''Payment Required''),
     (403, ''Forbidden''),
     (404, ''Not Found''),
     (405, ''Method Not Allowed''),
     (406, ''Not Acceptable''),
     (407, ''Proxy Authentication Required''),
     (408, ''Request Timeout''),
     (409, ''Conflict''),
     (410, ''Gone''),
     (411, ''Length Required''),
     (412, ''Precondition Failed''),
     (413, ''Payload Too Large''),
     (414, ''URI Too Long''),
     (415, ''Unsupported Media Type''),
     (416, ''Range Not Satisfiable''),
     (417, ''Expectation Failed''),
     (421, ''Misdirected Request''),
     (422, ''Unprocessable Entity''),
     (423, ''Locked''),
     (424, ''Failed Dependency''),
     (426, ''Upgrade Required''),
     (428, ''Precondition Required''),
     (429, ''Too Many Requests''),
     (431, ''Request Header Fields Too Large''),
     (451, ''Unavailable For Legal Reasons''),
     (500, ''Internal Server Error''),
     (501, ''Not Implemented''),
     (502, ''Bad Gateway''),
     (503, ''Service Unavailable''),
     (504, ''Gateway Timeout''),
     (505, ''HTTP Version Not Supported''),
     (506, ''Variant Also Negotiates''),
     (507, ''Insufficient Storage''),
     (508, ''Loop Detected''),
     (510, ''Not Extended''),
     (511, ''Network Authentication Required'')]"

definition http_status_str :: "nat \<Rightarrow> string" where
  "http_status_str s =
     (case map_of HTTP_STATUS_MAP s of Some str \<Rightarrow> str | None \<Rightarrow> ''<unknown>'')"

section \<open>Error numbers\<close>

datatype (plugins only: code size) http_errno
  = HPE_OK | HPE_CB_message_begin | HPE_CB_url | HPE_CB_header_field | HPE_CB_header_value
  | HPE_CB_headers_complete | HPE_CB_body | HPE_CB_message_complete | HPE_CB_status
  | HPE_CB_chunk_header | HPE_CB_chunk_complete | HPE_INVALID_EOF_STATE | HPE_HEADER_OVERFLOW
  | HPE_CLOSED_CONNECTION | HPE_INVALID_VERSION | HPE_INVALID_STATUS | HPE_INVALID_METHOD
  | HPE_INVALID_URL | HPE_INVALID_HOST | HPE_INVALID_PORT | HPE_INVALID_PATH
  | HPE_INVALID_QUERY_STRING | HPE_INVALID_FRAGMENT | HPE_LF_EXPECTED
  | HPE_INVALID_HEADER_TOKEN | HPE_INVALID_CONTENT_LENGTH | HPE_UNEXPECTED_CONTENT_LENGTH
  | HPE_INVALID_CHUNK_SIZE | HPE_INVALID_CONSTANT | HPE_INVALID_INTERNAL_STATE | HPE_STRICT
  | HPE_PAUSED | HPE_UNKNOWN

primrec http_errno_num :: "http_errno \<Rightarrow> nat" where
  "http_errno_num HPE_OK = 0"
| "http_errno_num HPE_CB_message_begin = 1"
| "http_errno_num HPE_CB_url = 2"
| "http_errno_num HPE_CB_header_field = 3"
| "http_errno_num HPE_CB_header_value = 4"
| "http_errno_num HPE_CB_headers_complete = 5"
| "http_errno_num HPE_CB_body = 6"
| "http_errno_num HPE_CB_message_complete = 7"
| "http_errno_num HPE_CB_status = 8"
| "http_errno_num HPE_CB_chunk_header = 9"
| "http_errno_num HPE_CB_chunk_complete = 10"
| "http_errno_num HPE_INVALID_EOF_STATE = 11"
| "http_errno_num HPE_HEADER_OVERFLOW = 12"
| "http_errno_num HPE_CLOSED_CONNECTION = 13"
| "http_errno_num HPE_INVALID_VERSION = 14"
| "http_errno_num HPE_INVALID_STATUS = 15"
| "http_errno_num HPE_INVALID_METHOD = 16"
| "http_errno_num HPE_INVALID_URL = 17"
| "http_errno_num HPE_INVALID_HOST = 18"
| "http_errno_num HPE_INVALID_PORT = 19"
| "http_errno_num HPE_INVALID_PATH = 20"
| "http_errno_num HPE_INVALID_QUERY_STRING = 21"
| "http_errno_num HPE_INVALID_FRAGMENT = 22"
| "http_errno_num HPE_LF_EXPECTED = 23"
| "http_errno_num HPE_INVALID_HEADER_TOKEN = 24"
| "http_errno_num HPE_INVALID_CONTENT_LENGTH = 25"
| "http_errno_num HPE_UNEXPECTED_CONTENT_LENGTH = 26"
| "http_errno_num HPE_INVALID_CHUNK_SIZE = 27"
| "http_errno_num HPE_INVALID_CONSTANT = 28"
| "http_errno_num HPE_INVALID_INTERNAL_STATE = 29"
| "http_errno_num HPE_STRICT = 30"
| "http_errno_num HPE_PAUSED = 31"
| "http_errno_num HPE_UNKNOWN = 32"

definition http_strerror_tab :: "(string \<times> string) list" where
  "http_strerror_tab =
    [(''HPE_OK'', ''success''),
     (''HPE_CB_message_begin'', ''the on_message_begin callback failed''),
     (''HPE_CB_url'', ''the on_url callback failed''),
     (''HPE_CB_header_field'', ''the on_header_field callback failed''),
     (''HPE_CB_header_value'', ''the on_header_value callback failed''),
     (''HPE_CB_headers_complete'', ''the on_headers_complete callback failed''),
     (''HPE_CB_body'', ''the on_body callback failed''),
     (''HPE_CB_message_complete'', ''the on_message_complete callback failed''),
     (''HPE_CB_status'', ''the on_status callback failed''),
     (''HPE_CB_chunk_header'', ''the on_chunk_header callback failed''),
     (''HPE_CB_chunk_complete'', ''the on_chunk_complete callback failed''),
     (''HPE_INVALID_EOF_STATE'', ''stream ended at an unexpected time''),
     (''HPE_HEADER_OVERFLOW'', ''too many header bytes seen; overflow detected''),
     (''HPE_CLOSED_CONNECTION'', ''data received after completed connection: close message''),
     (''HPE_INVALID_VERSION'', ''invalid HTTP version''),
     (''HPE_INVALID_STATUS'', ''invalid HTTP status code''),
     (''HPE_INVALID_METHOD'', ''invalid HTTP method''),
     (''HPE_INVALID_URL'', ''invalid URL''),
     (''HPE_INVALID_HOST'', ''invalid host''),
     (''HPE_INVALID_PORT'', ''invalid port''),
     (''HPE_INVALID_PATH'', ''invalid path''),
     (''HPE_INVALID_QUERY_STRING'', ''invalid query string''),
     (''HPE_INVALID_FRAGMENT'', ''invalid fragment''),
     (''HPE_LF_EXPECTED'', ''LF character expected''),
     (''HPE_INVALID_HEADER_TOKEN'', ''invalid character in header''),
     (''HPE_INVALID_CONTENT_LENGTH'', ''invalid character in content-length header''),
     (''HPE_UNEXPECTED_CONTENT_LENGTH'', ''unexpected content-length header''),
     (''HPE_INVALID_CHUNK_SIZE'', ''invalid character in chunk size header''),
     (''HPE_INVALID_CONSTANT'', ''invalid constant string''),
     (''HPE_INVALID_INTERNAL_STATE'', ''encountered unexpected internal state''),
     (''HPE_STRICT'', ''strict mode assertion failed''),
     (''HPE_PAUSED'', ''parser is paused''),
     (''HPE_UNKNOWN'', ''an unknown error occurred'')]"

definition http_errno_name :: "http_errno \<Rightarrow> string" where
  "http_errno_name err = fst (http_strerror_tab ! http_errno_num err)"

definition http_errno_description :: "http_errno \<Rightarrow> string" where
  "http_errno_description err = snd (http_strerror_tab ! http_errno_num err)"

lemma http_errno_num_bound: "http_errno_num err < length http_strerror_tab"
  by (cases err) (simp_all add: http_strerror_tab_def)

lemma http_method_num_bound [simp]: "http_method_num m < length method_strings"
  by (cases m) (simp_all add: method_strings_def)

text \<open>\<open>method_strings[parser->method]\<close>, the matcher of the request-line state.\<close>

definition method_matcher :: "http_method \<Rightarrow> string" where
  "method_matcher m = method_strings ! http_method_num m"

lemma method_matcher_str: "http_method_str (http_method_num m) = method_matcher m"
  by (simp add: http_method_str_def method_matcher_def)

lemma method_matcher_simps [simp]:
  "method_matcher HTTP_DELETE = ''DELETE''"
  "method_matcher HTTP_GET = ''GET''"
  "method_matcher HTTP_HEAD = ''HEAD''"
  "method_matcher HTTP_POST = ''POST''"
  "method_matcher HTTP_PUT = ''PUT''"
  "method_matcher HTTP_CONNECT = ''CONNECT''"
  "method_matcher HTTP_OPTIONS = ''OPTIONS''"
  "method_matcher HTTP_TRACE = ''TRACE''"
  "method_matcher HTTP_COPY = ''COPY''"
  "method_matcher HTTP_LOCK = ''LOCK''"
  "method_matcher HTTP_MKCOL = ''MKCOL''"
  "method_matcher HTTP_MOVE = ''MOVE''"
  "method_matcher HTTP_PROPFIND = ''PROPFIND''"
  "method_matcher HTTP_PROPPATCH = ''PROPPATCH''"
  "method_matcher HTTP_SEARCH = ''SEARCH''"
  "method_matcher HTTP_UNLOCK = ''UNLOCK''"
  "method_matcher HTTP_BIND = ''BIND''"
  "method_matcher HTTP_REBIND = ''REBIND''"
  "method_matcher HTTP_UNBIND = ''UNBIND''"
  "method_matcher HTTP_ACL = ''ACL''"
  "method_matcher HTTP_REPORT = ''REPORT''"
  "method_matcher HTTP_MKACTIVITY = ''MKACTIVITY''"
  "method_matcher HTTP_CHECKOUT = ''CHECKOUT''"
  "method_matcher HTTP_MERGE = ''MERGE''"
  "method_matcher HTTP_MSEARCH = ''M-SEARCH''"
  "method_matcher HTTP_NOTIFY = ''NOTIFY''"
  "method_matcher HTTP_SUBSCRIBE = ''SUBSCRIBE''"
  "method_matcher HTTP_UNSUBSCRIBE = ''UNSUBSCRIBE''"
  "method_matcher HTTP_PATCH = ''PATCH''"
  "method_matcher HTTP_PURGE = ''PURGE''"
  "method_matcher HTTP_MKCALENDAR = ''MKCALENDAR''"
  "method_matcher HTTP_LINK = ''LINK''"
  "method_matcher HTTP_UNLINK = ''UNLINK''"
  "method_matcher HTTP_SOURCE = ''SOURCE''"
  by (simp_all add: method_matcher_def method_strings_def)

end
