(* ===== verification/Http_Chars.thy ===== *)
theory Http_Chars
  imports Http_Enums
begin

text \<open>
  The lookup tables and character classes of \<open>http_parser.c\<close> (lines 182 to 464), in the
  configuration the build uses: nothing sets \<open>HTTP_PARSER_STRICT\<close>, so the header's default
  1 holds and \<open>T(v)\<close> is 0; and the byte-for-byte URL machine \<open>parse_url_char\<close>. The lemmas
  replace each table by the character class it stands for.
\<close>

section \<open>Tables\<close>

text \<open>Entries 128 to 255 are not written in the initialiser, hence zero.\<close>

definition tokens :: "char list" where
  "tokens =
    [NUL, NUL, NUL, NUL, NUL, NUL, NUL, NUL,
     NUL, NUL, NUL, NUL, NUL, NUL, NUL, NUL,
     NUL, NUL, NUL, NUL, NUL, NUL, NUL, NUL,
     NUL, NUL, NUL, NUL, NUL, NUL, NUL, NUL,
     CHR '' '', CHR ''!'', NUL, CHR ''#'', CHR ''$'', CHR ''%'', CHR ''&'', CHR 0x27,
     NUL, NUL, CHR ''*'', CHR ''+'', NUL, CHR ''-'', CHR ''.'', NUL]
    @ ''01234567''
    @ ''89'' @ [NUL, NUL, NUL, NUL, NUL, NUL]
    @ [NUL] @ ''abcdefg''
    @ ''hijklmno''
    @ ''pqrstuvw''
    @ ''xyz'' @ [NUL, NUL, NUL] @ ''^_''
    @ [CHR 0x60] @ ''abcdefg''
    @ ''hijklmno''
    @ ''pqrstuvw''
    @ ''xyz'' @ [NUL, CHR ''|'', NUL, CHR ''~'', NUL]
    @ replicate 128 NUL"

definition unhex :: "int list" where
  "unhex =
    [- 1, - 1, - 1, - 1, - 1, - 1, - 1, - 1, - 1, - 1, - 1, - 1, - 1, - 1, - 1, - 1,
     - 1, - 1, - 1, - 1, - 1, - 1, - 1, - 1, - 1, - 1, - 1, - 1, - 1, - 1, - 1, - 1,
     - 1, - 1, - 1, - 1, - 1, - 1, - 1, - 1, - 1, - 1, - 1, - 1, - 1, - 1, - 1, - 1,
     0, 1, 2, 3, 4, 5, 6, 7, 8, 9, - 1, - 1, - 1, - 1, - 1, - 1,
     - 1, 10, 11, 12, 13, 14, 15, - 1, - 1, - 1, - 1, - 1, - 1, - 1, - 1, - 1,
     - 1, - 1, - 1, - 1, - 1, - 1, - 1, - 1, - 1, - 1, - 1, - 1, - 1, - 1, - 1, - 1,
     - 1, 10, 11, 12, 13, 14, 15, - 1, - 1, - 1, - 1, - 1, - 1, - 1, - 1, - 1,
     - 1, - 1, - 1, - 1, - 1, - 1, - 1, - 1, - 1, - 1, - 1, - 1, - 1, - 1, - 1, - 1]
    @ replicate 128 0"

definition normal_url_char :: "u8 list" where
  "normal_url_char =
    [0 OR 0 OR 0 OR 0 OR 0 OR 0 OR 0 OR 0,
     0 OR 0 OR 0 OR 0 OR 0 OR 0 OR 0 OR 0,
     0 OR 0 OR 0 OR 0 OR 0 OR 0 OR 0 OR 0,
     0 OR 0 OR 0 OR 0 OR 0 OR 0 OR 0 OR 0,
     0 OR 2 OR 4 OR 0 OR 16 OR 32 OR 64 OR 128,
     1 OR 2 OR 4 OR 8 OR 16 OR 32 OR 64 OR 128,
     1 OR 2 OR 4 OR 8 OR 16 OR 32 OR 64 OR 128,
     1 OR 2 OR 4 OR 8 OR 16 OR 32 OR 64 OR 0,
     1 OR 2 OR 4 OR 8 OR 16 OR 32 OR 64 OR 128,
     1 OR 2 OR 4 OR 8 OR 16 OR 32 OR 64 OR 128,
     1 OR 2 OR 4 OR 8 OR 16 OR 32 OR 64 OR 128,
     1 OR 2 OR 4 OR 8 OR 16 OR 32 OR 64 OR 128,
     1 OR 2 OR 4 OR 8 OR 16 OR 32 OR 64 OR 128,
     1 OR 2 OR 4 OR 8 OR 16 OR 32 OR 64 OR 128,
     1 OR 2 OR 4 OR 8 OR 16 OR 32 OR 64 OR 128,
     1 OR 2 OR 4 OR 8 OR 16 OR 32 OR 64 OR 0]
    @ replicate 16 0"

text \<open>\<open>BIT_AT(a, i)\<close>: bit \<open>i & 7\<close> of byte \<open>i >> 3\<close>.\<close>

definition BIT_AT :: "u8 list \<Rightarrow> nat \<Rightarrow> bool" where
  "BIT_AT a i \<longleftrightarrow> a ! (drop_bit 3 i) AND push_bit (i AND 7) 1 \<noteq> 0"

section \<open>Character classes\<close>

definition LOWER :: "char \<Rightarrow> char" where
  "LOWER c = char_of (ord c OR 0x20)"

definition IS_ALPHA :: "char \<Rightarrow> bool" where
  "IS_ALPHA c \<longleftrightarrow> CHR ''a'' \<le> LOWER c \<and> LOWER c \<le> CHR ''z''"

definition IS_NUM :: "char \<Rightarrow> bool" where
  "IS_NUM c \<longleftrightarrow> CHR ''0'' \<le> c \<and> c \<le> CHR ''9''"

definition IS_ALPHANUM :: "char \<Rightarrow> bool" where
  "IS_ALPHANUM c \<longleftrightarrow> IS_ALPHA c \<or> IS_NUM c"

definition IS_HEX :: "char \<Rightarrow> bool" where
  "IS_HEX c \<longleftrightarrow> IS_NUM c \<or> (CHR ''a'' \<le> LOWER c \<and> LOWER c \<le> CHR ''f'')"

definition IS_MARK :: "char \<Rightarrow> bool" where
  "IS_MARK c \<longleftrightarrow> c = CHR ''-'' \<or> c = CHR ''_'' \<or> c = CHR ''.'' \<or> c = CHR ''!'' \<or> c = CHR ''~'' \<or>
     c = CHR ''*'' \<or> c = CHR 0x27 \<or> c = CHR ''('' \<or> c = CHR '')''"

definition IS_USERINFO_CHAR :: "char \<Rightarrow> bool" where
  "IS_USERINFO_CHAR c \<longleftrightarrow> IS_ALPHANUM c \<or> IS_MARK c \<or> c = CHR ''%'' \<or> c = CHR '';'' \<or> c = CHR '':'' \<or>
     c = CHR ''&'' \<or> c = CHR ''='' \<or> c = CHR ''+'' \<or> c = CHR ''$'' \<or> c = CHR '',''"

definition STRICT_TOKEN :: "char \<Rightarrow> char" where
  "STRICT_TOKEN c = (if c = CHR '' '' then NUL else tokens ! ord c)"

definition TOKEN :: "char \<Rightarrow> char" where
  "TOKEN c = STRICT_TOKEN c"

definition IS_URL_CHAR :: "char \<Rightarrow> bool" where
  "IS_URL_CHAR c \<longleftrightarrow> BIT_AT normal_url_char (ord c)"

definition IS_HOST_CHAR :: "char \<Rightarrow> bool" where
  "IS_HOST_CHAR c \<longleftrightarrow> IS_ALPHANUM c \<or> c = CHR ''.'' \<or> c = CHR ''-''"

definition IS_HEADER_CHAR :: "char \<Rightarrow> bool" where
  "IS_HEADER_CHAR ch \<longleftrightarrow> ch = CR \<or> ch = LF \<or> ch = HT \<or> (ord ch > 31 \<and> ch \<noteq> CHR 0x7F)"

section \<open>The URL machine\<close>

text \<open>
  The two early returns of the source (white space, then tab and form feed in strict mode),
  then one equation per case label; the \<open>break\<close>s end in \<open>s_dead\<close>. The helper
  \<open>parse_url_server\<close> is the code shared by the labels \<open>s_req_server_start\<close> and
  \<open>s_req_server\<close>, into which \<open>s_req_server_with_at\<close> falls through.
\<close>

definition parse_url_server :: "char \<Rightarrow> state" where
  "parse_url_server ch =
     (if ch = CHR ''/'' then s_req_path
      else if ch = CHR ''?'' then s_req_query_string_start
      else if ch = CHR ''@'' then s_req_server_with_at
      else if IS_USERINFO_CHAR ch \<or> ch = CHR ''['' \<or> ch = CHR '']'' then s_req_server
      else s_dead)"

definition parse_url_char :: "state \<Rightarrow> char \<Rightarrow> state" where
  "parse_url_char s ch =
     (if ch = CHR '' '' \<or> ch = CR \<or> ch = LF then s_dead
      else if ch = HT \<or> ch = FF then s_dead
      else case s of
        s_req_spaces_before_url \<Rightarrow>
          (if ch = CHR ''/'' \<or> ch = CHR ''*'' then s_req_path
           else if IS_ALPHA ch then s_req_schema
           else s_dead)
      | s_req_schema \<Rightarrow>
          (if IS_ALPHA ch then s_req_schema
           else if ch = CHR '':'' then s_req_schema_slash
           else s_dead)
      | s_req_schema_slash \<Rightarrow>
          (if ch = CHR ''/'' then s_req_schema_slash_slash else s_dead)
      | s_req_schema_slash_slash \<Rightarrow>
          (if ch = CHR ''/'' then s_req_server_start else s_dead)
      | s_req_server_with_at \<Rightarrow>
          (if ch = CHR ''@'' then s_dead else parse_url_server ch)
      | s_req_server_start \<Rightarrow> parse_url_server ch
      | s_req_server \<Rightarrow> parse_url_server ch
      | s_req_path \<Rightarrow>
          (if IS_URL_CHAR ch then s_req_path
           else if ch = CHR ''?'' then s_req_query_string_start
           else if ch = CHR ''#'' then s_req_fragment_start
           else s_dead)
      | s_req_query_string_start \<Rightarrow>
          (if IS_URL_CHAR ch then s_req_query_string
           else if ch = CHR ''?'' then s_req_query_string
           else if ch = CHR ''#'' then s_req_fragment_start
           else s_dead)
      | s_req_query_string \<Rightarrow>
          (if IS_URL_CHAR ch then s_req_query_string
           else if ch = CHR ''?'' then s_req_query_string
           else if ch = CHR ''#'' then s_req_fragment_start
           else s_dead)
      | s_req_fragment_start \<Rightarrow>
          (if IS_URL_CHAR ch then s_req_fragment
           else if ch = CHR ''?'' then s_req_fragment
           else if ch = CHR ''#'' then s_req_fragment_start
           else s_dead)
      | s_req_fragment \<Rightarrow>
          (if IS_URL_CHAR ch then s_req_fragment
           else if ch = CHR ''?'' \<or> ch = CHR ''#'' then s_req_fragment
           else s_dead)
      | _ \<Rightarrow> s_dead)"

section \<open>The tables as character classes\<close>

lemma LOWER_Char [simp, code]:
  "LOWER (Char b0 b1 b2 b3 b4 b5 b6 b7) = Char b0 b1 b2 b3 b4 True b6 b7"
proof -
  have "(0x20 :: nat) = 2 ^ 5" by simp
  then show ?thesis
    by (simp only: LOWER_def char_of_def of_char_def bit_or_iff bit_horner_sum_bit_iff bit_exp_iff)
      simp
qed

text \<open>The separators and control characters of RFC 2616 are the characters with no token value.\<close>

definition token_class :: "char \<Rightarrow> char" where
  "token_class c =
     (if IS_ALPHA c then LOWER c
      else if IS_NUM c \<or> c \<in> set ''!#$%&*+-.^_|~'' \<or> c = CHR 0x27 \<or> c = CHR 0x60 then c
      else NUL)"

lemma tokens_eq: "tokens = map (\<lambda>c. if c = CHR '' '' then c else token_class c) Enum.enum"
  by (simp add: tokens_def token_class_def enum_char_def IS_ALPHA_def IS_NUM_def numeral_eq_Suc)

lemma STRICT_TOKEN_class [code]: "STRICT_TOKEN c = token_class c"
  unfolding STRICT_TOKEN_def table_nth_ord [OF tokens_eq]
  by (simp add: token_class_def IS_ALPHA_def IS_NUM_def)

definition unhex_class :: "char \<Rightarrow> int" where
  "unhex_class c =
     (if IS_NUM c then int (ord c) - 48
      else if CHR ''a'' \<le> LOWER c \<and> LOWER c \<le> CHR ''f'' then int (ord (LOWER c)) - 87
      else if ord c < 128 then - 1 else 0)"

lemma unhex_eq: "unhex = map unhex_class Enum.enum"
  by (simp add: unhex_def unhex_class_def enum_char_def IS_NUM_def numeral_eq_Suc)

lemma unhex_nth: "unhex ! ord c = unhex_class c"
  by (rule table_nth_ord [OF unhex_eq])

definition url_class :: "char \<Rightarrow> bool" where
  "url_class c \<longleftrightarrow> CHR '' '' < c \<and> c < CHR 0x7F \<and> c \<noteq> CHR ''#'' \<and> c \<noteq> CHR ''?''"

lemma BIT_AT_bit: "BIT_AT a i \<longleftrightarrow> bit (a ! (i div 8)) (i mod 8)"
proof -
  have "i AND 7 = i mod 8"
    using take_bit_eq_mask [of 3 i] by (simp add: mask_eq_exp_minus_1 take_bit_eq_mod)
  moreover have "drop_bit 3 i = i div 8" by (simp add: drop_bit_eq_div)
  moreover have "(w AND push_bit k 1 \<noteq> 0) = bit w k" if "k < 8" for w :: u8 and k
    using that by (simp add: bit_iff_and_push_bit_not_eq_0)
  ultimately show ?thesis by (simp add: BIT_AT_def)
qed

lemma byte_bits:
  "map (bit (0 :: u8)) [0..<8] = [False, False, False, False, False, False, False, False]"
  "map (bit (246 :: u8)) [0..<8] = [False, True, True, False, True, True, True, True]"
  "map (bit (255 :: u8)) [0..<8] = [True, True, True, True, True, True, True, True]"
  "map (bit (127 :: u8)) [0..<8] = [True, True, True, True, True, True, True, False]"
  by (simp_all add: upt_conv_Cons)

lemma url_vals: "normal_url_char =
  [0, 0, 0, 0, 246, 255, 255, 127, 255, 255, 255, 255, 255, 255, 255, 127,
   0, 0, 0, 0, 0, 0, 0, 0, 0, 0, 0, 0, 0, 0, 0, 0]"
  by (simp add: normal_url_char_def numeral_eq_Suc)

lemma url_bits_eq: "concat (map (\<lambda>b. map (bit b) [0..<8]) normal_url_char) = map url_class Enum.enum"
  unfolding url_vals list.map byte_bits concat.simps append.simps enum_char_def
  by (simp add: url_class_def)

lemma IS_URL_CHAR_class [code]: "IS_URL_CHAR c \<longleftrightarrow> url_class c"
proof -
  have "IS_URL_CHAR c \<longleftrightarrow> bit (normal_url_char ! (ord c div 8)) (ord c mod 8)"
    by (simp add: IS_URL_CHAR_def BIT_AT_bit)
  also have "\<dots> \<longleftrightarrow> concat (map (\<lambda>b. map (bit b) [0..<8]) normal_url_char) ! ord c"
    using ord_less_256 [of c] by (subst nth_concat_map_width [where w = 8]) (auto simp: url_vals)
  also have "\<dots> \<longleftrightarrow> url_class c"
    by (rule table_nth_ord [OF url_bits_eq])
  finally show ?thesis .
qed

end
