(* ===== verification/Http_Url.thy ===== *)
theory Http_Url
  imports Http_Chars
begin

text \<open>
  The URL splitter of \<open>http_parser.c\<close> (\<open>http_parse_host_char\<close>, \<open>http_parse_host\<close>,
  \<open>http_parser_parse_url\<close>) over \<open>struct http_parser_url\<close>. The buffer is a character list and
  a pointer \<open>p\<close> into it is the offset \<open>p - buf\<close>; the offsets and lengths a parse stores keep
  the 16-bit width of the struct. The C functions return an \<open>int\<close> (nonzero on failure) and
  write through \<open>u\<close>; the model returns both. A failed \<open>assert\<close>, or a read past the end of
  the buffer, is \<open>None\<close>.
\<close>

section \<open>The result structure\<close>

datatype http_parser_url_fields
  = UF_SCHEMA | UF_HOST | UF_PORT | UF_PATH | UF_QUERY | UF_FRAGMENT | UF_USERINFO | UF_MAX

primrec uf_num :: "http_parser_url_fields \<Rightarrow> nat" where
  "uf_num UF_SCHEMA = 0"
| "uf_num UF_HOST = 1"
| "uf_num UF_PORT = 2"
| "uf_num UF_PATH = 3"
| "uf_num UF_QUERY = 4"
| "uf_num UF_FRAGMENT = 5"
| "uf_num UF_USERINFO = 6"
| "uf_num UF_MAX = 7"

record url_field =
  fd_off :: u16
  fd_len :: u16

record http_parser_url =
  field_set :: u16
  port :: u16
  field_data :: "http_parser_url_fields \<Rightarrow> url_field"

text \<open>\<open>1 << uf\<close>, the test \<open>field_set & (1 << uf)\<close> and the writes to one slot of \<open>field_data\<close>.\<close>

definition uf_bit :: "http_parser_url_fields \<Rightarrow> u16" where
  "uf_bit f = push_bit (uf_num f) 1"

definition has_field :: "http_parser_url \<Rightarrow> http_parser_url_fields \<Rightarrow> bool" where
  "has_field u f \<longleftrightarrow> field_set u AND uf_bit f \<noteq> 0"

definition mark_field :: "http_parser_url_fields \<Rightarrow> http_parser_url \<Rightarrow> http_parser_url" where
  "mark_field f u = u\<lparr>field_set := field_set u OR uf_bit f\<rparr>"

definition put_field :: "http_parser_url_fields \<Rightarrow> u16 \<Rightarrow> u16 \<Rightarrow> http_parser_url \<Rightarrow> http_parser_url" where
  "put_field f ofs n u = u\<lparr>field_data := (field_data u)(f := \<lparr>fd_off = ofs, fd_len = n\<rparr>)\<rparr>"

definition field_off :: "http_parser_url \<Rightarrow> http_parser_url_fields \<Rightarrow> u16" where
  "field_off u f = fd_off (field_data u f)"

definition field_len :: "http_parser_url \<Rightarrow> http_parser_url_fields \<Rightarrow> u16" where
  "field_len u f = fd_len (field_data u f)"

definition http_parser_url_init :: http_parser_url where
  "http_parser_url_init =
     \<lparr>field_set = 0, port = 0, field_data = (\<lambda>_. \<lparr>fd_off = 0, fd_len = 0\<rparr>)\<rparr>"

text \<open>The bytes a set field denotes, \<open>std::string(buf + off, len)\<close>.\<close>

definition field_str :: "string \<Rightarrow> http_parser_url \<Rightarrow> http_parser_url_fields \<Rightarrow> string" where
  "field_str buf u f = take (unat (field_len u f)) (drop (unat (field_off u f)) buf)"

section \<open>Hosts\<close>

text \<open>
  \<open>host_v6_tail\<close> and \<open>host_zone_tail\<close> are the code two labels share by falling through;
  the test \<open>s == s_http_host_v6 && ch == '%'\<close> looks at the original state.
\<close>

definition host_v6_tail :: "http_host_state \<Rightarrow> char \<Rightarrow> http_host_state" where
  "host_v6_tail s ch =
     (if IS_HEX ch \<or> ch = CHR '':'' \<or> ch = CHR ''.'' then s_http_host_v6
      else if s = s_http_host_v6 \<and> ch = CHR ''%'' then s_http_host_v6_zone_start
      else s_http_host_dead)"

definition host_zone_tail :: "char \<Rightarrow> http_host_state" where
  "host_zone_tail ch =
     (if IS_ALPHANUM ch \<or> ch = CHR ''%'' \<or> ch = CHR ''.'' \<or> ch = CHR ''-'' \<or> ch = CHR ''_'' \<or>
         ch = CHR ''~''
      then s_http_host_v6_zone else s_http_host_dead)"

definition http_parse_host_char :: "http_host_state \<Rightarrow> char \<Rightarrow> http_host_state" where
  "http_parse_host_char s ch =
     (case s of
        s_http_userinfo \<Rightarrow>
          (if ch = CHR ''@'' then s_http_host_start
           else if IS_USERINFO_CHAR ch then s_http_userinfo else s_http_host_dead)
      | s_http_userinfo_start \<Rightarrow>
          (if ch = CHR ''@'' then s_http_host_start
           else if IS_USERINFO_CHAR ch then s_http_userinfo else s_http_host_dead)
      | s_http_host_start \<Rightarrow>
          (if ch = CHR ''['' then s_http_host_v6_start
           else if IS_HOST_CHAR ch then s_http_host else s_http_host_dead)
      | s_http_host \<Rightarrow>
          (if IS_HOST_CHAR ch then s_http_host
           else if ch = CHR '':'' then s_http_host_port_start else s_http_host_dead)
      | s_http_host_v6_end \<Rightarrow>
          (if ch = CHR '':'' then s_http_host_port_start else s_http_host_dead)
      | s_http_host_v6 \<Rightarrow>
          (if ch = CHR '']'' then s_http_host_v6_end else host_v6_tail s ch)
      | s_http_host_v6_start \<Rightarrow> host_v6_tail s ch
      | s_http_host_v6_zone \<Rightarrow>
          (if ch = CHR '']'' then s_http_host_v6_end else host_zone_tail ch)
      | s_http_host_v6_zone_start \<Rightarrow> host_zone_tail ch
      | s_http_host_port \<Rightarrow>
          (if IS_NUM ch then s_http_host_port else s_http_host_dead)
      | s_http_host_port_start \<Rightarrow>
          (if IS_NUM ch then s_http_host_port else s_http_host_dead)
      | s_http_host_dead \<Rightarrow> s_http_host_dead)"

text \<open>\<open>field_data[f].len++\<close>, keeping the offset or moving it to \<open>p\<close>.\<close>

definition bump_len :: "http_parser_url_fields \<Rightarrow> http_parser_url \<Rightarrow> http_parser_url" where
  "bump_len f u = put_field f (field_off u f) (field_len u f + 1) u"

definition set_off :: "http_parser_url_fields \<Rightarrow> nat \<Rightarrow> http_parser_url \<Rightarrow> http_parser_url" where
  "set_off f p u = put_field f (of_nat p) (field_len u f) u"

text \<open>The second \<open>switch\<close> of the loop body, on the new state.\<close>

definition host_update ::
  "http_host_state \<Rightarrow> http_host_state \<Rightarrow> nat \<Rightarrow> http_parser_url \<Rightarrow> http_parser_url" where
  "host_update s new_s p u =
     (case new_s of
        s_http_host \<Rightarrow>
          bump_len UF_HOST (if s \<noteq> s_http_host then set_off UF_HOST p u else u)
      | s_http_host_v6 \<Rightarrow>
          bump_len UF_HOST (if s \<noteq> s_http_host_v6 then set_off UF_HOST p u else u)
      | s_http_host_v6_zone_start \<Rightarrow> bump_len UF_HOST u
      | s_http_host_v6_zone \<Rightarrow> bump_len UF_HOST u
      | s_http_host_port \<Rightarrow>
          bump_len UF_PORT
            (if s \<noteq> s_http_host_port then mark_field UF_PORT (put_field UF_PORT (of_nat p) 0 u) else u)
      | s_http_userinfo \<Rightarrow>
          bump_len UF_USERINFO
            (if s \<noteq> s_http_userinfo
             then mark_field UF_USERINFO (put_field UF_USERINFO (of_nat p) 0 u) else u)
      | _ \<Rightarrow> u)"

text \<open>The loop: \<open>None\<close> is the early \<open>return 1\<close>, with \<open>u\<close> as written so far.\<close>

fun parse_host_loop ::
  "nat \<Rightarrow> string \<Rightarrow> http_host_state \<Rightarrow> http_parser_url \<Rightarrow> http_host_state option \<times> http_parser_url" where
  "parse_host_loop p [] s u = (Some s, u)"
| "parse_host_loop p (ch # cs) s u =
     (let new_s = http_parse_host_char s ch in
      if new_s = s_http_host_dead then (None, u)
      else parse_host_loop (Suc p) cs new_s (host_update s new_s p u))"

definition host_end_bad :: "http_host_state \<Rightarrow> bool" where
  "host_end_bad s \<longleftrightarrow>
     s \<in> {s_http_host_start, s_http_host_v6_start, s_http_host_v6, s_http_host_v6_zone_start,
          s_http_host_v6_zone, s_http_host_port_start, s_http_userinfo, s_http_userinfo_start}"

definition http_parse_host :: "string \<Rightarrow> http_parser_url \<Rightarrow> bool \<Rightarrow> (int \<times> http_parser_url) option" where
  "http_parse_host buf u found_at =
     (let start = unat (field_off u UF_HOST);
          n = unat (field_len u UF_HOST);
          u' = put_field UF_HOST (field_off u UF_HOST) 0 u
      in if \<not> has_field u UF_HOST \<or> start + n > length buf then None
         else case parse_host_loop start (take n (drop start buf))
                  (if found_at then s_http_userinfo_start else s_http_host_start) u' of
             (None, v) \<Rightarrow> Some (1, v)
           | (Some s, v) \<Rightarrow> Some (if host_end_bad s then 1 else 0, v))"

section \<open>URLs\<close>

text \<open>
  The first \<open>switch\<close> of the loop of \<open>http_parser_parse_url\<close>: return 1, continue, a field, or
  the failing assertion \<open>"Unexpected state"\<close>.
\<close>

datatype url_case = Sw_return | Sw_continue | Sw_field http_parser_url_fields | Sw_assert

definition url_switch :: "state \<Rightarrow> url_case" where
  "url_switch s =
     (case s of
        s_dead \<Rightarrow> Sw_return
      | s_req_schema_slash \<Rightarrow> Sw_continue
      | s_req_schema_slash_slash \<Rightarrow> Sw_continue
      | s_req_server_start \<Rightarrow> Sw_continue
      | s_req_query_string_start \<Rightarrow> Sw_continue
      | s_req_fragment_start \<Rightarrow> Sw_continue
      | s_req_schema \<Rightarrow> Sw_field UF_SCHEMA
      | s_req_server_with_at \<Rightarrow> Sw_field UF_HOST
      | s_req_server \<Rightarrow> Sw_field UF_HOST
      | s_req_path \<Rightarrow> Sw_field UF_PATH
      | s_req_query_string \<Rightarrow> Sw_field UF_QUERY
      | s_req_fragment \<Rightarrow> Sw_field UF_FRAGMENT
      | _ \<Rightarrow> Sw_assert)"

definition open_field :: "http_parser_url_fields \<Rightarrow> nat \<Rightarrow> http_parser_url \<Rightarrow> http_parser_url" where
  "open_field f p u = mark_field f (put_field f (of_nat p) 1 u)"

fun parse_url_loop ::
  "nat \<Rightarrow> string \<Rightarrow> state \<Rightarrow> http_parser_url_fields \<Rightarrow> bool \<Rightarrow> http_parser_url \<Rightarrow>
   (int \<times> bool \<times> http_parser_url) option" where
  "parse_url_loop p [] s old_uf found_at u = Some (0, found_at, u)"
| "parse_url_loop p (ch # cs) s old_uf found_at u =
     (let s' = parse_url_char s ch;
          found_at' = (found_at \<or> s' = s_req_server_with_at)
      in case url_switch s' of
           Sw_return \<Rightarrow> Some (1, found_at', u)
         | Sw_continue \<Rightarrow> parse_url_loop (Suc p) cs s' old_uf found_at' u
         | Sw_assert \<Rightarrow> None
         | Sw_field uf \<Rightarrow>
             (if uf = old_uf then parse_url_loop (Suc p) cs s' old_uf found_at' (bump_len uf u)
              else parse_url_loop (Suc p) cs s' uf found_at' (open_field uf p u)))"

text \<open>The port loop on \<open>unsigned long\<close>: \<open>None\<close> is the \<open>return 1\<close> above \<open>0xffff\<close>.\<close>

fun port_loop :: "string \<Rightarrow> u64 \<Rightarrow> u64 option" where
  "port_loop [] v = Some v"
| "port_loop (c # cs) v =
     (let v' = v * 10 + (of_nat (ord c) - 48) in if v' > 0xffff then None else port_loop cs v')"

definition parse_url_port :: "string \<Rightarrow> http_parser_url \<Rightarrow> (int \<times> http_parser_url) option" where
  "parse_url_port buf u =
     (if \<not> has_field u UF_PORT then Some (0, u)
      else if unat (field_off u UF_PORT) + unat (field_len u UF_PORT) > length buf then None
      else case port_loop (field_str buf u UF_PORT) 0 of
             None \<Rightarrow> Some (1, u)
           | Some v \<Rightarrow> Some (0, u\<lparr>port := ucast v\<rparr>))"

text \<open>The checks after the loop.\<close>

definition parse_url_finish :: "string \<Rightarrow> bool \<Rightarrow> bool \<Rightarrow> http_parser_url \<Rightarrow> (int \<times> http_parser_url) option" where
  "parse_url_finish buf is_connect found_at u =
     (if has_field u UF_SCHEMA \<and> \<not> has_field u UF_HOST then Some (1, u)
      else case (if has_field u UF_HOST then http_parse_host buf u found_at else Some (0, u)) of
             None \<Rightarrow> None
           | Some (r, u1) \<Rightarrow>
               (if r \<noteq> 0 then Some (1, u1)
                else if is_connect \<and> field_set u1 \<noteq> uf_bit UF_HOST OR uf_bit UF_PORT then Some (1, u1)
                else parse_url_port buf u1))"

definition http_parser_parse_url ::
  "string \<Rightarrow> bool \<Rightarrow> http_parser_url \<Rightarrow> (int \<times> http_parser_url) option" where
  "http_parser_parse_url buf is_connect u =
     (if buf = [] then Some (1, u)
      else case parse_url_loop 0 buf
                  (if is_connect then s_req_server_start else s_req_spaces_before_url)
                  UF_MAX False (u\<lparr>port := 0, field_set := 0\<rparr>) of
             None \<Rightarrow> None
           | Some (r, found_at, u1) \<Rightarrow>
               (if r \<noteq> 0 then Some (1, u1) else parse_url_finish buf is_connect found_at u1))"

end
