(* ===== verification/Http_Exec.thy ===== *)
theory Http_Exec
  imports Http_Url
begin

text \<open>
  \<open>http_parser_execute\<close> of \<open>http_parser.c\<close>: the parser object, the callback table, the control
  macros, one definition per case label of the big \<open>switch\<close>, the \<open>reexecute\<close> and byte loops,
  and the small public functions.

  The parser is polymorphic in the type \<open>'d\<close> of the object its \<open>data\<close> pointer reaches: a
  callback receives the parser and returns its \<open>int\<close> together with the parser as it left it.
  The local variables of \<open>http_parser_execute\<close> are the record \<open>exec_st\<close>, pointers into the
  input being offsets. A handler ends in an \<open>outcome\<close>: \<open>Next\<close> is the \<open>break\<close> that leads to
  \<open>p++\<close>, \<open>Reexecute\<close> the \<open>goto reexecute\<close>, \<open>Return\<close> a return of the function, and \<open>Abort\<close>
  a failed \<open>assert\<close> (the build does not define \<open>NDEBUG\<close>) or a read past a string literal.
  The loops are \<open>partial_function (option)\<close>: \<open>None\<close> is a run that does not return.
\<close>

section \<open>The parser and its settings\<close>

definition F_CHUNKED :: u8 where "F_CHUNKED = push_bit 0 1"
definition F_CONNECTION_KEEP_ALIVE :: u8 where "F_CONNECTION_KEEP_ALIVE = push_bit 1 1"
definition F_CONNECTION_CLOSE :: u8 where "F_CONNECTION_CLOSE = push_bit 2 1"
definition F_CONNECTION_UPGRADE :: u8 where "F_CONNECTION_UPGRADE = push_bit 3 1"
definition F_TRAILING :: u8 where "F_TRAILING = push_bit 4 1"
definition F_UPGRADE :: u8 where "F_UPGRADE = push_bit 5 1"
definition F_SKIPBODY :: u8 where "F_SKIPBODY = push_bit 6 1"
definition F_CONTENTLENGTH :: u8 where "F_CONTENTLENGTH = push_bit 7 1"

record 'd http_parser =
  parser_type :: http_parser_type
  flags :: u8
  state :: state
  header_state :: header_states
  index :: "7 word"
  lenient_http_headers :: bool
  nread :: u32
  content_length :: u64
  http_major :: u16
  http_minor :: u16
  status_code :: u16
  req_method :: http_method
  http_errno :: http_errno
  upgrade :: bool
  data :: 'd

type_synonym 'd http_cb = "'d http_parser \<Rightarrow> int \<times> 'd http_parser"
type_synonym 'd http_data_cb = "'d http_parser \<Rightarrow> string \<Rightarrow> int \<times> 'd http_parser"

text \<open>A null function pointer is \<open>None\<close>.\<close>

record 'd http_parser_settings =
  on_message_begin :: "'d http_cb option"
  on_url :: "'d http_data_cb option"
  on_status :: "'d http_data_cb option"
  on_header_field :: "'d http_data_cb option"
  on_header_value :: "'d http_data_cb option"
  on_headers_complete :: "'d http_cb option"
  on_body :: "'d http_data_cb option"
  on_message_complete :: "'d http_cb option"
  on_chunk_header :: "'d http_cb option"
  on_chunk_complete :: "'d http_cb option"

definition http_parser_settings_init :: "'d http_parser_settings" where
  "http_parser_settings_init =
     \<lparr>on_message_begin = None, on_url = None, on_status = None, on_header_field = None,
      on_header_value = None, on_headers_complete = None, on_body = None,
      on_message_complete = None, on_chunk_header = None, on_chunk_complete = None\<rparr>"

definition has_flag :: "'d http_parser \<Rightarrow> u8 \<Rightarrow> bool" where
  "has_flag P f \<longleftrightarrow> flags P AND f \<noteq> 0"

definition set_flag :: "u8 \<Rightarrow> 'd http_parser \<Rightarrow> 'd http_parser" where
  "set_flag f P = P\<lparr>flags := flags P OR f\<rparr>"

section \<open>Message framing\<close>

definition http_message_needs_eof :: "'d http_parser \<Rightarrow> bool" where
  "http_message_needs_eof P =
     (if parser_type P = HTTP_REQUEST then False
      else if status_code P div 100 = 1 \<or> status_code P = 204 \<or> status_code P = 304 \<or>
              has_flag P F_SKIPBODY then False
      else if has_flag P F_CHUNKED \<or> content_length P \<noteq> ULLONG_MAX then False
      else True)"

definition http_should_keep_alive :: "'d http_parser \<Rightarrow> bool" where
  "http_should_keep_alive P =
     (if http_major P > 0 \<and> http_minor P > 0
      then if has_flag P F_CONNECTION_CLOSE then False else \<not> http_message_needs_eof P
      else if \<not> has_flag P F_CONNECTION_KEEP_ALIVE then False
      else \<not> http_message_needs_eof P)"

definition start_state :: "'d http_parser \<Rightarrow> state" where
  "start_state P = (if parser_type P = HTTP_REQUEST then s_start_req else s_start_res)"

definition NEW_MESSAGE :: "'d http_parser \<Rightarrow> state" where
  "NEW_MESSAGE P = (if http_should_keep_alive P then start_state P else s_dead)"

section \<open>The locals of http\_parser\_execute and its control macros\<close>

datatype mark = M_header_field | M_header_value | M_url | M_body | M_status

record 'd exec_st =
  parser :: "'d http_parser"
  l_p :: nat
  l_ch :: char
  l_state :: state
  l_nread :: u32
  l_marks :: "mark \<Rightarrow> nat option"

text \<open>What stays constant during a call: the settings, the bytes, the header limit, \<open>lenient\<close>.\<close>

record 'd exec_env =
  e_settings :: "'d http_parser_settings"
  e_data :: string
  e_max_header_size :: u32
  e_lenient :: bool

datatype 'd outcome =
    Next "'d exec_st"
  | Reexecute "'d exec_st"
  | Return nat "'d http_parser"
  | Abort

abbreviation e_len :: "'d exec_env \<Rightarrow> nat" where
  "e_len env \<equiv> length (e_data env)"

definition upd_parser :: "('d http_parser \<Rightarrow> 'd http_parser) \<Rightarrow> 'd exec_st \<Rightarrow> 'd exec_st" where
  "upd_parser f st = st\<lparr>parser := f (parser st)\<rparr>"

definition UPDATE_STATE :: "state \<Rightarrow> 'd exec_st \<Rightarrow> 'd exec_st" where
  "UPDATE_STATE s st = st\<lparr>l_state := s\<rparr>"

definition SET_ERRNO :: "http_errno \<Rightarrow> 'd exec_st \<Rightarrow> 'd exec_st" where
  "SET_ERRNO e st = upd_parser (\<lambda>P. P\<lparr>nread := l_nread st, http_errno := e\<rparr>) st"

definition RETURN :: "nat \<Rightarrow> 'd exec_st \<Rightarrow> 'd outcome" where
  "RETURN v st = Return v ((parser st)\<lparr>nread := l_nread st, state := l_state st\<rparr>)"

text \<open>The label \<open>error:\<close>, and the pair \<open>SET_ERRNO(e); goto error;\<close>.\<close>

definition goto_error :: "'d exec_st \<Rightarrow> 'd outcome" where
  "goto_error st =
     (let st' = (if http_errno (parser st) = HPE_OK then SET_ERRNO HPE_UNKNOWN st else st)
      in RETURN (l_p st') st')"

definition FAIL :: "http_errno \<Rightarrow> 'd exec_st \<Rightarrow> 'd outcome" where
  "FAIL e st = goto_error (SET_ERRNO e st)"

definition STRICT_CHECK :: "bool \<Rightarrow> 'd exec_st \<Rightarrow> ('d exec_st \<Rightarrow> 'd outcome) \<Rightarrow> 'd outcome" where
  "STRICT_CHECK cond st k = (if cond then FAIL HPE_STRICT st else k st)"

definition ASSERT :: "bool \<Rightarrow> 'd outcome \<Rightarrow> 'd outcome" where
  "ASSERT cond k = (if cond then k else Abort)"

definition COUNT_HEADER_SIZE ::
  "'d exec_env \<Rightarrow> nat \<Rightarrow> 'd exec_st \<Rightarrow> ('d exec_st \<Rightarrow> 'd outcome) \<Rightarrow> 'd outcome" where
  "COUNT_HEADER_SIZE env v st k =
     (let st' = st\<lparr>l_nread := l_nread st + of_nat v\<rparr>
      in if l_nread st' > e_max_header_size env then FAIL HPE_HEADER_OVERFLOW st' else k st')"

text \<open>
  \<open>run_callback\<close> is the common part of \<open>CALLBACK_NOTIFY_\<close> and \<open>CALLBACK_DATA_\<close> (here with the suffix \<open>er\<close>): store the
  state, call, set \<open>HPE_CB_...\<close> on a nonzero result, reload the state, and leave with \<open>er\<close> when
  the error number is not \<open>HPE_OK\<close> (the callback failed or paused the parser). This \<open>return\<close>
  is a plain one: it does not store \<open>nread\<close>.
\<close>

definition run_callback ::
  "('d http_parser \<Rightarrow> int \<times> 'd http_parser) \<Rightarrow> http_errno \<Rightarrow> nat \<Rightarrow> 'd exec_st \<Rightarrow>
   ('d exec_st \<Rightarrow> 'd outcome) \<Rightarrow> 'd outcome" where
  "run_callback f e er st k =
     (case f ((parser st)\<lparr>state := l_state st\<rparr>) of
        (r, P) \<Rightarrow>
          let st1 = st\<lparr>parser := P\<rparr>;
              st2 = (if r \<noteq> 0 then SET_ERRNO e st1 else st1);
              st3 = UPDATE_STATE (state (parser st2)) st2
          in if http_errno (parser st3) \<noteq> HPE_OK then Return er (parser st3) else k st3)"

definition CALLBACK_NOTIFY_er ::
  "'d http_cb option \<Rightarrow> http_errno \<Rightarrow> nat \<Rightarrow> 'd exec_st \<Rightarrow> ('d exec_st \<Rightarrow> 'd outcome) \<Rightarrow> 'd outcome" where
  "CALLBACK_NOTIFY_er cb e er st k =
     ASSERT (http_errno (parser st) = HPE_OK)
       (case cb of None \<Rightarrow> k st | Some f \<Rightarrow> run_callback f e er st k)"

definition CALLBACK_NOTIFY ::
  "'d http_cb option \<Rightarrow> http_errno \<Rightarrow> 'd exec_st \<Rightarrow> ('d exec_st \<Rightarrow> 'd outcome) \<Rightarrow> 'd outcome" where
  "CALLBACK_NOTIFY cb e st k = CALLBACK_NOTIFY_er cb e (l_p st + 1) st k"

definition CALLBACK_NOTIFY_NOADVANCE ::
  "'d http_cb option \<Rightarrow> http_errno \<Rightarrow> 'd exec_st \<Rightarrow> ('d exec_st \<Rightarrow> 'd outcome) \<Rightarrow> 'd outcome" where
  "CALLBACK_NOTIFY_NOADVANCE cb e st k = CALLBACK_NOTIFY_er cb e (l_p st) st k"

text \<open>\<open>settings->on_##FOR\<close> and \<open>HPE_CB_##FOR\<close> for the five data callbacks.\<close>

fun on_data :: "'d http_parser_settings \<Rightarrow> mark \<Rightarrow> 'd http_data_cb option" where
  "on_data S M_header_field = on_header_field S"
| "on_data S M_header_value = on_header_value S"
| "on_data S M_url = on_url S"
| "on_data S M_body = on_body S"
| "on_data S M_status = on_status S"

fun cb_errno :: "mark \<Rightarrow> http_errno" where
  "cb_errno M_header_field = HPE_CB_header_field"
| "cb_errno M_header_value = HPE_CB_header_value"
| "cb_errno M_url = HPE_CB_url"
| "cb_errno M_body = HPE_CB_body"
| "cb_errno M_status = HPE_CB_status"

definition clear_mark :: "mark \<Rightarrow> 'd exec_st \<Rightarrow> 'd exec_st" where
  "clear_mark m st = st\<lparr>l_marks := (l_marks st)(m := None)\<rparr>"

definition MARK :: "mark \<Rightarrow> 'd exec_st \<Rightarrow> 'd exec_st" where
  "MARK m st =
     (case l_marks st m of
        None \<Rightarrow> st\<lparr>l_marks := (l_marks st)(m \<mapsto> l_p st)\<rparr>
      | Some _ \<Rightarrow> st)"

text \<open>\<open>CALLBACK_DATA_(FOR, LEN, ER)\<close> with \<open>LEN\<close> given as the end \<open>q\<close> of the data, \<open>q - mark\<close>.\<close>

definition CALLBACK_DATA_er ::
  "'d exec_env \<Rightarrow> mark \<Rightarrow> nat \<Rightarrow> nat \<Rightarrow> 'd exec_st \<Rightarrow> ('d exec_st \<Rightarrow> 'd outcome) \<Rightarrow> 'd outcome" where
  "CALLBACK_DATA_er env m q er st k =
     ASSERT (http_errno (parser st) = HPE_OK)
       (case l_marks st m of
          None \<Rightarrow> k st
        | Some i \<Rightarrow>
            (case on_data (e_settings env) m of
               None \<Rightarrow> k (clear_mark m st)
             | Some f \<Rightarrow>
                 run_callback (\<lambda>P. f P (take (q - i) (drop i (e_data env)))) (cb_errno m) er st
                   (\<lambda>st. k (clear_mark m st))))"

definition CALLBACK_DATA ::
  "'d exec_env \<Rightarrow> mark \<Rightarrow> 'd exec_st \<Rightarrow> ('d exec_st \<Rightarrow> 'd outcome) \<Rightarrow> 'd outcome" where
  "CALLBACK_DATA env m st k = CALLBACK_DATA_er env m (l_p st) (l_p st + 1) st k"

definition CALLBACK_DATA_NOADVANCE ::
  "'d exec_env \<Rightarrow> mark \<Rightarrow> 'd exec_st \<Rightarrow> ('d exec_st \<Rightarrow> 'd outcome) \<Rightarrow> 'd outcome" where
  "CALLBACK_DATA_NOADVANCE env m st k = CALLBACK_DATA_er env m (l_p st) (l_p st) st k"

lemmas [macro_defs] =
  upd_parser_def UPDATE_STATE_def SET_ERRNO_def STRICT_CHECK_def ASSERT_def
  clear_mark_def CALLBACK_NOTIFY_def CALLBACK_NOTIFY_NOADVANCE_def CALLBACK_DATA_def
  CALLBACK_DATA_NOADVANCE_def

text \<open>\<open>ch - '0'\<close> as the integer it is stored into.\<close>

definition digit :: "char \<Rightarrow> 'a::len word" where
  "digit c = of_nat (ord c) - 48"

section \<open>Start of a message\<close>

definition reset_message :: "'d exec_st \<Rightarrow> 'd exec_st" where
  "reset_message st = upd_parser (\<lambda>P. P\<lparr>flags := 0, content_length := ULLONG_MAX\<rparr>) st"

definition exec_dead :: "'d exec_env \<Rightarrow> 'd exec_st \<Rightarrow> 'd outcome" where
  "exec_dead env st =
     (if l_ch st = CR \<or> l_ch st = LF then Next st else FAIL HPE_CLOSED_CONNECTION st)"

definition exec_start_req_or_res :: "'d exec_env \<Rightarrow> 'd exec_st \<Rightarrow> 'd outcome" where
  "exec_start_req_or_res env st =
     (if l_ch st = CR \<or> l_ch st = LF then Next st
      else
        let st = reset_message st in
        if l_ch st = CHR ''H''
        then CALLBACK_NOTIFY (on_message_begin (e_settings env)) HPE_CB_message_begin
               (UPDATE_STATE s_res_or_resp_H st) Next
        else Reexecute
               (UPDATE_STATE s_start_req (upd_parser (\<lambda>P. P\<lparr>parser_type := HTTP_REQUEST\<rparr>) st)))"

definition exec_res_or_resp_H :: "'d exec_env \<Rightarrow> 'd exec_st \<Rightarrow> 'd outcome" where
  "exec_res_or_resp_H env st =
     (if l_ch st = CHR ''T''
      then Next (UPDATE_STATE s_res_HT (upd_parser (\<lambda>P. P\<lparr>parser_type := HTTP_RESPONSE\<rparr>) st))
      else if l_ch st \<noteq> CHR ''E'' then FAIL HPE_INVALID_CONSTANT st
      else Next (UPDATE_STATE s_req_method
             (upd_parser (\<lambda>P. P\<lparr>parser_type := HTTP_REQUEST, req_method := HTTP_HEAD, index := 2\<rparr>) st)))"

section \<open>Status line\<close>

definition exec_start_res :: "'d exec_env \<Rightarrow> 'd exec_st \<Rightarrow> 'd outcome" where
  "exec_start_res env st =
     (if l_ch st = CR \<or> l_ch st = LF then Next st
      else
        let st = reset_message st in
        if l_ch st = CHR ''H''
        then CALLBACK_NOTIFY (on_message_begin (e_settings env)) HPE_CB_message_begin
               (UPDATE_STATE s_res_H st) Next
        else FAIL HPE_INVALID_CONSTANT st)"

text \<open>The states that expect one fixed character: \<open>STRICT_CHECK(ch != c); UPDATE_STATE(s); break;\<close>.\<close>

definition exec_expect :: "char \<Rightarrow> state \<Rightarrow> 'd exec_st \<Rightarrow> 'd outcome" where
  "exec_expect c s st = STRICT_CHECK (l_ch st \<noteq> c) st (\<lambda>st. Next (UPDATE_STATE s st))"

definition exec_res_http_major :: "'d exec_env \<Rightarrow> 'd exec_st \<Rightarrow> 'd outcome" where
  "exec_res_http_major env st =
     (if \<not> IS_NUM (l_ch st) then FAIL HPE_INVALID_VERSION st
      else Next (UPDATE_STATE s_res_http_dot
                  (upd_parser (\<lambda>P. P\<lparr>http_major := digit (l_ch st)\<rparr>) st)))"

definition exec_res_http_dot :: "'d exec_env \<Rightarrow> 'd exec_st \<Rightarrow> 'd outcome" where
  "exec_res_http_dot env st =
     (if l_ch st \<noteq> CHR ''.'' then FAIL HPE_INVALID_VERSION st
      else Next (UPDATE_STATE s_res_http_minor st))"

definition exec_res_http_minor :: "'d exec_env \<Rightarrow> 'd exec_st \<Rightarrow> 'd outcome" where
  "exec_res_http_minor env st =
     (if \<not> IS_NUM (l_ch st) then FAIL HPE_INVALID_VERSION st
      else Next (UPDATE_STATE s_res_http_end
                  (upd_parser (\<lambda>P. P\<lparr>http_minor := digit (l_ch st)\<rparr>) st)))"

definition exec_res_http_end :: "'d exec_env \<Rightarrow> 'd exec_st \<Rightarrow> 'd outcome" where
  "exec_res_http_end env st =
     (if l_ch st \<noteq> CHR '' '' then FAIL HPE_INVALID_VERSION st
      else Next (UPDATE_STATE s_res_first_status_code st))"

definition exec_res_first_status_code :: "'d exec_env \<Rightarrow> 'd exec_st \<Rightarrow> 'd outcome" where
  "exec_res_first_status_code env st =
     (if \<not> IS_NUM (l_ch st)
      then if l_ch st = CHR '' '' then Next st else FAIL HPE_INVALID_STATUS st
      else Next (UPDATE_STATE s_res_status_code
                  (upd_parser (\<lambda>P. P\<lparr>status_code := digit (l_ch st)\<rparr>) st)))"

definition exec_res_status_code :: "'d exec_env \<Rightarrow> 'd exec_st \<Rightarrow> 'd outcome" where
  "exec_res_status_code env st =
     (if \<not> IS_NUM (l_ch st)
      then if l_ch st = CHR '' '' then Next (UPDATE_STATE s_res_status_start st)
           else if l_ch st = CR \<or> l_ch st = LF then Reexecute (UPDATE_STATE s_res_status_start st)
           else FAIL HPE_INVALID_STATUS st
      else
        let st = upd_parser (\<lambda>P. P\<lparr>status_code := status_code P * 10 + digit (l_ch st)\<rparr>) st
        in if status_code (parser st) > 999 then FAIL HPE_INVALID_STATUS st else Next st)"

definition exec_res_status_start :: "'d exec_env \<Rightarrow> 'd exec_st \<Rightarrow> 'd outcome" where
  "exec_res_status_start env st =
     (let st = upd_parser (\<lambda>P. P\<lparr>index := 0\<rparr>) (UPDATE_STATE s_res_status (MARK M_status st))
      in if l_ch st = CR \<or> l_ch st = LF then Reexecute st else Next st)"

definition exec_res_status :: "'d exec_env \<Rightarrow> 'd exec_st \<Rightarrow> 'd outcome" where
  "exec_res_status env st =
     (if l_ch st = CR
      then CALLBACK_DATA env M_status (UPDATE_STATE s_res_line_almost_done st) Next
      else if l_ch st = LF
      then CALLBACK_DATA env M_status (UPDATE_STATE s_header_field_start st) Next
      else Next st)"

section \<open>Request line\<close>

definition first_method :: "char \<Rightarrow> http_method option" where
  "first_method c = map_of
     [(CHR ''A'', HTTP_ACL), (CHR ''B'', HTTP_BIND), (CHR ''C'', HTTP_CONNECT),
      (CHR ''D'', HTTP_DELETE), (CHR ''G'', HTTP_GET), (CHR ''H'', HTTP_HEAD),
      (CHR ''L'', HTTP_LOCK), (CHR ''M'', HTTP_MKCOL), (CHR ''N'', HTTP_NOTIFY),
      (CHR ''O'', HTTP_OPTIONS), (CHR ''P'', HTTP_POST), (CHR ''R'', HTTP_REPORT),
      (CHR ''S'', HTTP_SUBSCRIBE), (CHR ''T'', HTTP_TRACE), (CHR ''U'', HTTP_UNLOCK)] c"

definition exec_start_req :: "'d exec_env \<Rightarrow> 'd exec_st \<Rightarrow> 'd outcome" where
  "exec_start_req env st =
     (if l_ch st = CR \<or> l_ch st = LF then Next st
      else
        let st = reset_message st in
        if \<not> IS_ALPHA (l_ch st) then FAIL HPE_INVALID_METHOD st
        else
          let st = upd_parser (\<lambda>P. P\<lparr>req_method := HTTP_DELETE, index := 1\<rparr>) st in
          (case first_method (l_ch st) of
             None \<Rightarrow> FAIL HPE_INVALID_METHOD st
           | Some m \<Rightarrow>
               CALLBACK_NOTIFY (on_message_begin (e_settings env)) HPE_CB_message_begin
                 (UPDATE_STATE s_req_method (upd_parser (\<lambda>P. P\<lparr>req_method := m\<rparr>) st)) Next))"

text \<open>The table of the inner \<open>switch\<close>: method so far, position, character, new method.\<close>

definition method_switch :: "http_method \<Rightarrow> nat \<Rightarrow> char \<Rightarrow> http_method option" where
  "method_switch m i c = map_of
     [((HTTP_POST,      1, CHR ''U''), HTTP_PUT),
      ((HTTP_POST,      1, CHR ''A''), HTTP_PATCH),
      ((HTTP_POST,      1, CHR ''R''), HTTP_PROPFIND),
      ((HTTP_PUT,       2, CHR ''R''), HTTP_PURGE),
      ((HTTP_CONNECT,   1, CHR ''H''), HTTP_CHECKOUT),
      ((HTTP_CONNECT,   2, CHR ''P''), HTTP_COPY),
      ((HTTP_MKCOL,     1, CHR ''O''), HTTP_MOVE),
      ((HTTP_MKCOL,     1, CHR ''E''), HTTP_MERGE),
      ((HTTP_MKCOL,     1, CHR ''-''), HTTP_MSEARCH),
      ((HTTP_MKCOL,     2, CHR ''A''), HTTP_MKACTIVITY),
      ((HTTP_MKCOL,     3, CHR ''A''), HTTP_MKCALENDAR),
      ((HTTP_SUBSCRIBE, 1, CHR ''E''), HTTP_SEARCH),
      ((HTTP_SUBSCRIBE, 1, CHR ''O''), HTTP_SOURCE),
      ((HTTP_REPORT,    2, CHR ''B''), HTTP_REBIND),
      ((HTTP_PROPFIND,  4, CHR ''P''), HTTP_PROPPATCH),
      ((HTTP_LOCK,      1, CHR ''I''), HTTP_LINK),
      ((HTTP_UNLOCK,    2, CHR ''S''), HTTP_UNSUBSCRIBE),
      ((HTTP_UNLOCK,    2, CHR ''B''), HTTP_UNBIND),
      ((HTTP_UNLOCK,    3, CHR ''I''), HTTP_UNLINK)] (m, i, c)"

definition bump_index :: "'d exec_st \<Rightarrow> 'd exec_st" where
  "bump_index st = upd_parser (\<lambda>P. P\<lparr>index := index P + 1\<rparr>) st"

definition exec_req_method :: "'d exec_env \<Rightarrow> 'd exec_st \<Rightarrow> 'd outcome" where
  "exec_req_method env st =
     (let ch = l_ch st;
          matcher = method_matcher (req_method (parser st));
          i = unat (index (parser st))
      in if ch = NUL then FAIL HPE_INVALID_METHOD st
         else if i > length matcher then Abort
         else if ch = CHR '' '' \<and> cstr_at matcher i = NUL
         then Next (bump_index (UPDATE_STATE s_req_spaces_before_url st))
         else if ch = cstr_at matcher i then Next (bump_index st)
         else if (CHR ''A'' \<le> ch \<and> ch \<le> CHR ''Z'') \<or> ch = CHR ''-''
         then (case method_switch (req_method (parser st)) i ch of
                 None \<Rightarrow> FAIL HPE_INVALID_METHOD st
               | Some m \<Rightarrow> Next (bump_index (upd_parser (\<lambda>P. P\<lparr>req_method := m\<rparr>) st)))
         else FAIL HPE_INVALID_METHOD st)"

text \<open>\<open>UPDATE_STATE(parse_url_char(CURRENT_STATE(), ch))\<close> and the check for \<open>s_dead\<close>.\<close>

definition step_url :: "'d exec_st \<Rightarrow> 'd outcome" where
  "step_url st =
     (let st = UPDATE_STATE (parse_url_char (l_state st) (l_ch st)) st
      in if l_state st = s_dead then FAIL HPE_INVALID_URL st else Next st)"

definition exec_req_spaces_before_url :: "'d exec_env \<Rightarrow> 'd exec_st \<Rightarrow> 'd outcome" where
  "exec_req_spaces_before_url env st =
     (if l_ch st = CHR '' '' then Next st
      else
        let st = MARK M_url st in
        step_url (if req_method (parser st) = HTTP_CONNECT then UPDATE_STATE s_req_server_start st else st))"

definition exec_req_schema :: "'d exec_env \<Rightarrow> 'd exec_st \<Rightarrow> 'd outcome" where
  "exec_req_schema env st =
     (if l_ch st = CHR '' '' \<or> l_ch st = CR \<or> l_ch st = LF then FAIL HPE_INVALID_URL st
      else step_url st)"

definition exec_req_url :: "'d exec_env \<Rightarrow> 'd exec_st \<Rightarrow> 'd outcome" where
  "exec_req_url env st =
     (if l_ch st = CHR '' '' then CALLBACK_DATA env M_url (UPDATE_STATE s_req_http_start st) Next
      else if l_ch st = CR \<or> l_ch st = LF
      then CALLBACK_DATA env M_url
             (UPDATE_STATE (if l_ch st = CR then s_req_line_almost_done else s_header_field_start)
               (upd_parser (\<lambda>P. P\<lparr>http_major := 0, http_minor := 9\<rparr>) st)) Next
      else step_url st)"

definition exec_req_http_start :: "'d exec_env \<Rightarrow> 'd exec_st \<Rightarrow> 'd outcome" where
  "exec_req_http_start env st =
     (if l_ch st = CHR '' '' then Next st
      else if l_ch st = CHR ''H'' then Next (UPDATE_STATE s_req_http_H st)
      else if l_ch st = CHR ''I'' \<and> req_method (parser st) = HTTP_SOURCE
      then Next (UPDATE_STATE s_req_http_I st)
      else FAIL HPE_INVALID_CONSTANT st)"

definition exec_req_http_major :: "'d exec_env \<Rightarrow> 'd exec_st \<Rightarrow> 'd outcome" where
  "exec_req_http_major env st =
     (if \<not> IS_NUM (l_ch st) then FAIL HPE_INVALID_VERSION st
      else Next (UPDATE_STATE s_req_http_dot
                  (upd_parser (\<lambda>P. P\<lparr>http_major := digit (l_ch st)\<rparr>) st)))"

definition exec_req_http_dot :: "'d exec_env \<Rightarrow> 'd exec_st \<Rightarrow> 'd outcome" where
  "exec_req_http_dot env st =
     (if l_ch st \<noteq> CHR ''.'' then FAIL HPE_INVALID_VERSION st
      else Next (UPDATE_STATE s_req_http_minor st))"

definition exec_req_http_minor :: "'d exec_env \<Rightarrow> 'd exec_st \<Rightarrow> 'd outcome" where
  "exec_req_http_minor env st =
     (if \<not> IS_NUM (l_ch st) then FAIL HPE_INVALID_VERSION st
      else Next (UPDATE_STATE s_req_http_end
                  (upd_parser (\<lambda>P. P\<lparr>http_minor := digit (l_ch st)\<rparr>) st)))"

definition exec_req_http_end :: "'d exec_env \<Rightarrow> 'd exec_st \<Rightarrow> 'd outcome" where
  "exec_req_http_end env st =
     (if l_ch st = CR then Next (UPDATE_STATE s_req_line_almost_done st)
      else if l_ch st = LF then Next (UPDATE_STATE s_header_field_start st)
      else FAIL HPE_INVALID_VERSION st)"

definition exec_req_line_almost_done :: "'d exec_env \<Rightarrow> 'd exec_st \<Rightarrow> 'd outcome" where
  "exec_req_line_almost_done env st =
     (if l_ch st \<noteq> LF then FAIL HPE_LF_EXPECTED st
      else Next (UPDATE_STATE s_header_field_start st))"

section \<open>Header names\<close>

definition set_header_state :: "header_states \<Rightarrow> 'd exec_st \<Rightarrow> 'd exec_st" where
  "set_header_state h st = upd_parser (\<lambda>P. P\<lparr>header_state := h\<rparr>) st"

definition exec_header_field_start :: "'d exec_env \<Rightarrow> 'd exec_st \<Rightarrow> 'd outcome" where
  "exec_header_field_start env st =
     (if l_ch st = CR then Next (UPDATE_STATE s_headers_almost_done st)
      else if l_ch st = LF then Reexecute (UPDATE_STATE s_headers_almost_done st)
      else
        let c = TOKEN (l_ch st) in
        if c = NUL then FAIL HPE_INVALID_HEADER_TOKEN st
        else
          let st = UPDATE_STATE s_header_field
                     (upd_parser (\<lambda>P. P\<lparr>index := 0\<rparr>) (MARK M_header_field st))
          in Next (set_header_state
                (if c = CHR ''c'' then h_C
                 else if c = CHR ''p'' then h_matching_proxy_connection
                 else if c = CHR ''t'' then h_matching_transfer_encoding
                 else if c = CHR ''u'' then h_matching_upgrade
                 else h_general) st))"

text \<open>
  The matching cases: \<open>parser->index++\<close>, then \<open>index > sizeof(NAME)-1 || c != NAME[index]\<close>
  gives \<open>miss\<close>, \<open>index == sizeof(NAME)-2\<close> gives \<open>hit\<close>, otherwise the state stays. The result
  is the new index and the new header state; \<open>sizeof(NAME) - 1\<close> is \<open>length name\<close>.
\<close>

definition match_name ::
  "string \<Rightarrow> header_states \<Rightarrow> header_states \<Rightarrow> header_states \<Rightarrow> char \<Rightarrow> 7 word \<Rightarrow> 7 word \<times> header_states" where
  "match_name name miss hit stay c idx =
     (let i = idx + 1 in
      (i, if unat i > length name \<or> c \<noteq> cstr_at name (unat i) then miss
          else if unat i = length name - 1 then hit else stay))"

text \<open>One pass of the \<open>switch (parser->header_state)\<close> other than \<open>h_general\<close>; \<open>None\<close> is the
  assertion \<open>"Unknown header_state"\<close>.\<close>

definition header_field_char :: "char \<Rightarrow> char \<Rightarrow> 7 word \<Rightarrow> header_states \<Rightarrow> (7 word \<times> header_states) option" where
  "header_field_char ch c idx h =
     (case h of
        h_C \<Rightarrow> Some (idx + 1, if c = CHR ''o'' then h_CO else h_general)
      | h_CO \<Rightarrow> Some (idx + 1, if c = CHR ''n'' then h_CON else h_general)
      | h_CON \<Rightarrow> Some (idx + 1, if c = CHR ''n'' then h_matching_connection
                       else if c = CHR ''t'' then h_matching_content_length else h_general)
      | h_matching_connection \<Rightarrow>
          Some (match_name ''connection'' h_general h_connection h c idx)
      | h_matching_proxy_connection \<Rightarrow>
          Some (match_name ''proxy-connection'' h_general h_connection h c idx)
      | h_matching_content_length \<Rightarrow>
          Some (match_name ''content-length'' h_general h_content_length h c idx)
      | h_matching_transfer_encoding \<Rightarrow>
          Some (match_name ''transfer-encoding'' h_general h_transfer_encoding h c idx)
      | h_matching_upgrade \<Rightarrow>
          Some (match_name ''upgrade'' h_general h_upgrade h c idx)
      | h_connection \<Rightarrow> Some (idx, if ch \<noteq> CHR '' '' then h_general else h)
      | h_content_length \<Rightarrow> Some (idx, if ch \<noteq> CHR '' '' then h_general else h)
      | h_transfer_encoding \<Rightarrow> Some (idx, if ch \<noteq> CHR '' '' then h_general else h)
      | h_upgrade \<Rightarrow> Some (idx, if ch \<noteq> CHR '' '' then h_general else h)
      | _ \<Rightarrow> None)"

text \<open>\<open>while (p+1 < pe && TOKEN(p[1])) p++\<close>.\<close>

function skip_token :: "string \<Rightarrow> nat \<Rightarrow> nat \<Rightarrow> nat" where
  "skip_token dat pe p =
     (if p + 1 < pe \<and> TOKEN (dat ! (p + 1)) \<noteq> NUL then skip_token dat pe (p + 1) else p)"
  by pat_completeness auto
termination
  by (relation "measure (\<lambda>(dat, pe, p). pe - p)") auto

declare skip_token.simps [simp del]

lemma skip_token_ge: "p \<le> skip_token dat pe p"
  by (induction dat pe p rule: skip_token.induct) (subst skip_token.simps, auto)

lemma skip_token_less: "p < n \<Longrightarrow> pe \<le> n \<Longrightarrow> skip_token dat pe p < n"
  by (induction dat pe p rule: skip_token.induct) (subst skip_token.simps, auto)

text \<open>
  The \<open>for\<close> loop of \<open>s_header_field\<close>: from \<open>p\<close>, the last character read, the index and the
  header state, to the values after the loop; \<open>None\<close> is the failed assertion.
\<close>

function header_field_loop ::
  "string \<Rightarrow> nat \<Rightarrow> nat \<Rightarrow> char \<Rightarrow> 7 word \<Rightarrow> header_states \<Rightarrow> (nat \<times> char \<times> 7 word \<times> header_states) option" where
  "header_field_loop dat mx p ch0 idx h =
     (if p < length dat
      then let ch = dat ! p; c = TOKEN ch in
           if c = NUL then Some (p, ch, idx, h)
           else if h = h_general
           then header_field_loop dat mx
                  (skip_token dat (p + min (length dat - p) mx) p + 1) ch idx h
           else (case header_field_char ch c idx h of
                   None \<Rightarrow> None
                 | Some (idx', h') \<Rightarrow> header_field_loop dat mx (p + 1) ch idx' h')
      else Some (p, ch0, idx, h))"
  by pat_completeness auto
termination
proof (relation "measure (\<lambda>(dat, mx, p, ch0, idx, h). length dat - p)", goal_cases)
  case (2 dat mx p ch0 idx h x xa)
  have "p \<le> skip_token dat (p + min (length dat - p) mx) p"
    by (rule skip_token_ge)
  with 2 show ?case by simp
qed auto

declare header_field_loop.simps [simp del]

definition exec_header_field :: "'d exec_env \<Rightarrow> 'd exec_st \<Rightarrow> 'd outcome" where
  "exec_header_field env st =
     (let start = l_p st in
      case header_field_loop (e_data env) (unat (e_max_header_size env)) start (l_ch st)
             (index (parser st)) (header_state (parser st)) of
        None \<Rightarrow> Abort
      | Some (p, ch, idx, h) \<Rightarrow>
          (let st = upd_parser (\<lambda>P. P\<lparr>index := idx, header_state := h\<rparr>) (st\<lparr>l_p := p, l_ch := ch\<rparr>) in
           if p = e_len env
           then COUNT_HEADER_SIZE env (p - 1 - start) (st\<lparr>l_p := p - 1\<rparr>) Next
           else COUNT_HEADER_SIZE env (p - start) st
                  (\<lambda>st. if l_ch st = CHR '':''
                        then CALLBACK_DATA env M_header_field
                               (UPDATE_STATE s_header_value_discard_ws st) Next
                        else FAIL HPE_INVALID_HEADER_TOKEN st)))"

section \<open>Header values\<close>

definition exec_header_value_start :: "'d exec_env \<Rightarrow> 'd exec_st \<Rightarrow> 'd outcome" where
  "exec_header_value_start env st =
     (let st = upd_parser (\<lambda>P. P\<lparr>index := 0\<rparr>) (UPDATE_STATE s_header_value (MARK M_header_value st));
          c = LOWER (l_ch st)
      in case header_state (parser st) of
           h_upgrade \<Rightarrow> Next (set_header_state h_general (upd_parser (set_flag F_UPGRADE) st))
         | h_transfer_encoding \<Rightarrow>
             Next (set_header_state
               (if c = CHR ''c'' then h_matching_transfer_encoding_chunked else h_general) st)
         | h_content_length \<Rightarrow>
             (if \<not> IS_NUM (l_ch st) then FAIL HPE_INVALID_CONTENT_LENGTH st
              else if has_flag (parser st) F_CONTENTLENGTH then FAIL HPE_UNEXPECTED_CONTENT_LENGTH st
              else Next (upd_parser
                     (\<lambda>P. (set_flag F_CONTENTLENGTH P)\<lparr>content_length := digit (l_ch st),
                                                        header_state := h_content_length_num\<rparr>) st))
         | h_content_length_ws \<Rightarrow> Next st
         | h_connection \<Rightarrow>
             Next (set_header_state
               (if c = CHR ''k'' then h_matching_connection_keep_alive
                else if c = CHR ''c'' then h_matching_connection_close
                else if c = CHR ''u'' then h_matching_connection_upgrade
                else h_matching_connection_token) st)
         | h_matching_connection_token_start \<Rightarrow> Next st
         | _ \<Rightarrow> Next (set_header_state h_general st))"

definition exec_header_value_discard_ws :: "'d exec_env \<Rightarrow> 'd exec_st \<Rightarrow> 'd outcome" where
  "exec_header_value_discard_ws env st =
     (if l_ch st = CHR '' '' \<or> l_ch st = HT then Next st
      else if l_ch st = CR then Next (UPDATE_STATE s_header_value_discard_ws_almost_done st)
      else if l_ch st = LF then Next (UPDATE_STATE s_header_value_discard_lws st)
      else exec_header_value_start env st)"

text \<open>
  The fast loop under \<open>case h_general\<close>: \<open>for (; p != pe; p++)\<close>, stopping one before a line
  end. The result is \<open>p\<close>, the last character read, and whether every character was accepted
  (a rejected one is \<open>goto error\<close> at that \<open>p\<close>).
\<close>

function header_value_skip :: "bool \<Rightarrow> string \<Rightarrow> nat \<Rightarrow> nat \<Rightarrow> char \<Rightarrow> nat \<times> char \<times> bool" where
  "header_value_skip lenient dat pe p ch0 =
     (if p < pe
      then let ch = dat ! p in
           if ch = CR \<or> ch = LF then (p - 1, ch, True)
           else if \<not> lenient \<and> \<not> IS_HEADER_CHAR ch then (p, ch, False)
           else header_value_skip lenient dat pe (p + 1) ch
      else (p, ch0, True))"
  by pat_completeness auto
termination
  by (relation "measure (\<lambda>(lenient, dat, pe, p, ch0). pe - p)") auto

declare header_value_skip.simps [simp del]

text \<open>
  One pass of \<open>switch (h_state)\<close> on the local \<open>h_state\<close>: continue with a new state, an error
  (with \<open>parser->header_state = h_state\<close> stored, or not), or the assertion
  \<open>"Shouldn't get here."\<close>.
\<close>

datatype 'd hv_step =
    HV_go "'d exec_st" header_states
  | HV_error http_errno "'d exec_st"
  | HV_assert

definition hv_match ::
  "string \<Rightarrow> header_states \<Rightarrow> header_states \<Rightarrow> header_states \<Rightarrow> char \<Rightarrow> 'd exec_st \<Rightarrow> 'd hv_step" where
  "hv_match name miss hit stay c st =
     (case match_name name miss hit stay c (index (parser st)) of
        (i, h) \<Rightarrow> HV_go (upd_parser (\<lambda>P. P\<lparr>index := i\<rparr>) st) h)"

definition hv_general :: "'d exec_env \<Rightarrow> 'd exec_st \<Rightarrow> 'd hv_step" where
  "hv_general env st =
     (let p = l_p st in
      case header_value_skip (e_lenient env) (e_data env)
             (p + min (e_len env - p) (unat (e_max_header_size env))) p (l_ch st) of
        (q, ch, True) \<Rightarrow>
          HV_go (st\<lparr>l_p := (if q = e_len env then q - 1 else q), l_ch := ch\<rparr>) h_general
      | (q, ch, False) \<Rightarrow> HV_error HPE_INVALID_HEADER_TOKEN (st\<lparr>l_p := q, l_ch := ch\<rparr>))"

definition hv_content_length_num :: "'d exec_st \<Rightarrow> 'd hv_step" where
  "hv_content_length_num st =
     (let ch = l_ch st; cl = content_length (parser st) in
      if ch = CHR '' '' then HV_go st h_content_length_ws
      else if \<not> IS_NUM ch
      then HV_error HPE_INVALID_CONTENT_LENGTH (set_header_state h_content_length_num st)
      else if (ULLONG_MAX - 10) div 10 < cl
      then HV_error HPE_INVALID_CONTENT_LENGTH (set_header_state h_content_length_num st)
      else HV_go (upd_parser (\<lambda>P. P\<lparr>content_length := cl * 10 + digit ch\<rparr>) st) h_content_length_num)"

definition hv_connection_token_start :: "'d exec_st \<Rightarrow> 'd hv_step" where
  "hv_connection_token_start st =
     (let c = LOWER (l_ch st) in
      HV_go st
        (if c = CHR ''k'' then h_matching_connection_keep_alive
         else if c = CHR ''c'' then h_matching_connection_close
         else if c = CHR ''u'' then h_matching_connection_upgrade
         else if STRICT_TOKEN c \<noteq> NUL then h_matching_connection_token
         else if c = CHR '' '' \<or> c = HT then h_matching_connection_token_start
         else h_general))"

definition hv_connection_done :: "u8 \<Rightarrow> header_states \<Rightarrow> 'd exec_st \<Rightarrow> 'd hv_step" where
  "hv_connection_done flag h st =
     (if l_ch st = CHR '',''
      then HV_go (upd_parser (\<lambda>P. (set_flag flag P)\<lparr>index := 0\<rparr>) st) h_matching_connection_token_start
      else if l_ch st \<noteq> CHR '' '' then HV_go st h_matching_connection_token
      else HV_go st h)"

definition header_value_char :: "'d exec_env \<Rightarrow> 'd exec_st \<Rightarrow> header_states \<Rightarrow> 'd hv_step" where
  "header_value_char env st h =
     (let ch = l_ch st; c = LOWER ch in
      case h of
        h_general \<Rightarrow> hv_general env st
      | h_connection \<Rightarrow> HV_assert
      | h_transfer_encoding \<Rightarrow> HV_assert
      | h_content_length \<Rightarrow> if ch = CHR '' '' then HV_go st h else hv_content_length_num st
      | h_content_length_num \<Rightarrow> hv_content_length_num st
      | h_content_length_ws \<Rightarrow>
          if ch = CHR '' '' then HV_go st h
          else HV_error HPE_INVALID_CONTENT_LENGTH (set_header_state h st)
      | h_matching_transfer_encoding_chunked \<Rightarrow>
          hv_match ''chunked'' h_general h_transfer_encoding_chunked h c st
      | h_matching_connection_token_start \<Rightarrow> hv_connection_token_start st
      | h_matching_connection_keep_alive \<Rightarrow>
          hv_match ''keep-alive'' h_matching_connection_token h_connection_keep_alive h c st
      | h_matching_connection_close \<Rightarrow>
          hv_match ''close'' h_matching_connection_token h_connection_close h c st
      | h_matching_connection_upgrade \<Rightarrow>
          hv_match ''upgrade'' h_matching_connection_token h_connection_upgrade h c st
      | h_matching_connection_token \<Rightarrow>
          if ch = CHR '',''
          then HV_go (upd_parser (\<lambda>P. P\<lparr>index := 0\<rparr>) st) h_matching_connection_token_start
          else HV_go st h
      | h_transfer_encoding_chunked \<Rightarrow> HV_go st (if ch \<noteq> CHR '' '' then h_general else h)
      | h_connection_keep_alive \<Rightarrow> hv_connection_done F_CONNECTION_KEEP_ALIVE h st
      | h_connection_close \<Rightarrow> hv_connection_done F_CONNECTION_CLOSE h st
      | h_connection_upgrade \<Rightarrow> hv_connection_done F_CONNECTION_UPGRADE h st
      | _ \<Rightarrow> HV_go (UPDATE_STATE s_header_value st) h_general)"

text \<open>What follows the loop; it is also reached by the \<open>break\<close> after a carriage return.\<close>

definition header_value_finish :: "'d exec_env \<Rightarrow> nat \<Rightarrow> header_states \<Rightarrow> 'd exec_st \<Rightarrow> 'd outcome" where
  "header_value_finish env start h st =
     (let st = set_header_state h st;
          st = (if l_p st = e_len env then st\<lparr>l_p := l_p st - 1\<rparr> else st)
      in COUNT_HEADER_SIZE env (l_p st - start) st Next)"

text \<open>Progress of the loop body, which the termination proof needs.\<close>

lemma header_value_skip_ge:
  "header_value_skip lenient dat pe p ch0 = (q, ch, ok) \<Longrightarrow>
   p < pe \<longrightarrow> dat ! p \<noteq> CR \<and> dat ! p \<noteq> LF \<Longrightarrow> p \<le> q"
proof (induction lenient dat pe p ch0 arbitrary: q ch ok rule: header_value_skip.induct)
  case (1 lenient dat pe p ch0)
  show ?case
  proof (cases "p < pe \<and> (lenient \<or> IS_HEADER_CHAR (dat ! p))")
    case False
    with "1.prems" show ?thesis
      by (subst (asm) header_value_skip.simps) (auto simp: Let_def split: if_splits)
  next
    case True
    with "1.prems" have step: "header_value_skip lenient dat pe (p + 1) (dat ! p) = (q, ch, ok)"
      by (subst (asm) header_value_skip.simps) (auto simp: Let_def split: if_splits)
    show ?thesis
    proof (cases "p + 1 < pe \<and> (dat ! (p + 1) = CR \<or> dat ! (p + 1) = LF)")
      case stop: True
      with step show ?thesis
        by (subst (asm) header_value_skip.simps) (auto simp: Let_def)
    next
      case False
      with True "1.prems" step have "p + 1 \<le> q"
        by (intro "1.IH" [of "dat ! p" q ch ok]) auto
      then show ?thesis by simp
    qed
  qed
qed

lemma header_value_skip_le:
  "header_value_skip lenient dat pe p ch0 = (q, ch, ok) \<Longrightarrow> p \<le> pe \<Longrightarrow> q \<le> pe"
proof (induction lenient dat pe p ch0 arbitrary: q ch ok rule: header_value_skip.induct)
  case (1 lenient dat pe p ch0)
  show ?case
  proof (cases "p < pe \<and> dat ! p \<noteq> CR \<and> dat ! p \<noteq> LF \<and> (lenient \<or> IS_HEADER_CHAR (dat ! p))")
    case True
    with "1.prems" have "header_value_skip lenient dat pe (p + 1) (dat ! p) = (q, ch, ok)"
      by (subst (asm) header_value_skip.simps) (auto simp: Let_def)
    with True show ?thesis
      by (intro "1.IH" [of "dat ! p" q ch ok]) auto
  next
    case False
    with "1.prems" show ?thesis
      by (subst (asm) header_value_skip.simps) (auto simp: Let_def split: if_splits)
  qed
qed

lemma hv_general_go:
  assumes "hv_general env st = HV_go st' h'" and "l_p st < e_len env"
    and "e_data env ! l_p st \<noteq> CR" and "e_data env ! l_p st \<noteq> LF"
  shows "\<exists>q c. st' = st\<lparr>l_p := q, l_ch := c\<rparr> \<and> h' = h_general \<and> l_p st \<le> q \<and> q < e_len env"
proof -
  obtain q c ok where skip: "header_value_skip (e_lenient env) (e_data env)
      (l_p st + min (e_len env - l_p st) (unat (e_max_header_size env))) (l_p st) (l_ch st) = (q, c, ok)"
    by (metis prod_cases3)
  with assms(1) have ok: "ok"
    by (cases ok) (simp_all add: hv_general_def Let_def)
  have "l_p st \<le> q" and "q \<le> e_len env"
    using header_value_skip_ge [OF skip] header_value_skip_le [OF skip] assms(2-4) by auto
  define q' where "q' = (if q = e_len env then q - 1 else q)"
  have "st' = st\<lparr>l_p := q', l_ch := c\<rparr>" and "h' = h_general"
    using assms(1) skip ok by (simp_all add: hv_general_def Let_def q'_def)
  moreover have "l_p st \<le> q'" and "q' < e_len env"
    using \<open>l_p st \<le> q\<close> \<open>q \<le> e_len env\<close> assms(2) by (auto simp: q'_def)
  ultimately show ?thesis by blast
qed

lemmas hv_step_defs =
  header_value_char_def hv_match_def hv_content_length_num_def hv_connection_token_start_def
  hv_connection_done_def match_name_def upd_parser_def UPDATE_STATE_def set_header_state_def

lemma header_value_char_p:
  assumes "header_value_char env st h = HV_go st' h'" and "h \<noteq> h_general"
  shows "l_p st' = l_p st \<and> l_ch st' = l_ch st \<and> l_marks st' = l_marks st \<and> l_nread st' = l_nread st"
  using assms by (cases h) (auto simp: hv_step_defs Let_def split: if_splits)

lemma header_value_char_progress:
  assumes "header_value_char env st h = HV_go st' h'" and "l_p st < e_len env"
    and "e_data env ! l_p st \<noteq> CR" and "e_data env ! l_p st \<noteq> LF"
  shows "l_p st \<le> l_p st' \<and> l_p st' < e_len env \<and> l_marks st' = l_marks st \<and> l_nread st' = l_nread st"
proof (cases "h = h_general")
  case True
  with assms(1) have "hv_general env st = HV_go st' h'"
    by (simp add: header_value_char_def)
  from hv_general_go [OF this assms(2-4)] show ?thesis by auto
next
  case False
  with header_value_char_p [OF assms(1)] assms(2) show ?thesis by simp
qed

function header_value_loop ::
  "'d exec_env \<Rightarrow> nat \<Rightarrow> header_states \<Rightarrow> 'd exec_st \<Rightarrow> 'd outcome" where
  "header_value_loop env start h st0 =
     (if l_p st0 < e_len env
      then let st = st0\<lparr>l_ch := e_data env ! l_p st0\<rparr>; ch = l_ch st in
           if ch = CR
           then CALLBACK_DATA env M_header_value
                  (set_header_state h (UPDATE_STATE s_header_almost_done st))
                  (header_value_finish env start h)
           else if ch = LF
           then COUNT_HEADER_SIZE env (l_p st - start) (UPDATE_STATE s_header_almost_done st)
                  (\<lambda>st. CALLBACK_DATA_NOADVANCE env M_header_value (set_header_state h st) Reexecute)
           else if \<not> e_lenient env \<and> \<not> IS_HEADER_CHAR ch then FAIL HPE_INVALID_HEADER_TOKEN st
           else (case header_value_char env st h of
                   HV_go st' h' \<Rightarrow> header_value_loop env start h' (st'\<lparr>l_p := l_p st' + 1\<rparr>)
                 | HV_error e st' \<Rightarrow> FAIL e st'
                 | HV_assert \<Rightarrow> Abort)
      else header_value_finish env start h st0)"
  by pat_completeness auto
termination
proof (relation "measure (\<lambda>(env, start, h, st). e_len env - l_p st)", goal_cases)
  case 1
  show ?case by simp
next
  case (2 env start h st0 st ch st' h')
  then have "header_value_char env st h = HV_go st' h'" "l_p st < e_len env"
    "e_data env ! l_p st \<noteq> CR" "e_data env ! l_p st \<noteq> LF" "l_p st = l_p st0"
    by auto
  with header_value_char_progress [of env st h st' h'] show ?case by auto
qed

declare header_value_loop.simps [simp del]

definition exec_header_value :: "'d exec_env \<Rightarrow> 'd exec_st \<Rightarrow> 'd outcome" where
  "exec_header_value env st = header_value_loop env (l_p st) (header_state (parser st)) st"

definition exec_header_almost_done :: "'d exec_env \<Rightarrow> 'd exec_st \<Rightarrow> 'd outcome" where
  "exec_header_almost_done env st =
     (if l_ch st \<noteq> LF then FAIL HPE_LF_EXPECTED st else Next (UPDATE_STATE s_header_value_lws st))"

text \<open>The flag a finished header sets (the same four cases in two places of the source).\<close>

definition finish_header :: "'d http_parser \<Rightarrow> 'd http_parser" where
  "finish_header P =
     (case header_state P of
        h_connection_keep_alive \<Rightarrow> set_flag F_CONNECTION_KEEP_ALIVE P
      | h_connection_close \<Rightarrow> set_flag F_CONNECTION_CLOSE P
      | h_transfer_encoding_chunked \<Rightarrow> set_flag F_CHUNKED P
      | h_connection_upgrade \<Rightarrow> set_flag F_CONNECTION_UPGRADE P
      | _ \<Rightarrow> P)"

definition exec_header_value_lws :: "'d exec_env \<Rightarrow> 'd exec_st \<Rightarrow> 'd outcome" where
  "exec_header_value_lws env st =
     (if l_ch st = CHR '' '' \<or> l_ch st = HT
      then Reexecute (UPDATE_STATE s_header_value_start
             (if header_state (parser st) = h_content_length_num
              then set_header_state h_content_length_ws st else st))
      else Reexecute (UPDATE_STATE s_header_field_start (upd_parser finish_header st)))"

definition exec_header_value_discard_lws :: "'d exec_env \<Rightarrow> 'd exec_st \<Rightarrow> 'd outcome" where
  "exec_header_value_discard_lws env st =
     (if l_ch st = CHR '' '' \<or> l_ch st = HT then Next (UPDATE_STATE s_header_value_discard_ws st)
      else if header_state (parser st) = h_content_length then FAIL HPE_INVALID_CONTENT_LENGTH st
      else CALLBACK_DATA_NOADVANCE env M_header_value
             (UPDATE_STATE s_header_field_start (MARK M_header_value (upd_parser finish_header st)))
             Reexecute)"

section \<open>End of the headers\<close>

definition set_upgrade :: "'d http_parser \<Rightarrow> 'd http_parser" where
  "set_upgrade P =
     P\<lparr>upgrade :=
        (if has_flag P F_UPGRADE \<and> has_flag P F_CONNECTION_UPGRADE
         then parser_type P = HTTP_REQUEST \<or> status_code P = 101
         else req_method P = HTTP_CONNECT)\<rparr>"

text \<open>The special treatment of the result of \<open>on_headers_complete\<close>; the state is not stored before it.\<close>

definition headers_complete :: "'d exec_env \<Rightarrow> 'd exec_st \<Rightarrow> 'd outcome" where
  "headers_complete env st =
     (let check = (\<lambda>st. if http_errno (parser st) \<noteq> HPE_OK then RETURN (l_p st) st else Reexecute st)
      in case on_headers_complete (e_settings env) of
           None \<Rightarrow> check st
         | Some f \<Rightarrow>
             (case f (parser st) of
                (r, P) \<Rightarrow>
                  let st = st\<lparr>parser := P\<rparr> in
                  if r = 0 then check st
                  else if r = 2 then check (upd_parser (\<lambda>P. set_flag F_SKIPBODY (P\<lparr>upgrade := True\<rparr>)) st)
                  else if r = 1 then check (upd_parser (set_flag F_SKIPBODY) st)
                  else RETURN (l_p st) (SET_ERRNO HPE_CB_headers_complete st)))"

definition exec_headers_almost_done :: "'d exec_env \<Rightarrow> 'd exec_st \<Rightarrow> 'd outcome" where
  "exec_headers_almost_done env st =
     STRICT_CHECK (l_ch st \<noteq> LF) st
       (\<lambda>st. if has_flag (parser st) F_TRAILING
             then CALLBACK_NOTIFY_NOADVANCE (on_chunk_complete (e_settings env)) HPE_CB_chunk_complete
                    (UPDATE_STATE s_message_done st) Reexecute
             else if has_flag (parser st) F_CHUNKED \<and> has_flag (parser st) F_CONTENTLENGTH
             then FAIL HPE_UNEXPECTED_CONTENT_LENGTH st
             else headers_complete env (upd_parser set_upgrade (UPDATE_STATE s_headers_done st)))"

definition complete_message :: "'d exec_env \<Rightarrow> 'd exec_st \<Rightarrow> ('d exec_st \<Rightarrow> 'd outcome) \<Rightarrow> 'd outcome" where
  "complete_message env st k =
     CALLBACK_NOTIFY (on_message_complete (e_settings env)) HPE_CB_message_complete
       (UPDATE_STATE (NEW_MESSAGE (parser st)) st) k"

definition reset_nread :: "'d exec_st \<Rightarrow> 'd exec_st" where
  "reset_nread st = upd_parser (\<lambda>P. P\<lparr>nread := 0\<rparr>) (st\<lparr>l_nread := 0\<rparr>)"

definition exec_headers_done :: "'d exec_env \<Rightarrow> 'd exec_st \<Rightarrow> 'd outcome" where
  "exec_headers_done env st =
     STRICT_CHECK (l_ch st \<noteq> LF) st
       (\<lambda>st. let st = reset_nread st; P = parser st;
                 hasBody = (has_flag P F_CHUNKED \<or> (content_length P > 0 \<and> content_length P \<noteq> ULLONG_MAX))
             in if upgrade P \<and> (req_method P = HTTP_CONNECT \<or> has_flag P F_SKIPBODY \<or> \<not> hasBody)
                then complete_message env st (\<lambda>st. RETURN (l_p st + 1) st)
                else if has_flag P F_SKIPBODY then complete_message env st Next
                else if has_flag P F_CHUNKED then Next (UPDATE_STATE s_chunk_size_start st)
                else if content_length P = 0 then complete_message env st Next
                else if content_length P \<noteq> ULLONG_MAX then Next (UPDATE_STATE s_body_identity st)
                else if \<not> http_message_needs_eof P then complete_message env st Next
                else Next (UPDATE_STATE s_body_identity_eof st))"

section \<open>Bodies\<close>

definition to_read :: "'d exec_env \<Rightarrow> 'd exec_st \<Rightarrow> u64" where
  "to_read env st = min (content_length (parser st)) (of_nat (e_len env - l_p st))"

text \<open>\<open>MARK(body); parser->content_length -= to_read; p += to_read - 1;\<close>\<close>

definition consume_body :: "'d exec_env \<Rightarrow> 'd exec_st \<Rightarrow> 'd exec_st" where
  "consume_body env st =
     (let n = to_read env st;
          st = upd_parser (\<lambda>P. P\<lparr>content_length := content_length P - n\<rparr>) (MARK M_body st)
      in st\<lparr>l_p := l_p st + unat n - 1\<rparr>)"

definition exec_body_identity :: "'d exec_env \<Rightarrow> 'd exec_st \<Rightarrow> 'd outcome" where
  "exec_body_identity env st =
     ASSERT (content_length (parser st) \<noteq> 0 \<and> content_length (parser st) \<noteq> ULLONG_MAX)
       (let st = consume_body env st in
        if content_length (parser st) = 0
        then CALLBACK_DATA_er env M_body (l_p st + 1) (l_p st) (UPDATE_STATE s_message_done st) Reexecute
        else Next st)"

definition exec_body_identity_eof :: "'d exec_env \<Rightarrow> 'd exec_st \<Rightarrow> 'd outcome" where
  "exec_body_identity_eof env st = Next ((MARK M_body st)\<lparr>l_p := e_len env - 1\<rparr>)"

definition exec_message_done :: "'d exec_env \<Rightarrow> 'd exec_st \<Rightarrow> 'd outcome" where
  "exec_message_done env st =
     complete_message env st
       (\<lambda>st. if upgrade (parser st) then RETURN (l_p st + 1) st else Next st)"

definition exec_chunk_size_start :: "'d exec_env \<Rightarrow> 'd exec_st \<Rightarrow> 'd outcome" where
  "exec_chunk_size_start env st =
     ASSERT (l_nread st = 1)
       (ASSERT (has_flag (parser st) F_CHUNKED)
         (let v = unhex ! ord (l_ch st) in
          if v = - 1 then FAIL HPE_INVALID_CHUNK_SIZE st
          else Next (UPDATE_STATE s_chunk_size
                 (upd_parser (\<lambda>P. P\<lparr>content_length := word_of_int v\<rparr>) st))))"

definition exec_chunk_size :: "'d exec_env \<Rightarrow> 'd exec_st \<Rightarrow> 'd outcome" where
  "exec_chunk_size env st =
     ASSERT (has_flag (parser st) F_CHUNKED)
       (if l_ch st = CR then Next (UPDATE_STATE s_chunk_size_almost_done st)
        else
          let v = unhex ! ord (l_ch st); cl = content_length (parser st) in
          if v = - 1
          then if l_ch st = CHR '';'' \<or> l_ch st = CHR '' '' then Next (UPDATE_STATE s_chunk_parameters st)
               else FAIL HPE_INVALID_CHUNK_SIZE st
          else if (ULLONG_MAX - 16) div 16 < cl then FAIL HPE_INVALID_CONTENT_LENGTH st
          else Next (upd_parser (\<lambda>P. P\<lparr>content_length := cl * 16 + word_of_int v\<rparr>) st))"

definition exec_chunk_parameters :: "'d exec_env \<Rightarrow> 'd exec_st \<Rightarrow> 'd outcome" where
  "exec_chunk_parameters env st =
     ASSERT (has_flag (parser st) F_CHUNKED)
       (if l_ch st = CR then Next (UPDATE_STATE s_chunk_size_almost_done st) else Next st)"

definition exec_chunk_size_almost_done :: "'d exec_env \<Rightarrow> 'd exec_st \<Rightarrow> 'd outcome" where
  "exec_chunk_size_almost_done env st =
     ASSERT (has_flag (parser st) F_CHUNKED)
       (STRICT_CHECK (l_ch st \<noteq> LF) st
         (\<lambda>st. let st = reset_nread st;
                   st = (if content_length (parser st) = 0
                         then UPDATE_STATE s_header_field_start (upd_parser (set_flag F_TRAILING) st)
                         else UPDATE_STATE s_chunk_data st)
               in CALLBACK_NOTIFY (on_chunk_header (e_settings env)) HPE_CB_chunk_header st Next))"

definition exec_chunk_data :: "'d exec_env \<Rightarrow> 'd exec_st \<Rightarrow> 'd outcome" where
  "exec_chunk_data env st =
     ASSERT (has_flag (parser st) F_CHUNKED)
       (ASSERT (content_length (parser st) \<noteq> 0 \<and> content_length (parser st) \<noteq> ULLONG_MAX)
         (let st = consume_body env st in
          if content_length (parser st) = 0 then Next (UPDATE_STATE s_chunk_data_almost_done st)
          else Next st))"

definition exec_chunk_data_almost_done :: "'d exec_env \<Rightarrow> 'd exec_st \<Rightarrow> 'd outcome" where
  "exec_chunk_data_almost_done env st =
     ASSERT (has_flag (parser st) F_CHUNKED)
       (ASSERT (content_length (parser st) = 0)
         (STRICT_CHECK (l_ch st \<noteq> CR) st
           (\<lambda>st. CALLBACK_DATA env M_body (UPDATE_STATE s_chunk_data_done st) Next)))"

definition exec_chunk_data_done :: "'d exec_env \<Rightarrow> 'd exec_st \<Rightarrow> 'd outcome" where
  "exec_chunk_data_done env st =
     ASSERT (has_flag (parser st) F_CHUNKED)
       (STRICT_CHECK (l_ch st \<noteq> LF) st
         (\<lambda>st. CALLBACK_NOTIFY (on_chunk_complete (e_settings env)) HPE_CB_chunk_complete
                 (UPDATE_STATE s_chunk_size_start (reset_nread st)) Next))"

section \<open>The switch and the loops\<close>

definition exec_switch :: "'d exec_env \<Rightarrow> 'd exec_st \<Rightarrow> 'd outcome" where
  "exec_switch env st =
     (case l_state st of
        s_dead \<Rightarrow> exec_dead env st
      | s_start_req_or_res \<Rightarrow> exec_start_req_or_res env st
      | s_res_or_resp_H \<Rightarrow> exec_res_or_resp_H env st
      | s_start_res \<Rightarrow> exec_start_res env st
      | s_res_H \<Rightarrow> exec_expect (CHR ''T'') s_res_HT st
      | s_res_HT \<Rightarrow> exec_expect (CHR ''T'') s_res_HTT st
      | s_res_HTT \<Rightarrow> exec_expect (CHR ''P'') s_res_HTTP st
      | s_res_HTTP \<Rightarrow> exec_expect (CHR ''/'') s_res_http_major st
      | s_res_http_major \<Rightarrow> exec_res_http_major env st
      | s_res_http_dot \<Rightarrow> exec_res_http_dot env st
      | s_res_http_minor \<Rightarrow> exec_res_http_minor env st
      | s_res_http_end \<Rightarrow> exec_res_http_end env st
      | s_res_first_status_code \<Rightarrow> exec_res_first_status_code env st
      | s_res_status_code \<Rightarrow> exec_res_status_code env st
      | s_res_status_start \<Rightarrow> exec_res_status_start env st
      | s_res_status \<Rightarrow> exec_res_status env st
      | s_res_line_almost_done \<Rightarrow> exec_expect LF s_header_field_start st
      | s_start_req \<Rightarrow> exec_start_req env st
      | s_req_method \<Rightarrow> exec_req_method env st
      | s_req_spaces_before_url \<Rightarrow> exec_req_spaces_before_url env st
      | s_req_schema \<Rightarrow> exec_req_schema env st
      | s_req_schema_slash \<Rightarrow> exec_req_schema env st
      | s_req_schema_slash_slash \<Rightarrow> exec_req_schema env st
      | s_req_server_start \<Rightarrow> exec_req_schema env st
      | s_req_server \<Rightarrow> exec_req_url env st
      | s_req_server_with_at \<Rightarrow> exec_req_url env st
      | s_req_path \<Rightarrow> exec_req_url env st
      | s_req_query_string_start \<Rightarrow> exec_req_url env st
      | s_req_query_string \<Rightarrow> exec_req_url env st
      | s_req_fragment_start \<Rightarrow> exec_req_url env st
      | s_req_fragment \<Rightarrow> exec_req_url env st
      | s_req_http_start \<Rightarrow> exec_req_http_start env st
      | s_req_http_H \<Rightarrow> exec_expect (CHR ''T'') s_req_http_HT st
      | s_req_http_HT \<Rightarrow> exec_expect (CHR ''T'') s_req_http_HTT st
      | s_req_http_HTT \<Rightarrow> exec_expect (CHR ''P'') s_req_http_HTTP st
      | s_req_http_HTTP \<Rightarrow> exec_expect (CHR ''/'') s_req_http_major st
      | s_req_http_I \<Rightarrow> exec_expect (CHR ''C'') s_req_http_IC st
      | s_req_http_IC \<Rightarrow> exec_expect (CHR ''E'') s_req_http_HTTP st
      | s_req_http_major \<Rightarrow> exec_req_http_major env st
      | s_req_http_dot \<Rightarrow> exec_req_http_dot env st
      | s_req_http_minor \<Rightarrow> exec_req_http_minor env st
      | s_req_http_end \<Rightarrow> exec_req_http_end env st
      | s_req_line_almost_done \<Rightarrow> exec_req_line_almost_done env st
      | s_header_field_start \<Rightarrow> exec_header_field_start env st
      | s_header_field \<Rightarrow> exec_header_field env st
      | s_header_value_discard_ws \<Rightarrow> exec_header_value_discard_ws env st
      | s_header_value_discard_ws_almost_done \<Rightarrow> exec_expect LF s_header_value_discard_lws st
      | s_header_value_discard_lws \<Rightarrow> exec_header_value_discard_lws env st
      | s_header_value_start \<Rightarrow> exec_header_value_start env st
      | s_header_value \<Rightarrow> exec_header_value env st
      | s_header_value_lws \<Rightarrow> exec_header_value_lws env st
      | s_header_almost_done \<Rightarrow> exec_header_almost_done env st
      | s_chunk_size_start \<Rightarrow> exec_chunk_size_start env st
      | s_chunk_size \<Rightarrow> exec_chunk_size env st
      | s_chunk_parameters \<Rightarrow> exec_chunk_parameters env st
      | s_chunk_size_almost_done \<Rightarrow> exec_chunk_size_almost_done env st
      | s_headers_almost_done \<Rightarrow> exec_headers_almost_done env st
      | s_headers_done \<Rightarrow> exec_headers_done env st
      | s_chunk_data \<Rightarrow> exec_chunk_data env st
      | s_chunk_data_almost_done \<Rightarrow> exec_chunk_data_almost_done env st
      | s_chunk_data_done \<Rightarrow> exec_chunk_data_done env st
      | s_body_identity \<Rightarrow> exec_body_identity env st
      | s_body_identity_eof \<Rightarrow> exec_body_identity_eof env st
      | s_message_done \<Rightarrow> exec_message_done env st)"

text \<open>The label \<open>reexecute:\<close>, as long as a handler goes back to it.\<close>

partial_function (option) exec_reexecute :: "'d exec_env \<Rightarrow> 'd exec_st \<Rightarrow> 'd outcome option" where
  "exec_reexecute env st =
     (case exec_switch env st of
        Reexecute st' \<Rightarrow> exec_reexecute env st'
      | r \<Rightarrow> Some r)"

text \<open>The code after the byte loop: the leftover marks, then \<open>RETURN(len)\<close>.\<close>

definition mark_count :: "'d exec_st \<Rightarrow> nat" where
  "mark_count st =
     length (filter (\<lambda>m. l_marks st m \<noteq> None) [M_header_field, M_header_value, M_url, M_body, M_status])"

definition exec_epilogue :: "'d exec_env \<Rightarrow> 'd exec_st \<Rightarrow> 'd outcome" where
  "exec_epilogue env st =
     ASSERT (mark_count st \<le> 1)
       (CALLBACK_DATA_NOADVANCE env M_header_field st
         (\<lambda>st. CALLBACK_DATA_NOADVANCE env M_header_value st
           (\<lambda>st. CALLBACK_DATA_NOADVANCE env M_url st
             (\<lambda>st. CALLBACK_DATA_NOADVANCE env M_body st
               (\<lambda>st. CALLBACK_DATA_NOADVANCE env M_status st
                 (\<lambda>st. RETURN (e_len env) st))))))"

text \<open>The head of the loop body: load \<open>ch\<close>, count a header byte.\<close>

definition exec_byte :: "'d exec_env \<Rightarrow> 'd exec_st \<Rightarrow> 'd outcome" where
  "exec_byte env st =
     (let st = st\<lparr>l_ch := e_data env ! l_p st\<rparr> in
      if PARSING_HEADER (l_state st) then COUNT_HEADER_SIZE env 1 st Reexecute else Reexecute st)"

partial_function (option) exec_loop :: "'d exec_env \<Rightarrow> 'd exec_st \<Rightarrow> 'd outcome option" where
  "exec_loop env st =
     (if l_p st = e_len env then Some (exec_epilogue env st)
      else case exec_byte env st of
             Reexecute st' \<Rightarrow>
               Option.bind (exec_reexecute env st')
                 (\<lambda>r. case r of
                        Next st'' \<Rightarrow> exec_loop env (st''\<lparr>l_p := l_p st'' + 1\<rparr>)
                      | _ \<Rightarrow> Some r)
           | r \<Rightarrow> Some r)"

declare exec_reexecute.simps [code] exec_loop.simps [code]

definition initial_marks :: "state \<Rightarrow> mark \<Rightarrow> nat option" where
  "initial_marks s m =
     (if (m = M_header_field \<and> s = s_header_field) \<or>
         (m = M_header_value \<and> s = s_header_value) \<or>
         (m = M_url \<and> s \<in> {s_req_path, s_req_schema, s_req_schema_slash, s_req_schema_slash_slash,
            s_req_server_start, s_req_server, s_req_server_with_at, s_req_query_string_start,
            s_req_query_string, s_req_fragment_start, s_req_fragment}) \<or>
         (m = M_status \<and> s = s_res_status)
      then Some 0 else None)"

definition initial_st :: "'d http_parser \<Rightarrow> 'd exec_st" where
  "initial_st P =
     \<lparr>parser = P, l_p = 0, l_ch = NUL, l_state = state P, l_nread = nread P,
      l_marks = initial_marks (state P)\<rparr>"

text \<open>The call with \<open>len == 0\<close>, which signals the end of the input.\<close>

definition exec_eof :: "'d http_parser_settings \<Rightarrow> 'd http_parser \<Rightarrow> 'd outcome" where
  "exec_eof settings P =
     (let st = (initial_st P)\<lparr>l_marks := (\<lambda>_. None)\<rparr> in
      if state P = s_body_identity_eof
      then CALLBACK_NOTIFY_NOADVANCE (on_message_complete settings) HPE_CB_message_complete st
             (\<lambda>st. Return 0 (parser st))
      else if state P \<in> {s_dead, s_start_req_or_res, s_start_res, s_start_req} then Return 0 P
      else Return 1 (parser (SET_ERRNO HPE_INVALID_EOF_STATE st)))"

definition http_parser_execute ::
  "u32 \<Rightarrow> 'd http_parser_settings \<Rightarrow> 'd http_parser \<Rightarrow> string \<Rightarrow> 'd outcome option" where
  "http_parser_execute max_header_size settings P dat =
     (if http_errno P \<noteq> HPE_OK then Some (Return 0 P)
      else if dat = [] then Some (exec_eof settings P)
      else exec_loop
             \<lparr>e_settings = settings, e_data = dat, e_max_header_size = max_header_size,
              e_lenient = lenient_http_headers P\<rparr>
             (initial_st P))"

section \<open>The small public functions\<close>

definition HTTP_MAX_HEADER_SIZE :: u32 where
  "HTTP_MAX_HEADER_SIZE = 80 * 1024"

text \<open>\<open>memset\<close> to zero keeps only the application pointer: every enum field becomes its value 0
  and the state is set in any case.\<close>

definition http_parser_init :: "http_parser_type \<Rightarrow> 'd \<Rightarrow> 'd http_parser" where
  "http_parser_init t d =
     \<lparr>parser_type = t, flags = 0,
      state = (if t = HTTP_REQUEST then s_start_req
               else if t = HTTP_RESPONSE then s_start_res else s_start_req_or_res),
      header_state = h_general, index = 0, lenient_http_headers = False, nread = 0,
      content_length = 0, http_major = 0, http_minor = 0, status_code = 0, req_method = HTTP_DELETE,
      http_errno = HPE_OK, upgrade = False, data = d\<rparr>"

text \<open>\<open>None\<close> is the assertion \<open>"Attempting to pause parser in error state"\<close>.\<close>

definition http_parser_pause :: "bool \<Rightarrow> 'd http_parser \<Rightarrow> 'd http_parser option" where
  "http_parser_pause paused P =
     (if http_errno P = HPE_OK \<or> http_errno P = HPE_PAUSED
      then Some (P\<lparr>http_errno := (if paused then HPE_PAUSED else HPE_OK)\<rparr>)
      else None)"

definition http_body_is_final :: "'d http_parser \<Rightarrow> bool" where
  "http_body_is_final P \<longleftrightarrow> state P = s_message_done"

definition http_parser_version :: nat where
  "http_parser_version = 2 * 0x10000 OR 9 * 0x00100 OR 2 * 0x00001"

text \<open>The global \<open>max_header_size\<close> is the first argument of \<open>http_parser_execute\<close>.\<close>

definition http_parser_set_max_header_size :: "u32 \<Rightarrow> u32" where
  "http_parser_set_max_header_size sz = sz"

end
