(* ===== verification/Http_Inv.thy ===== *)
theory Http_Inv
  imports Http_Exec
begin

text \<open>
  Safety of \<open>http_parser_execute\<close>: for every input and every callback table that keeps the
  documented contract, the call returns, no assertion fails and no literal is read past its
  end, and the parser is again in a state from which this holds. The contract is the locale
  \<open>http_callbacks\<close>; the judgement \<open>ok\<close> is proved once per control macro (the collection
  \<open>ok_rules\<close>) here, and once per handler and for the loops in \<open>Http_Safety\<close>.
\<close>

section \<open>The callback contract\<close>

text \<open>
  A callback may change the application object and may pause the parser; the other fields of
  \<open>struct http_parser\<close> are marked private or read-only in the header.
\<close>

definition cb_frame :: "'d http_cb \<Rightarrow> bool" where
  "cb_frame f \<longleftrightarrow>
     (\<forall>P. \<exists>r d e. f P = (r, P\<lparr>http_errno := e, data := d\<rparr>) \<and> (e = http_errno P \<or> e = HPE_PAUSED))"

definition notify_cbs :: "'d http_parser_settings \<Rightarrow> 'd http_cb option list" where
  "notify_cbs S =
     [on_message_begin S, on_headers_complete S, on_message_complete S, on_chunk_header S,
      on_chunk_complete S]"

section \<open>The invariant\<close>

definition field_states :: "header_states set" where
  "field_states =
     {h_general, h_C, h_CO, h_CON, h_matching_connection, h_matching_proxy_connection,
      h_matching_content_length, h_matching_transfer_encoding, h_matching_upgrade, h_connection,
      h_content_length, h_transfer_encoding, h_upgrade}"

definition chunk_states :: "state set" where
  "chunk_states =
     {s_chunk_size_start, s_chunk_size, s_chunk_parameters, s_chunk_size_almost_done, s_chunk_data,
      s_chunk_data_almost_done, s_chunk_data_done}"

definition url_states :: "state set" where
  "url_states =
     {s_req_path, s_req_schema, s_req_schema_slash, s_req_schema_slash_slash, s_req_server_start,
      s_req_server, s_req_server_with_at, s_req_query_string_start, s_req_query_string,
      s_req_fragment_start, s_req_fragment}"

text \<open>At most one way of framing the body was announced.\<close>

definition one_framing :: "'d http_parser \<Rightarrow> bool" where
  "one_framing P \<longleftrightarrow> \<not> (has_flag P F_CHUNKED \<and> has_flag P F_CONTENTLENGTH)"

text \<open>
  What the parser fields must satisfy in state \<open>s\<close>, with \<open>n\<close> header bytes counted; \<open>k\<close> is 0
  at the head of the byte loop and 1 inside the \<open>switch\<close>, after the byte has been counted.
\<close>

definition pinv :: "u32 \<Rightarrow> state \<Rightarrow> u32 \<Rightarrow> 'd http_parser \<Rightarrow> bool" where
  "pinv k s n P \<longleftrightarrow>
     (s = s_req_method \<longrightarrow> unat (index P) \<le> length (method_matcher (req_method P))) \<and>
     (s = s_header_field \<longrightarrow> header_state P \<in> field_states) \<and>
     (s = s_header_value \<longrightarrow> header_state P \<notin> {h_connection, h_transfer_encoding}) \<and>
     (s \<in> chunk_states \<longrightarrow> has_flag P F_CHUNKED) \<and>
     (s \<in> {s_body_identity, s_chunk_data} \<longrightarrow> content_length P \<noteq> 0 \<and> content_length P \<noteq> ULLONG_MAX) \<and>
     (s = s_chunk_data_almost_done \<longrightarrow> content_length P = 0) \<and>
     (s = s_chunk_size_start \<longrightarrow> n = k) \<and>
     (s \<in> {s_chunk_size, s_chunk_parameters, s_chunk_size_almost_done} \<longrightarrow>
        content_length P \<noteq> ULLONG_MAX) \<and>
     (s \<in> {s_headers_done, s_body_identity, s_body_identity_eof} \<union> chunk_states \<longrightarrow> one_framing P) \<and>
     (s \<in> {s_body_identity, s_body_identity_eof} \<longrightarrow> \<not> has_flag P F_CHUNKED)"

fun mark_states :: "mark \<Rightarrow> state set" where
  "mark_states M_header_field = {s_header_field}"
| "mark_states M_header_value = {s_header_value}"
| "mark_states M_url = url_states"
| "mark_states M_body = {s_body_identity, s_body_identity_eof, s_chunk_data, s_chunk_data_almost_done}"
| "mark_states M_status = {s_res_status}"

text \<open>A mark is set only in its states, and never lies beyond \<open>p\<close>.\<close>

definition minv :: "state \<Rightarrow> nat \<Rightarrow> (mark \<Rightarrow> nat option) \<Rightarrow> bool" where
  "minv s p ms \<longleftrightarrow> (\<forall>m i. ms m = Some i \<longrightarrow> s \<in> mark_states m \<and> i \<le> p)"

definition st_inv :: "u32 \<Rightarrow> 'd exec_env \<Rightarrow> 'd exec_st \<Rightarrow> bool" where
  "st_inv k env st \<longleftrightarrow>
     http_errno (parser st) = HPE_OK \<and>
     pinv k (l_state st) (l_nread st) (parser st) \<and>
     minv (l_state st) (l_p st) (l_marks st) \<and>
     l_nread st \<le> e_max_header_size env \<and> nread (parser st) \<le> e_max_header_size env"

text \<open>The parser between two calls; after a pause the application may set the error number back.\<close>

definition parser_inv :: "u32 \<Rightarrow> 'd http_parser \<Rightarrow> bool" where
  "parser_inv mx P \<longleftrightarrow>
     (http_errno P = HPE_OK \<or> http_errno P = HPE_PAUSED \<longrightarrow>
        pinv 0 (state P) (nread P) P \<and> nread P \<le> mx)"

definition ret_ok :: "'d exec_env \<Rightarrow> nat \<Rightarrow> 'd http_parser \<Rightarrow> bool" where
  "ret_ok env n P \<longleftrightarrow>
     n \<le> e_len env \<and> (http_errno P = HPE_OK \<longrightarrow> n = e_len env \<or> upgrade P) \<and>
     parser_inv (e_max_header_size env) P"

text \<open>Re-execution at the same byte only goes down this ranking, so it stops.\<close>

definition rank :: "state \<Rightarrow> nat" where
  "rank s =
     (case s of
        s_header_value_lws \<Rightarrow> 5 | s_header_value_discard_lws \<Rightarrow> 5 | s_header_field_start \<Rightarrow> 4
      | s_headers_almost_done \<Rightarrow> 3 | s_headers_done \<Rightarrow> 2 | s_message_done \<Rightarrow> 1
      | s_body_identity \<Rightarrow> 2 | s_header_value \<Rightarrow> 1 | s_start_req_or_res \<Rightarrow> 1
      | s_res_status_code \<Rightarrow> 2 | s_res_status_start \<Rightarrow> 1 | _ \<Rightarrow> 0)"

definition ok :: "'d exec_env \<Rightarrow> nat \<Rightarrow> nat \<Rightarrow> 'd outcome \<Rightarrow> bool" where
  "ok env p0 rk r \<longleftrightarrow>
     (case r of
        Next st \<Rightarrow> st_inv 0 env st \<and> p0 \<le> l_p st \<and> l_p st < e_len env
      | Reexecute st \<Rightarrow>
          st_inv 1 env st \<and> p0 \<le> l_p st \<and> l_p st < e_len env \<and> rank (l_state st) < rk
      | Return n P \<Rightarrow> ret_ok env n P
      | Abort \<Rightarrow> False)"

section \<open>Rules for the macros\<close>

lemma has_flag_simps [simp]:
  "has_flag (P\<lparr>state := a\<rparr>) f = has_flag P f"
  "has_flag (P\<lparr>nread := b\<rparr>) f = has_flag P f"
  "has_flag (P\<lparr>http_errno := c\<rparr>) f = has_flag P f"
  "has_flag (P\<lparr>data := d\<rparr>) f = has_flag P f"
  "has_flag (P\<lparr>content_length := g\<rparr>) f = has_flag P f"
  "has_flag (P\<lparr>index := i\<rparr>) f = has_flag P f"
  "has_flag (P\<lparr>header_state := h\<rparr>) f = has_flag P f"
  "has_flag (P\<lparr>upgrade := u\<rparr>) f = has_flag P f"
  "has_flag (P\<lparr>req_method := m\<rparr>) f = has_flag P f"
  by (simp_all add: has_flag_def)

lemma set_flag_simps [simp]:
  "state (set_flag f P) = state P" "nread (set_flag f P) = nread P"
  "http_errno (set_flag f P) = http_errno P" "data (set_flag f P) = data P"
  "content_length (set_flag f P) = content_length P" "index (set_flag f P) = index P"
  "header_state (set_flag f P) = header_state P" "upgrade (set_flag f P) = upgrade P"
  "req_method (set_flag f P) = req_method P" "parser_type (set_flag f P) = parser_type P"
  "status_code (set_flag f P) = status_code P"
  by (simp_all add: set_flag_def)

lemma has_flag_set_flag [simp]: "has_flag P g \<Longrightarrow> has_flag (set_flag f P) g"
  by (simp add: has_flag_def set_flag_def word_and_or_mono)

lemma has_flag_set_flag_other [simp]:
  "has_flag (set_flag F_SKIPBODY P) F_CHUNKED = has_flag P F_CHUNKED"
  "has_flag (set_flag F_SKIPBODY P) F_CONTENTLENGTH = has_flag P F_CONTENTLENGTH"
  by (simp_all add: has_flag_def set_flag_def F_SKIPBODY_def F_CHUNKED_def F_CONTENTLENGTH_def
      bit.conj_disj_distrib2)

lemma one_framing_frame [simp]:
  "one_framing (P\<lparr>state := a\<rparr>) = one_framing P" "one_framing (P\<lparr>nread := b\<rparr>) = one_framing P"
  "one_framing (P\<lparr>http_errno := c\<rparr>) = one_framing P" "one_framing (P\<lparr>data := d\<rparr>) = one_framing P"
  "one_framing (P\<lparr>upgrade := u\<rparr>) = one_framing P"
  "one_framing (P\<lparr>content_length := g\<rparr>) = one_framing P"
  "one_framing (set_flag F_SKIPBODY P) = one_framing P"
  by (simp_all add: one_framing_def)

lemma pinv_frame [simp]:
  "pinv k s n (P\<lparr>state := a\<rparr>) = pinv k s n P"
  "pinv k s n (P\<lparr>nread := b\<rparr>) = pinv k s n P"
  "pinv k s n (P\<lparr>http_errno := c\<rparr>) = pinv k s n P"
  "pinv k s n (P\<lparr>data := d\<rparr>) = pinv k s n P"
  "pinv k s n (P\<lparr>upgrade := u\<rparr>) = pinv k s n P"
  by (simp_all add: pinv_def)

lemma minv_empty [simp]: "minv s p (\<lambda>_. None)"
  by (simp add: minv_def)

definition mle :: "nat \<Rightarrow> nat option \<Rightarrow> bool" where
  "mle p x \<longleftrightarrow> (\<forall>i. x = Some i \<longrightarrow> i \<le> p)"

lemma mle_simps [simp]: "mle p None" "mle p (Some i) \<longleftrightarrow> i \<le> p"
  by (simp_all add: mle_def)

lemma mle_mono: "mle p x \<Longrightarrow> p \<le> q \<Longrightarrow> mle q x"
  by (auto simp: mle_def)

lemma minv_unfold:
  "minv s p ms \<longleftrightarrow>
     (if s = s_header_field then mle p (ms M_header_field) else ms M_header_field = None) \<and>
     (if s = s_header_value then mle p (ms M_header_value) else ms M_header_value = None) \<and>
     (if s \<in> url_states then mle p (ms M_url) else ms M_url = None) \<and>
     (if s \<in> mark_states M_body then mle p (ms M_body) else ms M_body = None) \<and>
     (if s = s_res_status then mle p (ms M_status) else ms M_status = None)"
proof -
  have all: "(\<forall>m. Q m) \<longleftrightarrow> Q M_header_field \<and> Q M_header_value \<and> Q M_url \<and> Q M_body \<and> Q M_status"
    for Q by (metis mark.exhaust)
  show ?thesis
    unfolding minv_def all by (auto simp: mle_def)
qed

lemma MARK_simps [simp]:
  "parser (MARK m st) = parser st" "l_p (MARK m st) = l_p st" "l_ch (MARK m st) = l_ch st"
  "l_state (MARK m st) = l_state st" "l_nread (MARK m st) = l_nread st"
  "m' \<noteq> m \<Longrightarrow> l_marks (MARK m st) m' = l_marks st m'"
  "mle (l_p st) (l_marks st m) \<Longrightarrow> mle (l_p st) (l_marks (MARK m st) m)"
  by (auto simp: MARK_def split: option.splits)

lemma minv_mono: "minv s p ms \<Longrightarrow> p \<le> q \<Longrightarrow> minv s q ms"
  by (fastforce simp: minv_def)

lemma mark_states_disjoint: "s \<in> mark_states m \<Longrightarrow> s \<in> mark_states m' \<Longrightarrow> m' = m"
  by (cases m; cases m'; auto simp: url_states_def)

lemma minv_clear: "minv s p ms \<Longrightarrow> s \<in> mark_states m \<Longrightarrow> ms(m := None) = (\<lambda>_. None)"
  by (rule ext) (auto simp: minv_def dest: mark_states_disjoint [of s m] not_None_eq [THEN iffD1])

text \<open>The states without a mark and without a condition on the parser fields.\<close>

definition plain_state :: "state \<Rightarrow> bool" where
  "plain_state s \<longleftrightarrow>
     s \<notin> {s_req_method, s_header_field, s_header_value, s_res_status, s_headers_done,
          s_body_identity, s_body_identity_eof} \<union> chunk_states \<union> url_states"

lemma plain_state_simps [simp]:
  "plain_state s_dead" "plain_state s_start_req_or_res" "plain_state s_start_req"
  "plain_state s_start_res" "plain_state s_res_or_resp_H" "plain_state s_res_H"
  "plain_state s_res_HT" "plain_state s_res_HTT" "plain_state s_res_HTTP"
  "plain_state s_res_http_major" "plain_state s_res_http_dot" "plain_state s_res_http_minor"
  "plain_state s_res_http_end" "plain_state s_res_first_status_code" "plain_state s_res_status_code"
  "plain_state s_res_status_start" "plain_state s_res_line_almost_done"
  "plain_state s_req_spaces_before_url" "plain_state s_req_http_start" "plain_state s_req_http_H"
  "plain_state s_req_http_HT" "plain_state s_req_http_HTT" "plain_state s_req_http_HTTP"
  "plain_state s_req_http_I" "plain_state s_req_http_IC" "plain_state s_req_http_major"
  "plain_state s_req_http_dot" "plain_state s_req_http_minor" "plain_state s_req_http_end"
  "plain_state s_req_line_almost_done" "plain_state s_header_field_start"
  "plain_state s_header_value_discard_ws" "plain_state s_header_value_discard_ws_almost_done"
  "plain_state s_header_value_discard_lws" "plain_state s_header_value_start"
  "plain_state s_header_value_lws" "plain_state s_header_almost_done"
  "plain_state s_headers_almost_done" "plain_state s_message_done"
  by (simp_all add: plain_state_def chunk_states_def url_states_def)

lemma pinv_plain [simp]: "plain_state s \<Longrightarrow> pinv k s n P"
  by (auto simp: plain_state_def pinv_def chunk_states_def)

lemma pinv_simps [simp]:
  "pinv k s_req_method n P \<longleftrightarrow> unat (index P) \<le> length (method_matcher (req_method P))"
  "pinv k s_header_field n P \<longleftrightarrow> header_state P \<in> field_states"
  "pinv k s_header_value n P \<longleftrightarrow> header_state P \<notin> {h_connection, h_transfer_encoding}"
  "pinv k s_res_status n P" "pinv k s_headers_done n P \<longleftrightarrow> one_framing P"
  "pinv k s_body_identity_eof n P \<longleftrightarrow> one_framing P \<and> \<not> has_flag P F_CHUNKED"
  "pinv k s_body_identity n P \<longleftrightarrow>
     content_length P \<noteq> 0 \<and> content_length P \<noteq> ULLONG_MAX \<and> one_framing P \<and> \<not> has_flag P F_CHUNKED"
  "pinv k s_chunk_size_start n P \<longleftrightarrow> has_flag P F_CHUNKED \<and> one_framing P \<and> n = k"
  "pinv k s_chunk_size n P \<longleftrightarrow> has_flag P F_CHUNKED \<and> one_framing P \<and> content_length P \<noteq> ULLONG_MAX"
  "pinv k s_chunk_parameters n P \<longleftrightarrow> has_flag P F_CHUNKED \<and> one_framing P \<and> content_length P \<noteq> ULLONG_MAX"
  "pinv k s_chunk_size_almost_done n P \<longleftrightarrow> has_flag P F_CHUNKED \<and> one_framing P \<and> content_length P \<noteq> ULLONG_MAX"
  "pinv k s_chunk_data n P \<longleftrightarrow>
     has_flag P F_CHUNKED \<and> one_framing P \<and> content_length P \<noteq> 0 \<and> content_length P \<noteq> ULLONG_MAX"
  "pinv k s_chunk_data_almost_done n P \<longleftrightarrow> has_flag P F_CHUNKED \<and> one_framing P \<and> content_length P = 0"
  "pinv k s_chunk_data_done n P \<longleftrightarrow> has_flag P F_CHUNKED \<and> one_framing P"
  by (auto simp: pinv_def chunk_states_def)

lemma pinv_url [simp]: "s \<in> url_states \<Longrightarrow> pinv k s n P"
  by (auto simp: url_states_def pinv_def chunk_states_def)

lemma minv_no_mark_iff: "(\<And>m. s \<notin> mark_states m) \<Longrightarrow> minv s p ms \<longleftrightarrow> ms = (\<lambda>_. None)"
  by (auto simp: minv_def fun_eq_iff)

lemma minv_no_mark [simp]:
  "minv s_chunk_size_start p ms \<longleftrightarrow> ms = (\<lambda>_. None)" "minv s_chunk_size p ms \<longleftrightarrow> ms = (\<lambda>_. None)"
  "minv s_chunk_parameters p ms \<longleftrightarrow> ms = (\<lambda>_. None)"
  "minv s_chunk_size_almost_done p ms \<longleftrightarrow> ms = (\<lambda>_. None)"
  "minv s_chunk_data_done p ms \<longleftrightarrow> ms = (\<lambda>_. None)" "minv s_req_method p ms \<longleftrightarrow> ms = (\<lambda>_. None)"
  "minv s_headers_done p ms \<longleftrightarrow> ms = (\<lambda>_. None)"
  by (rule minv_no_mark_iff, case_tac m, simp_all add: url_states_def)+

lemma minv_plain [simp]: "plain_state s \<Longrightarrow> minv s p ms \<longleftrightarrow> ms = (\<lambda>_. None)"
  by (rule minv_no_mark_iff, case_tac m) (auto simp: plain_state_def chunk_states_def)

named_theorems inv_defs

lemmas [inv_defs] =
  st_inv_def pinv_def minv_unfold field_states_def chunk_states_def url_states_def

lemma ok_Next [ok_rules]:
  "st_inv 0 env st \<Longrightarrow> p0 \<le> l_p st \<Longrightarrow> l_p st < e_len env \<Longrightarrow> ok env p0 rk (Next st)"
  by (simp add: ok_def)

lemma ok_Reexecute [ok_rules]:
  "st_inv 1 env st \<Longrightarrow> p0 \<le> l_p st \<Longrightarrow> l_p st < e_len env \<Longrightarrow> rank (l_state st) < rk \<Longrightarrow>
   ok env p0 rk (Reexecute st)"
  by (simp add: ok_def)

lemma ok_FAIL [ok_rules]:
  "e \<noteq> HPE_OK \<Longrightarrow> e \<noteq> HPE_PAUSED \<Longrightarrow> l_p st \<le> e_len env \<Longrightarrow> ok env p0 rk (FAIL e st)"
  by (simp add: ok_def FAIL_def goto_error_def RETURN_def macro_defs ret_ok_def parser_inv_def)

lemma ok_RETURN:
  "n \<le> e_len env \<Longrightarrow> n = e_len env \<or> upgrade (parser st) \<or> http_errno (parser st) \<noteq> HPE_OK \<Longrightarrow>
   pinv 0 (l_state st) (l_nread st) (parser st) \<Longrightarrow> l_nread st \<le> e_max_header_size env \<Longrightarrow>
   ok env p0 rk (RETURN n st)"
  by (auto simp: ok_def RETURN_def ret_ok_def parser_inv_def)

lemma ok_if [ok_rules]:
  "(c \<Longrightarrow> ok env p0 rk a) \<Longrightarrow> (\<not> c \<Longrightarrow> ok env p0 rk b) \<Longrightarrow> ok env p0 rk (if c then a else b)"
  by simp

lemma ok_STRICT_CHECK [ok_rules]:
  "l_p st \<le> e_len env \<Longrightarrow> (\<not> c \<Longrightarrow> ok env p0 rk (k st)) \<Longrightarrow> ok env p0 rk (STRICT_CHECK c st k)"
  by (simp add: STRICT_CHECK_def ok_FAIL)

lemma ok_ASSERT [ok_rules]: "c \<Longrightarrow> ok env p0 rk a \<Longrightarrow> ok env p0 rk (ASSERT c a)"
  by (simp add: ASSERT_def)

lemma ok_COUNT [ok_rules]:
  "l_p st \<le> e_len env \<Longrightarrow>
   (\<And>n. n = l_nread st + of_nat v \<Longrightarrow> n \<le> e_max_header_size env \<Longrightarrow> ok env p0 rk (k (st\<lparr>l_nread := n\<rparr>))) \<Longrightarrow>
   ok env p0 rk (COUNT_HEADER_SIZE env v st k)"
  by (auto simp: COUNT_HEADER_SIZE_def Let_def intro!: ok_FAIL)

text \<open>A callback either leaves the function or comes back with only the application data changed.\<close>

lemma ok_run_callback:
  assumes "cb_frame f" and "e \<noteq> HPE_OK" and "e \<noteq> HPE_PAUSED" and "er \<le> e_len env"
    and "http_errno (parser st) = HPE_OK"
    and "pinv 0 (l_state st) (nread (parser st)) (parser st)"
    and "nread (parser st) \<le> e_max_header_size env"
    and "\<And>d. ok env p0 rk (k (st\<lparr>parser := (parser st)\<lparr>state := l_state st, data := d\<rparr>\<rparr>))"
  shows "ok env p0 rk (run_callback f e er st k)"
proof -
  let ?P = "(parser st)\<lparr>state := l_state st\<rparr>"
  obtain r d x where f: "f ?P = (r, ?P\<lparr>http_errno := x, data := d\<rparr>)"
    and x: "x = HPE_OK \<or> x = HPE_PAUSED"
    using assms(1,5) by (auto simp: cb_frame_def dest: spec [of _ ?P])
  have eq: "(parser st)\<lparr>state := l_state st, http_errno := HPE_OK, data := d\<rparr>
      = (parser st)\<lparr>state := l_state st, data := d\<rparr>"
    using assms(5) by simp
  have st: "st\<lparr>parser := P, l_state := l_state st\<rparr> = st\<lparr>parser := P\<rparr>" for P
    by simp
  show ?thesis
  proof (cases "r = 0 \<and> x = HPE_OK")
    case True
    then show ?thesis
      using f assms(5) assms(8) [of d] by (simp add: run_callback_def macro_defs eq st Let_def)
  next
    case False
    then show ?thesis
      using f x assms(2-7)
      by (auto simp: run_callback_def macro_defs ok_def ret_ok_def parser_inv_def Let_def)
  qed
qed


text \<open>
  The interface between the parser and its client: every entry of the callback table keeps
  the frame. \<open>Http_Request_Parser\<close> and \<open>Http_Response_Parser\<close> are its two providers.
\<close>

locale http_callbacks =
  fixes S :: "'d http_parser_settings"
  assumes notify_frame: "Some f \<in> set (notify_cbs S) \<Longrightarrow> cb_frame f"
    and data_frame: "on_data S m = Some g \<Longrightarrow> cb_frame (\<lambda>P. g P s)"
begin

lemma ok_NOTIFY:
  assumes "cb \<in> set (notify_cbs S)" and "e \<noteq> HPE_OK" and "e \<noteq> HPE_PAUSED" and "er \<le> e_len env"
    and "http_errno (parser st) = HPE_OK"
    and "pinv 0 (l_state st) (nread (parser st)) (parser st)"
    and "nread (parser st) \<le> e_max_header_size env"
    and "\<And>s d. s = l_state st \<or> s = state (parser st) \<Longrightarrow>
           ok env p0 rk (k (st\<lparr>parser := (parser st)\<lparr>state := s, data := d\<rparr>\<rparr>))"
  shows "ok env p0 rk (CALLBACK_NOTIFY_er cb e er st k)"
proof (cases cb)
  case None
  then show ?thesis
    using assms(5) assms(8) [of "state (parser st)" "data (parser st)"]
    by (simp add: CALLBACK_NOTIFY_er_def ASSERT_def)
next
  case (Some f)
  with assms(1) have "cb_frame f"
    by (auto intro: notify_frame)
  with Some show ?thesis
    unfolding CALLBACK_NOTIFY_er_def ASSERT_def
    using assms(2-7) by (auto intro!: ok_run_callback assms(8))
qed

lemma ok_DATA:
  assumes "e_settings env = S" and "er \<le> e_len env" and "http_errno (parser st) = HPE_OK"
    and "pinv 0 (l_state st) (nread (parser st)) (parser st)"
    and "nread (parser st) \<le> e_max_header_size env"
    and "\<And>s d. ok env p0 rk (k (st\<lparr>parser := (parser st)\<lparr>state := s, data := d\<rparr>,
           l_marks := (l_marks st)(m := None)\<rparr>))"
  shows "ok env p0 rk (CALLBACK_DATA_er env m q er st k)"
proof -
  have same: "ok env p0 rk (k (st\<lparr>l_marks := (l_marks st)(m := None)\<rparr>))"
    using assms(6) [of "data (parser st)" "state (parser st)"] by simp
  have e: "cb_errno m \<noteq> HPE_OK" "cb_errno m \<noteq> HPE_PAUSED"
    by (cases m; simp)+
  show ?thesis
  proof (cases "l_marks st m")
    case None
    then have "st\<lparr>l_marks := (l_marks st)(m := None)\<rparr> = st"
      by (simp add: fun_upd_idem)
    with None same assms(3) show ?thesis
      by (simp add: CALLBACK_DATA_er_def ASSERT_def)
  next
    case (Some i)
    show ?thesis
    proof (cases "on_data S m")
      case None
      with Some same assms(1,3) show ?thesis
        by (simp add: CALLBACK_DATA_er_def ASSERT_def clear_mark_def)
    next
      case (Some f)
      then have "cb_frame (\<lambda>P. f P s)" for s
        by (rule data_frame)
      with Some \<open>l_marks st m = Some i\<close> show ?thesis
        unfolding CALLBACK_DATA_er_def ASSERT_def clear_mark_def
        using assms(1-5) e by (auto intro!: ok_run_callback assms(6))
    qed
  qed
qed

end

text \<open>A handler is safe in the state whose case label it models.\<close>

definition handles ::
  "'d http_parser_settings \<Rightarrow> state \<Rightarrow> ('d exec_env \<Rightarrow> 'd exec_st \<Rightarrow> 'd outcome) \<Rightarrow> bool" where
  "handles S s f \<longleftrightarrow>
     (\<forall>env st. e_settings env = S \<longrightarrow> e_len env < 2 ^ 64 \<longrightarrow> st_inv 1 env st \<longrightarrow> l_p st < e_len env \<longrightarrow> l_state st = s \<longrightarrow>
        ok env (l_p st) (rank s) (f env st))"

lemma handlesI:
  "(\<And>env st. e_settings env = S \<Longrightarrow> e_len env < 2 ^ 64 \<Longrightarrow> st_inv 1 env st \<Longrightarrow> l_p st < e_len env \<Longrightarrow> l_state st = s \<Longrightarrow>
     ok env (l_p st) (rank s) (f env st)) \<Longrightarrow> handles S s f"
  by (simp add: handles_def)

lemma handlesD:
  "handles S s f \<Longrightarrow> e_settings env = S \<Longrightarrow> e_len env < 2 ^ 64 \<Longrightarrow> st_inv 1 env st \<Longrightarrow> l_p st < e_len env \<Longrightarrow> l_state st = s \<Longrightarrow>
   ok env (l_p st) (rank s) (f env st)"
  by (simp add: handles_def)

lemmas handler_simps =
  reset_message_def macro_defs inv_defs Let_def rank_def notify_cbs_def

end
