(* ===== verification/Http_Safety.thy ===== *)
theory Http_Safety
  imports Http_Inv
begin

text \<open>
  The proof that \<open>http_parser_execute\<close> is safe for every callback table of the locale
  \<open>http_callbacks\<close>: each handler satisfies \<open>handles\<close>, hence so does the \<open>switch\<close>; the
  \<open>goto reexecute\<close> loop stops because \<open>rank\<close> decreases; the byte loop stops because \<open>p\<close>
  advances. The reachable parsers (\<open>parser_reach\<close>: initialised, then executed, paused and
  resumed in any order, on any input) therefore keep \<open>parser_inv\<close>.
\<close>

section \<open>Facts the handlers need\<close>

lemma method_matcher_length: "1 \<le> length (method_matcher m)" "length (method_matcher m) \<le> 11"
  by (cases m; simp)+

lemma first_method_length: "first_method c = Some m \<Longrightarrow> 1 \<le> length (method_matcher m)"
  by (rule method_matcher_length)

lemma method_switch_length: "method_switch m i c = Some m' \<Longrightarrow> i + 1 \<le> length (method_matcher m')"
  by (auto simp: method_switch_def split: if_splits)

lemma index_Suc: "unat (i :: 7 word) < 127 \<Longrightarrow> unat (i + 1) = unat i + 1"
  by (simp add: unat_word_ariths unat_of_nat)

lemma parse_url_char_states:
  "parse_url_char s c = s_dead \<or> parse_url_char s c \<in> url_states"
  by (cases s) (simp_all add: parse_url_char_def parse_url_server_def url_states_def)

lemma step_url_ok:
  assumes "st_inv 0 env (st\<lparr>l_state := s_req_path\<rparr>)" and "l_p st < e_len env"
  shows "ok env (l_p st) rk (step_url st)"
proof -
  let ?s = "parse_url_char (l_state st) (l_ch st)"
  show ?thesis
  proof (cases "?s = s_dead")
    case True
    with assms(2) show ?thesis
      by (simp add: step_url_def UPDATE_STATE_def ok_FAIL)
  next
    case False
    with parse_url_char_states have "?s \<in> url_states"
      by blast
    with assms False show ?thesis
      by (auto simp: step_url_def UPDATE_STATE_def inv_defs intro!: ok_Next)
  qed
qed

lemma st_inv_url:
  assumes "st_inv 1 env st" and "l_state st \<in> url_states"
  shows "st_inv 0 env (st\<lparr>l_state := s_req_path\<rparr>)"
proof -
  have "l_state st \<notin> {s_header_field, s_header_value, s_res_status} \<union> mark_states M_body"
    using assms(2) by (auto simp: url_states_def)
  with assms show ?thesis
    by (simp add: inv_defs)
qed

lemma header_field_char_ok:
  assumes "h \<in> field_states" and "h \<noteq> h_general"
  shows "\<exists>i h'. header_field_char ch c idx h = Some (i, h') \<and> h' \<in> field_states"
  using assms by (cases h) (simp_all add: field_states_def header_field_char_def match_name_def Let_def)

lemma header_field_loop_ok:
  "h \<in> field_states \<Longrightarrow> p \<le> length dat \<Longrightarrow>
   \<exists>p' ch' idx' h'. header_field_loop dat mx p ch idx h = Some (p', ch', idx', h') \<and>
     h' \<in> field_states \<and> p \<le> p' \<and> p' \<le> length dat"
proof (induction dat mx p ch idx h rule: header_field_loop.induct)
  case (1 dat mx p ch0 idx h)
  show ?case
  proof (cases "p < length dat \<and> TOKEN (dat ! p) \<noteq> NUL")
    case False
    with 1(3-) show ?thesis
      by (subst header_field_loop.simps) (auto simp: Let_def)
  next
    case True
    show ?thesis
    proof (cases "h = h_general")
      case gen: True
      let ?q = "skip_token dat (p + min (length dat - p) mx) p"
      have q: "p \<le> ?q" "?q + 1 \<le> length dat"
        using True by (auto simp: Suc_le_eq intro: skip_token_ge skip_token_less)
      have "header_field_loop dat mx p ch0 idx h = header_field_loop dat mx (?q + 1) (dat ! p) idx h"
        using True gen by (subst header_field_loop.simps) (simp add: Let_def)
      with "1.IH"(1) [OF _ refl refl _ gen "1.prems"(1) q(2)] True q(1) show ?thesis
        by fastforce
    next
      case False
      with header_field_char_ok [OF "1.prems"(1)] obtain i h'
        where *: "header_field_char (dat ! p) (TOKEN (dat ! p)) idx h = Some (i, h')" "h' \<in> field_states"
        by blast
      then have "header_field_loop dat mx p ch0 idx h = header_field_loop dat mx (p + 1) (dat ! p) i h'"
        using True False by (subst header_field_loop.simps) (simp add: Let_def)
      with "1.IH"(2) [OF _ refl refl _ False *(1) refl *(2)] True show ?thesis
        by fastforce
    qed
  qed
qed

text \<open>The loop invariant of the header-value loop.\<close>

definition hv_inv :: "'d exec_env \<Rightarrow> nat \<Rightarrow> 'd exec_st \<Rightarrow> bool" where
  "hv_inv env start st \<longleftrightarrow>
     l_state st = s_header_value \<and> http_errno (parser st) = HPE_OK \<and>
     minv s_header_value start (l_marks st) \<and>
     l_nread st \<le> e_max_header_size env \<and> nread (parser st) \<le> e_max_header_size env"

lemma hv_general_ok:
  assumes "hv_inv env start st" and "l_p st < e_len env"
    and "e_data env ! l_p st \<noteq> CR" and "e_data env ! l_p st \<noteq> LF"
  shows "case hv_general env st of
           HV_go st' h' \<Rightarrow> hv_inv env start st' \<and> h' \<notin> {h_connection, h_transfer_encoding} \<and>
             l_p st \<le> l_p st' \<and> l_p st' < e_len env
         | HV_error e st' \<Rightarrow> e \<noteq> HPE_OK \<and> e \<noteq> HPE_PAUSED \<and> l_p st' \<le> e_len env
         | HV_assert \<Rightarrow> False"
proof (cases "hv_general env st")
  case (HV_go st' h')
  from hv_general_go [OF this assms(2-4)] assms(1) HV_go show ?thesis
    by (auto simp: hv_inv_def)
next
  case (HV_error e st')
  then show ?thesis
    using assms(2) header_value_skip_le [of "e_lenient env" "e_data env"]
    by (fastforce simp: hv_general_def Let_def split: prod.splits bool.splits)
next
  case HV_assert
  then show ?thesis
    by (simp add: hv_general_def Let_def split: prod.splits bool.splits)
qed

lemma header_value_char_ok:
  assumes "hv_inv env start st" and "h \<notin> {h_connection, h_transfer_encoding}" and "l_p st < e_len env"
    and "e_data env ! l_p st \<noteq> CR" and "e_data env ! l_p st \<noteq> LF"
  shows "case header_value_char env st h of
           HV_go st' h' \<Rightarrow> hv_inv env start st' \<and> h' \<notin> {h_connection, h_transfer_encoding} \<and>
             l_p st \<le> l_p st' \<and> l_p st' < e_len env
         | HV_error e st' \<Rightarrow> e \<noteq> HPE_OK \<and> e \<noteq> HPE_PAUSED \<and> l_p st' \<le> e_len env
         | HV_assert \<Rightarrow> False"
proof (cases "h = h_general")
  case True
  with hv_general_ok [OF assms(1,3-5)] show ?thesis
    by (simp add: header_value_char_def)
next
  case False
  with assms(1-3) show ?thesis
    by (cases h) (auto simp: hv_step_defs hv_inv_def Let_def)
qed

lemma minv_MARK: "minv s (l_p st) (l_marks st) \<Longrightarrow> s \<in> mark_states m \<Longrightarrow> minv s (l_p st) (l_marks (MARK m st))"
  by (auto simp: minv_def MARK_def split: option.split)

text \<open>The body bytes taken: at least one, none beyond the input or the announced length.\<close>

lemma to_read_bounds:
  assumes "content_length (parser st) \<noteq> 0" and "l_p st < e_len env" and "e_len env < 2 ^ 64"
  shows "0 < unat (to_read env st)" and "unat (to_read env st) \<le> e_len env - l_p st"
    and "to_read env st \<le> content_length (parser st)"
proof -
  have len: "unat (of_nat (e_len env - l_p st) :: u64) = e_len env - l_p st"
    using assms(3) by (simp add: unat_of_nat)
  have "0 < unat (content_length (parser st))"
    using assms(1) by (simp add: unat_gt_0)
  with len assms(2) show "0 < unat (to_read env st)" and "unat (to_read env st) \<le> e_len env - l_p st"
    by (auto simp: to_read_def min_def word_le_nat_alt)
  show "to_read env st \<le> content_length (parser st)"
    by (simp add: to_read_def)
qed

lemma consume_body_ok:
  assumes "content_length (parser st) \<noteq> 0" and "content_length (parser st) \<noteq> ULLONG_MAX"
    and "l_p st < e_len env" and "e_len env < 2 ^ 64"
    and "minv s (l_p st) (l_marks st)" and "s \<in> mark_states M_body"
  shows "l_p st \<le> l_p (consume_body env st)" and "l_p (consume_body env st) < e_len env"
    and "content_length (parser (consume_body env st)) \<noteq> ULLONG_MAX"
    and "minv s (l_p (consume_body env st)) (l_marks (consume_body env st))"
proof -
  note n = to_read_bounds [OF assms(1,3,4)]
  show p: "l_p st \<le> l_p (consume_body env st)" and "l_p (consume_body env st) < e_len env"
    using n(1,2) by (auto simp: consume_body_def upd_parser_def Let_def)
  have "unat (content_length (parser st) - to_read env st) < unat ULLONG_MAX"
    using n(1,3) word_le_nat_alt [THEN iffD1, OF word_order.extremum [of "content_length (parser st)"]]
    by (simp add: unat_sub unat_ULLONG_MAX)
  then show "content_length (parser (consume_body env st)) \<noteq> ULLONG_MAX"
    by (auto simp: consume_body_def upd_parser_def Let_def)
  show "minv s (l_p (consume_body env st)) (l_marks (consume_body env st))"
    using minv_mono [OF minv_MARK [OF assms(5,6)] p] by (simp add: consume_body_def upd_parser_def Let_def)
qed

lemma consume_body_simps [simp]:
  "l_state (consume_body env st) = l_state st" "l_nread (consume_body env st) = l_nread st"
  "http_errno (parser (consume_body env st)) = http_errno (parser st)"
  "nread (parser (consume_body env st)) = nread (parser st)"
  "has_flag (parser (consume_body env st)) f = has_flag (parser st) f"
  "one_framing (parser (consume_body env st)) = one_framing (parser st)"
  by (simp_all add: consume_body_def upd_parser_def Let_def)

lemma NEW_MESSAGE_plain [simp]: "plain_state (NEW_MESSAGE P)"
  by (simp add: NEW_MESSAGE_def start_state_def)

lemma unhex_range: "unhex ! ord c = - 1 \<or> (0 \<le> unhex ! ord c \<and> unhex ! ord c < 16)"
proof -
  have "\<forall>v\<in>set unhex. v = - 1 \<or> (0 \<le> v \<and> v < 16)" and "length unhex = 256"
    by (simp_all add: unhex_def)
  then show ?thesis
    by (metis nth_mem ord_less_256)
qed

lemma finish_header_simps [simp]:
  "http_errno (finish_header P) = http_errno P" "nread (finish_header P) = nread P"
  by (simp_all add: finish_header_def split: header_states.split)

lemma set_upgrade_simps [simp]:
  "http_errno (set_upgrade P) = http_errno P" "nread (set_upgrade P) = nread P"
  "has_flag (set_upgrade P) f = has_flag P f"
  by (simp_all add: set_upgrade_def)

text \<open>A chunk size that passes the overflow test grows by one digit without wrap-around.\<close>

lemma hex_step:
  assumes "\<not> (ULLONG_MAX - 16) div 16 < cl" and "0 \<le> v" and "v < 16"
  shows "unat (cl * 16 + word_of_int v) = unat cl * 16 + nat v" and "unat cl * 16 + nat v < 2 ^ 64 - 1"
proof -
  have "unat cl \<le> unat ((ULLONG_MAX - 16) div 16)"
    using assms(1) by (simp add: word_le_nat_alt not_less)
  also have "\<dots> = 1152921504606846974"
    by simp
  finally have cl: "unat cl \<le> 1152921504606846974" .
  then show "unat cl * 16 + nat v < 2 ^ 64 - 1"
    using assms(2,3) by simp
  have "unat (word_of_int v :: u64) = nat v"
    using assms(2,3) by (simp add: unat_eq_nat_uint uint_word_of_int)
  with cl assms show "unat (cl * 16 + word_of_int v) = unat cl * 16 + nat v"
    by (simp add: unat_word_ariths)
qed

lemma hex_step_not_max:
  assumes "\<not> (ULLONG_MAX - 16) div 16 < cl" and "unhex ! ord c \<noteq> - 1"
  shows "cl * 16 + word_of_int (unhex ! ord c) \<noteq> ULLONG_MAX"
proof
  assume "cl * 16 + word_of_int (unhex ! ord c) = ULLONG_MAX"
  then have "unat (cl * 16 + word_of_int (unhex ! ord c)) = 2 ^ 64 - 1"
    by (simp add: unat_ULLONG_MAX)
  with hex_step [OF assms(1), of "unhex ! ord c"] unhex_range [of c] assms(2) show False
    by linarith
qed

lemma unhex_not_max: "unhex ! ord c \<noteq> - 1 \<Longrightarrow> word_of_int (unhex ! ord c) \<noteq> ULLONG_MAX"
  using hex_step_not_max [of 0 c] by simp

lemma FAIL_eq:
  "e \<noteq> HPE_OK \<Longrightarrow>
   FAIL e st = Return (l_p st) ((parser st)\<lparr>nread := l_nread st, http_errno := e, state := l_state st\<rparr>)"
  by (simp add: FAIL_def goto_error_def SET_ERRNO_def upd_parser_def RETURN_def)

lemma one_le_word: "(x :: u32) \<noteq> 0 \<Longrightarrow> 1 \<le> x"
  by (simp add: word_le_nat_alt Suc_le_eq unat_gt_0)

lemma pinv_nread: "s \<noteq> s_chunk_size_start \<Longrightarrow> pinv k s n P = pinv k' s n' P"
  by (simp add: pinv_def)

lemma PARSING_HEADER_chunk [simp]: "PARSING_HEADER s_chunk_size_start"
  by (simp add: PARSING_HEADER_def less_eq_state_def)

context http_callbacks
begin

lemmas ok_cb_rules = ok_NOTIFY ok_DATA

lemma handles_dead: "handles S s_dead exec_dead"
  by (rule handlesI) (auto simp: exec_dead_def handler_simps intro!: ok_rules ok_cb_rules)

lemma handles_start_req_or_res: "handles S s_start_req_or_res exec_start_req_or_res"
  by (rule handlesI) (auto simp: exec_start_req_or_res_def handler_simps intro!: ok_rules ok_cb_rules)

lemma handles_res_or_resp_H: "handles S s_res_or_resp_H exec_res_or_resp_H"
  by (rule handlesI) (auto simp: exec_res_or_resp_H_def handler_simps intro!: ok_rules)

lemma handles_start_req: "handles S s_start_req exec_start_req"
  using method_matcher_length(1)
  by (intro handlesI) (auto simp: exec_start_req_def handler_simps
      intro!: ok_rules ok_cb_rules split: option.split)

lemma handles_req_spaces_before_url: "handles S s_req_spaces_before_url exec_req_spaces_before_url"
proof (rule handlesI)
  fix env :: "'d exec_env" and st
  assume "st_inv 1 env st" "l_p st < e_len env" "l_state st = s_req_spaces_before_url"
  moreover from this have "st_inv 0 env ((MARK M_url st)\<lparr>l_state := s_req_path\<rparr>)"
    by (auto simp: inv_defs)
  ultimately show "ok env (l_p st) (rank s_req_spaces_before_url) (exec_req_spaces_before_url env st)"
    using step_url_ok [of env "MARK M_url st"] step_url_ok [of env "UPDATE_STATE s_req_server_start (MARK M_url st)"]
    by (auto simp: exec_req_spaces_before_url_def Let_def UPDATE_STATE_def inv_defs intro!: ok_Next)
qed

lemma handles_req_schema: "s \<in> url_states \<Longrightarrow> handles S s exec_req_schema"
  by (rule handlesI)
    (auto simp: exec_req_schema_def intro!: ok_rules step_url_ok dest: st_inv_url)

lemma handles_req_url: "s \<in> url_states \<Longrightarrow> handles S s exec_req_url"
proof (rule handlesI)
  fix env :: "'d exec_env" and st
  assume *: "s \<in> url_states" "e_settings env = S" "st_inv 1 env st" "l_p st < e_len env" "l_state st = s"
  then have inv: "st_inv 0 env (st\<lparr>l_state := s_req_path\<rparr>)"
    by (auto dest: st_inv_url)
  have "ok env (l_p st) rk (CALLBACK_DATA env M_url (UPDATE_STATE s' (st\<lparr>parser := P\<rparr>)) Next)"
    if "plain_state s'" "http_errno P = HPE_OK" "nread P = nread (parser st)" for s' P rk
    using * that by (auto simp: macro_defs st_inv_def minv_clear intro!: ok_Next ok_DATA)
  from this [of _ "parser st"] this show "ok env (l_p st) (rank s) (exec_req_url env st)"
    using * inv by (auto simp: exec_req_url_def upd_parser_def st_inv_def intro!: step_url_ok)
qed

lemma handles_header_field_start: "handles S s_header_field_start exec_header_field_start"
  by (rule handlesI) (auto simp: exec_header_field_start_def Let_def UPDATE_STATE_def  upd_parser_def set_header_state_def inv_defs rank_def intro!: ok_rules )

lemma handles_start_res: "handles S s_start_res exec_start_res"
  by (rule handlesI) (auto simp: exec_start_res_def handler_simps intro!: ok_rules ok_cb_rules)

lemma handles_res_http_major: "handles S s_res_http_major exec_res_http_major"
  by (rule handlesI) (auto simp: exec_res_http_major_def handler_simps intro!: ok_rules ok_cb_rules)

lemma handles_res_http_dot: "handles S s_res_http_dot exec_res_http_dot"
  by (rule handlesI) (auto simp: exec_res_http_dot_def handler_simps intro!: ok_rules ok_cb_rules)

lemma handles_res_http_minor: "handles S s_res_http_minor exec_res_http_minor"
  by (rule handlesI) (auto simp: exec_res_http_minor_def handler_simps intro!: ok_rules ok_cb_rules)

lemma handles_res_http_end: "handles S s_res_http_end exec_res_http_end"
  by (rule handlesI) (auto simp: exec_res_http_end_def handler_simps intro!: ok_rules ok_cb_rules)

lemma handles_res_first_status_code: "handles S s_res_first_status_code exec_res_first_status_code"
  by (rule handlesI) (auto simp: exec_res_first_status_code_def handler_simps intro!: ok_rules ok_cb_rules)

lemma handles_res_status_code: "handles S s_res_status_code exec_res_status_code"
  by (rule handlesI) (auto simp: exec_res_status_code_def handler_simps intro!: ok_rules ok_cb_rules)

lemma handles_res_status_start: "handles S s_res_status_start exec_res_status_start"
  by (rule handlesI) (auto simp: exec_res_status_start_def handler_simps intro!: ok_rules ok_cb_rules)

lemma handles_res_status: "handles S s_res_status exec_res_status"
  by (rule handlesI) (auto simp: exec_res_status_def handler_simps intro!: ok_rules ok_cb_rules)

lemma handles_req_http_start: "handles S s_req_http_start exec_req_http_start"
  by (rule handlesI) (auto simp: exec_req_http_start_def handler_simps intro!: ok_rules ok_cb_rules)

lemma handles_req_http_major: "handles S s_req_http_major exec_req_http_major"
  by (rule handlesI) (auto simp: exec_req_http_major_def handler_simps intro!: ok_rules ok_cb_rules)

lemma handles_req_http_dot: "handles S s_req_http_dot exec_req_http_dot"
  by (rule handlesI) (auto simp: exec_req_http_dot_def handler_simps intro!: ok_rules ok_cb_rules)

lemma handles_req_http_minor: "handles S s_req_http_minor exec_req_http_minor"
  by (rule handlesI) (auto simp: exec_req_http_minor_def handler_simps intro!: ok_rules ok_cb_rules)

lemma handles_req_http_end: "handles S s_req_http_end exec_req_http_end"
  by (rule handlesI) (auto simp: exec_req_http_end_def handler_simps intro!: ok_rules ok_cb_rules)

lemma handles_req_line_almost_done: "handles S s_req_line_almost_done exec_req_line_almost_done"
  by (rule handlesI) (auto simp: exec_req_line_almost_done_def handler_simps intro!: ok_rules ok_cb_rules)

lemma handles_expect:
  "plain_state s \<Longrightarrow> plain_state s' \<Longrightarrow> handles S s (\<lambda>_. exec_expect c s')"
  by (rule handlesI) (auto simp: exec_expect_def UPDATE_STATE_def st_inv_def intro!: ok_rules)

lemma handles_header_value_start:
  assumes "plain_state s" shows "handles S s exec_header_value_start"
proof (rule handlesI)
  fix env :: "'d exec_env" and st
  assume *: "st_inv 1 env st" "l_p st < e_len env" "l_state st = s"
  have next_ok: "ok env (l_p st) rk (Next ((MARK M_header_value st)\<lparr>l_state := s_header_value, parser := P\<rparr>))"
    if "http_errno P = HPE_OK" "nread P = nread (parser st)"
      "header_state P \<notin> {h_connection, h_transfer_encoding}" for P rk
    using * assms that by (simp add: ok_def MARK_def st_inv_def) (simp add: minv_def)
  show "ok env (l_p st) (rank s) (exec_header_value_start env st)"
  proof (cases "header_state (parser st)")
  qed (use * in \<open>auto simp: exec_header_value_start_def Let_def upd_parser_def set_header_state_def
      UPDATE_STATE_def st_inv_def intro!: next_ok ok_if ok_FAIL\<close>)
qed

lemma handles_req_method: "handles S s_req_method exec_req_method"
proof (rule handlesI)
  fix env :: "'d exec_env" and st
  assume *: "st_inv 1 env st" "l_p st < e_len env" "l_state st = s_req_method"
  let ?m = "req_method (parser st)" and ?i = "unat (index (parser st))"
  have i: "?i \<le> length (method_matcher ?m)" "unat (index (parser st) + 1) = ?i + 1"
    using * method_matcher_length(2) [of ?m] by (auto simp: st_inv_def index_Suc)
  have next_ok: "ok env (l_p st) rk (Next (st\<lparr>parser := P\<rparr>))"
    if "unat (index P) \<le> length (method_matcher (req_method P))"
      "http_errno P = HPE_OK" "nread P = nread (parser st)" for P rk
    using * that by (auto simp: inv_defs intro!: ok_Next)
  have "ok env (l_p st) rk (Next (bump_index st))"
    if "l_ch st \<noteq> NUL" "l_ch st = cstr_at (method_matcher ?m) ?i" for rk
  proof -
    have "?i + 1 \<le> length (method_matcher ?m)"
      using that i(1) by (cases "?i < length (method_matcher ?m)") auto
    then show ?thesis
      using next_ok [of "(parser st)\<lparr>index := index (parser st) + 1\<rparr>"] * i(2)
      by (simp add: bump_index_def upd_parser_def st_inv_def)
  qed
  moreover have "ok env (l_p st) rk (Next (bump_index (upd_parser (req_method_update (\<lambda>_. m)) st)))"
    if "method_switch ?m ?i c = Some m" for rk m c
    using next_ok [of "(parser st)\<lparr>req_method := m, index := index (parser st) + 1\<rparr>"] * i(2)
      method_switch_length [OF that]
    by (simp add: bump_index_def upd_parser_def st_inv_def)
  moreover have "ok env (l_p st) rk (Next (bump_index (UPDATE_STATE s_req_spaces_before_url st)))" for rk
    using * by (auto simp: bump_index_def upd_parser_def UPDATE_STATE_def inv_defs intro!: ok_Next)
  ultimately show "ok env (l_p st) (rank s_req_method) (exec_req_method env st)"
    using i(1) *(2) by (auto simp: exec_req_method_def Let_def intro!: ok_FAIL split: option.split)
qed


section \<open>Header names and values\<close>

lemma handles_header_field: "handles S s_header_field exec_header_field"
proof (rule handlesI)
  fix env :: "'d exec_env" and st
  assume *: "e_settings env = S" "st_inv 1 env st" "l_p st < e_len env" "l_state st = s_header_field"
  let ?mx = "unat (e_max_header_size env)"
  obtain p ch idx h where loop: "header_field_loop (e_data env) ?mx (l_p st) (l_ch st)
      (index (parser st)) (header_state (parser st)) = Some (p, ch, idx, h)"
    and h: "h \<in> field_states" and p: "l_p st \<le> p" "p \<le> e_len env"
    using header_field_loop_ok [of "header_state (parser st)" "l_p st" "e_data env" ?mx "l_ch st"
        "index (parser st)"] *
    by (simp add: st_inv_def) blast
  have ms: "minv s_header_field q (l_marks st)" if "l_p st \<le> q" for q
    using * that by (auto simp: st_inv_def intro: minv_mono)
  show "ok env (l_p st) (rank s_header_field) (exec_header_field env st)"
    unfolding exec_header_field_def Let_def loop option.case prod.case
    using * h p ms [of "e_len env - 1"]
    by (auto simp: Let_def macro_defs st_inv_def minv_clear intro!: ok_rules ok_cb_rules)
qed

lemma handles_header_value_discard_ws: "handles S s_header_value_discard_ws exec_header_value_discard_ws"
proof (rule handlesI)
  fix env :: "'d exec_env" and st
  assume *: "e_settings env = S" "e_len env < 2 ^ 64" "st_inv 1 env st" "l_p st < e_len env"
    "l_state st = s_header_value_discard_ws"
  then have "ok env (l_p st) (rank s_header_value_discard_ws) (exec_header_value_start env st)"
    by (intro handlesD [OF handles_header_value_start]) simp_all
  moreover have "ok env (l_p st) rk (Next (UPDATE_STATE s st))" if "plain_state s" for s rk
    using * that by (auto simp: UPDATE_STATE_def st_inv_def intro!: ok_Next)
  moreover have "UPDATE_STATE s_header_value_discard_ws st = st"
    using * by (simp add: UPDATE_STATE_def)
  ultimately show "ok env (l_p st) (rank s_header_value_discard_ws) (exec_header_value_discard_ws env st)"
    by (metis exec_header_value_discard_ws_def plain_state_simps)
qed

lemma header_value_loop_ok:
  "e_settings env = S \<Longrightarrow> hv_inv env start st \<Longrightarrow> h \<notin> {h_connection, h_transfer_encoding} \<Longrightarrow>
   start \<le> l_p st \<Longrightarrow> l_p st \<le> e_len env \<Longrightarrow> start < e_len env \<Longrightarrow>
   ok env start (rank s_header_value) (header_value_loop env start h st)"
proof (induction env start h st rule: header_value_loop.induct)
  case (1 env start h st0)
  let ?st = "st0\<lparr>l_ch := e_data env ! l_p st0\<rparr>"
  show ?case
  proof (cases "l_p st0 < e_len env")
    case False
    then show ?thesis
      using 1(2-) by (subst header_value_loop.simps)
        (auto simp: header_value_finish_def set_header_state_def upd_parser_def Let_def hv_inv_def
          st_inv_def intro!: ok_rules minv_mono [of _ start])
  next
    case True
    consider "l_ch ?st = CR \<or> l_ch ?st = LF \<or> \<not> e_lenient env \<and> \<not> IS_HEADER_CHAR (l_ch ?st)"
      | "l_ch ?st \<noteq> CR" "l_ch ?st \<noteq> LF" "e_lenient env \<or> IS_HEADER_CHAR (l_ch ?st)"
      by blast
    then show ?thesis
    proof cases
      case 1
      have clr: "(l_marks st0)(M_header_value := None) = (\<lambda>_. None)"
        using "1.prems"(2) by (auto simp: hv_inv_def intro!: minv_clear)
      show ?thesis
        using 1 True "1.prems"
        by (subst header_value_loop.simps)
          (auto simp: header_value_finish_def set_header_state_def macro_defs Let_def hv_inv_def
            st_inv_def clr rank_def intro!: ok_rules ok_cb_rules)
    next
      case 2
      have inv: "hv_inv env start ?st"
        using "1.prems"(2) by (simp add: hv_inv_def)
      show ?thesis
        using header_value_char_ok [OF inv "1.prems"(3)] 2 True "1.prems" "1.IH" [OF True refl refl]
        by (subst header_value_loop.simps)
          (auto simp: Let_def hv_inv_def split: hv_step.split intro!: ok_FAIL minv_mono)
    qed
  qed
qed

lemma handles_header_value: "handles S s_header_value exec_header_value"
  by (rule handlesI)
    (auto simp: exec_header_value_def hv_inv_def st_inv_def intro!: header_value_loop_ok)

lemma handles_header_almost_done: "handles S s_header_almost_done exec_header_almost_done"
  by (rule handlesI)
    (auto simp: exec_header_almost_done_def UPDATE_STATE_def st_inv_def intro!: ok_rules)

lemma handles_header_value_lws: "handles S s_header_value_lws exec_header_value_lws"
  by (rule handlesI)
    (auto simp: exec_header_value_lws_def UPDATE_STATE_def upd_parser_def set_header_state_def
      st_inv_def rank_def intro!: ok_rules)

lemma handles_header_value_discard_lws:
  "handles S s_header_value_discard_lws exec_header_value_discard_lws"
  by (rule handlesI)
    (auto simp: exec_header_value_discard_lws_def macro_defs st_inv_def rank_def MARK_def
      intro!: ok_rules ok_cb_rules)

section \<open>End of the headers and bodies\<close>

lemma headers_complete_ok:
  assumes "e_settings env = S" and "st_inv 1 env st" and "l_p st < e_len env"
    and "l_state st = s_headers_done"
    and "p0 \<le> l_p st" and "2 < rk"
  shows "ok env p0 rk (headers_complete env st)"
proof (cases "on_headers_complete S")
  case None
  with assms show ?thesis
    by (auto simp: headers_complete_def Let_def st_inv_def rank_def intro!: ok_rules)
next
  case (Some f)
  then have "cb_frame f"
    by (intro notify_frame) (simp add: notify_cbs_def)
  then obtain r d e where "f (parser st) = (r, (parser st)\<lparr>http_errno := e, data := d\<rparr>)"
    and "e = HPE_OK \<or> e = HPE_PAUSED"
    using assms(2) by (auto simp: cb_frame_def st_inv_def dest: spec [of _ "parser st"])
  with assms Some show ?thesis
    by (auto simp: headers_complete_def Let_def st_inv_def rank_def upd_parser_def SET_ERRNO_def
        intro!: ok_rules ok_RETURN)
qed

lemma handles_headers_almost_done: "handles S s_headers_almost_done exec_headers_almost_done"
  by (rule handlesI)
    (auto simp: exec_headers_almost_done_def macro_defs st_inv_def rank_def notify_cbs_def one_framing_def
      intro!: ok_rules ok_cb_rules headers_complete_ok)

lemma complete_message_ok:
  assumes "e_settings env = S" and "st_inv 1 env st" and "l_p st < e_len env" and "l_marks st = (\<lambda>_. None)"
   and "\<And>st'. l_p st' = l_p st \<Longrightarrow> plain_state (l_state st') \<Longrightarrow> l_marks st' = (\<lambda>_. None) \<Longrightarrow> 
     http_errno (parser st') = HPE_OK \<Longrightarrow> l_nread st' = l_nread st \<Longrightarrow> nread (parser st') = nread (parser st) \<Longrightarrow>
     upgrade (parser st') = upgrade (parser st) \<Longrightarrow> ok env p0 rk (k st')"
  shows "ok env p0 rk (complete_message env st k)"
  using assms
  by (auto simp: complete_message_def macro_defs st_inv_def notify_cbs_def intro!: ok_cb_rules)

lemma handles_headers_done: "handles S s_headers_done exec_headers_done"
proof (rule handlesI)
  fix env :: "'d exec_env" and st
  assume *: "e_settings env = S" "st_inv 1 env st" "l_p st < e_len env" "l_state st = s_headers_done"
  let ?st = "reset_nread st" and ?ok = "ok env (l_p st) (rank s_headers_done)"
  have inv: "st_inv 1 env ?st" "l_marks ?st = (\<lambda>_. None)" "l_p ?st = l_p st" "l_nread ?st = 0"
    using * by (auto simp: st_inv_def reset_nread_def upd_parser_def)
  have framing: "one_framing (parser ?st)"
    using inv(1) *(4) by (simp add: st_inv_def reset_nread_def upd_parser_def)
  have "?ok (complete_message env ?st Next)"
    using * inv by (auto simp: st_inv_def intro!: complete_message_ok ok_Next)
  moreover have "upgrade (parser ?st) \<Longrightarrow> ?ok (complete_message env ?st (\<lambda>st. RETURN (l_p st + 1) st))"
    using * inv by (auto simp: st_inv_def intro!: complete_message_ok ok_RETURN)
  moreover have "pinv 0 s 0 (parser ?st) \<Longrightarrow> ?ok (Next (UPDATE_STATE s ?st))" for s
    using * inv by (auto simp: st_inv_def UPDATE_STATE_def intro!: ok_Next)
  ultimately show "?ok (exec_headers_done env st)"
    unfolding exec_headers_done_def Let_def using *(3) framing by (intro ok_STRICT_CHECK ok_if) auto
qed

lemma handles_body_identity_eof: "handles S s_body_identity_eof exec_body_identity_eof"
proof (rule handlesI)
  fix env :: "'d exec_env" and st
  assume *: "st_inv 1 env st" "l_p st < e_len env" "l_state st = s_body_identity_eof"
  then have "minv s_body_identity_eof (e_len env - 1) (l_marks (MARK M_body st))"
    by (intro minv_mono [OF minv_MARK]) (auto simp: st_inv_def)
  with * show "ok env (l_p st) (rank s_body_identity_eof) (exec_body_identity_eof env st)"
    by (auto simp: exec_body_identity_eof_def st_inv_def intro!: ok_Next)
qed

lemma handles_body_identity: "handles S s_body_identity exec_body_identity"
proof (rule handlesI)
  fix env :: "'d exec_env" and st
  assume *: "e_settings env = S" "e_len env < 2 ^ 64" "st_inv 1 env st" "l_p st < e_len env"
    "l_state st = s_body_identity"
  then have "content_length (parser st) \<noteq> 0" "content_length (parser st) \<noteq> ULLONG_MAX"
    "minv s_body_identity (l_p st) (l_marks st)"
    by (simp_all add: st_inv_def)
  note c = consume_body_ok [OF this(1,2) *(4,2) this(3)]
  show "ok env (l_p st) (rank s_body_identity) (exec_body_identity env st)"
    using * c by (auto simp: exec_body_identity_def Let_def UPDATE_STATE_def st_inv_def rank_def minv_clear
        intro!: ok_rules ok_cb_rules)
qed

lemma handles_chunk_data: "handles S s_chunk_data exec_chunk_data"
proof (rule handlesI)
  fix env :: "'d exec_env" and st
  assume *: "e_len env < 2 ^ 64" "st_inv 1 env st" "l_p st < e_len env" "l_state st = s_chunk_data"
  then have "content_length (parser st) \<noteq> 0" "content_length (parser st) \<noteq> ULLONG_MAX"
    "minv s_chunk_data (l_p st) (l_marks st)"
    by (simp_all add: st_inv_def)
  note c = consume_body_ok [OF this(1,2) *(3,1) this(3)]
  have "minv s_chunk_data_almost_done p ms = minv s_chunk_data p ms" for p ms
    by (simp add: minv_unfold url_states_def)
  then show "ok env (l_p st) (rank s_chunk_data) (exec_chunk_data env st)"
    using * c by (auto simp: exec_chunk_data_def Let_def UPDATE_STATE_def st_inv_def intro!: ok_rules)
qed

lemma handles_message_done: "handles S s_message_done exec_message_done"
  by (rule handlesI)
    (auto simp: exec_message_done_def st_inv_def intro!: ok_rules complete_message_ok ok_RETURN)

lemma handles_chunk_size_start: "handles S s_chunk_size_start exec_chunk_size_start"
  by (rule handlesI)
    (auto simp: exec_chunk_size_start_def Let_def macro_defs st_inv_def unhex_not_max intro!: ok_rules)

lemma handles_chunk_size: "handles S s_chunk_size exec_chunk_size"
proof (rule handlesI)
  fix env :: "'d exec_env" and st
  assume "st_inv 1 env st" "l_p st < e_len env" "l_state st = s_chunk_size"
  moreover define v where "v = unhex ! ord (l_ch st)"
  moreover have "cl * 16 + word_of_int v \<noteq> ULLONG_MAX"
    if "\<not> (ULLONG_MAX - 16) div 16 < cl" "v \<noteq> - 1" for cl
    using hex_step_not_max that by (simp add: v_def)
  ultimately show "ok env (l_p st) (rank s_chunk_size) (exec_chunk_size env st)"
    unfolding exec_chunk_size_def v_def [symmetric]
    by (auto simp: Let_def macro_defs st_inv_def intro!: ok_rules)
qed

lemma handles_chunk_parameters: "handles S s_chunk_parameters exec_chunk_parameters"
  by (rule handlesI)
    (auto simp: exec_chunk_parameters_def macro_defs st_inv_def intro!: ok_rules)

lemma handles_chunk_size_almost_done: "handles S s_chunk_size_almost_done exec_chunk_size_almost_done"
  by (rule handlesI)
    (auto simp: exec_chunk_size_almost_done_def Let_def macro_defs reset_nread_def st_inv_def notify_cbs_def
      intro!: ok_rules ok_cb_rules)

lemma handles_chunk_data_almost_done: "handles S s_chunk_data_almost_done exec_chunk_data_almost_done"
  by (rule handlesI)
    (auto simp: exec_chunk_data_almost_done_def Let_def macro_defs st_inv_def minv_clear
      intro!: ok_rules ok_cb_rules)

lemma handles_chunk_data_done: "handles S s_chunk_data_done exec_chunk_data_done"
  by (rule handlesI)
    (auto simp: exec_chunk_data_done_def Let_def macro_defs reset_nread_def st_inv_def notify_cbs_def
      intro!: ok_rules ok_cb_rules)

section \<open>The switch and the loops\<close>

lemmas handles_all =
  handles_dead handles_start_req_or_res handles_res_or_resp_H handles_start_res
  handles_res_http_major handles_res_http_dot handles_res_http_minor handles_res_http_end
  handles_res_first_status_code handles_res_status_code handles_res_status_start handles_res_status
  handles_start_req handles_req_method handles_req_spaces_before_url handles_req_http_start handles_req_http_major handles_req_http_dot
  handles_req_http_minor handles_req_http_end handles_req_line_almost_done
  handles_header_field_start handles_header_field handles_header_value_discard_ws
  handles_header_value_discard_lws handles_header_value_start [OF plain_state_simps(35)] handles_header_value
  handles_header_value_lws handles_header_almost_done handles_headers_almost_done
  handles_headers_done handles_body_identity handles_body_identity_eof handles_message_done
  handles_chunk_size_start handles_chunk_size handles_chunk_parameters
  handles_chunk_size_almost_done handles_chunk_data handles_chunk_data_almost_done
  handles_chunk_data_done

lemma exec_switch_ok: "handles S s exec_switch"
proof (rule handlesI)
  fix env :: "'d exec_env" and st
  assume *: "e_settings env = S" "e_len env < 2 ^ 64" "st_inv 1 env st" "l_p st < e_len env" "l_state st = s"
  note h = handles_all [THEN handlesD, OF *(1-4)]
    and url = handlesD [OF handles_req_url, OF _ *(1-4)] handlesD [OF handles_req_schema, OF _ *(1-4)]
    and expect = handlesD [OF handles_expect, OF _ _ *(1-4)]
  show "ok env (l_p st) (rank s) (exec_switch env st)"
    unfolding exec_switch_def using *(5)
    by (cases s) (simp_all add: h url expect url_states_def)
qed

text \<open>The \<open>goto reexecute\<close> loop stops, because every jump lowers the rank.\<close>

lemma exec_reexecute_ok:
  assumes "e_settings env = S" and "e_len env < 2 ^ 64"
  shows "st_inv 1 env st \<Longrightarrow> l_p st < e_len env \<Longrightarrow>
    \<exists>r. exec_reexecute env st = Some r \<and> ok env (l_p st) 0 r"
proof (induction "rank (l_state st)" arbitrary: st rule: less_induct)
  case less
  have ok: "ok env (l_p st) (rank (l_state st)) (exec_switch env st)"
    by (rule handlesD [OF exec_switch_ok assms less.prems refl])
  show ?case
  proof (cases "exec_switch env st")
    case (Reexecute st')
    with ok have st': "st_inv 1 env st'" "l_p st' < e_len env" "rank (l_state st') < rank (l_state st)"
      and p: "l_p st \<le> l_p st'"
      by (auto simp: ok_def)
    from less.hyps [OF st'(3,1,2)] obtain r
      where r: "exec_reexecute env st' = Some r" "ok env (l_p st') 0 r"
      by blast
    with p have "ok env (l_p st) 0 r"
      by (auto simp: ok_def split: outcome.splits)
    with r Reexecute show ?thesis
      by (simp add: exec_reexecute.simps [of env st])
  qed (use ok in \<open>auto simp: exec_reexecute.simps [of env st] ok_def\<close>)
qed

lemma exec_epilogue_ok:
  assumes "e_settings env = S" and "st_inv 0 env st" and "l_p st = e_len env"
  shows "ok env p0 rk (exec_epilogue env st)"
proof (cases "l_marks st = (\<lambda>_. None)")
  case True
  with assms show ?thesis
    by (auto simp: exec_epilogue_def mark_count_def CALLBACK_DATA_NOADVANCE_def CALLBACK_DATA_er_def
        st_inv_def intro!: ok_rules ok_RETURN)
next
  case False
  then obtain m i where m: "l_marks st m = Some i"
    by (auto simp: fun_eq_iff)
  with assms(2) have s: "l_state st \<in> mark_states m" and "minv (l_state st) (l_p st) (l_marks st)"
    by (auto simp: st_inv_def minv_def)
  then have "(l_marks st)(m := None) = (\<lambda>_. None)"
    by (intro minv_clear)
  then have "l_marks st m' = None" if "m' \<noteq> m" for m'
    using that by (metis fun_upd_other)
  then have "mark_count st \<le> 1"
    by (cases m) (simp_all add: mark_count_def)
  moreover have "l_state st \<noteq> s_chunk_size_start"
    using s by (cases m) (auto simp: url_states_def)
  ultimately show ?thesis
    unfolding exec_epilogue_def macro_defs using assms
    by (auto simp: st_inv_def pinv_nread [where s = "l_state st" and n = "nread (parser st)" and k' = 0 and n' = "l_nread st"]
        intro!: ok_DATA ok_RETURN)
qed

lemma exec_byte_ok:
  assumes "st_inv 0 env st" and "l_p st < e_len env"
  shows "case exec_byte env st of
      Reexecute st' \<Rightarrow> st_inv 1 env st' \<and> l_p st' = l_p st
    | r \<Rightarrow> ok env (l_p st) 0 r"
proof (cases "l_state st = s_chunk_size_start")
  case True
  with assms show ?thesis
    by (auto simp: exec_byte_def COUNT_HEADER_SIZE_def Let_def st_inv_def FAIL_eq ok_def ret_ok_def parser_inv_def
        one_le_word)
next
  case False
  with assms show ?thesis
    using pinv_nread [where s = "l_state st" and k = 1 and k' = 0 and n' = "l_nread st"]
    by (auto simp: exec_byte_def COUNT_HEADER_SIZE_def Let_def st_inv_def FAIL_eq ok_def ret_ok_def parser_inv_def)
qed

lemma exec_loop_ok:
  assumes "e_settings env = S" and "e_len env < 2 ^ 64"
  shows "st_inv 0 env st \<Longrightarrow> l_p st \<le> e_len env \<Longrightarrow>
    \<exists>n P. exec_loop env st = Some (Return n P) \<and> ret_ok env n P"
proof (induction "e_len env - l_p st" arbitrary: st rule: less_induct)
  case less
  show ?case
  proof (cases "l_p st = e_len env")
    case True
    with exec_epilogue_ok [OF assms(1) less.prems(1), of "e_len env" 0] True show ?thesis
      by (cases "exec_epilogue env st") (auto simp: exec_loop.simps [of env st] ok_def)
  next
    case False
    with less.prems have p: "l_p st < e_len env"
      by simp
    note byte = exec_byte_ok [OF less.prems(1) p]
    show ?thesis
    proof (cases "exec_byte env st")
      case (Reexecute st')
      with byte have st': "st_inv 1 env st'" "l_p st' = l_p st"
        by simp_all
      with exec_reexecute_ok [OF assms, of st'] p obtain r
        where r: "exec_reexecute env st' = Some r" "ok env (l_p st) 0 r"
        by auto
      show ?thesis
      proof (cases r)
        case (Next st2)
        with r(2) have "st_inv 0 env (st2\<lparr>l_p := l_p st2 + 1\<rparr>)" and "l_p st \<le> l_p st2" "l_p st2 < e_len env"
          by (auto simp: ok_def st_inv_def intro: minv_mono)
        then have "\<exists>n P. exec_loop env (st2\<lparr>l_p := l_p st2 + 1\<rparr>) = Some (Return n P) \<and> ret_ok env n P"
          using p by (intro less.hyps) simp_all
        with Next r(1) Reexecute False show ?thesis
          by (simp add: exec_loop.simps [of env st])
      qed (use r Reexecute False in \<open>auto simp: exec_loop.simps [of env st] ok_def\<close>)
    qed (use byte False in \<open>auto simp: exec_loop.simps [of env st] ok_def exec_byte_def COUNT_HEADER_SIZE_def
        FAIL_eq Let_def split: if_splits\<close>)
  qed
qed

lemma initial_st_inv:
  assumes "parser_inv mx P" and "http_errno P = HPE_OK" and "e_max_header_size env = mx"
  shows "st_inv 0 env (initial_st P)"
proof -
  have "minv s 0 (initial_marks s)" for s
    by (auto simp: minv_def initial_marks_def url_states_def split: if_splits)
  with assms show ?thesis
    by (auto simp: parser_inv_def initial_st_def st_inv_def)
qed

lemma exec_eof_ok:
  assumes "parser_inv mx P" and "http_errno P = HPE_OK"
  shows "\<exists>n P'. exec_eof S P = Return n P' \<and> n \<le> 1 \<and> parser_inv mx P'"
proof (cases "state P = s_body_identity_eof")
  case True
  let ?env = "\<lparr>e_settings = S, e_data = [], e_max_header_size = mx, e_lenient = False\<rparr>"
  have fin: "ok ?env 0 0 (Return 0 P')" if "parser_inv mx P'" for P'
    using that by (simp add: ok_def ret_ok_def)
  have "ok ?env 0 0 (exec_eof S P)"
    unfolding exec_eof_def Let_def CALLBACK_NOTIFY_NOADVANCE_def using assms True
    by (auto intro!: ok_NOTIFY fin simp: notify_cbs_def initial_st_def parser_inv_def)
  then show ?thesis
    by (cases "exec_eof S P") (auto simp: ok_def ret_ok_def)
next
  case False
  with assms show ?thesis
    by (auto simp: exec_eof_def Let_def initial_st_def SET_ERRNO_def upd_parser_def parser_inv_def)
qed

theorem execute_ok:
  assumes "parser_inv mx P" and "length dat < 2 ^ 64"
  shows "\<exists>n P'. http_parser_execute mx S P dat = Some (Return n P') \<and> parser_inv mx P' \<and>
    n \<le> max 1 (length dat) \<and>
    (http_errno P = HPE_OK \<and> http_errno P' = HPE_OK \<and> dat \<noteq> [] \<longrightarrow> n = length dat \<or> upgrade P')"
proof (cases "http_errno P = HPE_OK \<and> dat \<noteq> []")
  case True
  let ?env = "\<lparr>e_settings = S, e_data = dat, e_max_header_size = mx, e_lenient = lenient_http_headers P\<rparr>"
  have "\<exists>n P'. exec_loop ?env (initial_st P) = Some (Return n P') \<and> ret_ok ?env n P'"
    using assms True by (intro exec_loop_ok) (simp_all add: initial_st_inv, simp add: initial_st_def)
  with True show ?thesis
    by (auto simp: http_parser_execute_def ret_ok_def)
next
  case False
  with assms exec_eof_ok [OF assms(1)] show ?thesis
    by (auto simp: http_parser_execute_def)
qed

end

section \<open>Reachable parsers\<close>

inductive parser_reach :: "u32 \<Rightarrow> 'd http_parser_settings \<Rightarrow> 'd http_parser \<Rightarrow> bool"
  for mx :: u32 and S :: "'d http_parser_settings" where
  init: "parser_reach mx S (http_parser_init t d)"
| execute: "parser_reach mx S P \<Longrightarrow> length dat < 2 ^ 64 \<Longrightarrow>
    http_parser_execute mx S P dat = Some (Return n P') \<Longrightarrow> parser_reach mx S P'"
| pause: "parser_reach mx S P \<Longrightarrow> http_parser_pause b P = Some P' \<Longrightarrow> parser_reach mx S P'"

lemma http_parser_init_inv: "parser_inv mx (http_parser_init t d)"
  by (simp add: parser_inv_def http_parser_init_def)

lemma http_parser_pause_inv:
  "parser_inv mx P \<Longrightarrow> http_parser_pause b P = Some P' \<Longrightarrow> parser_inv mx P'"
  by (auto simp: parser_inv_def http_parser_pause_def split: if_splits)

lemma parser_reach_inv:
  assumes "http_callbacks S" and "parser_reach mx S P"
  shows "parser_inv mx P"
  using assms(2)
proof induction
  case (execute P dat n P')
  with http_callbacks.execute_ok [OF assms(1), of mx P dat] show ?case
    by auto
qed (auto intro: http_parser_init_inv http_parser_pause_inv)

interpretation no_callbacks: http_callbacks http_parser_settings_init
proof
  show "cb_frame f" if "Some f \<in> set (notify_cbs http_parser_settings_init)" for f
    using that by (simp add: notify_cbs_def http_parser_settings_init_def)
  show "cb_frame (\<lambda>P. g P s)" if "on_data http_parser_settings_init m = Some g" for m g s
    using that by (cases m) (simp_all add: http_parser_settings_init_def)
qed

text \<open>
  C1: Every call of \<open>http_parser_execute\<close> on a reachable parser, with any bytes and any
  callback table that keeps the contract, returns: no loop runs forever, no assertion fails,
  no string literal is read past its end. It never claims more bytes than it was given (one,
  for the end-of-input call), and without an error it has consumed all of them unless the
  message asks for an upgrade.
\<close>

theorem http_parser_execute_returns:
  assumes "http_callbacks S" and "parser_reach mx S P" and "length dat < 2 ^ 64"
  shows "\<exists>n P'. http_parser_execute mx S P dat = Some (Return n P') \<and> parser_reach mx S P' \<and>
    n \<le> max 1 (length dat) \<and>
    (http_errno P = HPE_OK \<and> http_errno P' = HPE_OK \<and> dat \<noteq> [] \<longrightarrow> n = length dat \<or> upgrade P')"
  using http_callbacks.execute_ok [OF assms(1) parser_reach_inv [OF assms(1,2)] assms(3)]
    parser_reach.execute [OF assms(2,3)]
  by blast

theorem http_parser_execute_returns_witness:
  "\<exists>n P'. http_parser_execute 80 http_parser_settings_init (http_parser_init HTTP_REQUEST ()) ''GET '' =
     Some (Return n P') \<and> n \<le> 4"
  using http_parser_execute_returns [OF no_callbacks.http_callbacks_axioms parser_reach.init,
      of "''GET ''" 80 HTTP_REQUEST "()"]
  by auto

text \<open>
  C2: On a reachable parser that is not in error the framing of a body is never ambiguous: in
  the chunked states \<open>F_CHUNKED\<close> is set and \<open>F_CONTENTLENGTH\<close> is not, in the identity-body
  states \<open>F_CHUNKED\<close> is not set, and a body with a length has a nonzero length below
  \<open>ULLONG_MAX\<close> left to read.
\<close>

theorem body_framing_unambiguous:
  assumes "http_callbacks S" and "parser_reach mx S P"
    and "http_errno P = HPE_OK \<or> http_errno P = HPE_PAUSED"
  shows "(state P \<in> chunk_states \<longrightarrow> has_flag P F_CHUNKED \<and> \<not> has_flag P F_CONTENTLENGTH) \<and>
    (state P \<in> {s_body_identity, s_body_identity_eof} \<longrightarrow> \<not> has_flag P F_CHUNKED) \<and>
    (state P \<in> {s_body_identity, s_chunk_data} \<longrightarrow>
       0 < content_length P \<and> content_length P < ULLONG_MAX)"
proof -
  have "pinv 0 (state P) (nread P) P"
    using parser_reach_inv [OF assms(1,2)] assms(3) by (auto simp: parser_inv_def)
  moreover have "x < ULLONG_MAX" if "x \<noteq> ULLONG_MAX" for x :: u64
    using that word_order.not_eq_extremum by auto
  ultimately show ?thesis
    by (auto simp: pinv_def one_framing_def word_gt_0)
qed

text \<open>A request head that announces five body bytes, for the witnesses.\<close>

definition example_head :: string where
  "example_head = ''POST / HTTP/1.1'' @ [CR, LF] @ ''Content-Length: 5'' @ [CR, LF, CR, LF]"

definition example_run :: "unit http_parser option" where
  "example_run =
     (case http_parser_execute 80 http_parser_settings_init (http_parser_init HTTP_REQUEST ()) example_head of
        Some (Return n P) \<Rightarrow> Some P
      | _ \<Rightarrow> None)"

lemma example_run_reach: "example_run = Some P \<Longrightarrow> parser_reach 80 http_parser_settings_init P"
  using parser_reach.execute [OF parser_reach.init, of example_head 80 http_parser_settings_init]
  by (auto simp: example_run_def example_head_def split: option.splits outcome.splits)

lemma example_run_state:
  "\<exists>P. example_run = Some P \<and> state P = s_body_identity \<and> http_errno P = HPE_OK \<and> content_length P = 5"
proof -
  have "case example_run of None \<Rightarrow> False
      | Some P \<Rightarrow> state P = s_body_identity \<and> http_errno P = HPE_OK \<and> content_length P = 5"
    by code_simp
  then show ?thesis
    by (auto split: option.splits)
qed

theorem body_framing_unambiguous_witness:
  "\<exists>P. example_run = Some P \<and> state P = s_body_identity \<and> \<not> has_flag P F_CHUNKED \<and>
     0 < content_length P \<and> content_length P < ULLONG_MAX"
proof -
  obtain P where P: "example_run = Some P" "state P = s_body_identity" "http_errno P = HPE_OK"
    using example_run_state by blast
  show ?thesis
    using body_framing_unambiguous
      [OF no_callbacks.http_callbacks_axioms example_run_reach [OF P(1)] disjI1 [OF P(3)]] P
    by auto
qed

text \<open>
  C3: The header limit is enforced on every path: on a reachable parser that is not in error
  the count of header bytes is at most the limit in force, whatever the input was.
\<close>

theorem header_bytes_bounded:
  assumes "http_callbacks S" and "parser_reach mx S P"
    and "http_errno P = HPE_OK \<or> http_errno P = HPE_PAUSED"
  shows "nread P \<le> mx"
  using parser_reach_inv [OF assms(1,2)] assms(3) by (auto simp: parser_inv_def)

theorem header_bytes_bounded_witness: "\<exists>P. example_run = Some P \<and> nread P \<le> 80"
proof -
  obtain P where P: "example_run = Some P" "http_errno P = HPE_OK"
    using example_run_state by blast
  show ?thesis
    using header_bytes_bounded
      [OF no_callbacks.http_callbacks_axioms example_run_reach [OF P(1)] disjI1 [OF P(2)]] P(1)
    by auto
qed

end
