(* ===== verification/Http_Message.thy ===== *)
theory Http_Message
  imports Http_Safety
begin

text \<open>
  What \<open>http_parser_execute\<close> computes: which request methods it recognises, which lengths it
  reads from \<open>Content-Length\<close> and from chunk headers, and which bytes of a body it delivers.
\<close>

section \<open>Single steps of the byte loop\<close>

definition load_byte :: "'d exec_env \<Rightarrow> 'd exec_st \<Rightarrow> 'd exec_st" where
  "load_byte env st =
     st\<lparr>l_ch := e_data env ! l_p st,
        l_nread := (if PARSING_HEADER (l_state st) then l_nread st + 1 else l_nread st)\<rparr>"

lemma load_byte_simps [simp]:
  "parser (load_byte env st) = parser st" "l_p (load_byte env st) = l_p st"
  "l_ch (load_byte env st) = e_data env ! l_p st" "l_state (load_byte env st) = l_state st"
  "l_marks (load_byte env st) = l_marks st"
  by (simp_all add: load_byte_def)

lemma drop_ConsD: "drop p xs = c # cs \<Longrightarrow> p < length xs \<and> xs ! p = c \<and> drop (Suc p) xs = cs"
  by (metis drop_eq_Nil2 Cons_nth_drop_Suc linorder_not_less list.distinct(1) list.inject)

definition room :: "'d exec_env \<Rightarrow> nat \<Rightarrow> 'd exec_st \<Rightarrow> bool" where
  "room env k st \<longleftrightarrow> unat (l_nread st) + k \<le> unat (e_max_header_size env)"

lemma unat_add_room:
  "unat (n :: u32) + k \<le> unat (m :: u32) \<Longrightarrow> unat (n + of_nat k) = unat n + k"
proof -
  assume le: "unat n + k \<le> unat m"
  have "unat m < 2 ^ 32"
    using unsigned_less [of m] by simp
  with le show ?thesis
    by (simp add: unat_word_ariths unat_of_nat)
qed

lemma room_step:
  assumes "room env (Suc k) st"
  shows "l_nread st + 1 \<le> e_max_header_size env" and "room env k (st\<lparr>l_nread := l_nread st + 1\<rparr>)"
proof -
  have "unat (l_nread st + of_nat 1) = unat (l_nread st) + 1"
    using assms by (intro unat_add_room [of _ _ "e_max_header_size env"]) (simp add: room_def)
  with assms show "l_nread st + 1 \<le> e_max_header_size env"
    and "room env k (st\<lparr>l_nread := l_nread st + 1\<rparr>)"
    by (simp_all add: room_def word_le_nat_alt)
qed

lemma room_load_byte: "room env (Suc k) st \<Longrightarrow> room env k (load_byte env st)"
  using room_step [of env k st] by (auto simp: load_byte_def room_def)

lemma exec_byte_room:
  assumes "room env 1 st"
  shows "exec_byte env st = Reexecute (load_byte env st)"
  using room_step(1) [of env 0 st] assms
  by (auto simp: exec_byte_def COUNT_HEADER_SIZE_def load_byte_def Let_def)

lemma exec_loop_Next:
  assumes "l_p st < e_len env" and "room env 1 st" and "exec_switch env (load_byte env st) = Next st'"
  shows "exec_loop env st = exec_loop env (st'\<lparr>l_p := l_p st' + 1\<rparr>)"
  using assms exec_byte_room [OF assms(2)]
  by (subst exec_loop.simps) (simp add: exec_reexecute.simps [of env "load_byte env st"])

lemma exec_loop_Return:
  assumes "l_p st < e_len env" and "room env 1 st" and "exec_switch env (load_byte env st) = Return n P"
  shows "exec_loop env st = Some (Return n P)"
  using assms exec_byte_room [OF assms(2)]
  by (subst exec_loop.simps) (simp add: exec_reexecute.simps [of env "load_byte env st"])

lemma exec_loop_end:
  assumes "l_p st = e_len env" and "l_marks st = (\<lambda>_. None)" and "http_errno (parser st) = HPE_OK"
  shows "exec_loop env st =
    Some (Return (e_len env) ((parser st)\<lparr>nread := l_nread st, state := l_state st\<rparr>))"
  using assms
  by (subst exec_loop.simps)
    (simp add: exec_epilogue_def mark_count_def ASSERT_def CALLBACK_DATA_NOADVANCE_def
      CALLBACK_DATA_er_def RETURN_def)

section \<open>Request methods\<close>

text \<open>A callback that only observes.\<close>

definition silent :: "'d http_cb option \<Rightarrow> bool" where
  "silent cb \<longleftrightarrow> (\<forall>f. cb = Some f \<longrightarrow> (\<forall>P. f P = (0, P)))"

lemma CALLBACK_NOTIFY_silent:
  assumes "silent cb" and "http_errno (parser st) = HPE_OK"
  shows "CALLBACK_NOTIFY cb e st k = k st \<or>
    CALLBACK_NOTIFY cb e st k = k (st\<lparr>parser := (parser st)\<lparr>state := l_state st\<rparr>\<rparr>)"
  using assms
  by (cases cb)
    (auto simp: silent_def CALLBACK_NOTIFY_def CALLBACK_NOTIFY_er_def ASSERT_def run_callback_def
      UPDATE_STATE_def Let_def)

text \<open>The inner \<open>switch\<close> as an automaton on the method, and what it has read at each point.\<close>

fun method_dfa :: "http_method \<Rightarrow> nat \<Rightarrow> string \<Rightarrow> http_method option" where
  "method_dfa m i [] = Some m"
| "method_dfa m i (c # cs) =
     (if c = NUL then None
      else if c = cstr_at (method_matcher m) i then method_dfa m (i + 1) cs
      else if (CHR ''A'' \<le> c \<and> c \<le> CHR ''Z'') \<or> c = CHR ''-''
      then (case method_switch m i c of None \<Rightarrow> None | Some m' \<Rightarrow> method_dfa m' (i + 1) cs)
      else None)"

lemma method_switch_prefix:
  "method_switch m i c = Some m' \<Longrightarrow>
   i < length (method_matcher m') \<and> take (i + 1) (method_matcher m') = take i (method_matcher m) @ [c]"
  by (auto simp: method_switch_def split: if_splits)

lemma method_switch_char:
  "method_switch m i c = Some m' \<Longrightarrow> (CHR ''A'' \<le> c \<and> c \<le> CHR ''Z'') \<or> c = CHR ''-''"
  by (auto simp: method_switch_def split: if_splits)

lemma method_dfa_sound:
  "method_dfa m i cs = Some m' \<Longrightarrow> i \<le> length (method_matcher m) \<Longrightarrow>
   i + length cs \<le> length (method_matcher m') \<and>
   take (i + length cs) (method_matcher m') = take i (method_matcher m) @ cs"
proof (induction cs arbitrary: m i)
  case (Cons c cs)
  show ?case
  proof (cases "c = cstr_at (method_matcher m) i")
    case True
    with Cons.prems have "i < length (method_matcher m)"
      by (cases "i < length (method_matcher m)") auto
    with True Cons.prems Cons.IH [of m "i + 1"] show ?thesis
      by (auto simp: take_Suc_conv_app_nth split: if_splits)
  next
    case False
    with Cons.prems obtain m1 where m1: "method_switch m i c = Some m1" "method_dfa m1 (i + 1) cs = Some m'"
      by (auto split: if_splits option.splits)
    with method_switch_prefix [OF m1(1)] Cons.IH [of m1 "i + 1"] show ?thesis
      by auto
  qed
qed simp

lemma method_dfa_complete:
  "\<exists>m0. first_method (hd (method_matcher m)) = Some m0 \<and> method_dfa m0 1 (tl (method_matcher m)) = Some m"
  by (cases m) (simp_all add: first_method_def method_switch_def)

lemma method_matcher_chars:
  assumes "i < length (method_matcher m)"
  shows "method_matcher m ! i \<noteq> NUL" and "method_matcher m ! i \<noteq> CHR '' ''"
proof -
  have "\<forall>c\<in>set (method_matcher m). c \<noteq> NUL \<and> c \<noteq> CHR '' ''"
    by (cases m) simp_all
  with assms show "method_matcher m ! i \<noteq> NUL" and "method_matcher m ! i \<noteq> CHR '' ''"
    by (auto dest: nth_mem)
qed

definition invalid_method :: "'d outcome option \<Rightarrow> bool" where
  "invalid_method r \<longleftrightarrow> (\<exists>n P. r = Some (Return n P) \<and> http_errno P = HPE_INVALID_METHOD)"

definition accepted_method :: "nat \<Rightarrow> http_method \<Rightarrow> 'd outcome option \<Rightarrow> bool" where
  "accepted_method n m r \<longleftrightarrow>
     (\<exists>P. r = Some (Return n P) \<and> http_errno P = HPE_OK \<and> state P = s_req_spaces_before_url \<and>
          req_method P = m)"

definition method_verdict :: "nat \<Rightarrow> nat \<Rightarrow> http_method option \<Rightarrow> 'd outcome option \<Rightarrow> bool" where
  "method_verdict n k x r =
     (case x of
        None \<Rightarrow> invalid_method r
      | Some m \<Rightarrow> if k = length (method_matcher m) then accepted_method n m r else invalid_method r)"

lemma exec_req_method_space:
  assumes "l_state st = s_req_method" and "http_errno (parser st) = HPE_OK" and "l_marks st = (\<lambda>_. None)"
    and "unat (index (parser st)) \<le> length (method_matcher (req_method (parser st)))"
    and "room env 1 st" and "l_p st < e_len env" and "Suc (l_p st) = e_len env" 
    and "e_data env ! l_p st = CHR '' ''"
  shows "method_verdict (e_len env) (unat (index (parser st))) (Some (req_method (parser st))) (exec_loop env st)"
proof -
  let ?m = "req_method (parser st)" and ?i = "unat (index (parser st))"
  let ?st = "load_byte env st"
  have sw: "exec_switch env ?st = exec_req_method env ?st"
    using assms(1) by (simp add: exec_switch_def)
  show ?thesis
  proof (cases "?i = length (method_matcher ?m)")
    case True
    then have "exec_switch env ?st = Next (bump_index (UPDATE_STATE s_req_spaces_before_url ?st))"
      using assms(8) by (simp add: sw exec_req_method_def Let_def)
    with True show ?thesis
      using exec_loop_Next [OF assms(6,5)] assms(2,3,7)
      by (simp add: method_verdict_def accepted_method_def bump_index_def upd_parser_def UPDATE_STATE_def exec_loop_end)
  next
    case False
    with assms(4) have "?i < length (method_matcher ?m)"
      by simp
    with assms(8) have "exec_switch env ?st = FAIL HPE_INVALID_METHOD ?st"
      using method_matcher_chars [of ?i ?m]
      by (auto simp: sw exec_req_method_def Let_def)
    with False show ?thesis
      using exec_loop_Return [OF assms(6,5)] by (auto simp: method_verdict_def invalid_method_def FAIL_eq)
  qed
qed

lemma exec_loop_method:
  "l_state st = s_req_method \<Longrightarrow> http_errno (parser st) = HPE_OK \<Longrightarrow> l_marks st = (\<lambda>_. None) \<Longrightarrow>
   unat (index (parser st)) \<le> length (method_matcher (req_method (parser st))) \<Longrightarrow>
   room env (Suc (length cs)) st \<Longrightarrow> drop (l_p st) (e_data env) = cs @ '' '' \<Longrightarrow> CHR '' '' \<notin> set cs \<Longrightarrow>
   method_verdict (e_len env) (unat (index (parser st)) + length cs)
     (method_dfa (req_method (parser st)) (unat (index (parser st))) cs) (exec_loop env st)"
proof (induction cs arbitrary: st)
  case Nil
  then have "l_p st < e_len env" "Suc (l_p st) = e_len env" "e_data env ! l_p st = CHR '' ''"
    by (auto dest!: drop_ConsD)
  with Nil exec_req_method_space [of st env] show ?case
    by simp
next
  case (Cons c cs)
  let ?m = "req_method (parser st)" and ?i = "unat (index (parser st))"
  let ?st = "load_byte env st"
  have d: "l_p st < e_len env" "e_data env ! l_p st = c" "drop (Suc (l_p st)) (e_data env) = cs @ '' ''"
    and c: "c \<noteq> CHR '' ''"
    using Cons.prems(6,7) by (auto dest!: drop_ConsD)
  have sw: "exec_switch env ?st = exec_req_method env ?st"
    using Cons.prems(1) by (simp add: exec_switch_def)
  have room: "room env 1 st" "room env (Suc (length cs)) ?st"
    using Cons.prems(5) room_load_byte [of env "Suc (length cs)" st] by (auto simp: room_def)
  have i: "unat (index (parser st) + 1) = ?i + 1"
    using Cons.prems(4) method_matcher_length(2) [of ?m] by (intro index_Suc) simp
  have go: "exec_switch env ?st = Next (bump_index (upd_parser (req_method_update (\<lambda>_. m)) ?st)) \<Longrightarrow>
      method_dfa ?m ?i (c # cs) = method_dfa m (?i + 1) cs \<Longrightarrow> ?i < length (method_matcher m) \<Longrightarrow> ?case" for m
    using Cons.IH [of "(bump_index (upd_parser (req_method_update (\<lambda>_. m)) ?st))\<lparr>l_p := Suc (l_p st)\<rparr>"]
      exec_loop_Next [OF d(1) room(1)] Cons.prems d room(2) i
    by (simp add: bump_index_def upd_parser_def room_def del: method_dfa.simps)
  have stop: "exec_switch env ?st = FAIL HPE_INVALID_METHOD ?st \<Longrightarrow>
      method_dfa ?m ?i (c # cs) = None \<Longrightarrow> ?case"
    using exec_loop_Return [OF d(1) room(1)] 
    by (auto simp: method_verdict_def invalid_method_def FAIL_eq simp del: method_dfa.simps)
  consider "c = NUL" | "c \<noteq> NUL" "c = cstr_at (method_matcher ?m) ?i"
    | "c \<noteq> NUL" "c \<noteq> cstr_at (method_matcher ?m) ?i" by blast
  then show ?case
  proof cases
    case 1
    then show ?thesis
      using d by (intro stop) (simp_all add: sw exec_req_method_def Let_def)
  next
    case 2
    then have "?i < length (method_matcher ?m)"
      by (cases "?i < length (method_matcher ?m)") auto
    moreover have "upd_parser (req_method_update (\<lambda>_. ?m)) ?st = ?st"
      by (simp add: upd_parser_def)
    ultimately show ?thesis
      using 2 c d Cons.prems(4) by (intro go [of ?m]) (simp_all add: sw exec_req_method_def Let_def)
  next
    case 3
    show ?thesis
    proof (cases "method_switch ?m ?i c")
      case None
      then show ?thesis
        using 3 c d Cons.prems(4) by (intro stop) (auto simp: sw exec_req_method_def Let_def)
    next
      case (Some m)
      with 3 c d Cons.prems(4) method_switch_prefix [OF Some] method_switch_char [OF Some]
      show ?thesis
        by (intro go [of m]) (simp_all add: sw exec_req_method_def Let_def)
    qed
  qed
qed

lemma method_word_iff:
  assumes "first_method c = Some m0"
  shows "method_dfa m0 1 cs = Some m \<and> Suc (length cs) = length (method_matcher m) \<longleftrightarrow>
    c # cs = method_matcher m"
proof -
  have c: "take 1 (method_matcher m0) = [c]"
    using assms by (auto simp: first_method_def split: if_splits)
  show ?thesis
  proof
    assume "method_dfa m0 1 cs = Some m \<and> Suc (length cs) = length (method_matcher m)"
    with method_dfa_sound [of m0 1 cs m] method_matcher_length(1) [of m0] c
    show "c # cs = method_matcher m"
      by simp
  next
    assume "c # cs = method_matcher m"
    with method_dfa_complete [of m] assms
    show "method_dfa m0 1 cs = Some m \<and> Suc (length cs) = length (method_matcher m)"
      by (metis length_Cons list.sel(1,3) option.inject)
  qed
qed

lemma method_first_char:
  assumes "c # cs = method_matcher m" shows "IS_ALPHA c" and "first_method c \<noteq> None"
proof -
  have "IS_ALPHA (hd (method_matcher m))"
    by (cases m) (simp_all add: IS_ALPHA_def)
  then show "IS_ALPHA c" and "first_method c \<noteq> None"
    using method_dfa_complete [of m] by (auto simp flip: assms)
qed

lemma exec_start_req_step:
  assumes "silent (on_message_begin (e_settings env))" and "http_errno (parser st) = HPE_OK"
    and "l_ch st = c" and "c \<noteq> CR" and "c \<noteq> LF"
  shows "if IS_ALPHA c \<and> first_method c \<noteq> None
    then \<exists>st'. exec_start_req env st = Next st' \<and> l_state st' = s_req_method \<and> l_p st' = l_p st \<and>
           l_nread st' = l_nread st \<and> l_marks st' = l_marks st \<and> http_errno (parser st') = HPE_OK \<and>
           index (parser st') = 1 \<and> first_method c = Some (req_method (parser st'))
    else \<exists>n P. exec_start_req env st = Return n P \<and> http_errno P = HPE_INVALID_METHOD"
proof (cases "IS_ALPHA c \<and> first_method c \<noteq> None")
  case True
  then obtain m where m: "first_method c = Some m"
    by auto
  let ?st = "UPDATE_STATE s_req_method (upd_parser (\<lambda>P. P\<lparr>req_method := m\<rparr>)
    (upd_parser (\<lambda>P. P\<lparr>req_method := HTTP_DELETE, index := 1\<rparr>) (reset_message st)))"
  have "exec_start_req env st =
      CALLBACK_NOTIFY (on_message_begin (e_settings env)) HPE_CB_message_begin ?st Next"
    using assms(3-5) True m by (simp add: exec_start_req_def reset_message_def upd_parser_def Let_def)
  with CALLBACK_NOTIFY_silent [OF assms(1), of ?st HPE_CB_message_begin Next] assms(2) True m show ?thesis
    by (auto simp: reset_message_def upd_parser_def UPDATE_STATE_def)
next
  case False
  with assms(3-5) show ?thesis
    by (auto simp: exec_start_req_def reset_message_def upd_parser_def Let_def FAIL_eq split: option.splits)
qed

text \<open>
  C4: The request-line automaton recognises exactly the methods of \<open>HTTP_METHOD_MAP\<close>: a
  parser at the start of a request that is given a blank-free word and a space accepts it if
  and only if the word is the name of a method, and then stores that method; every other word
  is refused with \<open>HPE_INVALID_METHOD\<close>.
\<close>

theorem request_method_recognition:
  assumes "state P = s_start_req" and "http_errno P = HPE_OK" and "silent (on_message_begin S)"
    and "w \<noteq> []" and "hd w \<noteq> CR" and "hd w \<noteq> LF" and "CHR '' '' \<notin> set w"
    and "unat (nread P) + length w + 1 \<le> unat mx"
  shows "case http_parser_execute mx S P (w @ '' '') of
      Some (Return n P') \<Rightarrow>
        if w \<in> range (\<lambda>m. http_method_str (http_method_num m))
        then n = length w + 1 \<and> http_errno P' = HPE_OK \<and> state P' = s_req_spaces_before_url \<and>
             http_method_str (http_method_num (req_method P')) = w
        else http_errno P' = HPE_INVALID_METHOD
    | _ \<Rightarrow> False"
proof -
  obtain c cs where w: "w = c # cs"
    using assms(4) by (cases w) auto
  let ?env = "\<lparr>e_settings = S, e_data = w @ '' '', e_max_header_size = mx, e_lenient = lenient_http_headers P\<rparr>"
  let ?run = "exec_loop ?env (initial_st P)" and ?st = "load_byte ?env (initial_st P)"
  have run: "http_parser_execute mx S P (w @ '' '') = ?run"
    using assms(2) by (simp add: http_parser_execute_def)
  have st: "l_p (initial_st P) = 0" "l_state (initial_st P) = s_start_req" "parser (initial_st P) = P"
    "l_marks (initial_st P) = (\<lambda>_. None)" "l_nread (initial_st P) = nread P"
    using assms(1) by (auto simp: initial_st_def initial_marks_def)
  have room: "room ?env 1 (initial_st P)" "room ?env (Suc (length cs)) ?st"
    using assms(8) room_load_byte [of ?env "Suc (length cs)" "initial_st P"] by (auto simp: room_def st w)
  have c: "c \<noteq> CR" "c \<noteq> LF" "l_ch ?st = c"
    using assms(5,6) by (simp_all add: w st)
  have sw: "exec_switch ?env ?st = exec_start_req ?env ?st"
    by (simp add: exec_switch_def st)
  have p: "l_p (initial_st P) < e_len ?env"
    by (simp add: st)
  note step = exec_start_req_step [of ?env ?st c]
  show ?thesis
  proof (cases "IS_ALPHA c \<and> first_method c \<noteq> None")
    case True
    with step assms(2,3) c obtain st1 where st1: "exec_start_req ?env ?st = Next st1"
      "l_state st1 = s_req_method" "l_p st1 = 0" "l_nread st1 = l_nread ?st" "l_marks st1 = (\<lambda>_. None)"
      "http_errno (parser st1) = HPE_OK" "index (parser st1) = 1"
      "first_method c = Some (req_method (parser st1))"
      by (auto simp: st)
    let ?m0 = "req_method (parser st1)"
    have "?run = exec_loop ?env (st1\<lparr>l_p := 1\<rparr>)"
      using exec_loop_Next [OF p room(1)] st1(1,3) by (simp add: sw)
    then have verdict: "method_verdict (e_len ?env) (Suc (length cs)) (method_dfa ?m0 1 cs) ?run"
      using exec_loop_method [of "st1\<lparr>l_p := 1\<rparr>" ?env cs] st1 room(2) assms(7)
        method_matcher_length(1) [of ?m0]
      by (simp add: w room_def)
    show ?thesis
    proof (cases "\<exists>m. w = method_matcher m")
      case True
      then obtain m where m: "w = method_matcher m" ..
      then have "method_dfa ?m0 1 cs = Some m \<and> Suc (length cs) = length (method_matcher m)"
        using method_word_iff [OF st1(8), of cs m] w by simp
      with verdict have "accepted_method (e_len ?env) m ?run"
        by (simp add: method_verdict_def)
      then obtain P' where "?run = Some (Return (e_len ?env) P')" "http_errno P' = HPE_OK"
        "state P' = s_req_spaces_before_url" "req_method P' = m"
        unfolding accepted_method_def by blast
      with m show ?thesis
        unfolding run method_matcher_str by simp
    next
      case False
      with method_word_iff [OF st1(8), of cs] verdict have "invalid_method ?run"
        by (auto simp: method_verdict_def w split: option.splits if_splits)
      then obtain n P' where "?run = Some (Return n P')" "http_errno P' = HPE_INVALID_METHOD"
        unfolding invalid_method_def by blast
      with False show ?thesis
        unfolding run method_matcher_str by (auto simp: image_iff)
    qed
  next
    case False
    with step assms(2,3) c obtain n P1 where
      "exec_start_req ?env ?st = Return n P1" "http_errno P1 = HPE_INVALID_METHOD"
      by (auto simp: st)
    moreover have "\<nexists>m. w = method_matcher m"
      using False method_first_char [of c cs] w by auto
    ultimately show ?thesis
      using exec_loop_Return [OF p room(1)] unfolding run method_matcher_str by (auto simp: sw)
  qed
qed

theorem request_method_recognition_witness:
  "case http_parser_execute 80 http_parser_settings_init (http_parser_init HTTP_REQUEST ()) ''M-SEARCH '' of
     Some (Return n P') \<Rightarrow> n = 9 \<and> state P' = s_req_spaces_before_url
   | _ \<Rightarrow> False"
proof -
  have m: "''M-SEARCH'' \<in> range (\<lambda>m. http_method_str (http_method_num m))"
    unfolding method_matcher_str by (rule range_eqI [of _ _ HTTP_MSEARCH]) simp
  have "state (http_parser_init HTTP_REQUEST ()) = s_start_req"
    "http_errno (http_parser_init HTTP_REQUEST ()) = HPE_OK" "nread (http_parser_init HTTP_REQUEST ()) = 0"
    "silent (on_message_begin (http_parser_settings_init :: unit http_parser_settings))"
    by (simp_all add: http_parser_init_def silent_def http_parser_settings_init_def)
  with request_method_recognition
    [of "http_parser_init HTTP_REQUEST ()" http_parser_settings_init "''M-SEARCH''" 80] 
  show ?thesis
    by (auto simp: m split: option.splits outcome.splits)
qed

section \<open>Chunk sizes\<close>

definition hex_value :: "char \<Rightarrow> nat" where
  "hex_value c = (if IS_NUM c then ord c - 48 else ord (LOWER c) - 87)"

fun hex_num :: "nat \<Rightarrow> string \<Rightarrow> nat" where
  "hex_num a [] = a"
| "hex_num a (c # cs) = hex_num (a * 16 + hex_value c) cs"

lemma hex_num_ge: "a \<le> hex_num a cs"
proof (induction cs arbitrary: a)
  case (Cons c cs)
  from Cons.IH [of "a * 16 + hex_value c"] show ?case
    by simp
qed simp

lemma IS_NUM_ord: "IS_NUM c \<longleftrightarrow> 48 \<le> ord c \<and> ord c \<le> 57"
  by (simp add: IS_NUM_def less_eq_char_def)

lemma hex_letter_ord: "CHR ''a'' \<le> c \<and> c \<le> CHR ''f'' \<longleftrightarrow> 97 \<le> ord c \<and> ord c \<le> 102"
  by (simp add: less_eq_char_def)

lemma hex_value_unhex:
  assumes "IS_HEX c"
  shows "unhex ! ord c = int (hex_value c)" and "hex_value c < 16"
  using assms by (auto simp: unhex_nth unhex_class_def hex_value_def IS_HEX_def IS_NUM_ord hex_letter_ord)

text \<open>
  Reading a number \<open>v\<close> against a limit: below the limit every byte is consumed and the number is
  the content length; from the limit on the call fails.
\<close>

definition reads_length :: "nat \<Rightarrow> nat \<Rightarrow> state \<Rightarrow> nat \<Rightarrow> 'd outcome option \<Rightarrow> bool" where
  "reads_length limit v s len r \<longleftrightarrow>
     (\<exists>n P. r = Some (Return n P) \<and>
       (if v < limit
        then n = len \<and> http_errno P = HPE_OK \<and> state P = s \<and> unat (content_length P) = v
        else http_errno P = HPE_INVALID_CONTENT_LENGTH))"

lemma exec_loop_chunk_size:
  "l_state st = s_chunk_size \<Longrightarrow> http_errno (parser st) = HPE_OK \<Longrightarrow> l_marks st = (\<lambda>_. None) \<Longrightarrow>
   has_flag (parser st) F_CHUNKED \<Longrightarrow> drop (l_p st) (e_data env) = ds \<Longrightarrow> l_p st \<le> e_len env \<Longrightarrow>
   room env (length ds) st \<Longrightarrow> \<forall>c\<in>set ds. IS_HEX c \<Longrightarrow>
   unat (content_length (parser st)) < 2 ^ 64 - 16 \<Longrightarrow>
   reads_length (2 ^ 64 - 16) (hex_num (unat (content_length (parser st))) ds) s_chunk_size (e_len env)
     (exec_loop env st)"
proof (induction ds arbitrary: st)
  case Nil
  then show ?case
    by (simp add: exec_loop_end reads_length_def)
next
  case (Cons c cs)
  let ?st = "load_byte env st" and ?cl = "content_length (parser st)"
  have d: "l_p st < e_len env" "e_data env ! l_p st = c" "drop (Suc (l_p st)) (e_data env) = cs"
    using Cons.prems(5) by (auto dest!: drop_ConsD)
  have room: "room env 1 st" "room env (length cs) ?st"
    using Cons.prems(7) room_load_byte [of env "length cs" st] by (auto simp: room_def)
  have c: "IS_HEX c" "c \<noteq> CR" "c \<noteq> CHR '';''" "c \<noteq> CHR '' ''"
    using Cons.prems(8) by (auto simp: IS_HEX_def IS_NUM_def)
  note v = hex_value_unhex [OF c(1)]
  have sw: "exec_switch env ?st = (if (ULLONG_MAX - 16) div 16 < ?cl then FAIL HPE_INVALID_CONTENT_LENGTH ?st
      else Next (upd_parser (\<lambda>P. P\<lparr>content_length := ?cl * 16 + of_nat (hex_value c)\<rparr>) ?st))"
    using Cons.prems(1,4) c v d(2) by (simp add: exec_switch_def exec_chunk_size_def ASSERT_def Let_def)
  show ?case
  proof (cases "(ULLONG_MAX - 16) div 16 < ?cl")
    case True
    then have "1152921504606846974 < unat ?cl"
      by (simp add: word_less_nat_alt)
    then have "2 ^ 64 - 16 \<le> unat ?cl * 16 + hex_value c"
      by simp
    with hex_num_ge [of "unat ?cl * 16 + hex_value c" cs] have "\<not> hex_num (unat ?cl) (c # cs) < 2 ^ 64 - 16"
      by simp
    with True exec_loop_Return [OF d(1) room(1)] show ?thesis
      by (simp add: sw FAIL_eq reads_length_def)
  next
    case False
    let ?cl' = "?cl * 16 + of_nat (hex_value c)"
    have cl': "unat ?cl' = unat ?cl * 16 + hex_value c" "unat ?cl' < 2 ^ 64 - 16"
      using hex_step [OF False, of "int (hex_value c)"] False v(2)
      by (auto simp: word_less_nat_alt not_less)
    let ?st1 = "(upd_parser (\<lambda>P. P\<lparr>content_length := ?cl'\<rparr>) ?st)\<lparr>l_p := Suc (l_p st)\<rparr>"
    have "exec_loop env st = exec_loop env ?st1"
      using exec_loop_Next [OF d(1) room(1)] False sw by (simp add: upd_parser_def)
    then show ?thesis
      using Cons.IH [of ?st1] Cons.prems d room(2) cl' by (simp add: upd_parser_def room_def)
  qed
qed

lemma exec_chunk_size_start_step:
  assumes "l_state st = s_chunk_size_start" and "has_flag (parser st) F_CHUNKED" and "l_nread st = 0"
    and "e_data env ! l_p st = c" and "IS_HEX c"
  shows "exec_switch env (load_byte env st) =
    Next (UPDATE_STATE s_chunk_size
      (upd_parser (\<lambda>P. P\<lparr>content_length := of_nat (hex_value c)\<rparr>) (load_byte env st)))"
proof -
  have "l_nread (load_byte env st) = 1"
    using assms(1,3) by (simp add: load_byte_def)
  then show ?thesis
    using assms hex_value_unhex [OF assms(5)]
    by (simp add: exec_switch_def exec_chunk_size_start_def ASSERT_def Let_def)
qed



text \<open>
  The table \<open>unhex[256]\<close> initialises 128 entries, so every byte from 128 on has the value 0 of
  an omitted initialiser instead of -1: a chunk header may start with such a byte.
\<close>

lemma chunk_size_high_byte:
  assumes "state P = s_chunk_size_start" and "http_errno P = HPE_OK" and "has_flag P F_CHUNKED"
    and "nread P = 0" and "128 \<le> ord c" and "1 \<le> unat mx"
  shows "\<exists>P'. http_parser_execute mx S P [c] = Some (Return 1 P') \<and> http_errno P' = HPE_OK \<and>
    state P' = s_chunk_size \<and> content_length P' = 0"
proof -
  let ?env = "\<lparr>e_settings = S, e_data = [c], e_max_header_size = mx, e_lenient = lenient_http_headers P\<rparr>"
  have "unhex = take 128 unhex @ replicate 128 0" and "length (take 128 unhex) = 128"
    by (simp_all add: unhex_def)
  then have "unhex ! ord c = replicate 128 0 ! (ord c - 128)"
    using assms(5) by (metis (no_types) linorder_not_less nth_append)
  then have v: "unhex ! ord c = 0"
    using assms(5) ord_less_256 [of c] by simp
  have st: "l_p (initial_st P) = 0" "l_state (initial_st P) = s_chunk_size_start" "parser (initial_st P) = P"
    "l_marks (initial_st P) = (\<lambda>_. None)" "l_nread (initial_st P) = 0"
    using assms(1,4) by (auto simp: initial_st_def initial_marks_def)
  have room: "room ?env 1 (initial_st P)"
    using assms(6) by (simp add: room_def st)
  have "l_nread (load_byte ?env (initial_st P)) = 1"
    by (simp add: load_byte_def st)
  then have "exec_switch ?env (load_byte ?env (initial_st P)) = Next (UPDATE_STATE s_chunk_size
      (upd_parser (\<lambda>P. P\<lparr>content_length := 0\<rparr>) (load_byte ?env (initial_st P))))"
    using assms(3) v by (simp add: exec_switch_def exec_chunk_size_start_def ASSERT_def Let_def st)
  from exec_loop_Next [OF _ room this] show ?thesis
    using assms(2) by (simp add: http_parser_execute_def st UPDATE_STATE_def upd_parser_def exec_loop_end)
qed

section \<open>Bodies with a length\<close>

text \<open>A callback that returns 0 and changes only the application object, by \<open>g\<close>.\<close>

definition pure_cb :: "'d http_cb option \<Rightarrow> ('d \<Rightarrow> 'd) \<Rightarrow> bool" where
  "pure_cb cb g \<longleftrightarrow>
     (case cb of None \<Rightarrow> g = id | Some f \<Rightarrow> \<forall>P. f P = (0, P\<lparr>data := g (data P)\<rparr>))"

definition pure_data_cb :: "'d http_data_cb option \<Rightarrow> ('d \<Rightarrow> string \<Rightarrow> 'd) \<Rightarrow> bool" where
  "pure_data_cb cb g \<longleftrightarrow>
     (case cb of None \<Rightarrow> g = (\<lambda>d _. d) | Some f \<Rightarrow> \<forall>P s. f P s = (0, P\<lparr>data := g (data P) s\<rparr>))"

lemma CALLBACK_NOTIFY_pure:
  assumes "pure_cb cb g" and "http_errno (parser st) = HPE_OK"
  shows "\<exists>s. \<forall>k. CALLBACK_NOTIFY_er cb e er st k =
    k (st\<lparr>parser := (parser st)\<lparr>state := s, data := g (data (parser st))\<rparr>\<rparr>)"
proof (cases cb)
  case None
  with assms show ?thesis
    by (intro exI [of _ "state (parser st)"]) (simp add: pure_cb_def CALLBACK_NOTIFY_er_def ASSERT_def)
next
  case (Some f)
  with assms show ?thesis
    by (intro exI [of _ "l_state st"])
      (simp add: pure_cb_def CALLBACK_NOTIFY_er_def ASSERT_def run_callback_def UPDATE_STATE_def Let_def)
qed

lemma CALLBACK_DATA_pure:
  assumes "pure_data_cb (on_data (e_settings env) m) g" and "http_errno (parser st) = HPE_OK"
    and "l_marks st m = Some i"
  shows "\<exists>s. \<forall>k. CALLBACK_DATA_er env m q er st k =
    k (st\<lparr>parser := (parser st)\<lparr>state := s, data := g (data (parser st)) (take (q - i) (drop i (e_data env)))\<rparr>,
          l_marks := (l_marks st)(m := None)\<rparr>)"
proof (cases "on_data (e_settings env) m")
  case None
  with assms show ?thesis
    by (intro exI [of _ "state (parser st)"])
      (simp add: pure_data_cb_def CALLBACK_DATA_er_def ASSERT_def clear_mark_def)
next
  case (Some f)
  with assms show ?thesis
    by (intro exI [of _ "l_state st"])
      (simp add: pure_data_cb_def CALLBACK_DATA_er_def ASSERT_def run_callback_def UPDATE_STATE_def
        clear_mark_def Let_def)
qed

lemma consume_body_all:
  assumes "l_p st = 0" and "e_data env \<noteq> []" and "e_len env < 2 ^ 64" and "l_marks st = (\<lambda>_. None)"
    and "e_len env \<le> unat (content_length (parser st))"
  shows "consume_body env st =
    st\<lparr>parser := (parser st)\<lparr>content_length := content_length (parser st) - of_nat (e_len env)\<rparr>,
       l_p := e_len env - 1, l_marks := (\<lambda>_. None)(M_body \<mapsto> 0)\<rparr>"
    and "unat (content_length (parser st) - of_nat (e_len env)) = unat (content_length (parser st)) - e_len env"
proof -
  have len: "unat (of_nat (e_len env) :: u64) = e_len env"
    using assms(3) by (simp add: unat_of_nat)
  then have le: "of_nat (e_len env) \<le> content_length (parser st)"
    using assms(5) by (simp add: word_le_nat_alt)
  then have "to_read env st = of_nat (e_len env)"
    using assms(1) by (simp add: to_read_def min_absorb2)
  then show "consume_body env st =
    st\<lparr>parser := (parser st)\<lparr>content_length := content_length (parser st) - of_nat (e_len env)\<rparr>,
       l_p := e_len env - 1, l_marks := (\<lambda>_. None)(M_body \<mapsto> 0)\<rparr>"
    using assms(1,4) len by (simp add: consume_body_def upd_parser_def MARK_def Let_def)
  show "unat (content_length (parser st) - of_nat (e_len env)) = unat (content_length (parser st)) - e_len env"
    using le len by (simp add: unat_sub)
qed

lemma CALLBACK_DATA_unmarked:
  "http_errno (parser st) = HPE_OK \<Longrightarrow> l_marks st m = None \<Longrightarrow> CALLBACK_DATA_er env m q er st k = k st"
  by (simp add: CALLBACK_DATA_er_def ASSERT_def)

lemma PARSING_HEADER_body [simp]: "\<not> PARSING_HEADER s_body_identity"
  by (simp add: PARSING_HEADER_def less_eq_state_def)

text \<open>The end of the input with one mark set: the callback gets what follows the mark.\<close>

lemma exec_loop_end_mark:
  assumes "l_p st = e_len env" and "l_marks st = (\<lambda>_. None)(m \<mapsto> i)" and "http_errno (parser st) = HPE_OK"
    and "pure_data_cb (on_data (e_settings env) m) g"
  shows "exec_loop env st = Some (Return (e_len env)
    ((parser st)\<lparr>nread := l_nread st, state := l_state st, data := g (data (parser st)) (drop i (e_data env))\<rparr>))"
proof -
  obtain s where "CALLBACK_DATA_er env m (e_len env) (e_len env) st k =
    k (st\<lparr>parser := (parser st)\<lparr>state := s, data := g (data (parser st)) (drop i (e_data env))\<rparr>,
          l_marks := (\<lambda>_. None)\<rparr>)" for k
    using CALLBACK_DATA_pure [of env m g st i "e_len env" "e_len env"] assms(2-4)
    by (auto simp: fun_upd_idem)
  then show ?thesis
    using assms
    by (subst exec_loop.simps, cases m)
      (simp_all add: exec_epilogue_def mark_count_def ASSERT_def CALLBACK_DATA_NOADVANCE_def
        CALLBACK_DATA_unmarked RETURN_def)
qed

text \<open>The last bytes of a body, and the end of a message.\<close>

lemma exec_body_identity_last:
  assumes "l_p st = 0" and "e_data env \<noteq> []" and "e_len env < 2 ^ 64" and "l_marks st = (\<lambda>_. None)"
    and "e_len env = unat (content_length (parser st))" and "content_length (parser st) \<noteq> ULLONG_MAX"
    and "pure_data_cb (on_body (e_settings env)) g" and "http_errno (parser st) = HPE_OK"
  shows "\<exists>st'. exec_body_identity env st = Reexecute st' \<and> l_state st' = s_message_done \<and>
    Suc (l_p st') = e_len env \<and> l_marks st' = (\<lambda>_. None) \<and> http_errno (parser st') = HPE_OK \<and>
    content_length (parser st') = 0 \<and> data (parser st') = g (data (parser st)) (e_data env) \<and>
    upgrade (parser st') = upgrade (parser st)"
proof -
  note cons = consume_body_all [OF assms(1-4) eq_imp_le [OF assms(5)]]
  let ?st = "UPDATE_STATE s_message_done (consume_body env st)"
  have cl: "content_length (parser st) - of_nat (e_len env) = 0" and nz: "content_length (parser st) \<noteq> 0"
    using cons(2) assms(2,5) by (auto simp: unat_eq_zero)
  obtain s where "CALLBACK_DATA_er env M_body (e_len env) (e_len env - 1) ?st k =
      k (?st\<lparr>parser := (parser ?st)\<lparr>state := s, data := g (data (parser st)) (e_data env)\<rparr>,
             l_marks := (\<lambda>_. None)\<rparr>)" for k
    using CALLBACK_DATA_pure [of env M_body g ?st 0 "e_len env" "e_len env - 1"] assms(7,8)
    by (auto simp: cons(1) UPDATE_STATE_def fun_upd_idem)
  then show ?thesis
    using assms(2,6,8) nz
    by (simp add: exec_body_identity_def ASSERT_def cons(1) cl UPDATE_STATE_def Let_def)
qed

lemma exec_message_done_pure:
  assumes "pure_cb (on_message_complete (e_settings env)) h" and "http_errno (parser st) = HPE_OK"
  shows "\<exists>st'. exec_message_done env st =
      (if upgrade (parser st) then RETURN (l_p st + 1) st' else Next st') \<and> l_p st' = l_p st \<and>
    l_marks st' = l_marks st \<and> l_state st' \<in> {s_start_req, s_start_res, s_dead} \<and>
    http_errno (parser st') = HPE_OK \<and> content_length (parser st') = content_length (parser st) \<and>
    data (parser st') = h (data (parser st)) \<and> upgrade (parser st') = upgrade (parser st)"
proof -
  let ?st = "UPDATE_STATE (NEW_MESSAGE (parser st)) st"
  have new: "NEW_MESSAGE (parser st) \<in> {s_start_req, s_start_res, s_dead}"
    by (simp add: NEW_MESSAGE_def start_state_def)
  obtain s where "CALLBACK_NOTIFY_er (on_message_complete (e_settings env)) HPE_CB_message_complete
      (l_p st + 1) ?st k = k (?st\<lparr>parser := (parser st)\<lparr>state := s, data := h (data (parser st))\<rparr>\<rparr>)" for k
    using CALLBACK_NOTIFY_pure [OF assms(1), of ?st HPE_CB_message_complete "l_p st + 1"] assms(2)
    by (auto simp: UPDATE_STATE_def)
  then show ?thesis
    using assms(2) new
    by (intro exI [of _ "?st\<lparr>parser := (parser st)\<lparr>state := s, data := h (data (parser st))\<rparr>\<rparr>"])
      (simp add: exec_message_done_def complete_message_def CALLBACK_NOTIFY_def UPDATE_STATE_def)
qed

lemma body_identity_run:
  assumes "state P = s_body_identity" and "http_errno P = HPE_OK"
    and "content_length P \<noteq> 0" and "content_length P \<noteq> ULLONG_MAX"
    and "dat \<noteq> []" and "length dat \<le> unat (content_length P)"
    and "pure_data_cb (on_body S) g" and "pure_cb (on_message_complete S) h"
  shows "\<exists>P'. http_parser_execute mx S P dat = Some (Return (length dat) P') \<and> http_errno P' = HPE_OK \<and> upgrade P' = upgrade P \<and>
    unat (content_length P') = unat (content_length P) - length dat \<and>
    (if length dat = unat (content_length P)
     then data P' = h (g (data P) dat) \<and> state P' \<in> {s_start_req, s_start_res, s_dead}
     else data P' = g (data P) dat \<and> state P' = s_body_identity)"
proof -
  let ?env = "\<lparr>e_settings = S, e_data = dat, e_max_header_size = mx, e_lenient = lenient_http_headers P\<rparr>"
  let ?st = "(initial_st P)\<lparr>l_ch := dat ! 0\<rparr>" and ?cl = "content_length P - of_nat (length dat)"
  have len: "length dat < 2 ^ 64"
    using assms(6) unsigned_less [of "content_length P", where 'a = nat] by simp
  have st: "l_p ?st = 0" "l_state ?st = s_body_identity" "parser ?st = P"
    "l_marks ?st = (\<lambda>_. None)" "l_nread ?st = nread P"
    using assms(1) by (auto simp: initial_st_def initial_marks_def)
  note cons = consume_body_all [of ?st ?env, simplified st exec_env.simps, OF refl assms(5) len refl assms(6)]
  have run: "http_parser_execute mx S P dat = exec_loop ?env (initial_st P)"
    using assms(2,5) by (simp add: http_parser_execute_def)
  have byte: "exec_byte ?env (initial_st P) = Reexecute ?st" and p: "l_p (initial_st P) \<noteq> e_len ?env"
    using st assms(5) by (simp_all add: exec_byte_def)
  have sw: "exec_switch ?env ?st = exec_body_identity ?env ?st"
    by (simp add: exec_switch_def st)
  show ?thesis
  proof (cases "length dat = unat (content_length P)")
    case False
    with cons(2) assms(6) have "?cl \<noteq> 0"
      by (metis diff_is_0_eq order_antisym unsigned_0)
    then have "exec_switch ?env ?st = Next (consume_body ?env ?st)"
      using assms(3,4) by (simp add: sw exec_body_identity_def ASSERT_def st cons(1) Let_def)
    then have "exec_loop ?env (initial_st P) =
        exec_loop ?env ((consume_body ?env ?st)\<lparr>l_p := length dat\<rparr>)"
      using byte p assms(5)
      by (subst exec_loop.simps) (simp add: exec_reexecute.simps [of _ ?st] cons(1))
    then show ?thesis
      using False cons(2) assms(2,7) st
      by (simp add: run exec_loop_end_mark [where m = M_body and i = 0 and g = g] cons(1))
  next
    case True
    with exec_body_identity_last [of ?st ?env g] st assms len obtain st3
      where st3: "exec_switch ?env ?st = Reexecute st3" "l_state st3 = s_message_done"
        "Suc (l_p st3) = length dat" "l_marks st3 = (\<lambda>_. None)" "http_errno (parser st3) = HPE_OK"
        "content_length (parser st3) = 0" "data (parser st3) = g (data P) dat" "upgrade (parser st3) = upgrade P"
      by (auto simp: sw)
    then have l: "l_p st3 + 1 = length dat" and sw3: "exec_switch ?env st3 = exec_message_done ?env st3"
      by (simp_all add: exec_switch_def)
    have h: "pure_cb (on_message_complete (e_settings ?env)) h"
      using assms(8) by simp
    obtain st5 where st5: "exec_switch ?env st3 =
          (if upgrade P then RETURN (length dat) st5 else Next st5)"
        "l_p st5 = l_p st3" "l_marks st5 = (\<lambda>_. None)"
        "l_state st5 \<in> {s_start_req, s_start_res, s_dead}" "http_errno (parser st5) = HPE_OK"
        "content_length (parser st5) = 0" "data (parser st5) = h (g (data P) dat)"
        "upgrade (parser st5) = upgrade P"
      using exec_message_done_pure [OF h st3(5)] unfolding sw3 l st3(4,6,7,8) by blast
    have "exec_loop ?env (initial_st P) =
        (if upgrade P then Some (RETURN (length dat) st5)
         else exec_loop ?env (st5\<lparr>l_p := length dat\<rparr>))"
      using byte p st3(1) st5(1,2) l
      by (subst exec_loop.simps)
        (simp add: exec_reexecute.simps [of ?env ?st] exec_reexecute.simps [of ?env st3] RETURN_def)
    with True st5 show ?thesis
      by (simp add: run RETURN_def exec_loop_end)
  qed
qed



section \<open>Content-Length\<close>

fun dec_num :: "nat \<Rightarrow> string \<Rightarrow> nat" where
  "dec_num a [] = a"
| "dec_num a (c # cs) = dec_num (a * 10 + (ord c - 48)) cs"

lemma dec_num_ge: "a \<le> dec_num a cs"
proof (induction cs arbitrary: a)
  case (Cons c cs)
  from Cons.IH [of "a * 10 + (ord c - 48)"] show ?case
    by simp
qed simp

lemma digit_unat: "IS_NUM c \<Longrightarrow> unat (digit c :: u64) = ord c - 48"
  by (simp add: IS_NUM_ord digit_def unat_sub word_le_nat_alt unat_of_nat)

text \<open>A content length that passes the overflow test grows by one digit without wrap-around.\<close>

lemma dec_step:
  assumes "\<not> (ULLONG_MAX - 10) div 10 < cl" and "IS_NUM c"
  shows "unat (cl * 10 + digit c) = unat cl * 10 + (ord c - 48)"
    and "unat cl * 10 + (ord c - 48) < 2 ^ 64 - 6"
proof -
  have "unat cl \<le> 1844674407370955160" and "ord c - 48 < 10"
    using assms by (auto simp: word_less_nat_alt not_less IS_NUM_ord)
  with digit_unat [OF assms(2)] show "unat (cl * 10 + digit c) = unat cl * 10 + (ord c - 48)"
    and "unat cl * 10 + (ord c - 48) < 2 ^ 64 - 6"
    by (simp_all add: unat_word_ariths)
qed

lemma IS_NUM_other:
  assumes "IS_NUM c"
  shows "IS_HEADER_CHAR c" "c \<noteq> CR" "c \<noteq> LF" "c \<noteq> CHR '' ''" "c \<noteq> HT"
  using assms by (auto simp: IS_NUM_def IS_HEADER_CHAR_def less_eq_char_def less_char_def)

lemma header_value_loop_digits:
  "drop (l_p st) (e_data env) = ds \<Longrightarrow> l_p st \<le> e_len env \<Longrightarrow> \<forall>c\<in>set ds. IS_NUM c \<Longrightarrow>
   unat (content_length (parser st)) < 2 ^ 64 - 6 \<Longrightarrow>
   if dec_num (unat (content_length (parser st))) ds < 2 ^ 64 - 6
   then \<exists>st' cl. header_value_loop env start h_content_length_num st =
          header_value_finish env start h_content_length_num st' \<and>
          l_p st' = e_len env \<and> l_state st' = l_state st \<and> l_nread st' = l_nread st \<and>
          l_marks st' = l_marks st \<and> parser st' = (parser st)\<lparr>content_length := cl\<rparr> \<and>
          unat cl = dec_num (unat (content_length (parser st))) ds
   else \<exists>n P. header_value_loop env start h_content_length_num st = Return n P \<and>
          http_errno P = HPE_INVALID_CONTENT_LENGTH"
proof (induction ds arbitrary: st)
  case Nil
  then show ?case
    by (subst header_value_loop.simps) (auto intro!: exI [of _ st] exI [of _ "content_length (parser st)"])
next
  case (Cons c cs)
  let ?cl = "content_length (parser st)" and ?st = "st\<lparr>l_ch := c\<rparr>"
  have d: "l_p st < e_len env" "e_data env ! l_p st = c" "drop (Suc (l_p st)) (e_data env) = cs"
    and c: "IS_NUM c"
    using Cons.prems by (auto dest!: drop_ConsD)
  have loop: "header_value_loop env start h_content_length_num st =
      (if (ULLONG_MAX - 10) div 10 < ?cl
       then FAIL HPE_INVALID_CONTENT_LENGTH (set_header_state h_content_length_num ?st)
       else header_value_loop env start h_content_length_num
         (st\<lparr>l_ch := c, parser := (parser st)\<lparr>content_length := ?cl * 10 + digit c\<rparr>, l_p := Suc (l_p st)\<rparr>))"
    using d IS_NUM_other [OF c] c
    by (subst header_value_loop.simps)
      (simp add: header_value_char_def hv_content_length_num_def upd_parser_def Let_def)
  show ?case
  proof (cases "(ULLONG_MAX - 10) div 10 < ?cl")
    case True
    then have "1844674407370955160 < unat ?cl"
      by (simp add: word_less_nat_alt)
    then have "2 ^ 64 - 6 \<le> unat ?cl * 10 + (ord c - 48)"
      by simp
    with dec_num_ge [of "unat ?cl * 10 + (ord c - 48)" cs] have "\<not> dec_num (unat ?cl) (c # cs) < 2 ^ 64 - 6"
      by simp
    with True loop show ?thesis
      by (simp add: FAIL_eq)
  next
    case False
    with Cons.IH [of "st\<lparr>l_ch := c, parser := (parser st)\<lparr>content_length := ?cl * 10 + digit c\<rparr>, l_p := Suc (l_p st)\<rparr>"]
      dec_step [OF False c] d Cons.prems loop
    show ?thesis
      by (cases "dec_num (unat ?cl * 10 + (ord c - 48)) cs < 2 ^ 64 - 6") auto
  qed
qed

lemma exec_content_length_start:
  assumes "l_state st = s_header_value_discard_ws" and "header_state (parser st) = h_content_length"
    and "\<not> has_flag (parser st) F_CONTENTLENGTH" and "IS_NUM (l_ch st)" and "l_marks st = (\<lambda>_. None)"
  shows "\<exists>st'. exec_switch env st = Next st' \<and> l_p st' = l_p st \<and> l_nread st' = l_nread st \<and>
    l_state st' = s_header_value \<and> l_marks st' = (\<lambda>_. None)(M_header_value \<mapsto> l_p st) \<and>
    http_errno (parser st') = http_errno (parser st) \<and> content_length (parser st') = digit (l_ch st) \<and>
    header_state (parser st') = h_content_length_num"
  using assms IS_NUM_other [OF assms(4)]
  by (simp add: exec_switch_def exec_header_value_discard_ws_def exec_header_value_start_def
      upd_parser_def UPDATE_STATE_def MARK_def Let_def)

lemma header_value_finish_end:
  assumes "l_p st = e_len env" and "l_nread st + of_nat (e_len env - 1 - start) \<le> e_max_header_size env"
  shows "header_value_finish env start h st = Next ((set_header_state h st)
    \<lparr>l_p := e_len env - 1, l_nread := l_nread st + of_nat (e_len env - 1 - start)\<rparr>)"
proof -
  have "\<not> e_max_header_size env < l_nread st + of_nat (e_len env - 1 - start)"
    using assms(2) by (simp add: not_less)
  with assms(1) show ?thesis
    by (simp add: header_value_finish_def COUNT_HEADER_SIZE_def set_header_state_def upd_parser_def Let_def)
qed

lemma exec_loop_content_length:
  assumes "l_state st = s_header_value" and "header_state (parser st) = h_content_length_num"
    and "http_errno (parser st) = HPE_OK" and "l_marks st = (\<lambda>_. None)(M_header_value \<mapsto> i)"
    and "drop (l_p st) (e_data env) = ds" and "l_p st \<le> e_len env" and "\<forall>c\<in>set ds. IS_NUM c"
    and "unat (content_length (parser st)) < 2 ^ 64 - 6" and "room env (length ds) st"
    and "pure_data_cb (on_header_value (e_settings env)) g"
  shows "reads_length (2 ^ 64 - 6) (dec_num (unat (content_length (parser st))) ds) s_header_value (e_len env)
    (exec_loop env st)"
proof (cases "ds = []")
  case True
  with assms exec_loop_end_mark [of st env M_header_value i g] show ?thesis
    by (simp add: reads_length_def)
next
  case False
  then obtain c cs where ds: "ds = c # cs"
    by (cases ds) auto
  let ?st = "load_byte env st" and ?v = "dec_num (unat (content_length (parser st))) ds"
  have p: "l_p st < e_len env" and len: "e_len env - 1 - l_p st = length cs"
    using assms(5) ds by (auto dest: drop_ConsD arg_cong [of _ _ length])
  have room: "room env 1 st" "room env (length cs) ?st"
    using assms(9) room_load_byte [of env "length cs" st] by (auto simp: room_def ds)
  have sw: "exec_switch env ?st = header_value_loop env (l_p st) h_content_length_num ?st"
    using assms(1,2) by (simp add: exec_switch_def exec_header_value_def)
  note dig = header_value_loop_digits [of ?st env ds "l_p st", simplified load_byte_simps, OF assms(5-8)]
  show ?thesis
  proof (cases "?v < 2 ^ 64 - 6")
    case True
    with dig obtain st' cl where st': "exec_switch env ?st = header_value_finish env (l_p st) h_content_length_num st'"
      "l_p st' = e_len env" "l_state st' = s_header_value" "l_nread st' = l_nread ?st"
      "l_marks st' = l_marks st" "parser st' = (parser st)\<lparr>content_length := cl\<rparr>" "unat cl = ?v"
      using assms(1) sw by auto
    have "l_nread ?st + of_nat (length cs) \<le> e_max_header_size env"
      using room(2) unat_add_room [of "l_nread ?st" "length cs" "e_max_header_size env"]
      by (simp add: room_def word_le_nat_alt)
    then have "exec_switch env ?st = Next ((set_header_state h_content_length_num st')
        \<lparr>l_p := e_len env - 1, l_nread := l_nread ?st + of_nat (length cs)\<rparr>)"
      using header_value_finish_end [OF st'(2), of "l_p st"] by (simp only: st'(1,4) len)
    from exec_loop_Next [OF p room(1) this] show ?thesis
      using True p st' assms(3,4,10)
      by (simp add: reads_length_def exec_loop_end_mark [of _ env M_header_value i g] set_header_state_def upd_parser_def)
  next
    case False
    with dig obtain n P where "exec_switch env ?st = Return n P" "http_errno P = HPE_INVALID_CONTENT_LENGTH"
      using sw by auto
    with exec_loop_Return [OF p room(1)] False show ?thesis
      by (simp add: reads_length_def)
  qed
qed

text \<open>
  C7: The value of a \<open>Content-Length\<close> header is read exactly: the digits denote the content
  length, with no wrap-around, for every number below \<open>2 ^ 64 - 6\<close>; a larger one, of any number
  of digits, is refused with \<open>HPE_INVALID_CONTENT_LENGTH\<close>.
\<close>

theorem content_length_exact:
  assumes "state P = s_header_value_discard_ws" and "header_state P = h_content_length"
    and "\<not> has_flag P F_CONTENTLENGTH" and "http_errno P = HPE_OK" and "ds \<noteq> []"
    and "\<forall>c\<in>set ds. IS_NUM c" and "unat (nread P) + length ds \<le> unat mx"
    and "pure_data_cb (on_header_value S) g"
  shows "reads_length (2 ^ 64 - 6) (dec_num 0 ds) s_header_value (length ds) (http_parser_execute mx S P ds)"
proof -
  obtain c cs where ds: "ds = c # cs"
    using assms(5) by (cases ds) auto
  let ?env = "\<lparr>e_settings = S, e_data = ds, e_max_header_size = mx, e_lenient = lenient_http_headers P\<rparr>"
  let ?st = "load_byte ?env (initial_st P)"
  have st: "l_p (initial_st P) = 0" "l_state (initial_st P) = s_header_value_discard_ws"
    "parser (initial_st P) = P" "l_marks (initial_st P) = (\<lambda>_. None)" "l_nread (initial_st P) = nread P"
    using assms(1) by (auto simp: initial_st_def initial_marks_def)
  have room: "room ?env 1 (initial_st P)" "room ?env (length cs) ?st"
    using assms(7) room_load_byte [of ?env "length cs" "initial_st P"] by (auto simp: room_def st ds)
  have c: "IS_NUM c" "ord c - 48 < 2 ^ 64 - 6"
    using assms(6) by (auto simp: ds IS_NUM_ord)
  obtain st1 where st1: "exec_switch ?env ?st = Next st1" "l_p st1 = 0" "l_nread st1 = l_nread ?st"
    "l_state st1 = s_header_value" "l_marks st1 = (\<lambda>_. None)(M_header_value \<mapsto> 0)"
    "http_errno (parser st1) = HPE_OK" "content_length (parser st1) = digit c"
    "header_state (parser st1) = h_content_length_num"
    using exec_content_length_start [of ?st ?env] assms(2-4) c(1) by (auto simp: st ds)
  have "http_parser_execute mx S P ds = exec_loop ?env (st1\<lparr>l_p := 1\<rparr>)"
    using exec_loop_Next [OF _ room(1) st1(1)] assms(4,5) st1(2) by (simp add: http_parser_execute_def st)
  then show ?thesis
    using exec_loop_content_length [of "st1\<lparr>l_p := 1\<rparr>" 0 ?env cs g] st1 assms(6,8) room(2) c digit_unat [OF c(1)]
    by (simp add: ds room_def)
qed

theorem content_length_exact_witness:
  "reads_length (2 ^ 64 - 6) 120 s_header_value (length ''120'')
     (http_parser_execute 80 http_parser_settings_init
        ((http_parser_init HTTP_REQUEST ())\<lparr>state := s_header_value_discard_ws, header_state := h_content_length\<rparr>) ''120'')"
  using content_length_exact [of "(http_parser_init HTTP_REQUEST ())\<lparr>state := s_header_value_discard_ws, header_state := h_content_length\<rparr>"
      "''120''" 80 http_parser_settings_init "\<lambda>d _. d"]
  by (simp add: http_parser_init_def has_flag_def IS_NUM_def pure_data_cb_def http_parser_settings_init_def)

end
