(* ===== verification/Http_Headers.thy ===== *)
theory Http_Headers
  imports Http_Message
begin

text \<open>
  Recognition of header names by \<open>http_parser_execute\<close>: the incremental matcher of the states
  \<open>s_header_field_start\<close> and \<open>s_header_field\<close> against the five names the parser interprets.
\<close>

section \<open>The name matcher as a function of what was read\<close>

definition header_names :: "string list" where
  "header_names = [''connection'', ''proxy-connection'', ''content-length'', ''transfer-encoding'', ''upgrade'']"

definition is_prefix :: "string \<Rightarrow> string \<Rightarrow> bool" where
  "is_prefix w name \<longleftrightarrow> take (length w) name = w"

definition name_state :: "string \<Rightarrow> header_states" where
  "name_state w =
     (if w = ''c'' then h_C else if w = ''co'' then h_CO else if w = ''con'' then h_CON
      else if w = ''connection'' \<or> w = ''proxy-connection'' then h_connection
      else if w = ''content-length'' then h_content_length
      else if w = ''transfer-encoding'' then h_transfer_encoding
      else if w = ''upgrade'' then h_upgrade
      else if is_prefix w ''connection'' then h_matching_connection
      else if is_prefix w ''proxy-connection'' then h_matching_proxy_connection
      else if is_prefix w ''content-length'' then h_matching_content_length
      else if is_prefix w ''transfer-encoding'' then h_matching_transfer_encoding
      else if is_prefix w ''upgrade'' then h_matching_upgrade
      else h_general)"

definition name_prefixes :: "string list" where
  "name_prefixes = concat (map (\<lambda>n. map (\<lambda>k. take k n) [1..<Suc (length n)]) header_names)"

lemma name_prefixes_iff: "w \<in> set name_prefixes \<longleftrightarrow> w \<noteq> [] \<and> (\<exists>n\<in>set header_names. is_prefix w n)"
proof
  assume "w \<in> set name_prefixes"
  then obtain n k where "n \<in> set header_names" "1 \<le> k" "k \<le> length n" "w = take k n"
    by (auto simp: name_prefixes_def)
  then show "w \<noteq> [] \<and> (\<exists>n\<in>set header_names. is_prefix w n)"
    by (auto simp: is_prefix_def intro!: bexI [of _ n])
next
  assume "w \<noteq> [] \<and> (\<exists>n\<in>set header_names. is_prefix w n)"
  then obtain n where n: "w \<noteq> []" "n \<in> set header_names" "take (length w) n = w"
    by (auto simp: is_prefix_def)
  then have "length w \<le> length n"
    by (metis length_take min.cobounded1)
  with n show "w \<in> set name_prefixes"
    by (auto simp: name_prefixes_def intro!: bexI [of _ n] image_eqI [of _ _ "length w"] Suc_leI)
qed

lemma is_prefix_snoc: "is_prefix (w @ [c]) n \<Longrightarrow> is_prefix w n"
proof -
  assume "is_prefix (w @ [c]) n"
  then have "take (length w) (take (Suc (length w)) n) = take (length w) (w @ [c])"
    by (simp add: is_prefix_def)
  then show ?thesis
    by (simp add: is_prefix_def min_def)
qed

lemma name_prefixes_snoc: "w @ [c] \<in> set name_prefixes \<Longrightarrow> w \<noteq> [] \<Longrightarrow> w \<in> set name_prefixes"
  by (auto simp: name_prefixes_iff dest: is_prefix_snoc)

lemma is_prefix_names [simp]:
  "is_prefix ''c'' ''connection''" "is_prefix ''co'' ''connection''" "is_prefix ''con'' ''connection''"
  "is_prefix n n"
  by (simp_all add: is_prefix_def)

lemma name_state_general: "w \<noteq> [] \<Longrightarrow> name_state w = h_general \<longleftrightarrow> w \<notin> set name_prefixes"
  by (auto simp: name_prefixes_iff name_state_def header_names_def)

text \<open>One step of the matcher, for what was read so far and the next character.\<close>

definition step_ok :: "char \<Rightarrow> char \<Rightarrow> string \<Rightarrow> bool" where
  "step_ok ch c w \<longleftrightarrow>
     (case header_field_char ch c (of_nat (length w - 1)) (name_state w) of
        None \<Rightarrow> False
      | Some (i, h) \<Rightarrow> h = name_state (w @ [c]) \<and> (h = h_general \<or> i = of_nat (length w)))"

lemma step_ok_prefixes: "ch \<noteq> CHR '' '' \<Longrightarrow> list_all (step_ok ch c) name_prefixes"
  unfolding name_prefixes_def header_names_def
  by (simp add: upt_rec, intro conjI)
    (simp_all add: step_ok_def name_state_def is_prefix_def header_field_char_def match_name_def
      cstr_at_def Let_def)

lemma name_state_step:
  assumes "w \<noteq> []" and "name_state w \<noteq> h_general" and "ch \<noteq> CHR '' ''"
  shows "\<exists>i. header_field_char ch c (of_nat (length w - 1)) (name_state w) = Some (i, name_state (w @ [c])) \<and>
    (name_state (w @ [c]) = h_general \<or> i = of_nat (length w))"
proof -
  have "step_ok ch c w"
    using step_ok_prefixes [OF assms(3)] assms(1,2) by (simp add: name_state_general list_all_iff)
  then show ?thesis
    by (auto simp: step_ok_def split: option.splits)
qed

lemma name_state_snoc_general: "w \<noteq> [] \<Longrightarrow> name_state w = h_general \<Longrightarrow> name_state (w @ [c]) = h_general"
  using name_prefixes_snoc [of w c] by (auto simp: name_state_general)

lemma name_state_append_general: "w \<noteq> [] \<Longrightarrow> name_state w = h_general \<Longrightarrow> name_state (w @ v) = h_general"
proof (induction v arbitrary: w)
  case (Cons c v)
  then show ?case
    using Cons.IH [of "w @ [c]"] name_state_snoc_general by auto
qed simp

section \<open>The loop\<close>

lemma skip_token_before:
  "p < q \<Longrightarrow> TOKEN (dat ! q) = NUL \<Longrightarrow> skip_token dat pe p < q"
proof (induction dat pe p rule: skip_token.induct)
  case (1 dat pe p)
  show ?case
  proof (cases "p + 1 < pe \<and> TOKEN (dat ! (p + 1)) \<noteq> NUL")
    case True
    with 1 have "p + 1 < q"
      by (metis Suc_eq_plus1 Suc_lessI)
    with True 1 show ?thesis
      by (subst skip_token.simps) simp
  next
    case False
    with 1 show ?thesis
      by (subst skip_token.simps) auto
  qed
qed

lemma header_field_loop_general:
  "p \<le> q \<Longrightarrow> q < length dat \<Longrightarrow> TOKEN (dat ! q) = NUL \<Longrightarrow> \<forall>j. p \<le> j \<and> j < q \<longrightarrow> TOKEN (dat ! j) \<noteq> NUL \<Longrightarrow>
   header_field_loop dat mx p ch idx h_general = Some (q, dat ! q, idx, h_general)"
proof (induction "q - p" arbitrary: p ch rule: less_induct)
  case less
  show ?case
  proof (cases "p = q")
    case True
    with less.prems show ?thesis
      by (subst header_field_loop.simps) (simp add: Let_def)
  next
    case False
    with less.prems have pq: "p < q" by simp
    let ?r = "skip_token dat (p + min (length dat - p) mx) p"
    have r: "p \<le> ?r" "?r < q"
      using skip_token_ge skip_token_before [OF pq less.prems(3)] by auto
    have "header_field_loop dat mx p ch idx h_general =
        header_field_loop dat mx (?r + 1) (dat ! p) idx h_general"
      using less.prems pq by (subst header_field_loop.simps) (simp add: Let_def)
    with less.hyps [of "?r + 1"] r less.prems show ?thesis
      by simp
  qed
qed

lemma TOKEN_punctuation [simp]: "TOKEN (CHR '':'') = NUL" "TOKEN (CHR '' '') = NUL"
  by (simp_all add: TOKEN_def STRICT_TOKEN_class token_class_def IS_ALPHA_def IS_NUM_def)

lemma header_field_loop_name:
  "w \<noteq> [] \<Longrightarrow> idx = of_nat (length w - 1) \<or> name_state w = h_general \<Longrightarrow>
   drop p dat = v @ CHR '':'' # rest \<Longrightarrow> \<forall>c\<in>set v. TOKEN c \<noteq> NUL \<Longrightarrow>
   \<exists>idx'. header_field_loop dat mx p ch idx (name_state w) =
     Some (p + length v, CHR '':'', idx', name_state (w @ map TOKEN v))"
proof (induction v arbitrary: w p ch idx)
  case Nil
  then have "p < length dat" "dat ! p = CHR '':''"
    by (auto dest!: drop_ConsD)
  then show ?case
    by (subst header_field_loop.simps) (simp add: Let_def)
next
  case (Cons c v)
  have d: "p < length dat" "dat ! p = c" "drop (Suc p) dat = v @ CHR '':'' # rest"
    using Cons.prems(3) by (auto dest!: drop_ConsD)
  show ?case
  proof (cases "name_state w = h_general")
    case False
    then obtain i where i: "header_field_char c (TOKEN c) idx (name_state w) = Some (i, name_state (w @ [TOKEN c]))"
      "name_state (w @ [TOKEN c]) = h_general \<or> i = of_nat (length w)"
      using name_state_step [of w c "TOKEN c"] Cons.prems by (cases "c = CHR '' ''") auto
    with False d Cons.prems have "header_field_loop dat mx p ch idx (name_state w) =
        header_field_loop dat mx (Suc p) c i (name_state (w @ [TOKEN c]))"
      by (subst header_field_loop.simps) (simp add: Let_def)
    with Cons.IH [of "w @ [TOKEN c]" i "Suc p" c] i(2) d Cons.prems show ?thesis
      by auto
  next
    case True
    let ?q = "p + length (c # v)"
    have nth: "dat ! (p + k) = ((c # v) @ CHR '':'' # rest) ! k" for k
      using Cons.prems(3) d(1) by (metis less_imp_le nth_drop)
    have len: "length dat = p + length ((c # v) @ CHR '':'' # rest)"
      using Cons.prems(3) d(1) by (metis add_diff_cancel_left' length_drop less_imp_add_positive add_diff_inverse_nat not_less_iff_gr_or_eq)
    have "TOKEN (dat ! j) \<noteq> NUL" if "p \<le> j" "j < ?q" for j
    proof -
      have "dat ! j = (c # v) ! (j - p)" and "j - p < length (c # v)"
        using nth [of "j - p"] nth_append [of "c # v" "CHR '':'' # rest" "j - p"] that by auto
      with Cons.prems(4) show ?thesis
        by (metis nth_mem)
    qed
    with header_field_loop_general [of p ?q dat mx ch idx] len nth [of "length (c # v)"]
    show ?thesis
      using True name_state_append_general [OF Cons.prems(1) True] by auto
  qed
qed

lemma name_state_cases:
  "(name_state w = h_content_length \<longleftrightarrow> w = ''content-length'') \<and>
   (name_state w = h_transfer_encoding \<longleftrightarrow> w = ''transfer-encoding'') \<and>
   (name_state w = h_connection \<longleftrightarrow> w = ''connection'' \<or> w = ''proxy-connection'') \<and>
   (name_state w = h_upgrade \<longleftrightarrow> w = ''upgrade'')"
  by (simp add: name_state_def)

lemma exec_header_field_start_step:
  assumes "l_state st = s_header_field_start" and "TOKEN (l_ch st) \<noteq> NUL" and "l_marks st = (\<lambda>_. None)"
  shows "\<exists>st'. exec_switch env st = Next st' \<and> l_p st' = l_p st \<and> l_nread st' = l_nread st \<and>
    l_state st' = s_header_field \<and> l_marks st' = (\<lambda>_. None)(M_header_field \<mapsto> l_p st) \<and>
    http_errno (parser st') = http_errno (parser st) \<and> data (parser st') = data (parser st) \<and>
    index (parser st') = 0 \<and> header_state (parser st') = name_state [TOKEN (l_ch st)]"
proof -
  have "TOKEN CR = NUL" "TOKEN LF = NUL"
    by (simp_all add: TOKEN_def STRICT_TOKEN_class token_class_def IS_ALPHA_def IS_NUM_def)
  with assms(2) have "l_ch st \<noteq> CR" "l_ch st \<noteq> LF"
    by auto
  with assms show ?thesis
    by (simp add: exec_switch_def exec_header_field_start_def set_header_state_def upd_parser_def
        UPDATE_STATE_def MARK_def Let_def name_state_def is_prefix_def)
qed

lemma exec_loop_header_field:
  assumes "l_state st = s_header_field" and "v \<noteq> []" and "header_state (parser st) = name_state v"
    and "index (parser st) = of_nat (length v - 1)" and "http_errno (parser st) = HPE_OK"
    and "l_marks st = (\<lambda>_. None)(M_header_field \<mapsto> 0)" and "drop (l_p st) (e_data env) = cs @ '':''"
    and "\<forall>c\<in>set cs. TOKEN c \<noteq> NUL" and "room env (Suc (length cs)) st"
    and "pure_data_cb (on_header_field (e_settings env)) g"
  shows "\<exists>P'. exec_loop env st = Some (Return (e_len env) P') \<and> http_errno P' = HPE_OK \<and>
    state P' = s_header_value_discard_ws \<and> header_state P' = name_state (v @ map TOKEN cs) \<and>
    data P' = g (data (parser st)) (butlast (e_data env))"
proof -
  let ?st = "load_byte env st" and ?q = "l_p st + length cs"
  have q: "Suc ?q = e_len env"
    using assms(7) by (metis add_Suc_right length_append_singleton length_drop add_diff_inverse_nat
        drop_all linorder_not_less nat_less_le append_is_Nil_conv not_Cons_self2)
  have room: "room env 1 st" "room env (length cs) ?st"
    using assms(9) room_load_byte [of env "length cs" st] by (auto simp: room_def)
  obtain idx where loop: "header_field_loop (e_data env) (unat (e_max_header_size env)) (l_p st)
      (l_ch ?st) (index (parser st)) (name_state v) = Some (?q, CHR '':'', idx, name_state (v @ map TOKEN cs))"
    using header_field_loop_name [OF assms(2) disjI1 [OF assms(4)] assms(7,8)] by blast
  let ?st1 = "UPDATE_STATE s_header_value_discard_ws ((upd_parser
    (\<lambda>P. P\<lparr>index := idx, header_state := name_state (v @ map TOKEN cs)\<rparr>)
      (?st\<lparr>l_p := ?q, l_ch := CHR '':''\<rparr>))\<lparr>l_nread := l_nread ?st + of_nat (length cs)\<rparr>)"
  have "\<not> e_max_header_size env < l_nread ?st + of_nat (length cs)"
    using room(2) unat_add_room [of "l_nread ?st" "length cs" "e_max_header_size env"]
    by (simp add: room_def word_less_nat_alt)
  then have sw: "exec_switch env ?st = CALLBACK_DATA env M_header_field ?st1 Next"
    using assms(1,3) loop q
    by (simp add: exec_switch_def exec_header_field_def COUNT_HEADER_SIZE_def upd_parser_def Let_def)
  have "take ?q (e_data env) = butlast (e_data env)"
    using q by (simp add: butlast_conv_take flip: q)
  then obtain s where "exec_switch env ?st = Next (?st1\<lparr>parser := (parser ?st1)\<lparr>state := s,
      data := g (data (parser st)) (butlast (e_data env))\<rparr>, l_marks := (\<lambda>_. None)\<rparr>)"
    using CALLBACK_DATA_pure [of env M_header_field g ?st1 0 ?q "?q + 1"] assms(5,6,10)
    by (auto simp: sw CALLBACK_DATA_def UPDATE_STATE_def upd_parser_def fun_upd_idem)
  from exec_loop_Next [OF _ room(1) this] show ?thesis
    using q assms(5) by (simp add: exec_loop_end UPDATE_STATE_def upd_parser_def)
qed

text \<open>
  C8: Header names are recognised exactly and without regard to case: after a name (one or more
  token characters) and a colon the parser is at the header value, \<open>on_header_field\<close> has received
  exactly the name, and the header state says \<open>Content-Length\<close>, \<open>Transfer-Encoding\<close>,
  \<open>Connection\<close> or \<open>Upgrade\<close> if and only if the name is that name (for \<open>Connection\<close> also
  \<open>Proxy-Connection\<close>); a longer or shorter name never matches.
\<close>

theorem header_name_recognition:
  assumes "state P = s_header_field_start" and "http_errno P = HPE_OK"
    and "w \<noteq> []" and "\<forall>c\<in>set w. TOKEN c \<noteq> NUL" and "unat (nread P) + length w + 1 \<le> unat mx"
    and "pure_data_cb (on_header_field S) g"
  shows "\<exists>P'. http_parser_execute mx S P (w @ '':'') = Some (Return (length w + 1) P') \<and>
    http_errno P' = HPE_OK \<and> state P' = s_header_value_discard_ws \<and> data P' = g (data P) w \<and>
    (header_state P' = h_content_length \<longleftrightarrow> map TOKEN w = ''content-length'') \<and>
    (header_state P' = h_transfer_encoding \<longleftrightarrow> map TOKEN w = ''transfer-encoding'') \<and>
    (header_state P' = h_connection \<longleftrightarrow> map TOKEN w = ''connection'' \<or> map TOKEN w = ''proxy-connection'') \<and>
    (header_state P' = h_upgrade \<longleftrightarrow> map TOKEN w = ''upgrade'')"
proof -
  obtain c cs where w: "w = c # cs"
    using assms(3) by (cases w) auto
  let ?env = "\<lparr>e_settings = S, e_data = w @ '':'', e_max_header_size = mx, e_lenient = lenient_http_headers P\<rparr>"
  let ?st = "load_byte ?env (initial_st P)"
  have st: "l_p (initial_st P) = 0" "l_state (initial_st P) = s_header_field_start"
    "parser (initial_st P) = P" "l_marks (initial_st P) = (\<lambda>_. None)" "l_nread (initial_st P) = nread P"
    using assms(1) by (auto simp: initial_st_def initial_marks_def)
  have room: "room ?env 1 (initial_st P)" "room ?env (Suc (length cs)) ?st"
    using assms(5) room_load_byte [of ?env "Suc (length cs)" "initial_st P"] by (auto simp: room_def st w)
  obtain st1 where st1: "exec_switch ?env ?st = Next st1" "l_p st1 = 0" "l_nread st1 = l_nread ?st"
    "l_state st1 = s_header_field" "l_marks st1 = (\<lambda>_. None)(M_header_field \<mapsto> 0)"
    "http_errno (parser st1) = HPE_OK" "data (parser st1) = data P" "index (parser st1) = 0"
    "header_state (parser st1) = name_state [TOKEN c]"
    using exec_header_field_start_step [of ?st ?env] assms(2,4) by (auto simp: st w)
  have run: "http_parser_execute mx S P (w @ '':'') = exec_loop ?env (st1\<lparr>l_p := 1\<rparr>)"
    using exec_loop_Next [OF _ room(1) st1(1)] assms(2) st1(2) by (simp add: http_parser_execute_def st)
  have "drop 1 (w @ '':'') = cs @ '':''"
    by (simp add: w)
  with exec_loop_header_field [of "st1\<lparr>l_p := 1\<rparr>" "[TOKEN c]" ?env cs g] st1 assms(4,6) room(2)
  obtain P' where "exec_loop ?env (st1\<lparr>l_p := 1\<rparr>) = Some (Return (length w + 1) P')" "http_errno P' = HPE_OK"
    "state P' = s_header_value_discard_ws" "header_state P' = name_state (map TOKEN w)" "data P' = g (data P) w"
    by (auto simp: w room_def)
  then show ?thesis
    using name_state_cases [of "map TOKEN w"] by (simp add: run)
qed

theorem header_name_recognition_witness:
  "\<exists>P'. http_parser_execute 80 http_parser_settings_init
      ((http_parser_init HTTP_REQUEST (0 :: nat))\<lparr>state := s_header_field_start\<rparr>) (''Content-Length'' @ '':'') =
      Some (Return (length ''Content-Length'' + 1) P') \<and> header_state P' = h_content_length"
proof -
  have w: "map TOKEN ''Content-Length'' = ''content-length''"
    by (simp add: TOKEN_def STRICT_TOKEN_class token_class_def IS_ALPHA_def IS_NUM_def)
  then have "\<forall>c\<in>set ''Content-Length''. TOKEN c \<noteq> NUL"
    by (simp add: TOKEN_def STRICT_TOKEN_class token_class_def IS_ALPHA_def IS_NUM_def)
  moreover have "pure_data_cb (on_header_field http_parser_settings_init) (\<lambda>d _. d :: nat)"
    by (simp add: pure_data_cb_def http_parser_settings_init_def)
  ultimately show ?thesis
    using header_name_recognition [of "(http_parser_init HTTP_REQUEST (0 :: nat))\<lparr>state := s_header_field_start\<rparr>"
        "''Content-Length''" 80 http_parser_settings_init "\<lambda>d _. d"] w
    by (auto simp: http_parser_init_def)
qed

end
