(* ===== verification/Http_Url_Spec.thy ===== *)
theory Http_Url_Spec
  imports Http_Headers
begin

text \<open>
  What \<open>http_parser_parse_url\<close> promises: it returns and every field it reports lies inside the
  buffer; and, below 64 KiB, the range of its 16-bit offsets, the port is the number its digits
  denote, and a URL put together from a path, a query and a fragment is taken apart again.
\<close>

section \<open>Fields\<close>

lemma uf_num_inj [simp]: "uf_num f = uf_num g \<longleftrightarrow> f = g"
  by (cases f; cases g; simp)

lemma uf_num_less: "uf_num f < 16"
  by (cases f) simp_all

lemma bit_uf_bit: "bit (uf_bit f) i \<longleftrightarrow> i = uf_num f"
  using uf_num_less [of f] by (auto simp: uf_bit_def bit_simps)

lemma has_field_bit: "has_field u f \<longleftrightarrow> bit (field_set u) (uf_num f)"
proof -
  have "field_set u AND uf_bit f \<noteq> 0 \<longleftrightarrow> (\<exists>i. bit (field_set u AND uf_bit f) i)"
    by (auto intro: bit_word_eqI)
  then show ?thesis
    by (auto simp: has_field_def bit_and_iff bit_uf_bit)
qed

lemma has_field_mark [simp]: "has_field (mark_field f u) g \<longleftrightarrow> g = f \<or> has_field u g"
  by (auto simp: has_field_bit mark_field_def bit_or_iff bit_uf_bit)

lemma field_simps [simp]:
  "has_field (put_field f o1 n u) g = has_field u g"
  "field_off (put_field f o1 n u) g = (if g = f then o1 else field_off u g)"
  "field_len (put_field f o1 n u) g = (if g = f then n else field_len u g)"
  "field_off (mark_field f u) g = field_off u g" "field_len (mark_field f u) g = field_len u g"
  by (simp_all add: has_field_def put_field_def field_off_def field_len_def mark_field_def)

lemma field_update_simps [simp]:
  "has_field (bump_len f u) g = has_field u g" "has_field (set_off f p u) g = has_field u g"
  "field_off (bump_len f u) g = field_off u g"
  "field_len (bump_len f u) g = (if g = f then field_len u g + 1 else field_len u g)"
  "field_off (set_off f p u) g = (if g = f then of_nat p else field_off u g)"
  "field_len (set_off f p u) g = field_len u g"
  "has_field (open_field f p u) g \<longleftrightarrow> g = f \<or> has_field u g"
  "field_off (open_field f p u) g = (if g = f then of_nat p else field_off u g)"
  "field_len (open_field f p u) g = (if g = f then 1 else field_len u g)"
  by (simp_all add: bump_len_def set_off_def open_field_def)

text \<open>A field ends at or before \<open>p\<close>.\<close>

definition field_end :: "http_parser_url \<Rightarrow> http_parser_url_fields \<Rightarrow> nat" where
  "field_end u f = unat (field_off u f) + unat (field_len u f)"

definition fields_before :: "http_parser_url_fields set \<Rightarrow> nat \<Rightarrow> http_parser_url \<Rightarrow> bool" where
  "fields_before F p u \<longleftrightarrow> (\<forall>f\<in>F. has_field u f \<longrightarrow> field_end u f \<le> p)"

lemma unat_of_nat_u16 [simp]: "p < 65536 \<Longrightarrow> unat (of_nat p :: u16) = p"
  by (simp add: unat_of_nat)

lemma unat_inc_u16: "unat (n :: u16) < 65535 \<Longrightarrow> unat (n + 1) = unat n + 1"
  by (simp add: unat_word_ariths)

lemma unat_of_nat_u16_le: "unat (of_nat p :: u16) \<le> p"
  by (simp add: unat_of_nat)

lemma unat_inc_u16_le: "unat (n + 1 :: u16) \<le> unat n + 1"
  by (simp add: unat_word_ariths)

lemma field_end_bump_le: "field_end (bump_len f u) f \<le> Suc (field_end u f)"
  using unat_inc_u16_le [of "field_len u f"] by (simp add: field_end_def)

lemma field_end_bump:
  "field_end u f < 65535 \<Longrightarrow> field_end (bump_len f u) f = field_end u f + 1"
  by (simp add: field_end_def unat_inc_u16)

section \<open>The character loop\<close>

lemma url_switch_reachable:
  assumes "s \<in> url_states \<or> s = s_req_spaces_before_url"
  shows "url_switch (parse_url_char s c) \<noteq> Sw_assert"
  using parse_url_char_states [of s c] by (auto simp: url_states_def url_switch_def)

lemma parse_url_loop_ok:
  "s \<in> url_states \<or> s = s_req_spaces_before_url \<Longrightarrow> fields_before UNIV p u \<Longrightarrow>
   uf = UF_MAX \<or> has_field u uf \<Longrightarrow> \<forall>f. has_field u f \<longrightarrow> f \<notin> {UF_PORT, UF_USERINFO, UF_MAX} \<Longrightarrow>
   \<exists>r found u'. parse_url_loop p cs s uf fat u = Some (r, found, u') \<and> fields_before UNIV (p + length cs) u' \<and>
     (\<forall>f. has_field u' f \<longrightarrow> f \<notin> {UF_PORT, UF_USERINFO, UF_MAX})"
proof (induction cs arbitrary: p s uf fat u)
  case Nil
  then show ?case by simp
next
  case (Cons c cs)
  let ?s = "parse_url_char s c"
  have mono: "fields_before UNIV (Suc p) u"
    using Cons.prems(2) by (auto simp: fields_before_def le_Suc_eq)
  show ?case
  proof (cases "url_switch ?s")
    case Sw_return
    then show ?thesis
      using Cons.prems(2,4) by (force simp: Let_def fields_before_def)
  next
    case Sw_continue
    then have "?s \<in> url_states"
      using parse_url_char_states [of s c] by (auto simp: url_switch_def)
    with Sw_continue show ?thesis
      using Cons.IH [of ?s "Suc p" u uf] Cons.prems mono by (auto simp: Let_def)
  next
    case Sw_assert
    with url_switch_reachable [OF Cons.prems(1)] show ?thesis
      by blast
  next
    case (Sw_field f)
    then have s: "?s \<in> url_states" and f: "f \<notin> {UF_PORT, UF_USERINFO, UF_MAX}"
      using parse_url_char_states [of s c] by (auto simp: url_switch_def url_states_def split: state.splits)
    show ?thesis
    proof (cases "f = uf")
      case True
      with f Cons.prems(3) have "has_field u uf"
        by auto
      then have "fields_before UNIV (Suc p) (bump_len uf u)"
        using Cons.prems(2) mono field_end_bump_le [of uf u]
        by (force simp: fields_before_def field_end_def)
      with True Sw_field s show ?thesis
        using Cons.IH [of ?s "Suc p" "bump_len uf u" uf] Cons.prems by (auto simp: Let_def)
    next
      case False
      have "fields_before UNIV (Suc p) (open_field f p u)"
        using mono unat_of_nat_u16_le [of p] by (auto simp: fields_before_def field_end_def)
      with False Sw_field s f show ?thesis
        using Cons.IH [of ?s "Suc p" "open_field f p u" f] Cons.prems by (auto simp: Let_def)
    qed
  qed
qed

section \<open>Hosts\<close>

text \<open>
  Inside the host loop at offset \<open>p\<close>: the host field ends at or before \<open>p\<close>, user information
  ends at \<open>p\<close> while it is being read, and the port field exists only in the port state, where
  it is a run of digits that ends at \<open>p\<close> unless the offset has wrapped.
\<close>

abbreviation host_fields :: "http_parser_url_fields set" where
  "host_fields \<equiv> {UF_HOST, UF_PORT, UF_USERINFO}"

definition host_inv :: "string \<Rightarrow> nat \<Rightarrow> http_host_state \<Rightarrow> http_parser_url \<Rightarrow> bool" where
  "host_inv buf p s u \<longleftrightarrow>
     fields_before host_fields p u \<and> has_field u UF_HOST \<and>
     (s = s_http_userinfo \<longrightarrow> has_field u UF_USERINFO) \<and>
     (s \<in> {s_http_userinfo_start, s_http_userinfo, s_http_host_start, s_http_host_v6_start} \<longrightarrow>
        field_len u UF_HOST = 0) \<and>
     (if s = s_http_host_port
      then has_field u UF_PORT \<and>
           (p < 65536 \<longrightarrow> field_end u UF_PORT = p \<and>
              (\<forall>j. unat (field_off u UF_PORT) \<le> j \<and> j < p \<longrightarrow> IS_NUM (buf ! j)))
      else \<not> has_field u UF_PORT)"

lemma fields_before_Suc: "fields_before F p u \<Longrightarrow> fields_before F (Suc p) u"
  by (auto simp: fields_before_def le_Suc_eq)

lemma fields_before_bump:
  "fields_before F p u \<Longrightarrow> has_field u f \<Longrightarrow> fields_before F (Suc p) (bump_len f u)"
  using field_end_bump_le [of f u] fields_before_Suc [of F p u]
  by (force simp: fields_before_def field_end_def)

lemma fields_before_reset:
  "fields_before F p u \<Longrightarrow> field_len u f = 0 \<Longrightarrow> fields_before F p (set_off f p u)"
  using unat_of_nat_u16_le [of p] by (auto simp: fields_before_def field_end_def)

lemma fields_before_new:
  "fields_before F p u \<Longrightarrow> fields_before F p (mark_field f (put_field f (of_nat p) 0 u))"
  using unat_of_nat_u16_le [of p] by (auto simp: fields_before_def field_end_def)

lemma host_update_inv:
  assumes inv: "host_inv buf p s u" and new: "s' = http_parse_host_char s (buf ! p)"
    and alive: "s' \<noteq> s_http_host_dead"
  shows "host_inv buf (Suc p) s' (host_update s s' p u)"
proof -
  note rules = fields_before_bump fields_before_reset fields_before_new fields_before_Suc
  have before: "fields_before host_fields p u" and host: "has_field u UF_HOST"
    using inv by (auto simp: host_inv_def)
  have noport: "s \<noteq> s_http_host_port \<Longrightarrow> \<not> has_field u UF_PORT"
    using inv by (simp add: host_inv_def)
  have zero: "s \<in> {s_http_host_start, s_http_host_v6_start} \<Longrightarrow> field_len u UF_HOST = 0"
    using inv by (auto simp: host_inv_def)
  have pred: "s' = s_http_host \<Longrightarrow> s \<in> {s_http_host_start, s_http_host}"
    "s' = s_http_host_v6 \<Longrightarrow> s \<in> {s_http_host_v6_start, s_http_host_v6}"
    "s' = s_http_host_port \<Longrightarrow> s \<in> {s_http_host_port_start, s_http_host_port} \<and> IS_NUM (buf ! p)"
    "s' = s_http_userinfo \<Longrightarrow> s \<in> {s_http_userinfo_start, s_http_userinfo}"
    "s = s_http_host_port \<Longrightarrow> s' = s_http_host_port"
    "s' \<in> {s_http_userinfo_start, s_http_userinfo, s_http_host_start, s_http_host_v6_start} \<Longrightarrow>
      s \<in> {s_http_userinfo_start, s_http_userinfo, s_http_host_start}"
    using alive unfolding new
    by (cases s; simp add: http_parse_host_char_def host_v6_tail_def host_zone_tail_def split: if_splits)+
  have "fields_before host_fields (Suc p) (host_update s s' p u)"
    using before host zero pred(1-4) inv fields_before_Suc [OF before]
    by (cases s') (auto simp: host_update_def host_inv_def
        intro!: fields_before_bump fields_before_reset fields_before_new)
  moreover have "has_field (host_update s s' p u) UF_HOST"
    and "s' = s_http_userinfo \<longrightarrow> has_field (host_update s s' p u) UF_USERINFO"
    using host pred(4) inv by (cases s'; auto simp: host_update_def host_inv_def)+
  moreover have "s' \<in> {s_http_userinfo_start, s_http_userinfo, s_http_host_start, s_http_host_v6_start} \<longrightarrow>
      field_len (host_update s s' p u) UF_HOST = 0"
    using pred(6) inv by (cases s'; auto simp: host_update_def host_inv_def)
  moreover have "s' \<noteq> s_http_host_port \<Longrightarrow> \<not> has_field (host_update s s' p u) UF_PORT"
    using pred(5) noport by (cases s') (auto simp: host_update_def)
  moreover have "has_field (host_update s s' p u) UF_PORT \<and>
      (Suc p < 65536 \<longrightarrow> field_end (host_update s s' p u) UF_PORT = Suc p \<and>
        (\<forall>j. unat (field_off (host_update s s' p u) UF_PORT) \<le> j \<and> j < Suc p \<longrightarrow> IS_NUM (buf ! j)))"
    if "s' = s_http_host_port"
    using pred(3) [OF that] inv that field_end_bump [of u UF_PORT]
    by (auto simp: host_update_def host_inv_def field_end_def less_Suc_eq unat_inc_u16)
  ultimately show ?thesis
    by (simp add: host_inv_def)
qed

lemma parse_host_loop_ok:
  "host_inv buf p s u \<Longrightarrow> take (length cs) (drop p buf) = cs \<Longrightarrow>
   \<exists>s' u'. parse_host_loop p cs s u = (s', u') \<and>
     (\<forall>t. s' = Some t \<longrightarrow> host_inv buf (p + length cs) t u')"
proof (induction cs arbitrary: p s u)
  case Nil
  then show ?case by simp
next
  case (Cons c cs)
  from Cons.prems(2) have c: "buf ! p = c" "take (length cs) (drop (Suc p) buf) = cs"
    by (cases "drop p buf"; auto dest!: drop_ConsD)+
  show ?case
  proof (cases "http_parse_host_char s c = s_http_host_dead")
    case True
    then show ?thesis by (simp add: Let_def)
  next
    case False
    with host_update_inv [OF Cons.prems(1) refl] c
    have "host_inv buf (Suc p) (http_parse_host_char s c) (host_update s (http_parse_host_char s c) p u)"
      by simp
    from Cons.IH [OF this c(2)] False show ?thesis
      by (auto simp: Let_def)
  qed
qed

lemma host_update_other:
  "f \<notin> host_fields \<Longrightarrow> has_field (host_update s s' p u) f = has_field u f \<and>
     field_end (host_update s s' p u) f = field_end u f"
  by (cases s') (auto simp: host_update_def field_end_def)

lemma parse_host_loop_other:
  "f \<notin> host_fields \<Longrightarrow> parse_host_loop p cs s u = (s', u') \<Longrightarrow>
   has_field u' f = has_field u f \<and> field_end u' f = field_end u f"
proof (induction cs arbitrary: p s u)
  case (Cons c cs)
  then show ?case
    using host_update_other [of f s "http_parse_host_char s c" p u]
    by (auto simp: Let_def split: if_splits simp del: insert_iff)
qed simp

lemma http_parse_host_ok:
  assumes "has_field u UF_HOST" and "fields_before UNIV (length buf) u"
    and "\<not> has_field u UF_PORT" and "\<not> has_field u UF_USERINFO"
  shows "\<exists>r u'. http_parse_host buf u fat = Some (r, u') \<and>
    (r = 0 \<longrightarrow> fields_before UNIV (length buf) u' \<and>
       (has_field u' UF_PORT \<and> length buf < 65536 \<longrightarrow> (\<forall>c\<in>set (field_str buf u' UF_PORT). IS_NUM c)))"
proof -
  let ?start = "unat (field_off u UF_HOST)" and ?n = "unat (field_len u UF_HOST)"
  let ?cs = "take ?n (drop ?start buf)" and ?u = "put_field UF_HOST (field_off u UF_HOST) 0 u"
  let ?s = "if fat then s_http_userinfo_start else s_http_host_start"
  have le: "?start + ?n \<le> length buf"
    using assms(1,2) by (auto simp: fields_before_def field_end_def)
  then have len: "length ?cs = ?n"
    by simp
  have inv: "host_inv buf ?start ?s ?u"
    using assms(1,3,4) by (auto simp: host_inv_def fields_before_def field_end_def)
  obtain s' u' where loop: "parse_host_loop ?start ?cs ?s ?u = (s', u')"
    and ok: "\<And>t. s' = Some t \<Longrightarrow> host_inv buf (?start + ?n) t u'"
    using parse_host_loop_ok [OF inv, of ?cs] le len by auto
  have res: "http_parse_host buf u fat =
      (case s' of None \<Rightarrow> Some (1, u') | Some t \<Rightarrow> Some (if host_end_bad t then 1 else 0, u'))"
    using assms(1) le loop by (simp add: http_parse_host_def Let_def split: option.splits)
  have "fields_before UNIV (length buf) u' \<and>
      (has_field u' UF_PORT \<and> length buf < 65536 \<longrightarrow> (\<forall>c\<in>set (field_str buf u' UF_PORT). IS_NUM c))" if "s' = Some t" for t
  proof -
    note inv' = ok [OF that]
    have "field_end u' f \<le> length buf" if "has_field u' f" for f
    proof (cases "f \<in> host_fields")
      case True
      then show ?thesis
        using inv' that le unfolding host_inv_def fields_before_def by fastforce
    next
      case False
      then have "has_field u f" and "field_end u' f = field_end u f"
        using parse_host_loop_other [OF False loop] that by (auto simp: field_end_def)
      then show ?thesis
        using assms(2) by (simp add: fields_before_def)
    qed
    moreover have "IS_NUM c" if prt: "has_field u' UF_PORT" "length buf < 65536" and c: "c \<in> set (field_str buf u' UF_PORT)" for c
    proof -
      obtain j where "j < unat (field_len u' UF_PORT)" "unat (field_off u' UF_PORT) + j < length buf"
        "c = buf ! (unat (field_off u' UF_PORT) + j)"
        using c by (auto simp: field_str_def in_set_conv_nth)
      with inv' prt le show ?thesis
        by (auto simp: host_inv_def field_end_def split: if_splits)
    qed
    ultimately show ?thesis
      by (auto simp: fields_before_def)
  qed
  then show ?thesis
    using res by (cases s') auto
qed

section \<open>Ports\<close>

lemma port_loop_value:
  "\<forall>c\<in>set cs. IS_NUM c \<Longrightarrow> unat v \<le> 65535 \<Longrightarrow>
   port_loop cs v =
     (if dec_num (unat v) cs \<le> 65535 then Some (of_nat (dec_num (unat v) cs)) else None)"
proof (induction cs arbitrary: v)
  case Nil
  then show ?case by simp
next
  case (Cons c cs)
  let ?v = "v * 10 + (of_nat (ord c) - 48)"
  have d: "unat (of_nat (ord c) - 48 :: u64) = ord c - 48" and n: "ord c - 48 < 10"
    using digit_unat [of c] Cons.prems(1) by (auto simp: digit_def IS_NUM_ord)
  have v: "unat ?v = unat v * 10 + (ord c - 48)"
    using d n Cons.prems(2) by (simp add: unat_word_ariths)
  show ?case
  proof (cases "unat ?v \<le> 65535")
    case True
    then have "\<not> ?v > 0xffff"
      by (simp add: word_less_nat_alt)
    with True Cons.IH [of ?v] Cons.prems(1) v show ?thesis
      by (simp add: Let_def)
  next
    case False
    then have "?v > 0xffff"
      by (simp add: word_less_nat_alt)
    moreover have "\<not> dec_num (unat v) (c # cs) \<le> 65535"
      using dec_num_ge [of "unat v * 10 + (ord c - 48)" cs] False v by simp
    ultimately show ?thesis
      by (simp add: Let_def)
  qed
qed

section \<open>The whole parse\<close>

lemma parse_url_port_ok:
  assumes "fields_before UNIV (length buf) u"
    and "has_field u UF_PORT \<and> length buf < 65536 \<longrightarrow> (\<forall>c\<in>set (field_str buf u UF_PORT). IS_NUM c)"
  shows "\<exists>r u'. parse_url_port buf u = Some (r, u') \<and> field_set u' = field_set u \<and>
    field_data u' = field_data u \<and>
    (r = 0 \<and> has_field u UF_PORT \<and> length buf < 65536 \<longrightarrow>
       dec_num 0 (field_str buf u UF_PORT) \<le> 65535 \<and> unat (port u') = dec_num 0 (field_str buf u UF_PORT))"
proof (cases "has_field u UF_PORT")
  case False
  then show ?thesis by (simp add: parse_url_port_def)
next
  case True
  let ?v = "dec_num 0 (field_str buf u UF_PORT)"
  have "unat (field_off u UF_PORT) + unat (field_len u UF_PORT) \<le> length buf"
    using assms(1) True by (auto simp: fields_before_def field_end_def)
  moreover have "port_loop (field_str buf u UF_PORT) 0 = (if ?v \<le> 65535 then Some (of_nat ?v) else None)"
    if "length buf < 65536"
    using port_loop_value [of "field_str buf u UF_PORT" 0] assms(2) True that by simp
  moreover have "unat (ucast (of_nat ?v :: u64) :: u16) = ?v" if "?v \<le> 65535"
    using that by (simp add: unsigned_ucast_eq unat_of_nat take_bit_nat_eq_self)
  ultimately show ?thesis
    using True by (auto simp: parse_url_port_def split: option.splits if_splits)
qed

text \<open>What holds after the character loop, before the host is looked at.\<close>

lemma parse_url_finish_ok:
  assumes "fields_before UNIV (length buf) u"
    and "\<forall>f. has_field u f \<longrightarrow> f \<notin> {UF_PORT, UF_USERINFO, UF_MAX}"
  shows "\<exists>r u'. parse_url_finish buf is_connect fat u = Some (r, u') \<and>
    (r = 0 \<longrightarrow> fields_before UNIV (length buf) u' \<and>
       (has_field u' UF_PORT \<and> length buf < 65536 \<longrightarrow>
          dec_num 0 (field_str buf u' UF_PORT) \<le> 65535 \<and>
          (\<forall>c\<in>set (field_str buf u' UF_PORT). IS_NUM c) \<and>
          unat (port u') = dec_num 0 (field_str buf u' UF_PORT)))"
proof -
  have copy: "fields_before UNIV n u' = fields_before UNIV n u1" "has_field u' f = has_field u1 f"
    "field_str buf u' f = field_str buf u1 f"
    if "field_set u' = field_set u1" "field_data u' = field_data u1" for n u' u1 f
    using that by (simp_all add: fields_before_def field_end_def has_field_def field_off_def field_len_def
        field_str_def)
  show ?thesis
  proof (cases "has_field u UF_HOST")
    case False
    then show ?thesis
      using assms by (auto simp: parse_url_finish_def parse_url_port_def)
  next
    case True
    then obtain r u1 where host: "http_parse_host buf u fat = Some (r, u1)"
      and ok: "r = 0 \<Longrightarrow> fields_before UNIV (length buf) u1 \<and>
        (has_field u1 UF_PORT \<and> length buf < 65536 \<longrightarrow> (\<forall>c\<in>set (field_str buf u1 UF_PORT). IS_NUM c))"
      using http_parse_host_ok [OF True assms(1)] assms(2) by blast
    show ?thesis
    proof (cases "r = 0 \<and> \<not> (is_connect \<and> field_set u1 \<noteq> uf_bit UF_HOST OR uf_bit UF_PORT)")
      case False
      then show ?thesis
        using True host by (auto simp: parse_url_finish_def)
    next
      case cont: True
      then obtain r2 u2 where port: "parse_url_port buf u1 = Some (r2, u2)" "field_set u2 = field_set u1"
        "field_data u2 = field_data u1"
        "r2 = 0 \<and> has_field u1 UF_PORT \<and> length buf < 65536 \<longrightarrow> dec_num 0 (field_str buf u1 UF_PORT) \<le> 65535 \<and>
           unat (port u2) = dec_num 0 (field_str buf u1 UF_PORT)"
        using parse_url_port_ok ok by blast
      show ?thesis
        using True cont host port(1,4) ok copy [OF port(2,3)] by (auto simp: parse_url_finish_def)
    qed
  qed
qed

text \<open>
  C9: \<open>http_parser_parse_url\<close> always returns, with no failed assertion and no read outside the
  buffer; when it reports success every field it marks lies inside the buffer, and, for a buffer
  below 64 KiB, a reported port consists of decimal digits, is at most 65535 and is the number
  these digits denote.
\<close>

theorem http_parser_parse_url_safe:
  "\<exists>r u'. http_parser_parse_url buf is_connect u = Some (r, u') \<and>
    (r = 0 \<longrightarrow> (\<forall>f. has_field u' f \<longrightarrow> unat (field_off u' f) + unat (field_len u' f) \<le> length buf) \<and>
       (has_field u' UF_PORT \<and> length buf < 65536 \<longrightarrow>
          (\<forall>c\<in>set (field_str buf u' UF_PORT). IS_NUM c) \<and>
          dec_num 0 (field_str buf u' UF_PORT) \<le> 65535 \<and>
          unat (port u') = dec_num 0 (field_str buf u' UF_PORT)))"
proof (cases "buf = []")
  case True
  then show ?thesis by (simp add: http_parser_parse_url_def)
next
  case False
  let ?s = "if is_connect then s_req_server_start else s_req_spaces_before_url"
  let ?u = "u\<lparr>port := 0, field_set := 0\<rparr>"
  have none: "\<not> has_field ?u f" for f
    by (simp add: has_field_def)
  have s: "?s \<in> url_states \<or> ?s = s_req_spaces_before_url"
    by (simp add: url_states_def)
  obtain r found u1 where loop: "parse_url_loop 0 buf ?s UF_MAX False ?u = Some (r, found, u1)"
    "fields_before UNIV (length buf) u1" "\<forall>f. has_field u1 f \<longrightarrow> f \<notin> {UF_PORT, UF_USERINFO, UF_MAX}"
    using parse_url_loop_ok [OF s, of 0 ?u UF_MAX buf False] none
    by (auto simp: fields_before_def)
  then show ?thesis
    using False parse_url_finish_ok [OF loop(2,3), of is_connect found]
    by (auto simp: http_parser_parse_url_def fields_before_def field_end_def)
qed

theorem http_parser_parse_url_safe_witness:
  "\<exists>u'. http_parser_parse_url ''http://a.b:8080/x?y'' False http_parser_url_init = Some (0, u') \<and>
     unat (port u') = dec_num 0 (field_str ''http://a.b:8080/x?y'' u' UF_PORT)"
proof -
  have "case http_parser_parse_url ''http://a.b:8080/x?y'' False http_parser_url_init of
      None \<Rightarrow> False | Some (r, u') \<Rightarrow> r = 0 \<and> has_field u' UF_PORT"
    by code_simp
  then obtain u' where "http_parser_parse_url ''http://a.b:8080/x?y'' False http_parser_url_init = Some (0, u')"
    "has_field u' UF_PORT"
    by (auto split: option.splits)
  then show ?thesis
    using http_parser_parse_url_safe [of "''http://a.b:8080/x?y''" False http_parser_url_init] by auto
qed

section \<open>Splitting an origin-form URL\<close>

definition field_at :: "http_parser_url_fields \<Rightarrow> nat \<Rightarrow> nat \<Rightarrow> http_parser_url \<Rightarrow> http_parser_url" where
  "field_at f p n u = mark_field f (put_field f (of_nat p) (of_nat n) u)"

lemma field_at_simps [simp]:
  "has_field (field_at f p n u) g \<longleftrightarrow> g = f \<or> has_field u g"
  "g \<noteq> f \<Longrightarrow> field_str buf (field_at f p n u) g = field_str buf u g"
  "p < 65536 \<Longrightarrow> n < 65536 \<Longrightarrow> field_str buf (field_at f p n u) f = take n (drop p buf)"
  by (simp_all add: field_at_def field_str_def)

lemma bump_field_at: "bump_len f (field_at f p n u) = field_at f p (Suc n) u"
  by (simp add: field_at_def bump_len_def put_field_def mark_field_def field_off_def field_len_def add.commute)

lemma open_field_at: "open_field f p u = field_at f p 1 u"
  by (simp add: open_field_def field_at_def)

text \<open>A run of characters that keep the machine in the state of one field.\<close>

lemma parse_url_run:
  "\<forall>c\<in>set cs. parse_url_char s c = s \<Longrightarrow> url_switch s = Sw_field f \<Longrightarrow> s \<noteq> s_req_server_with_at \<Longrightarrow>
   parse_url_loop p (cs @ rest) s f fat (field_at f q n u) =
   parse_url_loop (p + length cs) rest s f fat (field_at f q (n + length cs) u)"
  by (induction cs arbitrary: p n) (simp_all add: Let_def bump_field_at)

lemma parse_url_field:
  assumes "parse_url_char s0 c = s" and "\<forall>c\<in>set cs. parse_url_char s c = s" and "url_switch s = Sw_field f"
    and "s \<noteq> s_req_server_with_at" and "f \<noteq> old"
  shows "parse_url_loop p ((c # cs) @ rest) s0 old fat u =
    parse_url_loop (p + Suc (length cs)) rest s f fat (field_at f p (Suc (length cs)) u)"
proof -
  have "parse_url_loop p ((c # cs) @ rest) s0 old fat u =
      parse_url_loop (Suc p) (cs @ rest) s f fat (field_at f p 1 u)"
    using assms(1,3-5) by (simp add: Let_def open_field_at)
  also have "\<dots> = parse_url_loop (p + Suc (length cs)) rest s f fat (field_at f p (Suc (length cs)) u)"
    using parse_url_run [OF assms(2,3,4), of "Suc p" rest fat p 1 u] by simp
  finally show ?thesis .
qed

lemma IS_URL_CHAR_other:
  assumes "IS_URL_CHAR c"
  shows "c \<noteq> CHR '' ''" "c \<noteq> CR" "c \<noteq> LF" "c \<noteq> HT" "c \<noteq> FF"
  using assms by (auto simp: IS_URL_CHAR_class url_class_def)

lemma url_char_steps:
  "IS_URL_CHAR c \<Longrightarrow> parse_url_char s_req_path c = s_req_path"
  "IS_URL_CHAR c \<or> c = CHR ''?'' \<Longrightarrow> parse_url_char s_req_query_string c = s_req_query_string"
  "IS_URL_CHAR c \<or> c = CHR ''?'' \<Longrightarrow> parse_url_char s_req_query_string_start c = s_req_query_string"
  "IS_URL_CHAR c \<or> c = CHR ''?'' \<or> c = CHR ''#'' \<Longrightarrow> parse_url_char s_req_fragment c = s_req_fragment"
  "IS_URL_CHAR c \<or> c = CHR ''?'' \<Longrightarrow> parse_url_char s_req_fragment_start c = s_req_fragment"
  using IS_URL_CHAR_other [of c] by (simp add: parse_url_char_def; fastforce)+

lemma url_slash_step: "parse_url_char s_req_spaces_before_url (CHR ''/'') = s_req_path"
  by (simp add: parse_url_char_def)

definition query_part :: "string \<Rightarrow> string" where
  "query_part q = (if q = [] then [] else CHR ''?'' # q)"

definition fragment_part :: "string \<Rightarrow> string" where
  "fragment_part f = (if f = [] then [] else CHR ''#'' # f)"

definition part_str :: "string \<Rightarrow> http_parser_url \<Rightarrow> http_parser_url_fields \<Rightarrow> string" where
  "part_str buf u f = (if has_field u f then field_str buf u f else [])"

lemma url_fragment_loop:
  assumes "s \<in> {s_req_path, s_req_query_string}" and "old \<noteq> UF_FRAGMENT"
    and "\<forall>c\<in>set fr. IS_URL_CHAR c \<or> c = CHR ''?'' \<or> c = CHR ''#''" and "fr \<noteq> [] \<longrightarrow> hd fr \<noteq> CHR ''#''"
  shows "parse_url_loop p (fragment_part fr) s old fat u =
    Some (0, fat, if fr = [] then u else field_at UF_FRAGMENT (Suc p) (length fr) u)"
proof (cases fr)
  case Nil
  then show ?thesis by (simp add: fragment_part_def)
next
  case (Cons c cs)
  have "parse_url_char s (CHR ''#'') = s_req_fragment_start"
    using assms(1) by (auto simp: parse_url_char_def IS_URL_CHAR_class url_class_def)
  then have "parse_url_loop p (fragment_part fr) s old fat u =
      parse_url_loop (Suc p) ((c # cs) @ []) s_req_fragment_start old fat u"
    using Cons by (simp add: fragment_part_def url_switch_def Let_def)
  also have "\<dots> = Some (0, fat, field_at UF_FRAGMENT (Suc p) (length fr) u)"
    using Cons assms(2-4)
    by (subst parse_url_field [where s = s_req_fragment and f = UF_FRAGMENT])
      (auto simp: url_char_steps url_switch_def)
  finally show ?thesis
    using Cons by simp
qed

lemma url_query_loop:
  assumes "old \<notin> {UF_QUERY, UF_FRAGMENT}" and "\<forall>c\<in>set q. IS_URL_CHAR c \<or> c = CHR ''?''"
    and "\<forall>c\<in>set fr. IS_URL_CHAR c \<or> c = CHR ''?'' \<or> c = CHR ''#''" and "fr \<noteq> [] \<longrightarrow> hd fr \<noteq> CHR ''#''"
  shows "parse_url_loop p (query_part q @ fragment_part fr) s_req_path old fat u =
    (let u1 = (if q = [] then u else field_at UF_QUERY (Suc p) (length q) u) in
     Some (0, fat, if fr = [] then u1
                   else field_at UF_FRAGMENT (Suc (p + length (query_part q))) (length fr) u1))"
proof (cases q)
  case Nil
  then show ?thesis
    using assms url_fragment_loop [of s_req_path old fr p fat u] by (simp add: query_part_def)
next
  case (Cons c cs)
  have "parse_url_char s_req_path (CHR ''?'') = s_req_query_string_start"
    by (simp add: parse_url_char_def IS_URL_CHAR_class url_class_def)
  then have "parse_url_loop p (query_part q @ fragment_part fr) s_req_path old fat u =
      parse_url_loop (Suc p) ((c # cs) @ fragment_part fr) s_req_query_string_start old fat u"
    using Cons by (simp add: query_part_def url_switch_def Let_def)
  also have "\<dots> = parse_url_loop (Suc p + Suc (length cs)) (fragment_part fr) s_req_query_string UF_QUERY fat
      (field_at UF_QUERY (Suc p) (Suc (length cs)) u)"
    using Cons assms(1,2)
    by (intro parse_url_field) (auto simp: url_char_steps url_switch_def)
  finally show ?thesis
    using Cons assms(3,4) url_fragment_loop [of s_req_query_string UF_QUERY fr]
    by (simp add: query_part_def Let_def)
qed

text \<open>
  A URL in origin form is split into the parts it was put together from: the fields reported for
  \<open>path?query#fragment\<close> are exactly the path, the query and the fragment, and no others.
\<close>

lemma origin_form_parts:
  assumes "\<forall>c\<in>set path. IS_URL_CHAR c" and "\<forall>c\<in>set q. IS_URL_CHAR c \<or> c = CHR ''?''"
    and "\<forall>c\<in>set fr. IS_URL_CHAR c \<or> c = CHR ''?'' \<or> c = CHR ''#''" and "fr \<noteq> [] \<longrightarrow> hd fr \<noteq> CHR ''#''"
    and "buf = (CHR ''/'' # path) @ query_part q @ fragment_part fr" and "length buf < 65536"
  shows "\<exists>u'. http_parser_parse_url buf False u = Some (0, u') \<and>
    part_str buf u' UF_PATH = CHR ''/'' # path \<and> part_str buf u' UF_QUERY = q \<and>
    part_str buf u' UF_FRAGMENT = fr \<and>
    (\<forall>f\<in>{UF_SCHEMA, UF_HOST, UF_PORT, UF_USERINFO}. \<not> has_field u' f)"
proof -
  let ?u = "u\<lparr>port := 0, field_set := 0\<rparr>" and ?n = "Suc (length path)"
  let ?u1 = "field_at UF_PATH 0 ?n ?u"
  let ?u2 = "if q = [] then ?u1 else field_at UF_QUERY (Suc ?n) (length q) ?u1"
  let ?u3 = "if fr = [] then ?u2
    else field_at UF_FRAGMENT (Suc (?n + length (query_part q))) (length fr) ?u2"
  have none: "\<not> has_field ?u f" for f
    by (simp add: has_field_def)
  have "parse_url_loop 0 buf s_req_spaces_before_url UF_MAX False ?u =
      parse_url_loop (0 + ?n) (query_part q @ fragment_part fr) s_req_path UF_PATH False ?u1"
    unfolding assms(5) using assms(1)
    by (intro parse_url_field) (auto simp: url_char_steps url_slash_step url_switch_def)
  also have "\<dots> = Some (0, False, ?u3)"
    using url_query_loop [OF _ assms(2-4), of UF_PATH ?n False ?u1] by (simp add: Let_def)
  finally have "http_parser_parse_url buf False u = Some (0, ?u3)"
    using assms(5) none
    by (simp add: http_parser_parse_url_def parse_url_finish_def parse_url_port_def)
  moreover have "part_str buf ?u3 UF_PATH = CHR ''/'' # path" "part_str buf ?u3 UF_QUERY = q"
    "part_str buf ?u3 UF_FRAGMENT = fr"
    using assms(5,6) none by (auto simp: part_str_def query_part_def fragment_part_def)
  ultimately show ?thesis
    using none by auto
qed

end
