(* ===== verification/Std_Map.thy ===== *)
theory Std_Map
  imports Prelude
begin

text \<open>
  The ordered containers of the C++ standard library that the sources use with a comparator of
  their own: \<open>std::map<K, V, Less>\<close> as the list of its entries in iteration order. \<open>find\<close>,
  \<open>operator[]\<close> followed by an assignment, \<open>insert\<close> (which keeps an entry that is already
  there) and \<open>erase\<close> are the operations the sources call. Two keys are the same key when
  neither is less than the other.

  The locale \<open>std_compare\<close> is what the standard asks of a comparator; its lemmas are the
  container laws, for every client that provides one.
\<close>

type_synonym ('k, 'v) std_map = "('k \<times> 'v) list"

definition same_key :: "('k \<Rightarrow> 'k \<Rightarrow> bool) \<Rightarrow> 'k \<Rightarrow> 'k \<Rightarrow> bool" where
  "same_key lt a b \<longleftrightarrow> \<not> lt a b \<and> \<not> lt b a"

fun map_find :: "('k \<Rightarrow> 'k \<Rightarrow> bool) \<Rightarrow> 'k \<Rightarrow> ('k, 'v) std_map \<Rightarrow> 'v option" where
  "map_find lt k [] = None"
| "map_find lt k ((k', v) # m) = (if same_key lt k k' then Some v else map_find lt k m)"

text \<open>\<open>m[k] = v\<close>: an entry that exists keeps its key.\<close>

fun map_set :: "('k \<Rightarrow> 'k \<Rightarrow> bool) \<Rightarrow> 'k \<Rightarrow> 'v \<Rightarrow> ('k, 'v) std_map \<Rightarrow> ('k, 'v) std_map" where
  "map_set lt k v [] = [(k, v)]"
| "map_set lt k v ((k', v') # m) =
     (if lt k k' then (k, v) # (k', v') # m
      else if lt k' k then (k', v') # map_set lt k v m
      else (k', v) # m)"

fun map_insert :: "('k \<Rightarrow> 'k \<Rightarrow> bool) \<Rightarrow> 'k \<Rightarrow> 'v \<Rightarrow> ('k, 'v) std_map \<Rightarrow> ('k, 'v) std_map" where
  "map_insert lt k v [] = [(k, v)]"
| "map_insert lt k v ((k', v') # m) =
     (if lt k k' then (k, v) # (k', v') # m
      else if lt k' k then (k', v') # map_insert lt k v m
      else (k', v') # m)"

fun map_erase :: "('k \<Rightarrow> 'k \<Rightarrow> bool) \<Rightarrow> 'k \<Rightarrow> ('k, 'v) std_map \<Rightarrow> ('k, 'v) std_map" where
  "map_erase lt k [] = []"
| "map_erase lt k ((k', v') # m) =
     (if same_key lt k k' then m else (k', v') # map_erase lt k m)"

text \<open>The entries are in order and no key occurs twice.\<close>

definition map_ok :: "('k \<Rightarrow> 'k \<Rightarrow> bool) \<Rightarrow> ('k, 'v) std_map \<Rightarrow> bool" where
  "map_ok lt m \<longleftrightarrow> sorted_wrt (\<lambda>x y. lt (fst x) (fst y)) m"

lemma map_ok_simps [simp]:
  "map_ok lt []"
  "map_ok lt (e # m) \<longleftrightarrow> (\<forall>e'\<in>set m. lt (fst e) (fst e')) \<and> map_ok lt m"
  by (simp_all add: map_ok_def)

locale std_compare =
  fixes lt :: "'k \<Rightarrow> 'k \<Rightarrow> bool"
  assumes irrefl: "\<not> lt a a"
    and trans: "lt a b \<Longrightarrow> lt b c \<Longrightarrow> lt a c"
    and incomparable: "\<not> lt a b \<Longrightarrow> \<not> lt b c \<Longrightarrow> \<not> lt a c"
begin

lemma asym: "lt a b \<Longrightarrow> \<not> lt b a"
  using irrefl trans by blast

lemma same_refl [simp]: "same_key lt a a"
  by (simp add: same_key_def irrefl)

lemma same_sym: "same_key lt a b \<Longrightarrow> same_key lt b a"
  by (simp add: same_key_def)

lemma same_trans: "same_key lt a b \<Longrightarrow> same_key lt b c \<Longrightarrow> same_key lt a c"
  unfolding same_key_def using incomparable by blast

lemma same_cong: "same_key lt k k' \<Longrightarrow> same_key lt k a \<longleftrightarrow> same_key lt k' a"
  using same_trans same_sym by blast

lemma less_same: "lt a b \<Longrightarrow> same_key lt b c \<Longrightarrow> lt a c"
  unfolding same_key_def using incomparable by blast

lemma same_less: "same_key lt a b \<Longrightarrow> lt b c \<Longrightarrow> lt a c"
  unfolding same_key_def using incomparable by blast

lemma less_not_same: "lt a b \<Longrightarrow> \<not> same_key lt a b" "lt a b \<Longrightarrow> \<not> same_key lt b a"
  by (auto simp: same_key_def)

lemma find_above: "\<forall>e\<in>set m. lt k (fst e) \<Longrightarrow> map_find lt k m = None"
  by (induction m) (auto simp: same_key_def)

lemma set_map_insert: "set (map_insert lt k v m) \<subseteq> insert (k, v) (set m)"
  by (induction lt k v m rule: map_insert.induct) auto

lemma map_ok_insert: "map_ok lt m \<Longrightarrow> map_ok lt (map_insert lt k v m)"
proof (induction m)
  case (Cons e m)
  obtain k' v' where e: "e = (k', v')" by (cases e)
  show ?case
    using Cons set_map_insert [of k v m] trans by (auto simp: e)
qed simp

lemma fst_map_set: "k' \<in> fst ` set (map_set lt k v m) \<Longrightarrow> k' = k \<or> k' \<in> fst ` set m"
  by (induction lt k v m rule: map_set.induct) (auto split: if_splits)

lemma map_ok_set: "map_ok lt m \<Longrightarrow> map_ok lt (map_set lt k v m)"
proof (induction m)
  case (Cons e m)
  obtain k' v' where e: "e = (k', v')" by (cases e)
  have "lt k' (fst e')" if "e' \<in> set (map_set lt k v m)" "lt k' k" for e'
    using fst_map_set [of "fst e'" k v m] that Cons.prems by (auto simp: e)
  with Cons show ?case
    using trans by (auto simp: e)
qed simp

lemma set_map_erase: "set (map_erase lt k m) \<subseteq> set m"
  by (induction lt k m rule: map_erase.induct) auto

lemma map_ok_erase: "map_ok lt m \<Longrightarrow> map_ok lt (map_erase lt k m)"
proof (induction m)
  case (Cons e m)
  then show ?case
    using set_map_erase [of k m] by (cases e) auto
qed simp

lemma find_set:
  "map_ok lt m \<Longrightarrow> map_find lt k' (map_set lt k v m) =
     (if same_key lt k' k then Some v else map_find lt k' m)"
proof (induction m)
  case (Cons e m)
  obtain a w where e: "e = (a, w)" by (cases e)
  show ?case
  proof (cases "same_key lt k' k")
    case True
    then show ?thesis
      using Cons less_same [of a k k'] same_less [of k' k a] same_trans [of k' k a] same_sym
      by (auto simp: e less_not_same) (auto simp: same_key_def)
  next
    case False
    then show ?thesis
      using Cons same_trans [of k' a k] by (auto simp: e) (auto simp: same_key_def)
  qed
qed simp

lemma find_insert:
  "map_ok lt m \<Longrightarrow> map_find lt k' (map_insert lt k v m) =
     (if same_key lt k' k then (case map_find lt k m of None \<Rightarrow> Some v | Some w \<Rightarrow> Some w)
      else map_find lt k' m)"
proof (induction m)
  case (Cons e m)
  obtain a w where e: "e = (a, w)" by (cases e)
  have above: "lt k a \<Longrightarrow> map_find lt k m = None"
    using Cons.prems trans by (intro find_above) (auto simp: e)
  show ?case
  proof (cases "same_key lt k' k")
    case True
    then show ?thesis
      using Cons above less_same [of a k k'] same_less [of k' k a] same_trans [of k' k a] same_sym
      by (auto simp: e less_not_same) (auto simp: same_key_def)
  next
    case False
    then show ?thesis
      using Cons same_trans [of k' a k] by (auto simp: e same_key_def [of lt k a])
  qed
qed simp

lemma find_erase:
  "map_ok lt m \<Longrightarrow> map_find lt k' (map_erase lt k m) =
     (if same_key lt k' k then None else map_find lt k' m)"
proof (induction m)
  case (Cons e m)
  obtain a w where e: "e = (a, w)" by (cases e)
  have above: "map_find lt k' m = None" if "same_key lt k a" "same_key lt k' k"
  proof (rule find_above)
    show "\<forall>e\<in>set m. lt k' (fst e)"
      using Cons.prems same_less [OF same_trans [OF that(2,1)]] by (auto simp: e)
  qed
  show ?case
  proof (cases "same_key lt k' k")
    case True
    then show ?thesis
      using Cons above same_cong [OF True, of a] by (simp add: e)
  next
    case False
    then have "\<not> (same_key lt k a \<and> same_key lt k' a)"
      using same_trans [of k' a k] same_sym [of k a] by blast
    with False Cons show ?thesis
      by (auto simp: e)
  qed
qed simp

lemma find_same: "same_key lt k k' \<Longrightarrow> map_find lt k m = map_find lt k' m"
  using same_cong [of k k'] by (induction m) auto

end

end
