(* ===== verification/Util.thy ===== *)
theory Util
  imports Prelude
begin

text \<open>
  The pure functions of \<open>util.cpp\<close>: case conversion, URL encoding and decoding, trimming, path
  splitting and number reading, together with the C string functions the sources call.
  Characters are classified as in the C locale, where a byte from 128 on belongs to no class.
\<close>

section \<open>C strings\<close>

text \<open>The text a \<open>c_str()\<close> stands for when it is read up to its NUL.\<close>

definition c_str :: "string \<Rightarrow> string" where
  "c_str s = takeWhile (\<lambda>c. c \<noteq> NUL) s"

definition tolower :: "char \<Rightarrow> char" where
  "tolower c = (if CHR ''A'' \<le> c \<and> c \<le> CHR ''Z'' then char_of (ord c + 32) else c)"

definition toupper :: "char \<Rightarrow> char" where
  "toupper c = (if CHR ''a'' \<le> c \<and> c \<le> CHR ''z'' then char_of (ord c - 32) else c)"

definition isdigit :: "char \<Rightarrow> bool" where
  "isdigit c \<longleftrightarrow> CHR ''0'' \<le> c \<and> c \<le> CHR ''9''"

definition isxdigit :: "char \<Rightarrow> bool" where
  "isxdigit c \<longleftrightarrow> isdigit c \<or> (CHR ''A'' \<le> c \<and> c \<le> CHR ''F'') \<or> (CHR ''a'' \<le> c \<and> c \<le> CHR ''f'')"

definition isspace :: "char \<Rightarrow> bool" where
  "isspace c \<longleftrightarrow> c = CHR '' '' \<or> (HT \<le> c \<and> c \<le> CR)"

definition ToUpper :: "string \<Rightarrow> string" where
  "ToUpper name = map toupper name"

definition ToLower :: "string \<Rightarrow> string" where
  "ToLower name = map tolower name"

section \<open>Paths\<close>

text \<open>\<open>rfind('/')\<close>: the position of the last slash.\<close>

fun rfind :: "char \<Rightarrow> string \<Rightarrow> nat option" where
  "rfind c [] = None"
| "rfind c (x # xs) =
     (case rfind c xs of Some i \<Rightarrow> Some (Suc i) | None \<Rightarrow> if x = c then Some 0 else None)"

definition Dirname :: "string \<Rightarrow> string" where
  "Dirname filename =
     (if filename = [] then ''.''
      else case rfind (CHR ''/'') filename of
        Some 0 \<Rightarrow> ''/''
      | None \<Rightarrow> ''.''
      | Some pos \<Rightarrow> take pos filename)"

definition Basename :: "string \<Rightarrow> string" where
  "Basename filename =
     (if filename = [] then filename
      else case rfind (CHR ''/'') filename of
        None \<Rightarrow> filename
      | Some pos \<Rightarrow> drop (pos + 1) filename)"

section \<open>Numbers\<close>

definition ToChar :: "string \<Rightarrow> char" where
  "ToChar str = (case str of [] \<Rightarrow> NUL | c # _ \<Rightarrow> c)"

text \<open>\<open>strtoull(s, nullptr, 10)\<close>: white space, a sign, digits; a value out of range gives the
  largest one, and a minus sign negates in unsigned arithmetic.\<close>

fun dec_value :: "nat \<Rightarrow> string \<Rightarrow> nat" where
  "dec_value n [] = n"
| "dec_value n (c # cs) = (if isdigit c then dec_value (10 * n + (ord c - 48)) cs else n)"

definition strtoull :: "string \<Rightarrow> u64" where
  "strtoull s =
     (let s = dropWhile isspace s;
          neg = (s \<noteq> [] \<and> hd s = CHR ''-'');
          s = (if s \<noteq> [] \<and> (hd s = CHR ''-'' \<or> hd s = CHR ''+'') then tl s else s);
          n = dec_value 0 s
      in if n \<ge> 2 ^ 64 then ULLONG_MAX else if neg then - of_nat n else of_nat n)"

text \<open>The result is returned as \<open>int64_t\<close>.\<close>

definition Atoi :: "string \<Rightarrow> int" where
  "Atoi str = (if str = [] then 0 else sint (strtoull (c_str str)))"

section \<open>URL encoding\<close>

definition uri_chars :: "nat list" where
  "uri_chars =
    [0, 0, 0, 0, 0, 0, 0, 0, 0, 0, 0, 0, 0, 0, 0, 0,
     0, 0, 0, 0, 0, 0, 0, 0, 0, 0, 0, 0, 0, 0, 0, 0,
     0, 0, 0, 0, 0, 0, 0, 0, 0, 0, 0, 0, 0, 1, 1, 0,
     1, 1, 1, 1, 1, 1, 1, 1, 1, 1, 0, 0, 0, 1, 0, 0,
     0, 1, 1, 1, 1, 1, 1, 1, 1, 1, 1, 1, 1, 1, 1, 1,
     1, 1, 1, 1, 1, 1, 1, 1, 1, 1, 1, 0, 0, 0, 0, 1,
     0, 1, 1, 1, 1, 1, 1, 1, 1, 1, 1, 1, 1, 1, 1, 1,
     1, 1, 1, 1, 1, 1, 1, 1, 1, 1, 1, 0, 0, 0, 1, 0,
     0, 0, 0, 0, 0, 0, 0, 0, 0, 0, 0, 0, 0, 0, 0, 0,
     0, 0, 0, 0, 0, 0, 0, 0, 0, 0, 0, 0, 0, 0, 0, 0,
     0, 0, 0, 0, 0, 0, 0, 0, 0, 0, 0, 0, 0, 0, 0, 0,
     0, 0, 0, 0, 0, 0, 0, 0, 0, 0, 0, 0, 0, 0, 0, 0,
     0, 0, 0, 0, 0, 0, 0, 0, 0, 0, 0, 0, 0, 0, 0, 0,
     0, 0, 0, 0, 0, 0, 0, 0, 0, 0, 0, 0, 0, 0, 0, 0,
     0, 0, 0, 0, 0, 0, 0, 0, 0, 0, 0, 0, 0, 0, 0, 0,
     0, 0, 0, 0, 0, 0, 0, 0, 0, 0, 0, 0, 0, 0, 0, 0]"

definition xdigit_chars :: "nat list" where
  "xdigit_chars =
    [0, 0, 0, 0, 0, 0, 0, 0, 0, 0, 0, 0, 0, 0, 0, 0,
     0, 0, 0, 0, 0, 0, 0, 0, 0, 0, 0, 0, 0, 0, 0, 0,
     0, 0, 0, 0, 0, 0, 0, 0, 0, 0, 0, 0, 0, 0, 0, 0,
     0, 1, 2, 3, 4, 5, 6, 7, 8, 9, 0, 0, 0, 0, 0, 0,
     0, 10, 11, 12, 13, 14, 15, 0, 0, 0, 0, 0, 0, 0, 0, 0,
     0, 0, 0, 0, 0, 0, 0, 0, 0, 0, 0, 0, 0, 0, 0, 0,
     0, 10, 11, 12, 13, 14, 15, 0, 0, 0, 0, 0, 0, 0, 0, 0,
     0, 0, 0, 0, 0, 0, 0, 0, 0, 0, 0, 0, 0, 0, 0, 0,
     0, 0, 0, 0, 0, 0, 0, 0, 0, 0, 0, 0, 0, 0, 0, 0,
     0, 0, 0, 0, 0, 0, 0, 0, 0, 0, 0, 0, 0, 0, 0, 0,
     0, 0, 0, 0, 0, 0, 0, 0, 0, 0, 0, 0, 0, 0, 0, 0,
     0, 0, 0, 0, 0, 0, 0, 0, 0, 0, 0, 0, 0, 0, 0, 0,
     0, 0, 0, 0, 0, 0, 0, 0, 0, 0, 0, 0, 0, 0, 0, 0,
     0, 0, 0, 0, 0, 0, 0, 0, 0, 0, 0, 0, 0, 0, 0, 0,
     0, 0, 0, 0, 0, 0, 0, 0, 0, 0, 0, 0, 0, 0, 0, 0,
     0, 0, 0, 0, 0, 0, 0, 0, 0, 0, 0, 0, 0, 0, 0, 0]"

definition CHAR_IS_UNRESERVED :: "char \<Rightarrow> bool" where
  "CHAR_IS_UNRESERVED c \<longleftrightarrow> uri_chars ! ord c \<noteq> 0"

definition hexdigits :: string where
  "hexdigits = ''0123456789ABCDEF''"

text \<open>
  The string \<open>*ss\<close> is allocated when the first character that has to change is met; it then
  starts with the characters before it. The loop carries these characters and \<open>ss\<close>.
\<close>

definition ss_append :: "string \<Rightarrow> string option \<Rightarrow> string \<Rightarrow> string option" where
  "ss_append before ss t = Some ((case ss of None \<Rightarrow> before | Some s \<Rightarrow> s) @ t)"

fun url_encode_loop :: "bool \<Rightarrow> string \<Rightarrow> string option \<Rightarrow> string \<Rightarrow> string option" where
  "url_encode_loop space_as_plus before ss [] = ss"
| "url_encode_loop space_as_plus before ss (c # cs) =
     url_encode_loop space_as_plus (before @ [c])
       (if \<not> CHAR_IS_UNRESERVED c
        then if c = CHR '' '' \<and> space_as_plus then ss_append before ss ''+''
             else ss_append before ss [CHR ''%'', hexdigits ! (drop_bit 4 (ord c)), hexdigits ! (ord c AND 0xf)]
        else case ss of None \<Rightarrow> None | Some s \<Rightarrow> Some (s @ [c])) cs"

definition UrlEncode :: "string \<Rightarrow> bool \<Rightarrow> string" where
  "UrlEncode str space_as_plus =
     (case url_encode_loop space_as_plus [] None str of None \<Rightarrow> str | Some s \<Rightarrow> s)"

text \<open>\<open>(c + 2) < end\<close>: two characters follow.\<close>

function url_decode_loop :: "bool \<Rightarrow> string \<Rightarrow> string option \<Rightarrow> string \<Rightarrow> string option" where
  "url_decode_loop space_as_plus before ss [] = ss"
| "url_decode_loop space_as_plus before ss (c # cs) =
     (if c = CHR ''+'' \<and> space_as_plus
      then url_decode_loop space_as_plus (before @ [c]) (ss_append before ss '' '') cs
      else if c = CHR ''%'' \<and> 2 \<le> length cs \<and> isxdigit (cs ! 0) \<and> isxdigit (cs ! 1)
      then url_decode_loop space_as_plus (before @ c # take 2 cs)
             (ss_append before ss
               [char_of (push_bit 4 (xdigit_chars ! ord (cs ! 0)) OR xdigit_chars ! ord (cs ! 1))])
             (drop 2 cs)
      else url_decode_loop space_as_plus (before @ [c])
             (case ss of None \<Rightarrow> None | Some s \<Rightarrow> Some (s @ [c])) cs)"
  by pat_completeness auto
termination
  by (relation "measure (\<lambda>(p, b, ss, s). length s)") auto

definition UrlDecode :: "string \<Rightarrow> bool \<Rightarrow> string" where
  "UrlDecode str space_as_plus =
     (case url_decode_loop space_as_plus [] None str of None \<Rightarrow> str | Some s \<Rightarrow> s)"

section \<open>Trimming\<close>

fun find_first_not_of :: "string \<Rightarrow> string \<Rightarrow> nat option" where
  "find_first_not_of [] delimit = None"
| "find_first_not_of (c # cs) delimit =
     (if c \<notin> set delimit then Some 0 else map_option Suc (find_first_not_of cs delimit))"

fun find_last_not_of :: "string \<Rightarrow> string \<Rightarrow> nat option" where
  "find_last_not_of [] delimit = None"
| "find_last_not_of (c # cs) delimit =
     (case find_last_not_of cs delimit of
        Some i \<Rightarrow> Some (Suc i)
      | None \<Rightarrow> if c \<notin> set delimit then Some 0 else None)"

definition substr :: "nat \<Rightarrow> nat \<Rightarrow> string \<Rightarrow> string" where
  "substr pos n s = take n (drop pos s)"

definition Trim :: "string \<Rightarrow> string \<Rightarrow> string" where
  "Trim str delimit =
     (case find_first_not_of str delimit of
        None \<Rightarrow> []
      | Some begin \<Rightarrow>
          (case find_last_not_of str delimit of
             None \<Rightarrow> substr begin (length str) str
           | Some fin \<Rightarrow> substr begin (fin - begin + 1) str))"

definition TrimLeft :: "string \<Rightarrow> string \<Rightarrow> string" where
  "TrimLeft str delimit =
     (case find_first_not_of str delimit of None \<Rightarrow> [] | Some begin \<Rightarrow> drop begin str)"

definition TrimRight :: "string \<Rightarrow> string \<Rightarrow> string" where
  "TrimRight str delimit =
     (case find_last_not_of str delimit of None \<Rightarrow> [] | Some fin \<Rightarrow> substr 0 fin str)"

abbreviation blanks :: string where
  "blanks \<equiv> [CHR '' '', HT, CR, LF]"

section \<open>The tables\<close>

definition unreserved_class :: "char \<Rightarrow> bool" where
  "unreserved_class c \<longleftrightarrow> isdigit c \<or> (CHR ''A'' \<le> c \<and> c \<le> CHR ''Z'') \<or> (CHR ''a'' \<le> c \<and> c \<le> CHR ''z'') \<or>
     c \<in> set ''-._~=''"

lemma uri_chars_eq: "uri_chars = map (\<lambda>c. of_bool (unreserved_class c)) Enum.enum"
  by code_simp

lemma CHAR_IS_UNRESERVED_class: "CHAR_IS_UNRESERVED c \<longleftrightarrow> unreserved_class c"
  unfolding CHAR_IS_UNRESERVED_def table_nth_ord [OF uri_chars_eq] by simp

definition xdigit_class :: "char \<Rightarrow> nat" where
  "xdigit_class c =
     (if isdigit c then ord c - 48
      else if CHR ''A'' \<le> c \<and> c \<le> CHR ''F'' then ord c - 55
      else if CHR ''a'' \<le> c \<and> c \<le> CHR ''f'' then ord c - 87 else 0)"

lemma xdigit_chars_eq: "xdigit_chars = map xdigit_class Enum.enum"
  by code_simp

lemma xdigit_chars_nth: "xdigit_chars ! ord c = xdigit_class c"
  by (rule table_nth_ord [OF xdigit_chars_eq])

lemma hexdigits_nth:
  assumes "n < 16"
  shows "isxdigit (hexdigits ! n)" "xdigit_class (hexdigits ! n) = n"
proof -
  have "\<forall>n\<in>set [0..<16]. isxdigit (hexdigits ! n) \<and> xdigit_class (hexdigits ! n) = n"
    by code_simp
  with assms show "isxdigit (hexdigits ! n)" "xdigit_class (hexdigits ! n) = n"
    by simp_all
qed

section \<open>Encoding and decoding without the lazy buffer\<close>

definition encode_char :: "bool \<Rightarrow> char \<Rightarrow> string" where
  "encode_char pl c =
     (if unreserved_class c then [c]
      else if c = CHR '' '' \<and> pl then ''+''
      else [CHR ''%'', hexdigits ! (ord c div 16), hexdigits ! (ord c mod 16)])"

lemma nibble_and: "ord c AND 15 = ord c mod 16"
  using take_bit_eq_mask [of 4 "ord c"] by (simp add: mask_eq_exp_minus_1 take_bit_eq_mod)

lemma url_encode_loop_spec:
  "url_encode_loop pl before ss cs =
     (case ss of
        Some s \<Rightarrow> Some (s @ concat (map (encode_char pl) cs))
      | None \<Rightarrow> if \<forall>c\<in>set cs. unreserved_class c then None
                else Some (before @ concat (map (encode_char pl) cs)))"
proof (induction cs arbitrary: before ss)
  case (Cons c cs)
  then show ?case
    by (cases ss)
      (auto simp: ss_append_def encode_char_def CHAR_IS_UNRESERVED_class nibble_and drop_bit_eq_div)
qed (simp split: option.split)

lemma encode_unreserved: "\<forall>c\<in>set s. unreserved_class c \<Longrightarrow> concat (map (encode_char pl) s) = s"
  by (induction s) (auto simp: encode_char_def)

lemma UrlEncode_concat: "UrlEncode s pl = concat (map (encode_char pl) s)"
  by (auto simp: UrlEncode_def url_encode_loop_spec encode_unreserved)

function decode :: "bool \<Rightarrow> string \<Rightarrow> string" where
  "decode pl [] = []"
| "decode pl (c # cs) =
     (if c = CHR ''+'' \<and> pl then CHR '' '' # decode pl cs
      else if c = CHR ''%'' \<and> 2 \<le> length cs \<and> isxdigit (cs ! 0) \<and> isxdigit (cs ! 1)
      then char_of (16 * xdigit_class (cs ! 0) + xdigit_class (cs ! 1)) # decode pl (drop 2 cs)
      else c # decode pl cs)"
  by pat_completeness auto
termination
  by (relation "measure (\<lambda>(p, s). length s)") auto

lemma xdigit_class_less: "xdigit_class c < 16"
  by (auto simp: xdigit_class_def isdigit_def less_eq_char_def)

lemma nibbles_or: "m < 16 \<Longrightarrow> n < 16 \<Longrightarrow> push_bit 4 m OR n = 16 * m + (n :: nat)"
proof -
  assume *: "m < 16" "n < 16"
  have "push_bit 4 m OR n = push_bit 4 m + n"
  proof (rule disjunctive_add [symmetric])
    show "\<not> bit (push_bit 4 m) k \<or> \<not> bit n k" for k
    proof (cases "k < 4")
      case False
      have "n = take_bit 4 n"
        using * by (simp add: take_bit_nat_eq_self)
      with False show ?thesis
        by (metis bit_take_bit_iff)
    qed (simp add: bit_push_bit_iff)
  qed
  then show ?thesis
    by (simp add: push_bit_eq_mult)
qed

lemma url_decode_loop_Some:
  "url_decode_loop pl before (Some s) cs = Some (s @ decode pl cs)"
  by (induction pl cs arbitrary: before s rule: decode.induct)
    (auto simp: ss_append_def xdigit_chars_nth nibbles_or xdigit_class_less)

lemma url_decode_loop_None:
  "(case url_decode_loop pl before None cs of None \<Rightarrow> before @ cs | Some s \<Rightarrow> s) = before @ decode pl cs"
proof (induction pl cs arbitrary: before rule: decode.induct)
  case (2 pl c cs)
  let ?esc = "c = CHR ''%'' \<and> 2 \<le> length cs \<and> isxdigit (cs ! 0) \<and> isxdigit (cs ! 1)"
  consider (plus) "c = CHR ''+'' \<and> pl" | (esc) "\<not> (c = CHR ''+'' \<and> pl)" ?esc
    | (plain) "\<not> (c = CHR ''+'' \<and> pl)" "\<not> ?esc"
    by blast
  then show ?case
  proof cases
    case plain
    then have "url_decode_loop pl before None (c # cs) = url_decode_loop pl (before @ [c]) None cs"
      and "decode pl (c # cs) = c # decode pl cs"
      by auto
    then show ?thesis
      using "2.IH"(3) [OF plain, of "before @ [c]"] by (simp only: append_assoc append_Cons append_Nil)
  qed (auto simp: ss_append_def xdigit_chars_nth nibbles_or xdigit_class_less url_decode_loop_Some)
qed simp

lemma UrlDecode_decode: "UrlDecode s pl = decode pl s"
  using url_decode_loop_None [of "[]" s pl] by (simp only: UrlDecode_def append_Nil)

lemma decode_encode_char:
  "pl \<longrightarrow> pl' \<Longrightarrow> decode pl' (encode_char pl c @ s) = c # decode pl' s"
proof -
  assume "pl \<longrightarrow> pl'"
  moreover have "ord c div 16 < 16"
    using ord_less_256 [of c] by linarith
  moreover have "unreserved_class c \<Longrightarrow> c \<noteq> CHR ''%'' \<and> c \<noteq> CHR ''+''"
    by (auto simp: unreserved_class_def isdigit_def)
  ultimately show ?thesis
    by (auto simp: encode_char_def hexdigits_nth)
qed

lemma decode_encode: "space_as_plus \<longrightarrow> plus_as_space \<Longrightarrow>
   decode plus_as_space (concat (map (encode_char space_as_plus) s)) = s"
  by (induction s) (simp_all add: decode_encode_char)

text \<open>
  Decoding what \<open>UrlEncode\<close> wrote gives back the original string, for every string of bytes,
  whether a space was written as a pl sign or not, provided the decoder reads pl signs as
  spaces whenever the encoder wrote them so.
\<close>

theorem url_roundtrip:
  assumes "space_as_plus \<longrightarrow> plus_as_space"
  shows "UrlDecode (UrlEncode s space_as_plus) plus_as_space = s"
  using assms by (simp add: UrlEncode_concat UrlDecode_decode decode_encode)

theorem url_roundtrip_witness:
  "UrlDecode (UrlEncode ''a b&c=%41'' True) True = ''a b&c=%41'' \<and> UrlEncode ''a b&c=%41'' True = ''a+b%26c=%2541''"
proof
  show "UrlDecode (UrlEncode ''a b&c=%41'' True) True = ''a b&c=%41''"
    by (rule url_roundtrip) simp
  show "UrlEncode ''a b&c=%41'' True = ''a+b%26c=%2541''"
    by code_simp
qed

section \<open>Trimming and paths\<close>

lemma find_first_not_of_middle:
  "set l \<subseteq> set d \<Longrightarrow> c \<notin> set d \<Longrightarrow> find_first_not_of (l @ c # u) d = Some (length l)"
  by (induction l) auto

lemma find_first_not_of_none: "set l \<subseteq> set d \<Longrightarrow> find_first_not_of l d = None"
  by (induction l) auto

lemma find_last_not_of_none: "set l \<subseteq> set d \<Longrightarrow> find_last_not_of l d = None"
  by (induction l) auto

lemma find_last_not_of_middle:
  "set r \<subseteq> set d \<Longrightarrow> c \<notin> set d \<Longrightarrow> find_last_not_of (u @ c # r) d = Some (length u)"
  by (induction u) (auto simp: find_last_not_of_none)

text \<open>
  \<open>Trim\<close> removes exactly the delimiters at both ends and \<open>TrimLeft\<close> those at the front.
  \<open>TrimRight\<close> removes one character too many: its \<open>substr(0, end)\<close> ends before the last character
  that is not a delimiter.
\<close>

theorem trim_exact:
  assumes "set l \<subseteq> set delimit" and "set r \<subseteq> set delimit"
    and "core = [] \<or> hd core \<notin> set delimit \<and> last core \<notin> set delimit"
  shows "Trim (l @ core @ r) delimit = core \<and>
    TrimLeft (l @ core @ r) delimit = (if core = [] then [] else core @ r) \<and>
    TrimRight (l @ core @ r) delimit = (if core = [] then [] else l @ butlast core)"
proof (cases "core = []")
  case True
  with assms show ?thesis
    using find_first_not_of_none [of "l @ r" delimit] find_last_not_of_none [of "l @ r" delimit]
    by (simp add: Trim_def TrimLeft_def TrimRight_def)
next
  case False
  then have hd: "core = hd core # tl core" and last: "core = butlast core @ [last core]"
    by simp_all
  have first: "find_first_not_of (l @ core @ r) delimit = Some (length l)"
    using assms False find_first_not_of_middle [of l delimit "hd core" "tl core @ r"]
    by (metis append_Cons hd)
  have "l @ core @ r = (l @ butlast core) @ last core # r"
    using last by (metis append_assoc append_Cons append_Nil)
  moreover have "length (l @ butlast core) = length l + length core - 1"
    using False by (simp add: Suc_leI)
  ultimately have "find_last_not_of (l @ core @ r) delimit = Some (length l + length core - 1)"
    using assms False find_last_not_of_middle [of r delimit "last core" "l @ butlast core"] by metis
  moreover obtain n where "length core = Suc n"
    using False by (cases core) auto
  ultimately show ?thesis
    using first False
    by (simp add: Trim_def TrimLeft_def TrimRight_def substr_def butlast_conv_take)
qed

theorem trim_exact_witness:
  "Trim ''  a b '' '' '' = ''a b'' \<and> TrimLeft ''  a b '' '' '' = ''a b '' \<and> TrimRight ''  a b '' '' '' = ''  a ''"
  using trim_exact [of "''  ''" "'' ''" "'' ''" "''a b''"] by simp

lemma rfind_none: "c \<notin> set s \<Longrightarrow> rfind c s = None"
  by (induction s) auto

lemma rfind_last: "c \<notin> set r \<Longrightarrow> rfind c (u @ c # r) = Some (length u)"
  by (induction u) (auto simp: rfind_none)

text \<open>
  \<open>Dirname\<close> and \<open>Basename\<close> split a path at its last slash; a path without one is in the
  directory \<open>.\<close>, one whose only slash is the first character is in \<open>/\<close>.
\<close>

theorem path_split:
  assumes "CHR ''/'' \<notin> set base"
  shows "Dirname (dir @ ''/'' @ base) = (if dir = [] then ''/'' else dir) \<and>
    Basename (dir @ ''/'' @ base) = base \<and> Dirname base = ''.'' \<and> Basename base = base"
  using rfind_last [OF assms, of dir] rfind_none [OF assms]
  by (cases dir) (auto simp: Dirname_def Basename_def)

theorem path_split_witness:
  "Dirname ''/etc/sylar.yml'' = ''/etc'' \<and> Basename ''/etc/sylar.yml'' = ''sylar.yml''"
  using path_split [of "''sylar.yml''" "''/etc''"] by simp

end
