(* ===== verification/Http_Objects.thy ===== *)
theory Http_Objects
  imports Http_Chars Std_Map Util
begin

text \<open>
  \<open>http.h\<close> and \<open>http.cc\<close>: the classes \<open>HttpRequest\<close> and \<open>HttpResponse\<close>, their header,
  parameter and cookie maps (ordered without regard to case), the lazy parsing of parameters,
  and the text form \<open>dump\<close> writes.

  A class is a record; its members have the prefix \<open>rq_\<close> or \<open>rs_\<close> in place of \<open>m_\<close>. A
  member function that changes the object returns the new object. \<open>Time2Str\<close>, which depends on
  the time zone of the process, and \<open>boost::lexical_cast\<close>, which is not part of the sources, are
  arguments of the definitions that call them.
\<close>

section \<open>Comparison without regard to case\<close>

text \<open>\<open>strcasecmp\<close> on NUL-free strings: the difference at the first place where they differ.\<close>

fun casecmp :: "string \<Rightarrow> string \<Rightarrow> int" where
  "casecmp [] [] = 0"
| "casecmp [] (b # bs) = - int (ord (tolower b))"
| "casecmp (a # as) [] = int (ord (tolower a))"
| "casecmp (a # as) (b # bs) =
     (if tolower a = tolower b then casecmp as bs else int (ord (tolower a)) - int (ord (tolower b)))"

definition strcasecmp :: "string \<Rightarrow> string \<Rightarrow> int" where
  "strcasecmp a b = casecmp (c_str a) (c_str b)"

text \<open>\<open>strcasestr(h, n) != nullptr\<close>.\<close>

fun casestr :: "string \<Rightarrow> string \<Rightarrow> bool" where
  "casestr [] n \<longleftrightarrow> n = []"
| "casestr (c # h) n \<longleftrightarrow> casecmp (take (length n) (c # h)) n = 0 \<or> casestr h n"

definition strcasestr :: "string \<Rightarrow> string \<Rightarrow> bool" where
  "strcasestr h n = casestr (c_str h) (c_str n)"

section \<open>Methods, statuses and the header order\<close>

datatype HttpMethod = HttpMethod http_method | INVALID_METHOD

type_synonym HttpStatus = nat

definition HTTP_METHOD_MAP :: "(http_method \<times> string) list" where
  "HTTP_METHOD_MAP =
     [(HTTP_DELETE, ''DELETE''), (HTTP_GET, ''GET''), (HTTP_HEAD, ''HEAD''), (HTTP_POST, ''POST''),
      (HTTP_PUT, ''PUT''), (HTTP_CONNECT, ''CONNECT''), (HTTP_OPTIONS, ''OPTIONS''),
      (HTTP_TRACE, ''TRACE''), (HTTP_COPY, ''COPY''), (HTTP_LOCK, ''LOCK''), (HTTP_MKCOL, ''MKCOL''),
      (HTTP_MOVE, ''MOVE''), (HTTP_PROPFIND, ''PROPFIND''), (HTTP_PROPPATCH, ''PROPPATCH''),
      (HTTP_SEARCH, ''SEARCH''), (HTTP_UNLOCK, ''UNLOCK''), (HTTP_BIND, ''BIND''),
      (HTTP_REBIND, ''REBIND''), (HTTP_UNBIND, ''UNBIND''), (HTTP_ACL, ''ACL''),
      (HTTP_REPORT, ''REPORT''), (HTTP_MKACTIVITY, ''MKACTIVITY''), (HTTP_CHECKOUT, ''CHECKOUT''),
      (HTTP_MERGE, ''MERGE''), (HTTP_MSEARCH, ''M-SEARCH''), (HTTP_NOTIFY, ''NOTIFY''),
      (HTTP_SUBSCRIBE, ''SUBSCRIBE''), (HTTP_UNSUBSCRIBE, ''UNSUBSCRIBE''), (HTTP_PATCH, ''PATCH''),
      (HTTP_PURGE, ''PURGE''), (HTTP_MKCALENDAR, ''MKCALENDAR''), (HTTP_LINK, ''LINK''),
      (HTTP_UNLINK, ''UNLINK''), (HTTP_SOURCE, ''SOURCE'')]"

definition StringToHttpMethod :: "string \<Rightarrow> HttpMethod" where
  "StringToHttpMethod m =
     (case find (\<lambda>(_, str). str = c_str m) HTTP_METHOD_MAP of
        Some (name, _) \<Rightarrow> HttpMethod name
      | None \<Rightarrow> INVALID_METHOD)"

text \<open>\<open>strncmp(string, m, strlen(string)) == 0\<close>: the name is a prefix of \<open>m\<close>.\<close>

definition CharsToHttpMethod :: "string \<Rightarrow> HttpMethod" where
  "CharsToHttpMethod m =
     (case find (\<lambda>(_, str). take (length str) (c_str m) = str) HTTP_METHOD_MAP of
        Some (name, _) \<Rightarrow> HttpMethod name
      | None \<Rightarrow> INVALID_METHOD)"

fun HttpMethodToString :: "HttpMethod \<Rightarrow> string" where
  "HttpMethodToString (HttpMethod m) = method_strings ! http_method_num m"
| "HttpMethodToString INVALID_METHOD = ''<unknown>''"

definition HttpStatusToString :: "HttpStatus \<Rightarrow> string" where
  "HttpStatusToString s =
     (case map_of HTTP_STATUS_MAP s of Some msg \<Rightarrow> msg | None \<Rightarrow> ''<unknown>'')"

definition CaseInsensitiveLess :: "string \<Rightarrow> string \<Rightarrow> bool" where
  "CaseInsensitiveLess lhs rhs \<longleftrightarrow> strcasecmp lhs rhs < 0"

type_synonym MapType = "(string, string) std_map"

abbreviation hfind :: "string \<Rightarrow> MapType \<Rightarrow> string option" where
  "hfind \<equiv> map_find CaseInsensitiveLess"

section \<open>Typed access\<close>

definition checkGetAs :: "(string \<Rightarrow> 't option) \<Rightarrow> MapType \<Rightarrow> string \<Rightarrow> 't \<Rightarrow> 't \<times> bool" where
  "checkGetAs lexical_cast m key def =
     (case hfind key m of
        None \<Rightarrow> (def, False)
      | Some s \<Rightarrow> (case lexical_cast s of Some v \<Rightarrow> (v, True) | None \<Rightarrow> (def, False)))"

definition getAs :: "(string \<Rightarrow> 't option) \<Rightarrow> MapType \<Rightarrow> string \<Rightarrow> 't \<Rightarrow> 't" where
  "getAs lexical_cast m key def =
     (case hfind key m of
        None \<Rightarrow> def
      | Some s \<Rightarrow> (case lexical_cast s of Some v \<Rightarrow> v | None \<Rightarrow> def))"

section \<open>HttpRequest\<close>

record HttpRequest =
  rq_method :: HttpMethod
  rq_version :: u8
  rq_close :: bool
  rq_websocket :: bool
  rq_parserParamFlag :: u8
  rq_url :: string
  rq_path :: string
  rq_query :: string
  rq_fragment :: string
  rq_body :: string
  rq_headers :: MapType
  rq_params :: MapType
  rq_cookies :: MapType

definition new_HttpRequest :: "u8 \<Rightarrow> bool \<Rightarrow> HttpRequest" where
  "new_HttpRequest version close =
     \<lparr>rq_method = HttpMethod HTTP_GET, rq_version = version, rq_close = close, rq_websocket = False,
      rq_parserParamFlag = 0, rq_url = [], rq_path = ''/'', rq_query = [], rq_fragment = [],
      rq_body = [], rq_headers = [], rq_params = [], rq_cookies = []\<rparr>"

definition rq_appendBody :: "string \<Rightarrow> HttpRequest \<Rightarrow> HttpRequest" where
  "rq_appendBody v r = r\<lparr>rq_body := rq_body r @ v\<rparr>"

definition rq_getHeader :: "HttpRequest \<Rightarrow> string \<Rightarrow> string \<Rightarrow> string" where
  "rq_getHeader r key def = (case hfind key (rq_headers r) of None \<Rightarrow> def | Some v \<Rightarrow> v)"

definition rq_setHeader :: "string \<Rightarrow> string \<Rightarrow> HttpRequest \<Rightarrow> HttpRequest" where
  "rq_setHeader key val r = r\<lparr>rq_headers := map_set CaseInsensitiveLess key val (rq_headers r)\<rparr>"

definition rq_setParam :: "string \<Rightarrow> string \<Rightarrow> HttpRequest \<Rightarrow> HttpRequest" where
  "rq_setParam key val r = r\<lparr>rq_params := map_set CaseInsensitiveLess key val (rq_params r)\<rparr>"

definition rq_setCookie :: "string \<Rightarrow> string \<Rightarrow> HttpRequest \<Rightarrow> HttpRequest" where
  "rq_setCookie key val r = r\<lparr>rq_cookies := map_set CaseInsensitiveLess key val (rq_cookies r)\<rparr>"

definition rq_delHeader :: "string \<Rightarrow> HttpRequest \<Rightarrow> HttpRequest" where
  "rq_delHeader key r = r\<lparr>rq_headers := map_erase CaseInsensitiveLess key (rq_headers r)\<rparr>"

definition rq_delParam :: "string \<Rightarrow> HttpRequest \<Rightarrow> HttpRequest" where
  "rq_delParam key r = r\<lparr>rq_params := map_erase CaseInsensitiveLess key (rq_params r)\<rparr>"

definition rq_delCookie :: "string \<Rightarrow> HttpRequest \<Rightarrow> HttpRequest" where
  "rq_delCookie key r = r\<lparr>rq_cookies := map_erase CaseInsensitiveLess key (rq_cookies r)\<rparr>"

text \<open>\<open>hasHeader\<close> and its relatives return the \<open>bool\<close>; \<open>*val\<close> is the \<open>Some\<close>.\<close>

definition rq_hasHeader :: "HttpRequest \<Rightarrow> string \<Rightarrow> string option" where
  "rq_hasHeader r key = hfind key (rq_headers r)"

subsection \<open>Parameters and cookies\<close>

text \<open>
  The macro \<open>PARSE_PARAM(str, m, flag, trim)\<close>. The position \<open>pos\<close> at the head of the loop is
  represented by the rest of the string from there; \<open>flag\<close> is \<open>'&'\<close> or \<open>';'\<close>, never \<open>'='\<close>.
\<close>

function parse_param :: "(string \<Rightarrow> string) \<Rightarrow> char \<Rightarrow> string \<Rightarrow> MapType \<Rightarrow> MapType" where
  "parse_param trim flag str m =
     (if CHR ''='' \<notin> set str then m
      else
        let key = takeWhile (\<lambda>c. c \<noteq> CHR ''='') str;
            rest = tl (dropWhile (\<lambda>c. c \<noteq> CHR ''='') str);
            val = takeWhile (\<lambda>c. c \<noteq> flag) rest;
            m' = map_insert CaseInsensitiveLess (UrlDecode (trim key) True) (UrlDecode val True) m
        in if flag \<notin> set rest then m'
           else parse_param trim flag (tl (dropWhile (\<lambda>c. c \<noteq> flag) rest)) m')"
  by pat_completeness auto
termination
proof (relation "measure (\<lambda>(t, flag, str, m). length str)", goal_cases)
  case (2 trim flag str m key rest val m')
  have "length (tl (dropWhile (\<lambda>c. c \<noteq> flag) rest)) \<le> length rest"
    using length_dropWhile_le [of "\<lambda>c. c \<noteq> flag" rest] by simp
  moreover have "dropWhile (\<lambda>c. c \<noteq> CHR ''='') str \<noteq> []"
    using 2(1) by (auto simp: dropWhile_eq_Nil_conv)
  then have "length rest < length str"
    using length_dropWhile_le [of "\<lambda>c. c \<noteq> CHR ''=''" str] unfolding 2(3)
    by (cases "dropWhile (\<lambda>c. c \<noteq> CHR ''='') str") auto
  ultimately show ?case
    by simp
qed auto

declare parse_param.simps [simp del]

definition initQueryParam :: "HttpRequest \<Rightarrow> HttpRequest" where
  "initQueryParam r =
     (if rq_parserParamFlag r AND 0x1 \<noteq> 0 then r
      else r\<lparr>rq_params := parse_param (\<lambda>s. s) (CHR ''&'') (rq_query r) (rq_params r),
             rq_parserParamFlag := rq_parserParamFlag r OR 0x1\<rparr>)"

definition initBodyParam :: "HttpRequest \<Rightarrow> HttpRequest" where
  "initBodyParam r =
     (if rq_parserParamFlag r AND 0x2 \<noteq> 0 then r
      else if \<not> strcasestr (rq_getHeader r ''content-type'' []) ''application/x-www-form-urlencoded''
      then r\<lparr>rq_parserParamFlag := rq_parserParamFlag r OR 0x2\<rparr>
      else r\<lparr>rq_params := parse_param (\<lambda>s. s) (CHR ''&'') (rq_body r) (rq_params r),
             rq_parserParamFlag := rq_parserParamFlag r OR 0x2\<rparr>)"

definition initCookies :: "HttpRequest \<Rightarrow> HttpRequest" where
  "initCookies r =
     (if rq_parserParamFlag r AND 0x4 \<noteq> 0 then r
      else
        let cookie = rq_getHeader r ''cookie'' [] in
        if cookie = [] then r\<lparr>rq_parserParamFlag := rq_parserParamFlag r OR 0x4\<rparr>
        else r\<lparr>rq_cookies := parse_param (\<lambda>s. Trim s blanks) (CHR '';'') cookie (rq_cookies r),
               rq_parserParamFlag := rq_parserParamFlag r OR 0x4\<rparr>)"

definition rq_getParam ::
  "HttpRequest \<Rightarrow> string \<Rightarrow> string \<Rightarrow> string \<times> HttpRequest" where
  "rq_getParam r key def =
     (let r = initBodyParam (initQueryParam r)
      in (case hfind key (rq_params r) of None \<Rightarrow> def | Some v \<Rightarrow> v, r))"

definition rq_hasParam :: "HttpRequest \<Rightarrow> string \<Rightarrow> string option \<times> HttpRequest" where
  "rq_hasParam r key =
     (let r = initBodyParam (initQueryParam r) in (hfind key (rq_params r), r))"

definition rq_getCookie ::
  "HttpRequest \<Rightarrow> string \<Rightarrow> string \<Rightarrow> string \<times> HttpRequest" where
  "rq_getCookie r key def =
     (let r = initCookies r
      in (case hfind key (rq_cookies r) of None \<Rightarrow> def | Some v \<Rightarrow> v, r))"

definition rq_hasCookie ::
  "HttpRequest \<Rightarrow> string \<Rightarrow> string option \<times> HttpRequest" where
  "rq_hasCookie r key =
     (let r = initCookies r in (hfind key (rq_cookies r), r))"

definition rq_init :: "HttpRequest \<Rightarrow> HttpRequest" where
  "rq_init r =
     (let conn = rq_getHeader r ''connection'' [] in
      if conn \<noteq> [] then r\<lparr>rq_close := (strcasecmp conn ''keep-alive'' \<noteq> 0)\<rparr> else r)"

subsection \<open>Text form\<close>

abbreviation CRLF :: string where
  "CRLF \<equiv> [CR, LF]"

definition version_str :: "u8 \<Rightarrow> string" where
  "version_str v = dec_str (unat (drop_bit 4 v)) @ ''.'' @ dec_str (unat (v AND 0x0F))"

definition header_line :: "string \<times> string \<Rightarrow> string" where
  "header_line e = fst e @ '': '' @ snd e @ CRLF"

definition connection_line :: "bool \<Rightarrow> string" where
  "connection_line close = ''connection: '' @ (if close then ''close'' else ''keep-alive'') @ CRLF"

definition body_part :: "string \<Rightarrow> string" where
  "body_part body =
     (if body \<noteq> [] then ''content-length: '' @ dec_str (length body) @ CRLF @ CRLF @ body else CRLF)"

definition rq_dump :: "HttpRequest \<Rightarrow> string" where
  "rq_dump r =
     HttpMethodToString (rq_method r) @ '' '' @ rq_path r @ (if rq_query r = [] then [] else ''?'') @
     rq_query r @ (if rq_fragment r = [] then [] else ''#'') @ rq_fragment r @ '' HTTP/'' @
     version_str (rq_version r) @ CRLF @
     (if \<not> rq_websocket r then connection_line (rq_close r) else []) @
     concat (map (\<lambda>e. if \<not> rq_websocket r \<and> strcasecmp (fst e) ''connection'' = 0 then []
                      else if rq_body r \<noteq> [] \<and> strcasecmp (fst e) ''content-length'' = 0 then []
                      else header_line e) (rq_headers r)) @
     body_part (rq_body r)"

section \<open>HttpResponse\<close>

record HttpResponse =
  rs_status :: HttpStatus
  rs_version :: u8
  rs_close :: bool
  rs_websocket :: bool
  rs_body :: string
  rs_reason :: string
  rs_headers :: MapType
  rs_cookies :: "string list"

definition new_HttpResponse :: "u8 \<Rightarrow> bool \<Rightarrow> HttpResponse" where
  "new_HttpResponse version close =
     \<lparr>rs_status = 200, rs_version = version, rs_close = close, rs_websocket = False, rs_body = [],
      rs_reason = [], rs_headers = [], rs_cookies = []\<rparr>"

definition rq_createResponse :: "HttpRequest \<Rightarrow> HttpResponse" where
  "rq_createResponse r = new_HttpResponse (rq_version r) (rq_close r)"

definition rs_appendBody :: "string \<Rightarrow> HttpResponse \<Rightarrow> HttpResponse" where
  "rs_appendBody v r = r\<lparr>rs_body := rs_body r @ v\<rparr>"

definition rs_getHeader :: "HttpResponse \<Rightarrow> string \<Rightarrow> string \<Rightarrow> string" where
  "rs_getHeader r key def = (case hfind key (rs_headers r) of None \<Rightarrow> def | Some v \<Rightarrow> v)"

definition rs_setHeader :: "string \<Rightarrow> string \<Rightarrow> HttpResponse \<Rightarrow> HttpResponse" where
  "rs_setHeader key val r = r\<lparr>rs_headers := map_set CaseInsensitiveLess key val (rs_headers r)\<rparr>"

definition rs_delHeader :: "string \<Rightarrow> HttpResponse \<Rightarrow> HttpResponse" where
  "rs_delHeader key r = r\<lparr>rs_headers := map_erase CaseInsensitiveLess key (rs_headers r)\<rparr>"

definition rs_setRedirect :: "string \<Rightarrow> HttpResponse \<Rightarrow> HttpResponse" where
  "rs_setRedirect uri r = rs_setHeader ''Location'' uri (r\<lparr>rs_status := 302\<rparr>)"

definition rs_setCookie ::
  "(int \<Rightarrow> string \<Rightarrow> string) \<Rightarrow> string \<Rightarrow> string \<Rightarrow> int \<Rightarrow> string \<Rightarrow> string \<Rightarrow> bool \<Rightarrow> HttpResponse \<Rightarrow> HttpResponse" where
  "rs_setCookie Time2Str key val expired path domain secure r =
     r\<lparr>rs_cookies := rs_cookies r @
         [key @ ''='' @ val @
          (if expired > 0 then '';expires='' @ Time2Str expired ''%a, %d %b %Y %H:%M:%S'' @ '' GMT'' else []) @
          (if domain \<noteq> [] then '';domain='' @ domain else []) @
          (if path \<noteq> [] then '';path='' @ path else []) @
          (if secure then '';secure'' else [])]\<rparr>"

definition rs_dump :: "HttpResponse \<Rightarrow> string" where
  "rs_dump r =
     ''HTTP/'' @ version_str (rs_version r) @ '' '' @ dec_str (rs_status r) @ '' '' @
     (if rs_reason r = [] then HttpStatusToString (rs_status r) else rs_reason r) @ CRLF @
     concat (map (\<lambda>e. if \<not> rs_websocket r \<and> strcasecmp (fst e) ''connection'' = 0 then []
                      else header_line e) (rs_headers r)) @
     concat (map (\<lambda>c. ''Set-Cookie: '' @ c @ CRLF) (rs_cookies r)) @
     (if \<not> rs_websocket r then connection_line (rs_close r) else []) @
     body_part (rs_body r)"

section \<open>The header order\<close>

text \<open>The text a key stands for: up to the first NUL, in lower case, as numbers.\<close>

definition fold_case :: "string \<Rightarrow> nat list" where
  "fold_case s = map (\<lambda>c. ord (tolower c)) (c_str s)"

lemma ord_tolower: "ord (tolower c) = (if 65 \<le> ord c \<and> ord c \<le> 90 then ord c + 32 else ord c)"
  by (simp add: tolower_def less_eq_char_def)

lemma c_str_no_NUL: "NUL \<notin> set (c_str s)"
  by (auto simp: c_str_def dest: set_takeWhileD)

lemma ord_zero: "ord c = 0 \<longleftrightarrow> c = NUL"
  using of_char_eq_iff [of c NUL, where 'a = nat] by simp

lemma ord_tolower_pos: "c \<noteq> NUL \<Longrightarrow> 0 < ord (tolower c)"
  using ord_zero [of c] by (auto simp: ord_tolower)

lemma casecmp_sign:
  "NUL \<notin> set a \<Longrightarrow> NUL \<notin> set b \<Longrightarrow>
   (casecmp a b = 0 \<longleftrightarrow> map (\<lambda>c. ord (tolower c)) a = map (\<lambda>c. ord (tolower c)) b) \<and>
   (casecmp a b < 0 \<longleftrightarrow>
      ord_class.lexordp (map (\<lambda>c. ord (tolower c)) a) (map (\<lambda>c. ord (tolower c)) b))"
proof (induction a b rule: casecmp.induct)
  case (2 b bs)
  then show ?case
    using ord_tolower_pos [of b] by auto
next
  case (3 a as)
  then show ?case
    using ord_tolower_pos [of a] by auto
next
  case (4 a as b bs)
  have "ord (tolower a) = ord (tolower b) \<longleftrightarrow> tolower a = tolower b"
    by (rule of_char_eq_iff)
  moreover have "ord (tolower a) < ord (tolower b) \<or> ord (tolower a) = ord (tolower b) \<or>
      ord (tolower b) < ord (tolower a)"
    by linarith
  ultimately show ?case
    using 4 by (auto simp: not_less)
qed auto

lemma CaseInsensitiveLess_fold:
  "CaseInsensitiveLess a b \<longleftrightarrow> ord_class.lexordp (fold_case a) (fold_case b)"
  using casecmp_sign [OF c_str_no_NUL c_str_no_NUL]
  by (simp add: CaseInsensitiveLess_def strcasecmp_def fold_case_def)

lemma strcasecmp_zero: "strcasecmp a b = 0 \<longleftrightarrow> fold_case a = fold_case b"
  using casecmp_sign [OF c_str_no_NUL c_str_no_NUL] by (simp add: strcasecmp_def fold_case_def)

interpretation header_map: std_compare CaseInsensitiveLess
proof
  show "\<not> CaseInsensitiveLess a a" for a
    by (simp add: CaseInsensitiveLess_fold lexordp_irreflexive')
  show "CaseInsensitiveLess a c" if "CaseInsensitiveLess a b" "CaseInsensitiveLess b c" for a b c
    using that by (auto simp: CaseInsensitiveLess_fold intro: lexordp_trans)
  show "\<not> CaseInsensitiveLess a c" if "\<not> CaseInsensitiveLess a b" "\<not> CaseInsensitiveLess b c" for a b c
    using that lexordp_linear [of "fold_case a" "fold_case b"] lexordp_linear [of "fold_case b" "fold_case c"]
      lexordp_trans [of "fold_case c" "fold_case b" "fold_case a"] lexordp_antisym [of "fold_case a" "fold_case c"]
    by (auto simp: CaseInsensitiveLess_fold lexordp_irreflexive')
qed

lemma same_header: "same_key CaseInsensitiveLess a b \<longleftrightarrow> fold_case a = fold_case b"
  using lexordp_linear [of "fold_case a" "fold_case b"]
  by (auto simp: same_key_def CaseInsensitiveLess_fold lexordp_irreflexive')

section \<open>Well-formed objects\<close>

text \<open>The three maps of a request are in the order of their comparator, without duplicates.\<close>

definition request_ok :: "HttpRequest \<Rightarrow> bool" where
  "request_ok r \<longleftrightarrow> map_ok CaseInsensitiveLess (rq_headers r) \<and>
     map_ok CaseInsensitiveLess (rq_params r) \<and> map_ok CaseInsensitiveLess (rq_cookies r)"

lemma parse_param_map_ok: "map_ok CaseInsensitiveLess m \<Longrightarrow> map_ok CaseInsensitiveLess (parse_param trim flag str m)"
proof (induction trim flag str m rule: parse_param.induct)
  case (1 trim flag str m)
  then show ?case
    by (subst parse_param.simps) (simp add: Let_def header_map.map_ok_insert)
qed

lemmas request_defs = request_ok_def new_HttpRequest_def rq_appendBody_def rq_setHeader_def rq_setParam_def
  rq_setCookie_def rq_delHeader_def rq_delParam_def rq_delCookie_def initQueryParam_def
  initBodyParam_def initCookies_def rq_getParam_def rq_hasParam_def rq_getCookie_def rq_hasCookie_def rq_init_def

lemmas map_ok_operations = header_map.map_ok_set header_map.map_ok_erase header_map.map_ok_insert parse_param_map_ok

text \<open>The state-changing member functions of \<open>HttpRequest\<close>.\<close>

inductive request_step :: "HttpRequest \<Rightarrow> HttpRequest \<Rightarrow> bool" where
  "request_step r (rq_appendBody v r)"
| "request_step r (rq_setHeader k v r)"
| "request_step r (rq_setParam k v r)"
| "request_step r (rq_setCookie k v r)"
| "request_step r (rq_delHeader k r)"
| "request_step r (rq_delParam k r)"
| "request_step r (rq_delCookie k r)"
| "request_step r (snd (rq_getParam r k def))"
| "request_step r (snd (rq_hasParam r k))"
| "request_step r (snd (rq_getCookie r k def))"
| "request_step r (snd (rq_hasCookie r k))"
| "request_step r (rq_init r)"

lemma request_step_ok: "request_step r r' \<Longrightarrow> request_ok r \<Longrightarrow> request_ok r'"
  by (induction rule: request_step.induct) (simp_all add: request_defs map_ok_operations Let_def)

text \<open>
  Whatever sequence of member functions is called on a new request, its header, parameter
  and cookie maps stay in order, and a header is found under its name in any case: \<open>getHeader\<close>
  returns the value of the last \<open>setHeader\<close> with the same name, other headers are as before, and
  after \<open>delHeader\<close> the header is gone.
\<close>

theorem header_map_laws:
  assumes "request_step\<^sup>*\<^sup>* (new_HttpRequest version close) r"
  shows "request_ok r \<and> rq_getHeader (rq_setHeader k v r) k' def =
           (if fold_case k' = fold_case k then v else rq_getHeader r k' def) \<and>
         rq_getHeader (rq_delHeader k r) k' def =
           (if fold_case k' = fold_case k then def else rq_getHeader r k' def)"
proof -
  from assms have "request_ok r"
    by (induction rule: rtranclp_induct) (auto simp: request_step_ok, simp add: request_defs)
  then show ?thesis
    by (simp add: rq_getHeader_def rq_setHeader_def rq_delHeader_def request_ok_def
        header_map.find_set header_map.find_erase same_header)
qed

theorem header_map_laws_witness:
  "rq_getHeader (rq_setHeader ''Host'' ''a'' (rq_setHeader ''HOST'' ''b'' (new_HttpRequest 0x11 True))) ''host'' [] = ''a''"
proof -
  have "request_step\<^sup>*\<^sup>* (new_HttpRequest 0x11 True) (rq_setHeader ''HOST'' ''b'' (new_HttpRequest 0x11 True))"
    by (intro r_into_rtranclp request_step.intros)
  moreover have "fold_case ''host'' = fold_case ''Host''"
    by code_simp
  ultimately show ?thesis
    using header_map_laws [of "0x11" True _ "''Host''" "''a''" "''host''" "[]"] by auto
qed

section \<open>Methods\<close>

text \<open>
  The name of every method reads back as that method, also when more text follows it (as
  \<open>CharsToHttpMethod\<close> allows), so no method name is a prefix of another; the text printed for
  \<open>INVALID_METHOD\<close> reads back as \<open>INVALID_METHOD\<close>.
\<close>

theorem method_name_roundtrip:
  "StringToHttpMethod (HttpMethodToString m) = m \<and>
   (m \<noteq> INVALID_METHOD \<longrightarrow> CharsToHttpMethod (HttpMethodToString m @ rest) = m)"
proof (cases m)
  case (HttpMethod x)
  then show ?thesis
    by (cases x) (simp_all add: StringToHttpMethod_def CharsToHttpMethod_def HTTP_METHOD_MAP_def
        method_strings_def c_str_def)
next
  case INVALID_METHOD
  then show ?thesis
    by (simp add: StringToHttpMethod_def HTTP_METHOD_MAP_def c_str_def)
qed

theorem method_name_roundtrip_witness:
  "CharsToHttpMethod ''PROPPATCH /x'' = HttpMethod HTTP_PROPPATCH"
  using method_name_roundtrip [of "HttpMethod HTTP_PROPPATCH" "'' /x''"] by (simp add: method_strings_def)

section \<open>Parameters\<close>

text \<open>The form \<open>k1=v1&k2=v2\<close>, with \<open>flag\<close> for the ampersand, of a list of encoded pairs.\<close>

fun join_pairs :: "char \<Rightarrow> (string \<times> string) list \<Rightarrow> string" where
  "join_pairs flag [] = []"
| "join_pairs flag [(k, v)] = k @ ''='' @ v"
| "join_pairs flag ((k, v) # kv # kvs) = k @ ''='' @ v @ flag # join_pairs flag (kv # kvs)"

definition pairs_ok :: "char \<Rightarrow> (string \<times> string) list \<Rightarrow> bool" where
  "pairs_ok flag kvs \<longleftrightarrow> (\<forall>(k, v)\<in>set kvs. CHR ''='' \<notin> set k \<and> flag \<notin> set v)"

definition insert_pair :: "(string \<Rightarrow> string) \<Rightarrow> MapType \<Rightarrow> string \<times> string \<Rightarrow> MapType" where
  "insert_pair trim m e = map_insert CaseInsensitiveLess (UrlDecode (trim (fst e)) True) (UrlDecode (snd e) True) m"

lemma takeWhile_neq_append: "c \<notin> set xs \<Longrightarrow> takeWhile (\<lambda>x. x \<noteq> c) (xs @ c # ys) = xs"
  by (induction xs) auto

lemma dropWhile_neq_append: "c \<notin> set xs \<Longrightarrow> dropWhile (\<lambda>x. x \<noteq> c) (xs @ c # ys) = c # ys"
  by (induction xs) auto

lemma takeWhile_neq_all: "c \<notin> set xs \<Longrightarrow> takeWhile (\<lambda>x. x \<noteq> c) xs = xs"
  by (induction xs) auto

lemma parse_param_join:
  "pairs_ok flag kvs \<Longrightarrow> parse_param trim flag (join_pairs flag kvs) m = foldl (insert_pair trim) m kvs"
proof (induction flag kvs arbitrary: m rule: join_pairs.induct)
  case (2 flag k v)
  then show ?case
    by (subst parse_param.simps)
      (simp add: pairs_ok_def Let_def insert_pair_def takeWhile_neq_append dropWhile_neq_append takeWhile_neq_all)
next
  case (3 flag k v kv kvs)
  then have "pairs_ok flag (kv # kvs)"
    by (simp add: pairs_ok_def)
  with 3 show ?case
    by (subst parse_param.simps)
      (simp add: pairs_ok_def Let_def insert_pair_def [of trim m "(k, v)"] takeWhile_neq_append dropWhile_neq_append)
qed (simp add: parse_param.simps)

text \<open>A query string as a client writes it: every key and value in URL encoding.\<close>

definition query_string :: "(string \<times> string) list \<Rightarrow> string" where
  "query_string kvs = join_pairs (CHR ''&'') (map (\<lambda>(k, v). (UrlEncode k True, UrlEncode v True)) kvs)"

lemma hexdigits_class: "n < 16 \<Longrightarrow> unreserved_class (hexdigits ! n) \<and> hexdigits ! n \<noteq> CHR ''=''"
proof -
  have "\<forall>n\<in>set [0..<16]. unreserved_class (hexdigits ! n) \<and> hexdigits ! n \<noteq> CHR ''=''"
    by code_simp
  then show "n < 16 \<Longrightarrow> ?thesis"
    by simp
qed

lemma encode_char_set:
  "x \<in> set (encode_char b c) \<Longrightarrow> (x = c \<and> unreserved_class c) \<or> x = CHR ''+'' \<or> x = CHR ''%'' \<or>
     (unreserved_class x \<and> x \<noteq> CHR ''='')"
proof -
  have "ord c div 16 < 16"
    using ord_less_256 [of c] by linarith
  then show "x \<in> set (encode_char b c) \<Longrightarrow> ?thesis"
    using hexdigits_class [of "ord c div 16"] hexdigits_class [of "ord c mod 16"]
    by (auto simp: encode_char_def split: if_splits)
qed

lemma UrlEncode_no_ampersand: "CHR ''&'' \<notin> set (UrlEncode s b)"
  by (auto simp: UrlEncode_concat unreserved_class_def isdigit_def dest!: encode_char_set)

lemma UrlEncode_no_equals: "CHR ''='' \<notin> set s \<Longrightarrow> CHR ''='' \<notin> set (UrlEncode s b)"
  by (auto simp: UrlEncode_concat dest!: encode_char_set)

lemma query_string_pairs:
  "\<forall>(k, v)\<in>set kvs. CHR ''='' \<notin> set k \<Longrightarrow>
   parse_param (\<lambda>s. s) (CHR ''&'') (query_string kvs) m =
     foldl (\<lambda>m (k, v). map_insert CaseInsensitiveLess k v m) m kvs"
proof -
  assume "\<forall>(k, v)\<in>set kvs. CHR ''='' \<notin> set k"
  then have "pairs_ok (CHR ''&'') (map (\<lambda>(k, v). (UrlEncode k True, UrlEncode v True)) kvs)"
    by (auto simp: pairs_ok_def UrlEncode_no_ampersand UrlEncode_no_equals)
  then show ?thesis
    by (simp add: query_string_def parse_param_join foldl_map insert_pair_def split_def
        decode_encode UrlDecode_decode UrlEncode_concat)
qed

text \<open>The first pair with a given key is the one a look-up finds.\<close>

definition first_value :: "string \<Rightarrow> (string \<times> string) list \<Rightarrow> string option" where
  "first_value key kvs = map_option snd (find (\<lambda>e. fold_case key = fold_case (fst e)) kvs)"

lemma foldl_insert_find:
  "map_ok CaseInsensitiveLess m \<Longrightarrow>
   map_ok CaseInsensitiveLess (foldl (\<lambda>m (k, v). map_insert CaseInsensitiveLess k v m) m kvs) \<and>
   hfind key (foldl (\<lambda>m (k, v). map_insert CaseInsensitiveLess k v m) m kvs) =
     (case hfind key m of Some v \<Rightarrow> Some v | None \<Rightarrow> first_value key kvs)"
proof (induction kvs arbitrary: m)
  case (Cons e kvs)
  have "hfind key m = hfind (fst e) m" if "fold_case key = fold_case (fst e)"
    using that header_map.find_same [of key "fst e" m] by (simp add: same_header)
  with Cons header_map.map_ok_insert [of m "fst e" "snd e"] show ?case
    by (auto simp: first_value_def split_def header_map.find_insert same_header split: option.split)
qed (simp add: first_value_def split: option.split)

text \<open>
  C31: when the query is the URL encoding of a list of pairs, and the body is too if its
  \<open>content-type\<close> says so, \<open>getParam\<close> on a request whose parameters have not been read returns the
  value of the first pair with that key, query before body, without regard to case, and the
  default if there is none. Keys may not contain an equals sign, which \<open>UrlEncode\<close> leaves as it is.
\<close>

theorem query_parameters:
  assumes "\<forall>(k, v)\<in>set (kvs @ bvs). CHR ''='' \<notin> set k"
    and "rq_query r = query_string kvs" and "rq_params r = []" and "rq_parserParamFlag r = 0"
    and "strcasestr (rq_getHeader r ''content-type'' []) ''application/x-www-form-urlencoded'' \<Longrightarrow>
           rq_body r = query_string bvs"
  shows "fst (rq_getParam r key def) =
    (case first_value key (kvs @ (if strcasestr (rq_getHeader r ''content-type'' [])
                                       ''application/x-www-form-urlencoded'' then bvs else []))
     of None \<Rightarrow> def | Some v \<Rightarrow> v)"
proof -
  let ?ins = "foldl (\<lambda>m (k, v). map_insert CaseInsensitiveLess k v m)"
  have q: "\<forall>(k, v)\<in>set kvs. CHR ''='' \<notin> set k" and b: "\<forall>(k, v)\<in>set bvs. CHR ''='' \<notin> set k"
    using assms(1) by auto
  have ok: "hfind key (?ins [] l) = first_value key l" for l
    using foldl_insert_find [of "[]" l key] by simp
  show ?thesis
    using assms ok [of kvs] ok [of "kvs @ bvs"]
    by (auto simp: rq_getParam_def initQueryParam_def initBodyParam_def Let_def query_string_pairs [OF q]
        query_string_pairs [OF b] rq_getHeader_def)
qed

theorem query_parameters_witness:
  "fst (rq_getParam ((new_HttpRequest 0x11 True)\<lparr>rq_query := ''id=a+b%26c&ID=2''\<rparr>) ''Id'' []) = ''a b&c''"
proof -
  let ?kvs = "[(''id'', ''a b&c''), (''ID'', ''2'')]"
  have "query_string ?kvs = ''id=a+b%26c&ID=2''"
    by code_simp
  moreover have "first_value ''Id'' ?kvs = Some ''a b&c''"
    by code_simp
  moreover have "\<not> strcasestr [] ''application/x-www-form-urlencoded''"
    by code_simp
  ultimately show ?thesis
    using query_parameters [of ?kvs "[]" "(new_HttpRequest 0x11 True)\<lparr>rq_query := ''id=a+b%26c&ID=2''\<rparr>" "''Id''" "[]"]
    by (simp add: new_HttpRequest_def rq_getHeader_def)
qed

end
