(* ===== verification/Streams.thy ===== *)
theory Streams
  imports Prelude
begin

text \<open>
  \<open>Socket::send\<close>, \<open>Socket::recv\<close> and \<open>Socket::close\<close> (\<open>socket.cc\<close>), \<open>SocketStream\<close>
  (\<open>socket_stream.cc\<close>) and the loops of \<open>Stream\<close> (\<open>stream.cc\<close>) that read or write a fixed number
  of bytes.

  What the kernel does is a script in the state of the socket: the segments in which the
  peer's bytes arrive (or a failure), and the return values of the successive \<open>send\<close> calls. A
  statement that holds for every script holds for every behaviour of the network.
\<close>

section \<open>Sockets\<close>

datatype net_in = Bytes string | Fail

record Socket =
  m_sock :: int
  m_isConnected :: bool
  incoming :: "net_in list"
  accepts :: "int list"
  sent :: string

text \<open>A result of type \<open>int\<close>, from a value of type \<open>ssize_t\<close> or \<open>size_t\<close>.\<close>

definition to_int :: "int \<Rightarrow> int" where
  "to_int n = sint (of_int n :: u32)"

text \<open>\<open>recv(2)\<close>: at most \<open>n\<close> bytes of the next segment, 0 when there is none or it is empty.\<close>

definition sys_recv :: "nat \<Rightarrow> Socket \<Rightarrow> int \<times> string \<times> Socket" where
  "sys_recv n s =
     (case incoming s of
        [] \<Rightarrow> (0, [], s)
      | Fail # es \<Rightarrow> (- 1, [], s\<lparr>incoming := es\<rparr>)
      | Bytes b # es \<Rightarrow>
          (int (min n (length b)), take n b,
           s\<lparr>incoming := (if length b \<le> n then es else Bytes (drop n b) # es)\<rparr>))"

text \<open>\<open>send(2)\<close>: the next entry of the script says how many bytes are taken, or the failure.\<close>

definition sys_send :: "string \<Rightarrow> Socket \<Rightarrow> int \<times> Socket" where
  "sys_send b s =
     (case accepts s of
        [] \<Rightarrow> (- 1, s)
      | k # ks \<Rightarrow>
          if k \<le> 0 then (max (- 1) k, s\<lparr>accepts := ks\<rparr>)
          else (min k (int (length b)), s\<lparr>accepts := ks, sent := sent s @ take (nat k) b\<rparr>))"

definition Socket_recv :: "nat \<Rightarrow> Socket \<Rightarrow> int \<times> string \<times> Socket" where
  "Socket_recv n s =
     (if m_isConnected s then (case sys_recv n s of (r, b, s') \<Rightarrow> (to_int r, b, s'))
      else (- 1, [], s))"

definition Socket_send :: "string \<Rightarrow> Socket \<Rightarrow> int \<times> Socket" where
  "Socket_send buffer s =
     (if m_isConnected s then (case sys_send buffer s of (r, s') \<Rightarrow> (to_int r, s')) else (- 1, s))"

definition Socket_close :: "Socket \<Rightarrow> bool \<times> Socket" where
  "Socket_close s =
     (if \<not> m_isConnected s \<and> m_sock s = - 1 then (True, s)
      else (False, s\<lparr>m_isConnected := False, m_sock := - 1\<rparr>))"

section \<open>Socket streams\<close>

record SocketStream =
  m_socket :: "Socket option"
  m_owner :: bool

definition ss_isConnected :: "SocketStream \<Rightarrow> bool" where
  "ss_isConnected S = (case m_socket S of None \<Rightarrow> False | Some s \<Rightarrow> m_isConnected s)"

definition ss_read :: "nat \<Rightarrow> SocketStream \<Rightarrow> int \<times> string \<times> SocketStream" where
  "ss_read n S =
     (case m_socket S of
        Some s \<Rightarrow>
          if \<not> ss_isConnected S then (- 1, [], S)
          else (case Socket_recv n s of (r, b, s') \<Rightarrow> (r, b, S\<lparr>m_socket := Some s'\<rparr>))
      | None \<Rightarrow> (- 1, [], S))"

definition ss_write :: "string \<Rightarrow> SocketStream \<Rightarrow> int \<times> SocketStream" where
  "ss_write buffer S =
     (case m_socket S of
        Some s \<Rightarrow>
          if \<not> ss_isConnected S then (- 1, S)
          else (case Socket_send buffer s of (r, s') \<Rightarrow> (r, S\<lparr>m_socket := Some s'\<rparr>))
      | None \<Rightarrow> (- 1, S))"

definition ss_close :: "SocketStream \<Rightarrow> SocketStream" where
  "ss_close S = (case m_socket S of None \<Rightarrow> S | Some s \<Rightarrow> S\<lparr>m_socket := Some (snd (Socket_close s))\<rparr>)"

definition ss_destroy :: "SocketStream \<Rightarrow> SocketStream" where
  "ss_destroy S = (if m_owner S then ss_close S else S)"

section \<open>Fixed sizes\<close>

text \<open>\<open>int64_t left = length\<close>.\<close>

definition to_int64 :: "nat \<Rightarrow> int" where
  "to_int64 n = sint (of_nat n :: u64)"

text \<open>The loop of \<open>readFixSize\<close>: \<open>buf\<close> is what \<open>buffer\<close> holds; \<open>Some len\<close> is the early return.\<close>

function read_loop :: "int \<Rightarrow> string \<Rightarrow> SocketStream \<Rightarrow> int option \<times> string \<times> SocketStream" where
  "read_loop left buf S =
     (if left > 0
      then case ss_read (nat left) S of
             (len, b, S') \<Rightarrow> if len \<le> 0 then (Some len, buf @ b, S') else read_loop (left - len) (buf @ b) S'
      else (None, buf, S))"
  by pat_completeness auto
termination
  by (relation "measure (\<lambda>(left, buf, S). nat left)") auto

declare read_loop.simps [simp del]

definition readFixSize :: "nat \<Rightarrow> SocketStream \<Rightarrow> int \<times> string \<times> SocketStream" where
  "readFixSize n S =
     (case read_loop (to_int64 n) [] S of
        (Some len, b, S') \<Rightarrow> (to_int len, b, S')
      | (None, b, S') \<Rightarrow> (to_int (int n), b, S'))"

text \<open>The loop of \<open>writeFixSize\<close>; the bytes still to write are \<open>buffer + offset\<close>.\<close>

function write_loop :: "int \<Rightarrow> string \<Rightarrow> SocketStream \<Rightarrow> int option \<times> SocketStream" where
  "write_loop left buffer S =
     (if left > 0
      then case ss_write (take (nat left) buffer) S of
             (len, S') \<Rightarrow> if len \<le> 0 then (Some len, S') else write_loop (left - len) (drop (nat len) buffer) S'
      else (None, S))"
  by pat_completeness auto
termination
  by (relation "measure (\<lambda>(left, buffer, S). nat left)") auto

declare write_loop.simps [simp del]

definition writeFixSize :: "string \<Rightarrow> SocketStream \<Rightarrow> int \<times> SocketStream" where
  "writeFixSize buffer S =
     (case write_loop (to_int64 (length buffer)) buffer S of
        (Some len, S') \<Rightarrow> (to_int len, S')
      | (None, S') \<Rightarrow> (to_int (int (length buffer)), S'))"

section \<open>Correctness\<close>

text \<open>The bytes that arrive before the first failure or end of stream.\<close>

fun available :: "net_in list \<Rightarrow> string" where
  "available [] = []"
| "available (Fail # es) = []"
| "available (Bytes b # es) = (if b = [] then [] else b @ available es)"

text \<open>The bytes the peer takes before the first failure.\<close>

fun capacity :: "int list \<Rightarrow> nat" where
  "capacity [] = 0"
| "capacity (k # ks) = (if k \<le> 0 then 0 else nat k + capacity ks)"

definition open_stream :: "SocketStream \<Rightarrow> Socket \<Rightarrow> bool" where
  "open_stream S s \<longleftrightarrow> m_socket S = Some s \<and> m_isConnected s"

lemma to_int_small: "- (2 ^ 31) \<le> n \<Longrightarrow> n < 2 ^ 31 \<Longrightarrow> to_int n = n"
  by (simp add: to_int_def sint_sbintrunc' signed_take_bit_int_eq_self)

lemma to_int64_small: "n < 2 ^ 63 \<Longrightarrow> to_int64 n = int n"
  using sint_sbintrunc' [of "int n", where 'a = 64] by (simp add: to_int64_def signed_take_bit_int_eq_self)

lemma ss_read_open:
  assumes "open_stream S s" and "0 < n" and "n < 2 ^ 31"
  shows "\<exists>len b s' S'. ss_read n S = (len, b, S') \<and> open_stream S' s' \<and> sent s' = sent s \<and> accepts s' = accepts s \<and>
    len \<le> int n \<and>
    (if len \<le> 0 then len \<in> {- 1, 0} \<and> b = [] \<and> available (incoming s) = []
     else len = int (length b) \<and> available (incoming s) = b @ available (incoming s'))"
proof (cases "incoming s" rule: available.cases)
  case (3 b es)
  have "to_int (int (min n (length b))) = int (min n (length b))"
    using assms(3) by (intro to_int_small) auto
  with 3 assms show ?thesis
    by (auto simp: ss_read_def open_stream_def ss_isConnected_def Socket_recv_def sys_recv_def)
qed (use assms in \<open>auto simp: ss_read_def open_stream_def ss_isConnected_def Socket_recv_def sys_recv_def to_int_small\<close>)

lemma read_loop_spec:
  assumes "open_stream S s" and "left < 2 ^ 31"
  shows "\<exists>r b s' S'. read_loop left buf S = (r, buf @ b, S') \<and> open_stream S' s' \<and> sent s' = sent s \<and>
    (if left \<le> int (length (available (incoming s)))
     then r = None \<and> b = take (nat left) (available (incoming s)) \<and>
       available (incoming s') = drop (nat left) (available (incoming s))
     else b = available (incoming s) \<and> (\<exists>len\<in>{- 1, 0}. r = Some len))"
  using assms
proof (induction left buf S arbitrary: s rule: read_loop.induct)
  case (1 left buf S)
  show ?case
  proof (cases "left > 0")
    case True
    then obtain len b s' S' where rd: "ss_read (nat left) S = (len, b, S')" "open_stream S' s'" "sent s' = sent s"
      "len \<le> left" "if len \<le> 0 then len \<in> {- 1, 0} \<and> b = [] \<and> available (incoming s) = []
       else len = int (length b) \<and> available (incoming s) = b @ available (incoming s')"
      using ss_read_open [OF "1.prems"(1), of "nat left"] "1.prems"(2) by (auto simp: nat_less_iff)
    show ?thesis
    proof (cases "len \<le> 0")
      case True
      with rd \<open>left > 0\<close> show ?thesis
        by (subst read_loop.simps) auto
    next
      case False
      then obtain r b' s'' S'' where IH: "read_loop (left - len) (buf @ b) S' = (r, (buf @ b) @ b', S'')"
        "open_stream S'' s''" "sent s'' = sent s'"
        "if left - len \<le> int (length (available (incoming s')))
         then r = None \<and> b' = take (nat (left - len)) (available (incoming s')) \<and>
           available (incoming s'') = drop (nat (left - len)) (available (incoming s'))
         else b' = available (incoming s') \<and> (\<exists>len\<in>{- 1, 0}. r = Some len)"
        using "1.IH" [OF \<open>left > 0\<close> rd(1) [symmetric] refl False rd(2)] "1.prems"(2) by auto
      moreover have len: "len = int (length b)" "available (incoming s) = b @ available (incoming s')"
        using False rd(5) by auto
      moreover have "nat (left - len) = nat left - length b" "length b \<le> nat left"
        using len(1) rd(4) by auto
      moreover have "read_loop left buf S = read_loop (left - len) (buf @ b) S'"
        using rd(1) \<open>left > 0\<close> False by (subst read_loop.simps) simp
      ultimately show ?thesis
        using rd(3,4)
        by (intro exI [of _ r] exI [of _ "b @ b'"] exI [of _ s''] exI [of _ S'']) (simp split: if_splits)
    qed
  next
    case False
    with "1.prems" show ?thesis
      by (subst read_loop.simps) auto
  qed
qed

text \<open>
  \<open>readFixSize\<close> returns on every behaviour of the network. If at least \<open>n\<close> bytes arrive
  before a failure or the end of the stream, it returns \<open>n\<close> with exactly the first \<open>n\<close> of them,
  whatever the segments they came in, and the rest is still to be read; otherwise it returns a
  value that is not positive.
\<close>

theorem readFixSize_exact:
  assumes "m_socket S = Some s" and "m_isConnected s" and "n < 2 ^ 31"
  shows "\<exists>r b s' S'. readFixSize n S = (r, b, S') \<and> m_socket S' = Some s' \<and>
    (if n \<le> length (available (incoming s))
     then r = int n \<and> b = take n (available (incoming s)) \<and> available (incoming s') = drop n (available (incoming s))
     else r \<le> 0)"
proof -
  have n: "to_int64 n = int n" "to_int (int n) = int n"
    using assms(3) by (auto intro: to_int64_small to_int_small)
  then show ?thesis
    using read_loop_spec [of S s "int n" "[]"] assms
    by (auto simp: open_stream_def readFixSize_def to_int_small split: if_splits)
qed

theorem readFixSize_exact_witness:
  "\<exists>S'. readFixSize 4 \<lparr>m_socket = Some \<lparr>m_sock = 7, m_isConnected = True,
      incoming = [Bytes ''ab'', Bytes ''cde''], accepts = [], sent = []\<rparr>, m_owner = True\<rparr> = (4, ''abcd'', S')"
  using readFixSize_exact [of "\<lparr>m_socket = Some \<lparr>m_sock = 7, m_isConnected = True,
      incoming = [Bytes ''ab'', Bytes ''cde''], accepts = [], sent = []\<rparr>, m_owner = True\<rparr>" _ 4] by auto

lemma ss_write_open:
  assumes "open_stream S s" and "0 < length b" and "length b < 2 ^ 31"
  shows "\<exists>len s' S'. ss_write b S = (len, S') \<and> open_stream S' s' \<and> incoming s' = incoming s \<and>
    len \<le> int (length b) \<and>
    (if len \<le> 0 then len \<in> {- 1, 0} \<and> capacity (accepts s) = 0 \<and> sent s' = sent s
     else sent s' = sent s @ take (nat len) b \<and> nat len \<le> capacity (accepts s) \<and>
       (len = int (length b) \<or> capacity (accepts s) = nat len + capacity (accepts s')))"
proof (cases "accepts s")
  case Nil
  with assms show ?thesis
    by (auto simp: ss_write_def open_stream_def ss_isConnected_def Socket_send_def sys_send_def to_int_small)
next
  case (Cons k ks)
  have "to_int (min k (int (length b))) = min k (int (length b))" if "k > 0"
    using assms(3) that by (intro to_int_small) auto
  moreover have "to_int (max (- 1) k) = max (- 1) k" if "k \<le> 0"
    using that by (intro to_int_small) auto
  ultimately show ?thesis
    using Cons assms
    by (auto simp: ss_write_def open_stream_def ss_isConnected_def Socket_send_def sys_send_def min_def max_def
        nat_le_iff)
qed

lemma write_loop_spec:
  assumes "open_stream S s" and "left = int (length b)" and "left < 2 ^ 31"
  shows "\<exists>r s' S'. write_loop left b S = (r, S') \<and> open_stream S' s' \<and> incoming s' = incoming s \<and>
    sent s' = sent s @ take (capacity (accepts s)) b \<and>
    (if length b \<le> capacity (accepts s) then r = None else \<exists>len\<in>{- 1, 0}. r = Some len)"
  using assms
proof (induction left b S arbitrary: s rule: write_loop.induct)
  case (1 left b S)
  show ?case
  proof (cases "left > 0")
    case True
    then obtain len s' S' where wr: "ss_write b S = (len, S')" "open_stream S' s'" "incoming s' = incoming s"
      "len \<le> left" "if len \<le> 0 then len \<in> {- 1, 0} \<and> capacity (accepts s) = 0 \<and> sent s' = sent s
       else sent s' = sent s @ take (nat len) b \<and> nat len \<le> capacity (accepts s) \<and>
         (len = left \<or> capacity (accepts s) = nat len + capacity (accepts s'))"
      using ss_write_open [OF "1.prems"(1), of b] "1.prems"(2,3) by auto
    have t: "take (nat left) b = b"
      using "1.prems"(2) by simp
    show ?thesis
    proof (cases "len \<le> 0")
      case True
      with wr t \<open>left > 0\<close> "1.prems"(2) show ?thesis
        by (subst write_loop.simps) auto
    next
      case False
      have wr': "ss_write (take (nat left) b) S = (len, S')"
        using wr(1) t by simp
      obtain r s'' S'' where IH: "write_loop (left - len) (drop (nat len) b) S' = (r, S'')"
        "open_stream S'' s''" "incoming s'' = incoming s'"
        "sent s'' = sent s' @ take (capacity (accepts s')) (drop (nat len) b)"
        "if length (drop (nat len) b) \<le> capacity (accepts s') then r = None else \<exists>len\<in>{- 1, 0}. r = Some len"
        using "1.IH" [OF \<open>left > 0\<close> wr' [symmetric] False wr(2)] "1.prems"(2,3) wr(4) False by auto
      moreover have "write_loop left b S = write_loop (left - len) (drop (nat len) b) S'"
        using wr' \<open>left > 0\<close> False by (subst write_loop.simps) simp
      moreover have "length (drop (nat len) b) \<le> capacity (accepts s') \<longleftrightarrow> length b \<le> capacity (accepts s)"
        if "len \<noteq> left"
        using that wr(4,5) False by auto
      moreover have "sent s' @ take (capacity (accepts s')) (drop (nat len) b) =
          sent s @ take (capacity (accepts s)) b" "len = left \<Longrightarrow> r = None \<and> length b \<le> capacity (accepts s)"
        using wr(4,5) False IH(5) "1.prems"(2) by (auto simp: take_add)
      ultimately show ?thesis
        using wr(3) IH(5)
        by (intro exI [of _ r] exI [of _ s''] exI [of _ S'']) (cases "len = left"; simp)
    qed
  next
    case False
    with "1.prems" show ?thesis
      by (subst write_loop.simps) auto
  qed
qed

text \<open>
  \<open>writeFixSize\<close> returns on every behaviour of the network. The peer gets a prefix of the
  buffer, in order and with nothing twice: all of it, and the length is returned, if the peer takes
  that many bytes before a failure; otherwise what it took, and the result is not positive.
\<close>

theorem writeFixSize_exact:
  assumes "m_socket S = Some s" and "m_isConnected s" and "length buffer < 2 ^ 31"
  shows "\<exists>r s' S'. writeFixSize buffer S = (r, S') \<and> m_socket S' = Some s' \<and>
    sent s' = sent s @ take (capacity (accepts s)) buffer \<and>
    (if length buffer \<le> capacity (accepts s) then r = int (length buffer) else r \<le> 0)"
proof -
  have n: "to_int64 (length buffer) = int (length buffer)" "to_int (int (length buffer)) = int (length buffer)"
    using assms(3) by (auto intro: to_int64_small to_int_small)
  then show ?thesis
    using write_loop_spec [of S s "int (length buffer)" buffer] assms
    by (auto simp: open_stream_def writeFixSize_def to_int_small split: if_splits)
qed

theorem writeFixSize_exact_witness:
  "\<exists>s' S'. writeFixSize ''hello'' \<lparr>m_socket = Some \<lparr>m_sock = 7, m_isConnected = True,
      incoming = [], accepts = [2, 1, 9], sent = []\<rparr>, m_owner = True\<rparr> = (5, S') \<and>
     m_socket S' = Some s' \<and> sent s' = ''hello''"
  using writeFixSize_exact [of "\<lparr>m_socket = Some \<lparr>m_sock = 7, m_isConnected = True,
      incoming = [], accepts = [2, 1, 9], sent = []\<rparr>, m_owner = True\<rparr>" _ "''hello''"] by auto

end
