(* ===== verification/Http_Parsers.thy ===== *)
theory Http_Parsers
  imports Http_Url_Spec Http_Objects Streams
begin

text \<open>
  \<open>HttpRequestParser\<close> and \<open>HttpResponseParser\<close> of \<open>http/http_parser.h\<close> and
  \<open>http/http_parser.cc\<close>, which run \<open>http_parser_execute\<close> with callbacks that fill an
  \<open>HttpRequest\<close> or an \<open>HttpResponse\<close>, and \<open>HttpSession::recvRequest\<close> and
  \<open>HttpConnection::recvResponse\<close>, which feed them from a socket.

  The \<open>data\<close> pointer of \<open>m_parser\<close> is the parser object itself; the members other than
  \<open>m_parser\<close> are the record \<open>parser_obj\<close>, the application data of the C parser. The logging
  calls have no effect on the state.
\<close>

section \<open>The parser objects\<close>

record 'm parser_obj =
  m_data :: 'm
  m_error :: int
  m_finished :: bool
  m_field :: string

type_synonym HttpRequestParser = "HttpRequest parser_obj http_parser"
type_synonym HttpResponseParser = "HttpResponse parser_obj http_parser"

text \<open>\<open>parser->getData()->f()\<close> for the object \<open>p->data\<close> points to.\<close>

definition upd_data :: "('m \<Rightarrow> 'm) \<Rightarrow> 'm parser_obj http_parser \<Rightarrow> 'm parser_obj http_parser" where
  "upd_data f P = P\<lparr>data := (data P)\<lparr>m_data := f (m_data (data P))\<rparr>\<rparr>"

definition setFinished :: "bool \<Rightarrow> 'm parser_obj http_parser \<Rightarrow> 'm parser_obj http_parser" where
  "setFinished v P = P\<lparr>data := (data P)\<lparr>m_finished := v\<rparr>\<rparr>"

definition setError :: "int \<Rightarrow> 'm parser_obj http_parser \<Rightarrow> 'm parser_obj http_parser" where
  "setError v P = P\<lparr>data := (data P)\<lparr>m_error := v\<rparr>\<rparr>"

definition setField :: "string \<Rightarrow> 'm parser_obj http_parser \<Rightarrow> 'm parser_obj http_parser" where
  "setField v P = P\<lparr>data := (data P)\<lparr>m_field := v\<rparr>\<rparr>"

definition hasError :: "'m parser_obj http_parser \<Rightarrow> bool" where
  "hasError P \<longleftrightarrow> m_error (data P) \<noteq> 0"

definition isFinished :: "'m parser_obj http_parser \<Rightarrow> bool" where
  "isFinished P \<longleftrightarrow> m_finished (data P)"

text \<open>\<open>setVersion(((p->http_major) << 0x4) | (p->http_minor))\<close>, the argument being a \<open>uint8_t\<close>.\<close>

definition parsed_version :: "'d http_parser \<Rightarrow> u8" where
  "parsed_version P = ucast (push_bit 4 (http_major P) OR http_minor P)"

section \<open>Requests\<close>

definition on_request_message_begin_cb :: "HttpRequest parser_obj http_cb" where
  "on_request_message_begin_cb P = (0, P)"

definition on_request_headers_complete_cb :: "HttpRequest parser_obj http_cb" where
  "on_request_headers_complete_cb P =
     (0, upd_data (\<lambda>r. r\<lparr>rq_version := parsed_version P, rq_method := HttpMethod (req_method P)\<rparr>) P)"

definition on_request_message_complete_cb :: "HttpRequest parser_obj http_cb" where
  "on_request_message_complete_cb P = (0, setFinished True P)"

definition on_request_chunk_header_cb :: "HttpRequest parser_obj http_cb" where
  "on_request_chunk_header_cb P = (0, P)"

definition on_request_chunk_complete_cb :: "HttpRequest parser_obj http_cb" where
  "on_request_chunk_complete_cb P = (0, P)"

text \<open>A result \<open>None\<close> of \<open>http_parser_parse_url\<close> is a failed assertion; it does not occur.\<close>

definition set_url_parts :: "string \<Rightarrow> http_parser_url \<Rightarrow> HttpRequest \<Rightarrow> HttpRequest" where
  "set_url_parts buf u r =
     (let r = (if has_field u UF_PATH then r\<lparr>rq_path := field_str buf u UF_PATH\<rparr> else r);
          r = (if has_field u UF_QUERY then r\<lparr>rq_query := field_str buf u UF_QUERY\<rparr> else r)
      in if has_field u UF_FRAGMENT then r\<lparr>rq_fragment := field_str buf u UF_FRAGMENT\<rparr> else r)"

definition on_request_url_cb :: "HttpRequest parser_obj http_data_cb" where
  "on_request_url_cb P buf =
     (case http_parser_parse_url buf False http_parser_url_init of
        Some (ret, u) \<Rightarrow> if ret \<noteq> 0 then (1, P) else (0, upd_data (set_url_parts buf u) P)
      | None \<Rightarrow> (1, P))"

definition on_request_header_field_cb :: "HttpRequest parser_obj http_data_cb" where
  "on_request_header_field_cb P buf = (0, setField buf P)"

definition on_request_header_value_cb :: "HttpRequest parser_obj http_data_cb" where
  "on_request_header_value_cb P buf = (0, upd_data (rq_setHeader (m_field (data P)) buf) P)"

definition on_request_status_cb :: "HttpRequest parser_obj http_data_cb" where
  "on_request_status_cb P buf = (0, P)"

definition on_request_body_cb :: "HttpRequest parser_obj http_data_cb" where
  "on_request_body_cb P buf = (0, upd_data (rq_appendBody buf) P)"

definition s_request_settings :: "HttpRequest parser_obj http_parser_settings" where
  "s_request_settings =
     \<lparr>on_message_begin = Some on_request_message_begin_cb, on_url = Some on_request_url_cb,
      on_status = Some on_request_status_cb, on_header_field = Some on_request_header_field_cb,
      on_header_value = Some on_request_header_value_cb,
      on_headers_complete = Some on_request_headers_complete_cb, on_body = Some on_request_body_cb,
      on_message_complete = Some on_request_message_complete_cb,
      on_chunk_header = Some on_request_chunk_header_cb,
      on_chunk_complete = Some on_request_chunk_complete_cb\<rparr>"

definition new_HttpRequestParser :: HttpRequestParser where
  "new_HttpRequestParser =
     http_parser_init HTTP_REQUEST
       \<lparr>m_data = new_HttpRequest 0x11 True, m_error = 0, m_finished = False, m_field = []\<rparr>"

text \<open>\<open>memmove(data, data + nparsed, len - nparsed)\<close> on a buffer of \<open>len\<close> bytes.\<close>

definition remove_parsed :: "nat \<Rightarrow> string \<Rightarrow> string" where
  "remove_parsed n dat = (if n < length dat then drop n dat @ drop (length dat - n) dat else dat)"

text \<open>The result is \<open>nparsed\<close>, the buffer and the parser as \<open>execute\<close> leaves them; \<open>None\<close> is a run
  that does not return.\<close>

definition request_execute ::
  "u32 \<Rightarrow> HttpRequestParser \<Rightarrow> string \<Rightarrow> (nat \<times> string \<times> HttpRequestParser) option" where
  "request_execute max_header_size P dat =
     (case http_parser_execute max_header_size s_request_settings P dat of
        Some (Return nparsed P) \<Rightarrow>
          if upgrade P then Some (nparsed, dat, setError (int (http_errno_num HPE_UNKNOWN)) P)
          else if http_errno P \<noteq> HPE_OK
          then Some (nparsed, dat, setError (int (http_errno_num (http_errno P))) P)
          else Some (nparsed, remove_parsed nparsed dat, P)
      | _ \<Rightarrow> None)"

section \<open>Responses\<close>

definition on_response_message_begin_cb :: "HttpResponse parser_obj http_cb" where
  "on_response_message_begin_cb P = (0, P)"

definition on_response_headers_complete_cb :: "HttpResponse parser_obj http_cb" where
  "on_response_headers_complete_cb P =
     (0, upd_data (\<lambda>r. r\<lparr>rs_version := parsed_version P, rs_status := unat (status_code P)\<rparr>) P)"

definition on_response_message_complete_cb :: "HttpResponse parser_obj http_cb" where
  "on_response_message_complete_cb P = (0, setFinished True P)"

definition on_response_chunk_header_cb :: "HttpResponse parser_obj http_cb" where
  "on_response_chunk_header_cb P = (0, P)"

definition on_response_chunk_complete_cb :: "HttpResponse parser_obj http_cb" where
  "on_response_chunk_complete_cb P = (0, P)"

definition on_response_url_cb :: "HttpResponse parser_obj http_data_cb" where
  "on_response_url_cb P buf = (0, P)"

definition on_response_header_field_cb :: "HttpResponse parser_obj http_data_cb" where
  "on_response_header_field_cb P buf = (0, setField buf P)"

definition on_response_header_value_cb :: "HttpResponse parser_obj http_data_cb" where
  "on_response_header_value_cb P buf = (0, upd_data (rs_setHeader (m_field (data P)) buf) P)"

definition on_response_status_cb :: "HttpResponse parser_obj http_data_cb" where
  "on_response_status_cb P buf = (0, upd_data (\<lambda>r. r\<lparr>rs_status := unat (status_code P)\<rparr>) P)"

definition on_response_body_cb :: "HttpResponse parser_obj http_data_cb" where
  "on_response_body_cb P buf = (0, upd_data (rs_appendBody buf) P)"

definition s_response_settings :: "HttpResponse parser_obj http_parser_settings" where
  "s_response_settings =
     \<lparr>on_message_begin = Some on_response_message_begin_cb, on_url = Some on_response_url_cb,
      on_status = Some on_response_status_cb, on_header_field = Some on_response_header_field_cb,
      on_header_value = Some on_response_header_value_cb,
      on_headers_complete = Some on_response_headers_complete_cb, on_body = Some on_response_body_cb,
      on_message_complete = Some on_response_message_complete_cb,
      on_chunk_header = Some on_response_chunk_header_cb,
      on_chunk_complete = Some on_response_chunk_complete_cb\<rparr>"

definition new_HttpResponseParser :: HttpResponseParser where
  "new_HttpResponseParser =
     http_parser_init HTTP_RESPONSE
       \<lparr>m_data = new_HttpResponse 0x11 True, m_error = 0, m_finished = False, m_field = []\<rparr>"

definition response_execute ::
  "u32 \<Rightarrow> HttpResponseParser \<Rightarrow> string \<Rightarrow> (nat \<times> string \<times> HttpResponseParser) option" where
  "response_execute max_header_size P dat =
     (case http_parser_execute max_header_size s_response_settings P dat of
        Some (Return nparsed P) \<Rightarrow>
          if http_errno P \<noteq> HPE_OK
          then Some (nparsed, dat, setError (int (http_errno_num (http_errno P))) P)
          else Some (nparsed, remove_parsed nparsed dat, P)
      | _ \<Rightarrow> None)"

section \<open>Sessions and connections\<close>

text \<open>
  The loop of \<open>recvRequest\<close>; \<open>kept\<close> is \<open>data[0 .. offset)\<close>. The result is the request or
  \<open>nullptr\<close>, and the stream.
\<close>

partial_function (option) recv_request_loop ::
  "u32 \<Rightarrow> nat \<Rightarrow> HttpRequestParser \<Rightarrow> string \<Rightarrow> SocketStream \<Rightarrow> (HttpRequest option \<times> SocketStream) option" where
  "recv_request_loop max_header_size buff_size P kept S =
     (case ss_read (buff_size - length kept) S of (len, b, S) \<Rightarrow>
        if len \<le> 0 then Some (None, ss_close S)
        else let dat = kept @ b in
          (case request_execute max_header_size P dat of
             None \<Rightarrow> None
           | Some (nparse, buf, P) \<Rightarrow>
               if hasError P then Some (None, ss_close S)
               else let offset = length dat - nparse in
                 if int offset = to_int (int buff_size) then Some (None, ss_close S)
                 else if isFinished P then Some (Some (rq_init (m_data (data P))), S)
                 else recv_request_loop max_header_size buff_size P (take offset buf) S))"

declare recv_request_loop.simps [code]

definition recvRequest :: "u32 \<Rightarrow> nat \<Rightarrow> SocketStream \<Rightarrow> (HttpRequest option \<times> SocketStream) option" where
  "recvRequest max_header_size buff_size S =
     recv_request_loop max_header_size buff_size new_HttpRequestParser [] S"

definition sendResponse :: "HttpResponse \<Rightarrow> SocketStream \<Rightarrow> int \<times> SocketStream" where
  "sendResponse rsp S = writeFixSize (rs_dump rsp) S"

partial_function (option) recv_response_loop ::
  "u32 \<Rightarrow> nat \<Rightarrow> HttpResponseParser \<Rightarrow> string \<Rightarrow> SocketStream \<Rightarrow> (HttpResponse option \<times> SocketStream) option" where
  "recv_response_loop max_header_size buff_size P kept S =
     (case ss_read (buff_size - length kept) S of (len, b, S) \<Rightarrow>
        if len \<le> 0 then Some (None, ss_close S)
        else let dat = kept @ b in
          (case response_execute max_header_size P dat of
             None \<Rightarrow> None
           | Some (nparse, buf, P) \<Rightarrow>
               if hasError P then Some (None, ss_close S)
               else let offset = length dat - nparse in
                 if int offset = to_int (int buff_size) then Some (None, ss_close S)
                 else if isFinished P then Some (Some (m_data (data P)), S)
                 else recv_response_loop max_header_size buff_size P (take offset buf) S))"

declare recv_response_loop.simps [code]

definition recvResponse :: "u32 \<Rightarrow> nat \<Rightarrow> SocketStream \<Rightarrow> (HttpResponse option \<times> SocketStream) option" where
  "recvResponse max_header_size buff_size S =
     recv_response_loop max_header_size buff_size new_HttpResponseParser [] S"

definition sendRequest :: "HttpRequest \<Rightarrow> SocketStream \<Rightarrow> int \<times> SocketStream" where
  "sendRequest req S = writeFixSize (rq_dump req) S"

section \<open>The callbacks keep the contract of the C parser\<close>

lemma cb_frameI:
  assumes "\<And>P. snd (f P) = P\<lparr>data := data (snd (f P))\<rparr>"
  shows "cb_frame f"
  unfolding cb_frame_def
proof
  fix P
  have "f P = (fst (f P), P\<lparr>http_errno := http_errno P, data := data (snd (f P))\<rparr>)"
    using assms [of P] by (simp add: prod_eq_iff)
  then show "\<exists>r d e. f P = (r, P\<lparr>http_errno := e, data := d\<rparr>) \<and> (e = http_errno P \<or> e = HPE_PAUSED)"
    by blast
qed

lemmas object_defs = upd_data_def setFinished_def setError_def setField_def hasError_def isFinished_def

lemmas request_callback_defs = on_request_message_begin_cb_def on_request_headers_complete_cb_def
  on_request_message_complete_cb_def on_request_chunk_header_cb_def on_request_chunk_complete_cb_def
  on_request_url_cb_def on_request_header_field_cb_def on_request_header_value_cb_def
  on_request_status_cb_def on_request_body_cb_def

lemmas response_callback_defs = on_response_message_begin_cb_def on_response_headers_complete_cb_def
  on_response_message_complete_cb_def on_response_chunk_header_cb_def on_response_chunk_complete_cb_def
  on_response_url_cb_def on_response_header_field_cb_def on_response_header_value_cb_def
  on_response_status_cb_def on_response_body_cb_def

interpretation request_callbacks: http_callbacks s_request_settings
proof
  show "cb_frame f" if "Some f \<in> set (notify_cbs s_request_settings)" for f
    using that
    by (auto simp: notify_cbs_def s_request_settings_def request_callback_defs object_defs intro!: cb_frameI)
  show "cb_frame (\<lambda>P. g P s)" if "on_data s_request_settings m = Some g" for m g s
    using that
    by (cases m)
      (auto simp: s_request_settings_def request_callback_defs object_defs
        intro!: cb_frameI split: option.split)
qed

interpretation response_callbacks: http_callbacks s_response_settings
proof
  show "cb_frame f" if "Some f \<in> set (notify_cbs s_response_settings)" for f
    using that
    by (auto simp: notify_cbs_def s_response_settings_def response_callback_defs object_defs intro!: cb_frameI)
  show "cb_frame (\<lambda>P. g P s)" if "on_data s_response_settings m = Some g" for m g s
    using that
    by (cases m)
      (auto simp: s_response_settings_def response_callback_defs object_defs intro!: cb_frameI)
qed

section \<open>Running the parsers\<close>

lemma http_errno_num_zero: "http_errno_num e = 0 \<longleftrightarrow> e = HPE_OK"
  by (cases e) simp_all

lemma parser_inv_data [simp]: "parser_inv mx (P\<lparr>data := d\<rparr>) = parser_inv mx P"
  by (simp add: parser_inv_def pinv_def has_flag_def one_framing_def)

lemma http_parser_execute_failed: "http_errno P \<noteq> HPE_OK \<Longrightarrow> http_parser_execute mx S P dat = Some (Return 0 P)"
  by (simp add: http_parser_execute_def)

lemma request_execute_ok:
  assumes "parser_inv mx P" and "length dat < 2 ^ 64"
  shows "\<exists>n buf P'. request_execute mx P dat = Some (n, buf, P') \<and> parser_inv mx P' \<and> n \<le> max 1 (length dat) \<and>
    (\<not> hasError P' \<and> dat \<noteq> [] \<longrightarrow> n = length dat \<and> buf = dat)"
proof -
  obtain n P' where "http_parser_execute mx s_request_settings P dat = Some (Return n P')" "parser_inv mx P'"
    "n \<le> max 1 (length dat)"
    "http_errno P = HPE_OK \<and> http_errno P' = HPE_OK \<and> dat \<noteq> [] \<longrightarrow> n = length dat \<or> upgrade P'"
    using request_callbacks.execute_ok [OF assms] by blast
  then show ?thesis
    using http_parser_execute_failed [of P mx s_request_settings dat]
    by (cases "http_errno P = HPE_OK")
      (auto simp: request_execute_def object_defs remove_parsed_def http_errno_num_zero)
qed

lemma response_execute_ok:
  assumes "parser_inv mx P" and "length dat < 2 ^ 64"
  shows "\<exists>n buf P'. response_execute mx P dat = Some (n, buf, P') \<and> parser_inv mx P' \<and> n \<le> max 1 (length dat) \<and>
    length buf = length dat \<and>
    (\<not> hasError P' \<and> \<not> upgrade P' \<and> dat \<noteq> [] \<longrightarrow> n = length dat)"
proof -
  obtain n P' where "http_parser_execute mx s_response_settings P dat = Some (Return n P')" "parser_inv mx P'"
    "n \<le> max 1 (length dat)"
    "http_errno P = HPE_OK \<and> http_errno P' = HPE_OK \<and> dat \<noteq> [] \<longrightarrow> n = length dat \<or> upgrade P'"
    using response_callbacks.execute_ok [OF assms] by blast
  then show ?thesis
    using http_parser_execute_failed [of P mx s_response_settings dat]
    by (cases "http_errno P = HPE_OK")
      (auto simp: response_execute_def object_defs remove_parsed_def http_errno_num_zero)
qed

lemma new_parser_inv [simp]: "parser_inv mx new_HttpRequestParser" "parser_inv mx new_HttpResponseParser"
  by (simp_all add: new_HttpRequestParser_def new_HttpResponseParser_def http_parser_init_inv)

inductive request_parser_reach :: "u32 \<Rightarrow> HttpRequestParser \<Rightarrow> bool" for mx where
  new: "request_parser_reach mx new_HttpRequestParser"
| execute: "request_parser_reach mx P \<Longrightarrow> length dat < 2 ^ 64 \<Longrightarrow> request_execute mx P dat = Some (n, buf, P') \<Longrightarrow>
    request_parser_reach mx P'"

lemma request_parser_reach_inv: "request_parser_reach mx P \<Longrightarrow> parser_inv mx P"
  by (induction rule: request_parser_reach.induct) (use request_execute_ok in fastforce)+

inductive response_parser_reach :: "u32 \<Rightarrow> HttpResponseParser \<Rightarrow> bool" for mx where
  new: "response_parser_reach mx new_HttpResponseParser"
| execute: "response_parser_reach mx P \<Longrightarrow> length dat < 2 ^ 64 \<Longrightarrow> response_execute mx P dat = Some (n, buf, P') \<Longrightarrow>
    response_parser_reach mx P'"

lemma response_parser_reach_inv: "response_parser_reach mx P \<Longrightarrow> parser_inv mx P"
  by (induction rule: response_parser_reach.induct) (use response_execute_ok in fastforce)+

text \<open>
  C11: \<open>HttpRequestParser::execute\<close> and \<open>HttpResponseParser::execute\<close> return on every input,
  whatever was parsed before. When the request parser reports no error it has parsed every byte,
  so that nothing is left for its \<open>memmove\<close>; the response parser leaves bytes only after an
  upgrade.
\<close>

theorem parser_objects_return:
  assumes "request_parser_reach mx P" and "response_parser_reach mx Q" and "dat \<noteq> []" and "length dat < 2 ^ 64"
  shows "(\<exists>n buf P'. request_execute mx P dat = Some (n, buf, P') \<and> n \<le> length dat \<and>
            (\<not> hasError P' \<longrightarrow> n = length dat \<and> buf = dat)) \<and>
         (\<exists>n buf Q'. response_execute mx Q dat = Some (n, buf, Q') \<and> n \<le> length dat \<and>
            (\<not> hasError Q' \<and> \<not> upgrade Q' \<longrightarrow> n = length dat))"
proof -
  have "max 1 (length dat) = length dat"
    using assms(3) by (cases dat) auto
  then show ?thesis
    using request_execute_ok [OF request_parser_reach_inv [OF assms(1)] assms(4)]
      response_execute_ok [OF response_parser_reach_inv [OF assms(2)] assms(4)] assms(3)
    by auto
qed

theorem parser_objects_return_witness:
  "\<exists>n buf P'. request_execute 80 new_HttpRequestParser ''GET /'' = Some (n, buf, P') \<and> n \<le> 5"
  using parser_objects_return [OF request_parser_reach.new response_parser_reach.new, of "''GET /''" 80] by auto

section \<open>Receiving a request\<close>

text \<open>Feeding the parser one piece after the other, without a buffer.\<close>

fun feed :: "u32 \<Rightarrow> HttpRequestParser \<Rightarrow> string list \<Rightarrow> HttpRequestParser option" where
  "feed mx P [] = Some P"
| "feed mx P (c # cs) =
     (case request_execute mx P c of
        Some (n, buf, P') \<Rightarrow> if hasError P' then None else feed mx P' cs
      | None \<Rightarrow> None)"

definition received :: "u32 \<Rightarrow> nat \<Rightarrow> HttpRequestParser \<Rightarrow> Socket \<Rightarrow> HttpRequest \<Rightarrow> SocketStream \<Rightarrow> bool" where
  "received mx bs P s req S' \<longleftrightarrow>
     (\<exists>chunks P' s'. open_stream S' s' \<and> (\<forall>c\<in>set chunks. c \<noteq> [] \<and> length c \<le> bs) \<and>
        available (incoming s) = concat chunks @ available (incoming s') \<and> feed mx P chunks = Some P' \<and>
        isFinished P' \<and> req = rq_init (m_data (data P')))"

lemma ss_close_open: "open_stream S s \<Longrightarrow> \<not> ss_isConnected (ss_close S)"
  by (simp add: open_stream_def ss_close_def Socket_close_def ss_isConnected_def)

lemma recv_request_loop_spec:
  assumes "parser_inv mx P" and "open_stream S s" and "0 < bs" and "bs < 2 ^ 31"
  shows "\<exists>r S'. recv_request_loop mx bs P [] S = Some (r, S') \<and>
    (case r of None \<Rightarrow> \<not> ss_isConnected S' | Some req \<Rightarrow> received mx bs P s req S')"
  using assms(1,2)
proof (induction "length (available (incoming s))" arbitrary: P S s rule: less_induct)
  case less
  obtain len b s1 S1 where rd: "ss_read bs S = (len, b, S1)" "open_stream S1 s1" "len \<le> int bs"
    "if len \<le> 0 then len \<in> {- 1, 0} \<and> b = [] \<and> available (incoming s) = []
     else len = int (length b) \<and> available (incoming s) = b @ available (incoming s1)"
    using ss_read_open [OF less.prems(2) assms(3,4)] by blast
  note step = recv_request_loop.simps [of mx bs P "[]" S]
  show ?case
  proof (cases "len \<le> 0")
    case True
    then show ?thesis
      using rd(1) ss_close_open [OF rd(2)] by (simp add: step)
  next
    case False
    then have b: "b \<noteq> []" "length b \<le> bs" "length b < 2 ^ 64"
      "available (incoming s) = b @ available (incoming s1)"
      using rd(3,4) assms(4) by auto
    obtain n buf P1 where ex: "request_execute mx P b = Some (n, buf, P1)" "parser_inv mx P1"
      "\<not> hasError P1 \<Longrightarrow> n = length b"
      using request_execute_ok [OF less.prems(1) b(3)] b(1) by blast
    show ?thesis
    proof (cases "hasError P1")
      case True
      then show ?thesis
        using rd(1) False ex(1) ss_close_open [OF rd(2)] by (simp add: step)
    next
      case ok: False
      have size: "to_int (int bs) \<noteq> 0"
        using assms(3,4) by (simp add: to_int_small)
      show ?thesis
      proof (cases "isFinished P1")
        case True
        then have "received mx bs P s (rq_init (m_data (data P1))) S1"
          unfolding received_def using rd(2) b ex(1) ok
          by (intro exI [of _ "[b]"] exI [of _ P1] exI [of _ s1]) simp
        then show ?thesis
          using rd(1) False ex(1,3) ok size True by (simp add: step)
      next
        case unfinished: False
        obtain r S' where rec: "recv_request_loop mx bs P1 [] S1 = Some (r, S')"
          "case r of None \<Rightarrow> \<not> ss_isConnected S' | Some req \<Rightarrow> received mx bs P1 s1 req S'"
          using less.hyps [OF _ ex(2) rd(2)] b(1,4) by auto
        have "received mx bs P s req S'" if rc: "received mx bs P1 s1 req S'" for req
        proof -
          obtain chunks P' s' where "open_stream S' s'" "\<forall>c\<in>set chunks. c \<noteq> [] \<and> length c \<le> bs"
            "available (incoming s1) = concat chunks @ available (incoming s')" "feed mx P1 chunks = Some P'"
            "isFinished P'" "req = rq_init (m_data (data P'))"
            using rc unfolding received_def by blast
          then show ?thesis
            unfolding received_def using b ex(1) ok
            by (intro exI [of _ "b # chunks"] exI [of _ P'] exI [of _ s']) simp
        qed
        with rec show ?thesis
          using rd(1) False ex(1,3) ok size unfinished by (auto simp: step split: option.splits)
      qed
    qed
  qed
qed

text \<open>
  C12: \<open>recvRequest\<close> returns on every behaviour of the network. It either gives up, and then the
  connection is closed, or returns a request; then the bytes it took off the stream, cut into the
  pieces the reads returned (none longer than the buffer), make a new parser finish without an
  error when they are fed to it one after the other, and the request is what that parser holds
  after \<open>init\<close>. The offset and the buffer it keeps between reads thus make no difference.
\<close>

theorem recvRequest_refines_feed:
  assumes "m_socket S = Some s" and "m_isConnected s" and "0 < buff_size" and "buff_size < 2 ^ 31"
  shows "\<exists>r S'. recvRequest mx buff_size S = Some (r, S') \<and>
    (case r of None \<Rightarrow> \<not> ss_isConnected S'
     | Some req \<Rightarrow> received mx buff_size new_HttpRequestParser s req S')"
  using recv_request_loop_spec [of mx new_HttpRequestParser S s buff_size] assms
  by (simp add: recvRequest_def open_stream_def)

definition example_stream :: "string list \<Rightarrow> SocketStream" where
  "example_stream bs = \<lparr>m_socket = Some \<lparr>m_sock = 7, m_isConnected = True, incoming = map Bytes bs,
     accepts = [], sent = []\<rparr>, m_owner = True\<rparr>"

theorem recvRequest_refines_feed_witness:
  "\<exists>r S'. recvRequest 200 64 (example_stream [''GET /a HT'', ''TP/1.1'' @ CRLF @ CRLF]) = Some (r, S') \<and>
     (r = None \<longrightarrow> \<not> ss_isConnected S')"
proof -
  have "\<exists>r S'. recvRequest 200 64 (example_stream [''GET /a HT'', ''TP/1.1'' @ CRLF @ CRLF]) = Some (r, S') \<and>
    (case r of None \<Rightarrow> \<not> ss_isConnected S'
     | Some req \<Rightarrow> received 200 64 new_HttpRequestParser (the (m_socket (example_stream [''GET /a HT'', ''TP/1.1'' @ CRLF @ CRLF]))) req S')"
    by (rule recvRequest_refines_feed) (simp_all add: example_stream_def)
  then show ?thesis
    by (auto split: option.splits)
qed

text \<open>
  Two requests that arrive in one read are parsed into the same object: \<open>recvRequest\<close> returns the
  second and the first is lost.
\<close>

lemma pipelined_requests_merge:
  "map_option (map_option rq_path \<circ> fst)
     (recvRequest 200 128 (example_stream [''GET /a HTTP/1.1'' @ CRLF @ CRLF @ ''GET /b HTTP/1.1'' @ CRLF @ CRLF])) =
   Some (Some ''/b'')"
  by code_simp

section \<open>What the callbacks store\<close>

text \<open>
  The URL callback stores the parts of the request target: for a path that starts with a
  slash, a query and a fragment made of URL characters (the last two possibly absent), the
  callback accepts \<open>path?query#fragment\<close>, and path, query and fragment of the request are then
  exactly these, those that are absent keeping the empty value of a new request.
\<close>

theorem request_url_split:
  assumes "\<forall>c\<in>set path. IS_URL_CHAR c" and "\<forall>c\<in>set q. IS_URL_CHAR c \<or> c = CHR ''?''"
    and "\<forall>c\<in>set fr. IS_URL_CHAR c \<or> c = CHR ''?'' \<or> c = CHR ''#''" and "fr \<noteq> [] \<longrightarrow> hd fr \<noteq> CHR ''#''"
    and "length (path @ q @ fr) < 65530" and "rq_query (m_data (data P)) = []" and "rq_fragment (m_data (data P)) = []"
  shows "\<exists>P'. on_request_url_cb P (''/'' @ path @ query_part q @ fragment_part fr) = (0, P') \<and>
    rq_path (m_data (data P')) = ''/'' @ path \<and> rq_query (m_data (data P')) = q \<and>
    rq_fragment (m_data (data P')) = fr"
proof -
  let ?buf = "(CHR ''/'' # path) @ query_part q @ fragment_part fr"
  have "length ?buf < 65536"
    using assms(5) by (simp add: query_part_def fragment_part_def)
  then obtain u where u: "http_parser_parse_url ?buf False http_parser_url_init = Some (0, u)"
    "part_str ?buf u UF_PATH = CHR ''/'' # path" "part_str ?buf u UF_QUERY = q" "part_str ?buf u UF_FRAGMENT = fr"
    using origin_form_parts [OF assms(1-4) refl] by blast
  then have "on_request_url_cb P ?buf = (0, upd_data (set_url_parts ?buf u) P)"
    by (simp add: on_request_url_cb_def)
  moreover have "rq_path (set_url_parts ?buf u r) = CHR ''/'' # path" "rq_query r = [] \<Longrightarrow> rq_query (set_url_parts ?buf u r) = q"
    "rq_fragment r = [] \<Longrightarrow> rq_fragment (set_url_parts ?buf u r) = fr" for r
    using u(2-4) by (auto simp: set_url_parts_def part_str_def Let_def split: if_splits)
  ultimately show ?thesis
    using assms(6,7) by (simp add: upd_data_def)
qed

theorem request_url_split_witness:
  "\<exists>P'. on_request_url_cb new_HttpRequestParser ''/a/b?k=v#top'' = (0, P') \<and> rq_query (m_data (data P')) = ''k=v''"
proof -
  have "\<exists>P'. on_request_url_cb new_HttpRequestParser (''/'' @ ''a/b'' @ query_part ''k=v'' @ fragment_part ''top'') = (0, P') \<and>
    rq_path (m_data (data P')) = ''/'' @ ''a/b'' \<and> rq_query (m_data (data P')) = ''k=v'' \<and>
    rq_fragment (m_data (data P')) = ''top''"
    by (rule request_url_split)
      (simp_all add: IS_URL_CHAR_class url_class_def new_HttpRequestParser_def http_parser_init_def new_HttpRequest_def)
  then show ?thesis
    by (auto simp: query_part_def fragment_part_def)
qed

text \<open>
  A body with a content length ends up in the request unchanged. While the bytes given do not
  exceed what is left of the body, \<open>execute\<close> takes all of them without an error and appends
  exactly them to \<open>m_body\<close>; the request is finished exactly when they complete the body.
\<close>

theorem request_body_appended:
  assumes "state P = s_body_identity" and "http_errno P = HPE_OK" and "\<not> upgrade P"
    and "content_length P \<noteq> 0" and "content_length P \<noteq> ULLONG_MAX" and "\<not> hasError P" and "\<not> isFinished P"
    and "dat \<noteq> []" and "length dat \<le> unat (content_length P)"
  shows "\<exists>P'. request_execute mx P dat = Some (length dat, dat, P') \<and> \<not> hasError P' \<and>
    rq_body (m_data (data P')) = rq_body (m_data (data P)) @ dat \<and>
    unat (content_length P') = unat (content_length P) - length dat \<and>
    (isFinished P' \<longleftrightarrow> length dat = unat (content_length P))"
proof -
  have "pure_data_cb (on_body s_request_settings) (\<lambda>d s. d\<lparr>m_data := rq_appendBody s (m_data d)\<rparr>)"
    and "pure_cb (on_message_complete s_request_settings) (\<lambda>d. d\<lparr>m_finished := True\<rparr>)"
    by (simp_all add: pure_data_cb_def pure_cb_def s_request_settings_def on_request_body_cb_def
        on_request_message_complete_cb_def upd_data_def setFinished_def)
  from body_identity_run [OF assms(1,2,4,5,8,9) this, of mx]
  obtain P' where "http_parser_execute mx s_request_settings P dat = Some (Return (length dat) P')"
    "http_errno P' = HPE_OK" "upgrade P' = upgrade P"
    "unat (content_length P') = unat (content_length P) - length dat"
    "if length dat = unat (content_length P)
     then data P' = (data P)\<lparr>m_data := rq_appendBody dat (m_data (data P)), m_finished := True\<rparr>
     else data P' = (data P)\<lparr>m_data := rq_appendBody dat (m_data (data P))\<rparr>"
    by (auto split: if_splits)
  then show ?thesis
    using assms(3,6,7) by (auto simp: request_execute_def remove_parsed_def object_defs rq_appendBody_def split: if_splits)
qed

theorem request_body_appended_witness:
  "\<exists>P'. request_execute 80 (new_HttpRequestParser\<lparr>state := s_body_identity, content_length := 5\<rparr>) ''hello'' =
      Some (5, ''hello'', P') \<and> rq_body (m_data (data P')) = ''hello'' \<and> isFinished P'"
  using request_body_appended [of "new_HttpRequestParser\<lparr>state := s_body_identity, content_length := 5\<rparr>" "''hello''" 80]
  by (auto simp: new_HttpRequestParser_def http_parser_init_def object_defs new_HttpRequest_def)

end
