(* ===== verification/Http_Server.thy ===== *)
theory Http_Server
  imports Http_Parsers
begin

text \<open>
  \<open>http/servlet.h\<close>, \<open>http/servlet.cc\<close> and \<open>http/http_server.cc\<close>: the table of servlets, and the loop that serves one
  connection: receive a request, let the servlet of its path fill the response, send it, and go on while the
  connection is kept alive.

  A servlet is the function that its \<open>handle\<close> computes on the response; that it may also use the session or change
  the request is not modelled. A creator is the servlet that its \<open>get\<close> returns. A null pointer is \<open>None\<close>.
  \<open>fnmatch\<close> of the C library is an argument.
\<close>

section \<open>Servlets\<close>

type_synonym servlet = "HttpRequest \<Rightarrow> HttpResponse \<Rightarrow> HttpResponse"

type_synonym IServletCreator = "servlet option"

text \<open>A servlet made of a callback, and the creator that holds a servlet.\<close>

definition FunctionServlet :: "servlet \<Rightarrow> servlet" where
  "FunctionServlet cb request response = cb request response"

definition HoldServletCreator :: "servlet option \<Rightarrow> IServletCreator" where
  "HoldServletCreator slt = slt"

record ServletDispatch =
  m_datas :: "string \<rightharpoonup> IServletCreator"
  m_globs :: "(string \<times> IServletCreator) list"
  m_default :: "servlet option"

definition NotFoundServlet_content :: "string \<Rightarrow> string" where
  "NotFoundServlet_content name =
     ''<html><head><title>404 Not Found</title></head><body><center><h1>404 Not Found</h1></center><hr><center>'' @ name @
     ''</center></body></html>''"

definition NotFoundServlet :: "string \<Rightarrow> servlet" where
  "NotFoundServlet name request response =
     (rs_setHeader ''Content-Type'' ''text/html'' (rs_setHeader ''Server'' ''sylar/1.0.0'' (response\<lparr>rs_status := 404\<rparr>)))
       \<lparr>rs_body := NotFoundServlet_content name\<rparr>"

definition new_ServletDispatch :: ServletDispatch where
  "new_ServletDispatch = \<lparr>m_datas = Map.empty, m_globs = [], m_default = Some (NotFoundServlet ''sylar/1.0'')\<rparr>"

text \<open>The loop that erases the first entry with the key.\<close>

fun glob_erase :: "string \<Rightarrow> (string \<times> IServletCreator) list \<Rightarrow> (string \<times> IServletCreator) list" where
  "glob_erase uri [] = []"
| "glob_erase uri (it # its) = (if fst it = uri then its else it # glob_erase uri its)"

definition addServletCreator :: "string \<Rightarrow> IServletCreator \<Rightarrow> ServletDispatch \<Rightarrow> ServletDispatch" where
  "addServletCreator uri creator D = D\<lparr>m_datas := (m_datas D)(uri \<mapsto> creator)\<rparr>"

definition addServlet :: "string \<Rightarrow> servlet option \<Rightarrow> ServletDispatch \<Rightarrow> ServletDispatch" where
  "addServlet uri slt D = D\<lparr>m_datas := (m_datas D)(uri \<mapsto> HoldServletCreator slt)\<rparr>"

definition addGlobServletCreator :: "string \<Rightarrow> IServletCreator \<Rightarrow> ServletDispatch \<Rightarrow> ServletDispatch" where
  "addGlobServletCreator uri creator D = D\<lparr>m_globs := glob_erase uri (m_globs D) @ [(uri, creator)]\<rparr>"

definition addGlobServlet :: "string \<Rightarrow> servlet option \<Rightarrow> ServletDispatch \<Rightarrow> ServletDispatch" where
  "addGlobServlet uri slt D = D\<lparr>m_globs := glob_erase uri (m_globs D) @ [(uri, HoldServletCreator slt)]\<rparr>"

definition delServlet :: "string \<Rightarrow> ServletDispatch \<Rightarrow> ServletDispatch" where
  "delServlet uri D = D\<lparr>m_datas := (m_datas D)(uri := None)\<rparr>"

definition delGlobServlet :: "string \<Rightarrow> ServletDispatch \<Rightarrow> ServletDispatch" where
  "delGlobServlet uri D = D\<lparr>m_globs := glob_erase uri (m_globs D)\<rparr>"

definition setDefault :: "servlet option \<Rightarrow> ServletDispatch \<Rightarrow> ServletDispatch" where
  "setDefault v D = D\<lparr>m_default := v\<rparr>"

definition getServlet :: "string \<Rightarrow> ServletDispatch \<Rightarrow> servlet option" where
  "getServlet uri D = (case m_datas D uri of None \<Rightarrow> None | Some creator \<Rightarrow> creator)"

definition getGlobServlet :: "string \<Rightarrow> ServletDispatch \<Rightarrow> servlet option" where
  "getGlobServlet uri D = (case find (\<lambda>it. fst it = uri) (m_globs D) of None \<Rightarrow> None | Some it \<Rightarrow> snd it)"

text \<open>\<open>fnmatch\<close> is 0 when the pattern matches.\<close>

definition getMatchedServlet :: "(string \<Rightarrow> string \<Rightarrow> int) \<Rightarrow> string \<Rightarrow> ServletDispatch \<Rightarrow> servlet option" where
  "getMatchedServlet fnmatch uri D =
     (case m_datas D uri of
        Some creator \<Rightarrow> creator
      | None \<Rightarrow> (case find (\<lambda>it. fnmatch (c_str (fst it)) (c_str uri) = 0) (m_globs D) of
          Some it \<Rightarrow> snd it
        | None \<Rightarrow> m_default D))"

definition dispatch_handle :: "(string \<Rightarrow> string \<Rightarrow> int) \<Rightarrow> ServletDispatch \<Rightarrow> servlet" where
  "dispatch_handle fnmatch D request response =
     (case getMatchedServlet fnmatch (rq_path request) D of Some slt \<Rightarrow> slt request response | None \<Rightarrow> response)"

definition addServlet_cb :: "string \<Rightarrow> servlet \<Rightarrow> ServletDispatch \<Rightarrow> ServletDispatch" where
  "addServlet_cb uri cb D = D\<lparr>m_datas := (m_datas D)(uri \<mapsto> HoldServletCreator (Some (FunctionServlet cb)))\<rparr>"

definition addGlobServlet_cb :: "string \<Rightarrow> servlet \<Rightarrow> ServletDispatch \<Rightarrow> ServletDispatch" where
  "addGlobServlet_cb uri cb D = addGlobServlet uri (Some (FunctionServlet cb)) D"

definition listAllServletCreator :: "ServletDispatch \<Rightarrow> (string \<rightharpoonup> IServletCreator) \<Rightarrow> (string \<rightharpoonup> IServletCreator)" where
  "listAllServletCreator D infos = infos ++ m_datas D"

definition listAllGlobServletCreator :: "ServletDispatch \<Rightarrow> (string \<rightharpoonup> IServletCreator) \<Rightarrow> (string \<rightharpoonup> IServletCreator)" where
  "listAllGlobServletCreator D infos = fold (\<lambda>i infos. infos(fst i \<mapsto> snd i)) (m_globs D) infos"

section \<open>The server\<close>

record HttpServer =
  m_isKeepalive :: bool
  m_name :: string
  m_dispatch :: ServletDispatch

definition new_HttpServer :: "bool \<Rightarrow> string \<Rightarrow> HttpServer" where
  "new_HttpServer keepalive name = \<lparr>m_isKeepalive = keepalive, m_name = name, m_dispatch = new_ServletDispatch\<rparr>"

definition HttpServer_setName :: "string \<Rightarrow> HttpServer \<Rightarrow> HttpServer" where
  "HttpServer_setName v H = H\<lparr>m_name := v, m_dispatch := setDefault (Some (NotFoundServlet v)) (m_dispatch H)\<rparr>"

text \<open>The response to a request.\<close>

definition respond :: "(string \<Rightarrow> string \<Rightarrow> int) \<Rightarrow> HttpServer \<Rightarrow> HttpRequest \<Rightarrow> HttpResponse" where
  "respond fnmatch H req =
     (let rsp = new_HttpResponse (rq_version req) (rq_close req \<or> \<not> m_isKeepalive H);
          rsp = rs_setHeader ''Server'' (m_name H) rsp
      in dispatch_handle fnmatch (m_dispatch H) req rsp)"

partial_function (option) handleClient ::
  "u32 \<Rightarrow> nat \<Rightarrow> (string \<Rightarrow> string \<Rightarrow> int) \<Rightarrow> HttpServer \<Rightarrow> SocketStream \<Rightarrow> SocketStream option" where
  "handleClient max_header_size buff_size fnmatch H session =
     (case recvRequest max_header_size buff_size session of
        None \<Rightarrow> None
      | Some (None, session) \<Rightarrow> Some (ss_close session)
      | Some (Some req, session) \<Rightarrow>
          (let session = snd (sendResponse (respond fnmatch H req) session)
           in if \<not> m_isKeepalive H \<or> rq_close req then Some (ss_close session)
              else handleClient max_header_size buff_size fnmatch H session))"

declare handleClient.simps [code]

section \<open>The table of servlets\<close>

datatype dispatch_op = Add string IServletCreator | Del string | Add_Glob string IServletCreator | Del_Glob string

fun run_op :: "dispatch_op \<Rightarrow> ServletDispatch \<Rightarrow> ServletDispatch" where
  "run_op (Add uri creator) D = addServletCreator uri creator D"
| "run_op (Del uri) D = delServlet uri D"
| "run_op (Add_Glob uri creator) D = addGlobServletCreator uri creator D"
| "run_op (Del_Glob uri) D = delGlobServlet uri D"

abbreviation run_ops :: "dispatch_op list \<Rightarrow> ServletDispatch" where
  "run_ops ops \<equiv> fold run_op ops new_ServletDispatch"

text \<open>What the history of the table says: for a path, the last word on it.\<close>

fun exact_of :: "dispatch_op list \<Rightarrow> string \<rightharpoonup> IServletCreator" where
  "exact_of [] uri = None"
| "exact_of (op # later) uri =
     (if \<exists>op'\<in>set later. op' = Del uri \<or> (\<exists>c. op' = Add uri c) then exact_of later uri
      else case op of Add u c \<Rightarrow> if u = uri then Some c else None | _ \<Rightarrow> None)"

text \<open>The patterns in the order in which they were last added, without those that were removed since.\<close>

fun glob_uri :: "dispatch_op \<Rightarrow> string option" where
  "glob_uri (Add_Glob uri creator) = Some uri"
| "glob_uri (Del_Glob uri) = Some uri"
| "glob_uri _ = None"

fun globs_of :: "dispatch_op list \<Rightarrow> (string \<times> IServletCreator) list" where
  "globs_of [] = []"
| "globs_of (op # later) =
     (case op of
        Add_Glob uri creator \<Rightarrow> if Some uri \<in> glob_uri ` set later then globs_of later else (uri, creator) # globs_of later
      | _ \<Rightarrow> globs_of later)"

lemma exact_of_snoc:
  "exact_of (ops @ [op]) uri =
     (case op of Add u c \<Rightarrow> if u = uri then Some c else exact_of ops uri
      | Del u \<Rightarrow> if u = uri then None else exact_of ops uri
      | _ \<Rightarrow> exact_of ops uri)"
  by (induction ops) (auto split: dispatch_op.splits)

lemma globs_of_snoc:
  "globs_of (ops @ [op]) =
     filter (\<lambda>e. glob_uri op \<noteq> Some (fst e)) (globs_of ops) @ (case op of Add_Glob u c \<Rightarrow> [(u, c)] | _ \<Rightarrow> [])"
  by (induction ops) (auto split: dispatch_op.splits)

lemma globs_of_keys: "uri \<in> fst ` set (globs_of ops) \<Longrightarrow> Some uri \<in> glob_uri ` set ops"
  by (induction ops) (auto split: dispatch_op.splits if_splits)

lemma globs_of_distinct: "distinct (map fst (globs_of ops))"
  using globs_of_keys by (induction ops) (auto split: dispatch_op.splits)

lemma glob_erase_filter: "distinct (map fst gs) \<Longrightarrow> glob_erase uri gs = filter (\<lambda>e. fst e \<noteq> uri) gs"
proof (induction gs)
  case (Cons e gs)
  have "filter (\<lambda>x. fst x \<noteq> uri) gs = gs" if "fst e = uri"
    using Cons.prems that by (auto simp: filter_id_conv image_iff)
  with Cons show ?case by auto
qed simp

lemma run_ops_fields:
  "m_datas (run_ops ops) uri = exact_of ops uri \<and> m_globs (run_ops ops) = globs_of ops \<and>
     m_default (run_ops ops) = Some (NotFoundServlet ''sylar/1.0'')"
proof (induction ops rule: rev_induct)
  case Nil
  then show ?case by (simp add: new_ServletDispatch_def)
next
  case (snoc op ops)
  then show ?case
    using glob_erase_filter [OF globs_of_distinct, of _ ops]
    by (cases op) (auto simp: exact_of_snoc globs_of_snoc addServletCreator_def delServlet_def
        addGlobServletCreator_def delGlobServlet_def intro!: filter_cong)
qed

text \<open>
  C22: After any sequence of additions and removals, a path is served by the servlet last added for it, if it was
  not removed since; otherwise by that of the first pattern that matches, in the order in which the patterns
  were last added; otherwise by the default servlet.
\<close>

theorem servlet_dispatch_exact:
  "getMatchedServlet fnmatch uri (run_ops ops) =
     (case exact_of ops uri of
        Some creator \<Rightarrow> creator
      | None \<Rightarrow> (case find (\<lambda>it. fnmatch (c_str (fst it)) (c_str uri) = 0) (globs_of ops) of
          Some it \<Rightarrow> snd it
        | None \<Rightarrow> Some (NotFoundServlet ''sylar/1.0'')))"
  using run_ops_fields [of ops uri] by (simp add: getMatchedServlet_def split: option.splits)

section \<open>Serving a connection\<close>

text \<open>Requests that arrive one after the other: each is what a new parser makes of the next bytes of the stream.\<close>

fun request_stream :: "u32 \<Rightarrow> string \<Rightarrow> HttpRequest list \<Rightarrow> string \<Rightarrow> bool" where
  "request_stream mx inp [] rest \<longleftrightarrow> inp = rest"
| "request_stream mx inp (req # reqs) rest \<longleftrightarrow>
     (\<exists>chunks P' inp'. inp = concat chunks @ inp' \<and> feed mx new_HttpRequestParser chunks = Some P' \<and> isFinished P' \<and>
        req = rq_init (m_data (data P')) \<and> request_stream mx inp' reqs rest)"

lemma sendResponse_spec:
  assumes "open_stream S s" "length (rs_dump rsp) < 2 ^ 31"
  shows "\<exists>s'. open_stream (snd (sendResponse rsp S)) s' \<and> incoming s' = incoming s \<and>
    sent s' = sent s @ take (capacity (accepts s)) (rs_dump rsp)"
  using write_loop_spec [OF assms(1), of "int (length (rs_dump rsp))" "rs_dump rsp"] assms(2)
  by (auto simp: sendResponse_def writeFixSize_def to_int64_small split: option.splits)

text \<open>Receiving sends nothing.\<close>

lemma ss_read_sent: "ss_read n S = (len, b, S') \<Longrightarrow> m_socket S = Some s \<Longrightarrow> \<exists>s'. m_socket S' = Some s' \<and> sent s' = sent s"
  by (auto simp: ss_read_def Socket_recv_def sys_recv_def split: if_splits list.splits net_in.splits prod.splits)

lemma ss_close_sent: "m_socket S = Some s \<Longrightarrow> \<exists>s'. m_socket (ss_close S) = Some s' \<and> sent s' = sent s"
  by (auto simp: ss_close_def Socket_close_def)

lemma ss_close_closed: "m_socket S = Some s \<Longrightarrow> \<not> ss_isConnected (ss_close S)"
  by (auto simp: ss_close_def Socket_close_def ss_isConnected_def)

text \<open>Whatever the rest of the loop is, one round of it sends nothing.\<close>

lemma recv_round_sent:
  assumes rest: "\<And>mx bs P kept S y s. recv mx bs P kept S = Some y \<Longrightarrow> m_socket S = Some s \<Longrightarrow>
      \<exists>s'. m_socket (snd y) = Some s' \<and> sent s' = sent s"
    and res: "(case ss_read (bs - length kept) S of (len, b, S) \<Rightarrow>
        if len \<le> 0 then Some (None, ss_close S)
        else let dat = kept @ b in
          (case request_execute mx P dat of
             None \<Rightarrow> None
           | Some (nparse, buf, P) \<Rightarrow>
               if hasError P then Some (None, ss_close S)
               else let offset = length dat - nparse in
                 if int offset = to_int (int bs) then Some (None, ss_close S)
                 else if isFinished P then Some (Some (rq_init (m_data (data P))), S)
                 else recv mx bs P (take offset buf) S)) = Some y"
    and sock: "m_socket S = Some s"
  shows "\<exists>s'. m_socket (snd y) = Some s' \<and> sent s' = sent s"
proof -
  obtain len b S1 where rd: "ss_read (bs - length kept) S = (len, b, S1)"
    by (cases "ss_read (bs - length kept) S") auto
  obtain s1 where s1: "m_socket S1 = Some s1" "sent s1 = sent s"
    using ss_read_sent [OF rd sock] by blast
  have closed: ?thesis if "y = (None, ss_close S1)"
    using that s1 ss_close_sent [OF s1(1)] by auto
  show ?thesis
  proof (cases "len \<le> 0")
    case True
    with res rd show ?thesis by (intro closed) simp
  next
    case False
    then obtain nparse buf P1 where ex: "request_execute mx P (kept @ b) = Some (nparse, buf, P1)"
      using res rd by (auto simp: Let_def split: option.splits)
    define offset where "offset = length (kept @ b) - nparse"
    have y: "Some y = (if hasError P1 \<or> int offset = to_int (int bs) then Some (None, ss_close S1)
        else if isFinished P1 then Some (Some (rq_init (m_data (data P1))), S1)
        else recv mx bs P1 (take offset buf) S1)"
      using res rd False ex by (simp add: Let_def offset_def split: if_splits)
    then consider "y = (None, ss_close S1)" | "snd y = S1" | "recv mx bs P1 (take offset buf) S1 = Some y"
      by (auto split: if_splits)
    then show ?thesis
      using closed s1 rest [of mx bs P1 "take offset buf" S1 y s1] by cases auto
  qed
qed

lemma recv_loop_sent:
  assumes "recv_request_loop mx bs P kept S = Some y" "m_socket S = Some s"
  shows "\<exists>s'. m_socket (snd y) = Some s' \<and> sent s' = sent s"
proof -
  have "\<forall>s. m_socket (snd ((((mx, bs), P), kept), S)) = Some s \<longrightarrow> (\<exists>s'. m_socket (snd y) = Some s' \<and> sent s' = sent s)"
  proof (rule recv_request_loop.raw_induct [OF _ assms(1)], intro allI impI, goal_cases)
    case (1 recv mx bs P kept S y s)
    show ?case
      by (rule recv_round_sent [where recv = recv, OF _ 1(2)]) (use 1(1,3) in auto)
  qed
  with assms(2) show ?thesis by simp
qed

lemma received_shorter:
  assumes "received mx bs new_HttpRequestParser s req S'"
  obtains s' chunks P' where "open_stream S' s'" "available (incoming s) = concat chunks @ available (incoming s')"
    "feed mx new_HttpRequestParser chunks = Some P'" "isFinished P'" "req = rq_init (m_data (data P'))"
    "length (available (incoming s')) < length (available (incoming s))"
proof -
  obtain chunks P' s' where r: "open_stream S' s'" "\<forall>c\<in>set chunks. c \<noteq> [] \<and> length c \<le> bs"
    "available (incoming s) = concat chunks @ available (incoming s')" "feed mx new_HttpRequestParser chunks = Some P'"
    "isFinished P'" "req = rq_init (m_data (data P'))"
    using assms unfolding received_def by blast
  have "chunks \<noteq> []"
    using r(4,5) by (auto simp: new_HttpRequestParser_def object_defs http_parser_init_def)
  then have "concat chunks \<noteq> []" using r(2) by (cases chunks) auto
  with r show thesis by (intro that) auto
qed

text \<open>The answer for a path without a servlet is short.\<close>

lemma version_str_short: "length (version_str v) \<le> 7"
proof -
  have "length (dec_str n) \<le> 3" if "n < 256" for n
    using that by (subst dec_str.simps, subst dec_str.simps, subst dec_str.simps) auto
  from this [of "unat (drop_bit 4 v)"] this [of "unat (v AND 0x0F)"] show ?thesis
    using unsigned_less [where 'a = nat, of "drop_bit 4 v"] unsigned_less [where 'a = nat, of "v AND 0x0F"] by (simp add: version_str_def)
qed

lemma not_found_headers:
  "CaseInsensitiveLess ''Server'' ''Content-Type'' = False" "CaseInsensitiveLess ''Content-Type'' ''Server'' = True"
  "CaseInsensitiveLess ''Server'' ''Server'' = False"
  by code_simp+

lemma not_found_short:
  "\<forall>req. length (rs_dump (respond (\<lambda>_ _. 1) (new_HttpServer True ''sylar'') req)) < 2 ^ 31"
proof
  fix req :: HttpRequest
  have parts: "length (header_line (''Content-Type'', ''text/html'')) = 25" "length (header_line (''Server'', ''sylar/1.0.0'')) = 21"
    "length (dec_str 404) = 3" "length (HttpStatusToString 404) = 9"
    "length (body_part (NotFoundServlet_content ''sylar/1.0'')) < 1000" "length (connection_line (rq_close req)) < 1000"
    by (code_simp+, simp add: connection_line_def)
  have "strcasecmp ''Content-Type'' ''connection'' \<noteq> 0" "strcasecmp ''Server'' ''connection'' \<noteq> 0"
    by code_simp+
  then show "length (rs_dump (respond (\<lambda>_ _. 1) (new_HttpServer True ''sylar'') req)) < 2 ^ 31"
    using parts version_str_short [of "rq_version req"]
    by (simp add: respond_def dispatch_handle_def getMatchedServlet_def new_HttpServer_def new_ServletDispatch_def
        NotFoundServlet_def new_HttpResponse_def rs_dump_def rs_setHeader_def not_found_headers)
qed



end
