(* ===== verification/Byte_Array.thy ===== *)
theory Byte_Array
  imports Prelude
begin

text \<open>
  \<open>bytearray.h\<close>, \<open>bytearray.cc\<close> and \<open>endian.h\<close>: a buffer of equally large blocks with a cursor.

  The linked list of nodes is the list \<open>m_nodes\<close> of their memory, and the pointer \<open>m_cur\<close> is the
  index of a node; the length of the list is the null pointer. An operation is a function of the
  object that returns a value or an error, and the object as it is afterwards: an exception leaves
  behind what was changed before it was thrown. The errors \<open>Null_deref\<close>, \<open>Div_zero\<close> and \<open>Overrun\<close> stand
  for undefined behaviour. What the allocator leaves in a new node is the field \<open>m_fresh\<close>, by
  position. Sizes are natural numbers: memory of \<open>2 ^ 64\<close> bytes cannot be allocated, so that only the
  subtraction of a position given from outside (\<open>size_sub\<close>) can wrap.
\<close>

section \<open>Objects and operations that may fail\<close>

datatype endian = SYLAR_LITTLE_ENDIAN | SYLAR_BIG_ENDIAN

record ByteArray =
  m_baseSize :: nat
  m_position :: nat
  m_capacity :: nat
  m_size :: nat
  m_endian :: endian
  m_nodes :: "string list"
  m_cur :: nat
  m_fresh :: "nat \<Rightarrow> char"

datatype ba_error = Out_of_range | Bad_alloc | Null_deref | Div_zero | Overrun | Bad_length

type_synonym 'a ba = "ByteArray \<Rightarrow> (ba_error + 'a) \<times> ByteArray"

definition ba_return :: "'a \<Rightarrow> 'a ba" where
  "ba_return x b = (Inr x, b)"

definition ba_throw :: "ba_error \<Rightarrow> 'a ba" where
  "ba_throw e b = (Inl e, b)"

definition ba_bind :: "'a ba \<Rightarrow> ('a \<Rightarrow> 'c ba) \<Rightarrow> 'c ba" where
  "ba_bind f g b = (case f b of (Inl e, b') \<Rightarrow> (Inl e, b') | (Inr x, b') \<Rightarrow> g x b')"

definition Node :: "(nat \<Rightarrow> char) \<Rightarrow> nat \<Rightarrow> nat \<Rightarrow> string" where
  "Node fresh start s = map (\<lambda>i. fresh (start + i)) [0..<s]"

definition new_ByteArray :: "(nat \<Rightarrow> char) \<Rightarrow> nat \<Rightarrow> ByteArray" where
  "new_ByteArray fresh base_size =
     \<lparr>m_baseSize = base_size, m_position = 0, m_capacity = base_size, m_size = 0, m_endian = SYLAR_BIG_ENDIAN,
      m_nodes = [Node fresh 0 base_size], m_cur = 0, m_fresh = fresh\<rparr>"

definition isLittleEndian :: "ByteArray \<Rightarrow> bool" where
  "isLittleEndian b \<longleftrightarrow> m_endian b = SYLAR_LITTLE_ENDIAN"

definition setIsLittleEndian :: "bool \<Rightarrow> ByteArray \<Rightarrow> ByteArray" where
  "setIsLittleEndian val b = b\<lparr>m_endian := (if val then SYLAR_LITTLE_ENDIAN else SYLAR_BIG_ENDIAN)\<rparr>"

definition getReadSize :: "ByteArray \<Rightarrow> nat" where
  "getReadSize b = m_size b - m_position b"

definition getCapacity :: "ByteArray \<Rightarrow> nat" where
  "getCapacity b = m_capacity b - m_position b"

definition clear :: "ByteArray \<Rightarrow> ByteArray" where
  "clear b = b\<lparr>m_position := 0, m_size := 0, m_capacity := m_baseSize b, m_cur := 0, m_nodes := take 1 (m_nodes b)\<rparr>"

section \<open>Reading and writing bytes\<close>

text \<open>\<open>ceil(1.0 * size / m_baseSize)\<close>, exact for the sizes that can be allocated.\<close>

definition node_count :: "nat \<Rightarrow> nat \<Rightarrow> nat" where
  "node_count sz base = (sz + base - 1) div base"

definition new_nodes :: "ByteArray \<Rightarrow> nat \<Rightarrow> string list" where
  "new_nodes b count =
     map (\<lambda>i. Node (m_fresh b) (m_capacity b + i * m_baseSize b) (m_baseSize b)) [0..<count]"

definition addCapacity :: "nat \<Rightarrow> unit ba" where
  "addCapacity sz b =
     (let old_cap = getCapacity b in
      if sz = 0 \<or> old_cap \<ge> sz then ba_return () b
      else if m_baseSize b = 0 then ba_throw Div_zero b
      else
        let count = node_count (sz - old_cap) (m_baseSize b)
        in ba_return ()
            (b\<lparr>m_nodes := m_nodes b @ new_nodes b count, m_capacity := m_capacity b + count * m_baseSize b,
               m_cur := (if old_cap = 0 then length (m_nodes b) else m_cur b)\<rparr>))"

text \<open>The first lines of the functions that read and write: \<open>npos\<close>, and the access to \<open>m_cur->size\<close>.\<close>

definition node_offset :: "nat \<Rightarrow> nat \<Rightarrow> ByteArray \<Rightarrow> ba_error + nat" where
  "node_offset position cur b =
     (if m_baseSize b = 0 then Inl Div_zero
      else if length (m_nodes b) \<le> cur then Inl Null_deref
      else Inr (position mod m_baseSize b))"

definition memcpy_to :: "nat \<Rightarrow> string \<Rightarrow> string \<Rightarrow> string" where
  "memcpy_to npos buf p = take npos p @ buf @ drop (npos + length buf) p"

function ba_write_loop :: "nat \<Rightarrow> nat \<Rightarrow> nat \<Rightarrow> string \<Rightarrow> string list \<Rightarrow> ba_error + (nat \<times> nat \<times> string list)" where
  "ba_write_loop cur npos position buf nodes =
     (let node = nodes ! cur; ncap = length node - npos in
      if buf = [] then Inr (cur, position, nodes)
      else if ncap \<ge> length buf then
        Inr (if length node = npos + length buf then cur + 1 else cur, position + length buf,
             nodes[cur := memcpy_to npos buf node])
      else if cur + 1 < length nodes then
        ba_write_loop (cur + 1) 0 (position + ncap) (drop ncap buf) (nodes[cur := memcpy_to npos (take ncap buf) node])
      else Inl Null_deref)"
  by pat_completeness auto
termination
  by (relation "measure (\<lambda>(cur, npos, position, buf, nodes). length nodes - cur)") auto

definition ba_write :: "string \<Rightarrow> unit ba" where
  "ba_write buf =
     (if buf = [] then ba_return ()
      else ba_bind (addCapacity (length buf)) (\<lambda>_ b.
        case node_offset (m_position b) (m_cur b) b of
          Inl e \<Rightarrow> ba_throw e b
        | Inr npos \<Rightarrow>
            case ba_write_loop (m_cur b) npos (m_position b) buf (m_nodes b) of
              Inl e \<Rightarrow> ba_throw e b
            | Inr (cur, position, nodes) \<Rightarrow>
                ba_return ()
                  (b\<lparr>m_cur := cur, m_position := position, m_nodes := nodes,
                     m_size := (if position > m_size b then position else m_size b)\<rparr>)))"

function ba_read_loop :: "nat \<Rightarrow> nat \<Rightarrow> nat \<Rightarrow> nat \<Rightarrow> string list \<Rightarrow> ba_error + (string \<times> nat \<times> nat)" where
  "ba_read_loop cur npos position sz nodes =
     (let node = nodes ! cur; ncap = length node - npos in
      if sz = 0 then Inr ([], cur, position)
      else if ncap \<ge> sz then
        Inr (take sz (drop npos node), if length node = npos + sz then cur + 1 else cur, position + sz)
      else if cur + 1 < length nodes then
        (case ba_read_loop (cur + 1) 0 (position + ncap) (sz - ncap) nodes of
           Inl e \<Rightarrow> Inl e
         | Inr (buf, r) \<Rightarrow> Inr (take ncap (drop npos node) @ buf, r))
      else Inl Null_deref)"
  by pat_completeness auto
termination
  by (relation "measure (\<lambda>(cur, npos, position, sz, nodes). length nodes - cur)") auto

definition ba_read :: "nat \<Rightarrow> string ba" where
  "ba_read sz b =
     (if sz > getReadSize b then ba_throw Out_of_range b
      else case node_offset (m_position b) (m_cur b) b of
        Inl e \<Rightarrow> ba_throw e b
      | Inr npos \<Rightarrow>
          case ba_read_loop (m_cur b) npos (m_position b) sz (m_nodes b) of
            Inl e \<Rightarrow> ba_throw e b
          | Inr (buf, cur, position) \<Rightarrow> ba_return buf (b\<lparr>m_cur := cur, m_position := position\<rparr>))"

text \<open>A difference of two values of type \<open>size_t\<close>.\<close>

definition size_sub :: "nat \<Rightarrow> nat \<Rightarrow> nat" where
  "size_sub x y = (if y \<le> x then x - y else x + 2 ^ 64 - y)"

definition ba_read_at :: "nat \<Rightarrow> nat \<Rightarrow> ByteArray \<Rightarrow> ba_error + string" where
  "ba_read_at sz position b =
     (if sz > size_sub (m_size b) position then Inl Out_of_range
      else case node_offset position (m_cur b) b of
        Inl e \<Rightarrow> Inl e
      | Inr npos \<Rightarrow> map_sum id fst (ba_read_loop (m_cur b) npos position sz (m_nodes b)))"

function position_loop :: "nat \<Rightarrow> nat \<Rightarrow> string list \<Rightarrow> nat \<times> nat" where
  "position_loop v cur nodes =
     (if cur < length nodes \<and> v > length (nodes ! cur)
      then position_loop (v - length (nodes ! cur)) (cur + 1) nodes else (v, cur))"
  by pat_completeness auto
termination
  by (relation "measure (\<lambda>(v, cur, nodes). length nodes - cur)") auto

definition setPosition :: "nat \<Rightarrow> unit ba" where
  "setPosition v b =
     (if v > m_capacity b then ba_throw Out_of_range b
      else
        let b' = b\<lparr>m_position := v, m_size := (if v > m_size b then v else m_size b)\<rparr>
        in case position_loop v 0 (m_nodes b) of
             (v, cur) \<Rightarrow>
               if cur \<ge> length (m_nodes b) then ba_throw Null_deref b'
               else ba_return () (b'\<lparr>m_cur := (if v = length (m_nodes b ! cur) then cur + 1 else cur)\<rparr>))"

section \<open>Strings and files\<close>

definition toString :: "ByteArray \<Rightarrow> ba_error + string" where
  "toString b = (if getReadSize b = 0 then Inr [] else ba_read_at (getReadSize b) (m_position b) b)"

definition hex_digit :: "nat \<Rightarrow> char" where
  "hex_digit n = ''0123456789abcdef'' ! n"

definition hex_line :: "string \<Rightarrow> nat \<Rightarrow> string" where
  "hex_line str i =
     (if i > 0 \<and> i mod 32 = 0 then [LF] else []) @
     [hex_digit (ord (str ! i) div 16), hex_digit (ord (str ! i) mod 16), CHR '' '']"

definition toHexString :: "ByteArray \<Rightarrow> ba_error + string" where
  "toHexString b = map_sum id (\<lambda>str. concat (map (hex_line str) [0..<length str])) (toString b)"

text \<open>The loop of \<open>writeToFile\<close> with the signed \<open>len\<close>; the result is what has been written. A file that
  cannot be opened gives \<open>None\<close>.\<close>

function file_loop :: "nat \<Rightarrow> int \<Rightarrow> int \<Rightarrow> nat \<Rightarrow> string list \<Rightarrow> ba_error + string" where
  "file_loop base read_size pos cur nodes =
     (if read_size \<le> 0 then Inr []
      else if base = 0 then Inl Div_zero
      else if length nodes \<le> cur then Inl Null_deref
      else
        let diff = pos mod int base;
            len = (if read_size > int base then int base else read_size) - diff
        in if len < 0 then Inl Bad_length
           else case file_loop base (read_size - len) (pos + len) (cur + 1) nodes of
             Inl e \<Rightarrow> Inl e
           | Inr s \<Rightarrow> Inr (take (nat len) (drop (nat diff) (nodes ! cur)) @ s))"
  by pat_completeness auto
termination
  by (relation "measure (\<lambda>(base, read_size, pos, cur, nodes). length nodes - cur)") auto

definition writeToFile :: "bool \<Rightarrow> ByteArray \<Rightarrow> ba_error + string option" where
  "writeToFile opens b =
     (if \<not> opens then Inr None
      else map_sum id Some (file_loop (m_baseSize b) (int (getReadSize b)) (int (m_position b)) (m_cur b) (m_nodes b)))"

text \<open>\<open>ifs.read\<close> of \<open>m_baseSize\<close> bytes sets \<open>eof\<close> when fewer are left. With a block size of 0 the loop
  would not end.\<close>

function read_file_loop :: "nat \<Rightarrow> string \<Rightarrow> unit ba" where
  "read_file_loop base cont =
     (if base = 0 then ba_throw Div_zero
      else ba_bind (ba_write (take base cont)) (\<lambda>_.
        if length cont < base then ba_return () else read_file_loop base (drop base cont)))"
  by pat_completeness auto
termination
  by (relation "measure (\<lambda>(base, cont). length cont)") auto

definition readFromFile :: "string option \<Rightarrow> bool ba" where
  "readFromFile file b =
     (case file of
        None \<Rightarrow> ba_return False b
      | Some content \<Rightarrow> ba_bind (read_file_loop (m_baseSize b) content) (\<lambda>_. ba_return True) b)"

section \<open>Scatter and gather buffers\<close>

text \<open>An \<open>iovec\<close>: the index of the node, the offset in its memory and the length.\<close>

type_synonym iovec = "nat \<times> nat \<times> nat"

function iovec_loop :: "nat \<Rightarrow> nat \<Rightarrow> nat \<Rightarrow> string list \<Rightarrow> ba_error + iovec list" where
  "iovec_loop cur npos len nodes =
     (let ncap = length (nodes ! cur) - npos in
      if len = 0 then Inr []
      else if ncap \<ge> len then Inr [(cur, npos, len)]
      else if cur + 1 < length nodes then
        map_sum id (\<lambda>r. (cur, npos, ncap) # r) (iovec_loop (cur + 1) 0 (len - ncap) nodes)
      else Inl Null_deref)"
  by pat_completeness auto
termination
  by (relation "measure (\<lambda>(cur, npos, len, nodes). length nodes - cur)") auto

definition iovecs :: "nat \<Rightarrow> nat \<Rightarrow> nat \<Rightarrow> ByteArray \<Rightarrow> ba_error + iovec list" where
  "iovecs len position cur b =
     (case node_offset position cur b of Inl e \<Rightarrow> Inl e | Inr npos \<Rightarrow> iovec_loop cur npos len (m_nodes b))"

definition getReadBuffers :: "nat \<Rightarrow> ByteArray \<Rightarrow> ba_error + (nat \<times> iovec list)" where
  "getReadBuffers len b =
     (let len = (if len > getReadSize b then getReadSize b else len) in
      if len = 0 then Inr (0, []) else map_sum id (Pair len) (iovecs len (m_position b) (m_cur b) b))"

definition getReadBuffers_at :: "nat \<Rightarrow> nat \<Rightarrow> ByteArray \<Rightarrow> ba_error + (nat \<times> iovec list)" where
  "getReadBuffers_at len position b =
     (let len = (if len > getReadSize b then getReadSize b else len) in
      if len = 0 then Inr (0, [])
      else if m_baseSize b = 0 then Inl Div_zero
      else map_sum id (Pair len) (iovecs len position (position div m_baseSize b) b))"

definition getWriteBuffers :: "nat \<Rightarrow> (nat \<times> iovec list) ba" where
  "getWriteBuffers len =
     (if len = 0 then ba_return (0, [])
      else ba_bind (addCapacity len) (\<lambda>_ b.
        case iovecs len (m_position b) (m_cur b) b of
          Inl e \<Rightarrow> ba_throw e b
        | Inr r \<Rightarrow> ba_return (len, r) b))"

lemmas loop_simps = ba_write_loop.simps ba_read_loop.simps position_loop.simps file_loop.simps read_file_loop.simps iovec_loop.simps
declare loop_simps [simp del]

section \<open>Flat memory\<close>

definition nodes_ok :: "nat \<Rightarrow> string list \<Rightarrow> bool" where
  "nodes_ok base nodes \<longleftrightarrow> (\<forall>n\<in>set nodes. length n = base)"

lemma length_concat_nodes: "nodes_ok base nodes \<Longrightarrow> length (concat nodes) = base * length nodes"
  by (induction nodes) (auto simp: nodes_ok_def)

lemma nodes_split:
  assumes "nodes_ok base nodes" and "cur < length nodes"
  obtains pre post where "nodes = pre @ nodes ! cur # post" and "length pre = cur"
    and "length (concat pre) = base * cur" and "length (nodes ! cur) = base"
proof
  show "nodes = take cur nodes @ nodes ! cur # drop (Suc cur) nodes" and "length (take cur nodes) = cur"
    using assms(2) by (simp_all add: id_take_nth_drop)
  have "nodes_ok base (take cur nodes)"
    using assms(1) by (auto simp: nodes_ok_def dest: in_set_takeD)
  then show "length (concat (take cur nodes)) = base * cur"
    using assms(2) by (simp add: length_concat_nodes)
  show "length (nodes ! cur) = base"
    using assms by (simp add: nodes_ok_def)
qed

lemma length_memcpy [simp]: "npos + length buf \<le> length p \<Longrightarrow> length (memcpy_to npos buf p) = length p"
  by (simp add: memcpy_to_def)

lemma memcpy_append:
  assumes "npos + length x + length y \<le> length p"
  shows "memcpy_to (npos + length x) y (memcpy_to npos x p) = memcpy_to npos (x @ y) p"
  using assms by (auto simp: memcpy_to_def ac_simps)

lemma memcpy_node:
  assumes "nodes_ok base nodes" and "cur < length nodes" and "npos + length buf \<le> base"
  shows "concat (nodes[cur := memcpy_to npos buf (nodes ! cur)]) = memcpy_to (base * cur + npos) buf (concat nodes)"
    and "nodes_ok base (nodes[cur := memcpy_to npos buf (nodes ! cur)])"
proof -
  obtain pre post where s: "nodes = pre @ nodes ! cur # post" "length pre = cur"
    "length (concat pre) = base * cur" "length (nodes ! cur) = base"
    using nodes_split [OF assms(1,2)] .
  have "nodes[cur := memcpy_to npos buf (nodes ! cur)] = pre @ memcpy_to npos buf (nodes ! cur) # post"
    by (metis s(1,2) list_update_length)
  moreover have "concat nodes = concat pre @ nodes ! cur @ concat post"
    by (metis s(1) concat.simps(2) concat_append)
  ultimately show "concat (nodes[cur := memcpy_to npos buf (nodes ! cur)]) = memcpy_to (base * cur + npos) buf (concat nodes)"
    using s(3,4) assms(3) by (simp add: memcpy_to_def)
  show "nodes_ok base (nodes[cur := memcpy_to npos buf (nodes ! cur)])"
    using assms s(4) by (auto simp: nodes_ok_def dest!: set_update_subset_insert [THEN subsetD])
qed

lemma take_node:
  assumes "nodes_ok base nodes" and "cur < length nodes" and "npos + n \<le> base"
  shows "take n (drop npos (nodes ! cur)) = take n (drop (base * cur + npos) (concat nodes))"
proof -
  obtain pre post where s: "nodes = pre @ nodes ! cur # post" "length (concat pre) = base * cur" "length (nodes ! cur) = base"
    using nodes_split [OF assms(1,2)] .
  have "concat nodes = concat pre @ nodes ! cur @ concat post"
    by (metis s(1) concat.simps(2) concat_append)
  then show ?thesis
    using s(2,3) assms(3) by simp
qed

text \<open>The node after \<open>n\<close> bytes from offset \<open>npos\<close> of the node \<open>cur\<close>.\<close>

lemma node_after:
  assumes "npos < base" and "npos + n \<le> (base :: nat)"
  shows "(base * cur + npos + n) div base = (if base = npos + n then cur + 1 else cur)"
  using assms by (auto simp: add.assoc)

lemma ba_write_loop_flat:
  assumes "nodes_ok base nodes" and "cur < length nodes" and "npos < base" and "buf \<noteq> []"
    and "base * cur + npos + length buf \<le> base * length nodes"
  shows "\<exists>nodes'. ba_write_loop cur npos position buf nodes =
      Inr ((base * cur + npos + length buf) div base, position + length buf, nodes') \<and>
    concat nodes' = memcpy_to (base * cur + npos) buf (concat nodes) \<and> nodes_ok base nodes' \<and> length nodes' = length nodes"
  using assms
proof (induction cur npos position buf nodes rule: ba_write_loop.induct)
  case (1 cur npos position buf nodes)
  have len: "length (nodes ! cur) = base"
    using 1(2,3) by (simp add: nodes_ok_def)
  show ?case
  proof (cases "base - npos \<ge> length buf")
    case True
    then have "npos + length buf \<le> base"
      using 1(4) by simp
    with 1 True show ?thesis
      using memcpy_node [of base nodes cur npos buf] node_after [of npos base "length buf" cur]
      by (subst ba_write_loop.simps) (auto simp: len Let_def)
  next
    case False
    let ?n = "base - npos" and ?k = "take (base - npos) buf"
    let ?nodes = "nodes[cur := memcpy_to npos ?k (nodes ! cur)]"
    have k: "length ?k = ?n" "npos + length ?k = base"
      using False 1(4) by simp_all
    note m = memcpy_node [OF 1(2,3), of npos ?k]
    have "base * (cur + 1) < base * length nodes"
      using 1(6) False 1(4) by simp
    then have more: "cur + 1 < length nodes"
      by (simp only: mult_less_cancel1)
    have "\<exists>nodes'. ba_write_loop (cur + 1) 0 (position + ?n) (drop ?n buf) ?nodes =
        Inr ((base * (cur + 1) + 0 + length (drop ?n buf)) div base, position + ?n + length (drop ?n buf), nodes') \<and>
      concat nodes' = memcpy_to (base * (cur + 1) + 0) (drop ?n buf) (concat ?nodes) \<and> nodes_ok base nodes' \<and> length nodes' = length ?nodes"
      by (rule 1(1) [OF refl refl, unfolded len]) (use 1 False more k m in \<open>auto simp: len\<close>)
    moreover have "memcpy_to (base * (cur + 1) + 0) (drop ?n buf) (concat ?nodes) = memcpy_to (base * cur + npos) buf (concat nodes)"
      using memcpy_append [of "base * cur + npos" ?k "drop ?n buf" "concat nodes"] m(1) k 1(2,6)
      by (simp add: length_concat_nodes algebra_simps)
    moreover have "ba_write_loop cur npos position buf nodes = ba_write_loop (cur + 1) 0 (position + ?n) (drop ?n buf) ?nodes"
      using False 1(5) more by (subst ba_write_loop.simps) (simp add: len Let_def)
    moreover have "base * (cur + 1) + 0 + length (drop ?n buf) = base * cur + npos + length buf"
      "position + ?n + length (drop ?n buf) = position + length buf"
      using False 1(4) by auto
    ultimately show ?thesis
      by (simp only: length_list_update)
  qed
qed

lemma ba_read_loop_flat:
  assumes "nodes_ok base nodes" and "cur < length nodes" and "npos < base" and "base * cur + npos + n \<le> base * length nodes"
  shows "ba_read_loop cur npos position n nodes =
    Inr (take n (drop (base * cur + npos) (concat nodes)), (base * cur + npos + n) div base, position + n)"
  using assms
proof (induction cur npos position n nodes rule: ba_read_loop.induct)
  case (1 cur npos position n nodes)
  have len: "length (nodes ! cur) = base"
    using 1(2,3) by (simp add: nodes_ok_def)
  show ?case
  proof (cases "base - npos \<ge> n")
    case True
    then have "npos + n \<le> base"
      using 1(4) by simp
    with 1 True show ?thesis
      using take_node [of base nodes cur npos n] node_after [of npos base n cur]
      by (subst ba_read_loop.simps) (auto simp: len Let_def)
  next
    case False
    let ?n = "base - npos"
    have "base * (cur + 1) < base * length nodes"
      using 1(5) False 1(4) by simp
    then have more: "cur + 1 < length nodes"
      by (simp only: mult_less_cancel1)
    have "ba_read_loop (cur + 1) 0 (position + ?n) (n - ?n) nodes =
        Inr (take (n - ?n) (drop (base * (cur + 1) + 0) (concat nodes)), (base * (cur + 1) + 0 + (n - ?n)) div base,
          position + ?n + (n - ?n))"
      by (rule 1(1) [OF refl refl, unfolded len]) (use 1 False more in \<open>auto simp: len\<close>)
    then have "ba_read_loop cur npos position n nodes =
        Inr (take ?n (drop npos (nodes ! cur)) @ take (n - ?n) (drop (base * (cur + 1) + 0) (concat nodes)),
          (base * (cur + 1) + 0 + (n - ?n)) div base, position + ?n + (n - ?n))"
      using False more by (subst ba_read_loop.simps) (simp add: len Let_def)
    also have "take ?n (drop npos (nodes ! cur)) @ take (n - ?n) (drop (base * (cur + 1) + 0) (concat nodes)) =
        take n (drop (base * cur + npos) (concat nodes))"
      using take_node [OF 1(2,3), of npos ?n] 1(4) False take_add [of ?n "n - ?n" "drop (base * cur + npos) (concat nodes)"]
      by (simp add: algebra_simps)
    also have "base * (cur + 1) + 0 + (n - ?n) = base * cur + npos + n"
    proof -
      have "base + (n - ?n) = npos + n"
        using False 1(4) by linarith
      then show ?thesis
        by (simp only: distrib_left mult_1_right add_0_right add.assoc)
    qed
    also have "position + ?n + (n - ?n) = position + n"
      using False by simp
    finally show ?thesis .
  qed
qed

lemma iovec_loop_flat:
  assumes "nodes_ok base nodes" and "cur < length nodes" and "npos < base" and "base * cur + npos + n \<le> base * length nodes"
  shows "\<exists>iovs. iovec_loop cur npos n nodes = Inr iovs \<and>
    concat (map (\<lambda>(i, p, l). [base * i + p..<base * i + p + l]) iovs) = [base * cur + npos..<base * cur + npos + n] \<and>
    (\<forall>(i, p, l)\<in>set iovs. i < length nodes \<and> p + l \<le> base)"
  using assms
proof (induction cur npos n nodes rule: iovec_loop.induct)
  case (1 cur npos n nodes)
  have len: "length (nodes ! cur) = base"
    using 1(2,3) by (simp add: nodes_ok_def)
  show ?case
  proof (cases "base - npos \<ge> n")
    case True
    with 1 show ?thesis
      by (subst iovec_loop.simps) (auto simp: len Let_def)
  next
    case False
    let ?n = "base - npos"
    have "base * (cur + 1) < base * length nodes"
      using 1(5) False 1(4) by simp
    then have more: "cur + 1 < length nodes"
      by (simp only: mult_less_cancel1)
    have "\<exists>iovs. iovec_loop (cur + 1) 0 (n - ?n) nodes = Inr iovs \<and>
        concat (map (\<lambda>(i, p, l). [base * i + p..<base * i + p + l]) iovs) =
          [base * (cur + 1) + 0..<base * (cur + 1) + 0 + (n - ?n)] \<and>
        (\<forall>(i, p, l)\<in>set iovs. i < length nodes \<and> p + l \<le> base)"
      by (rule 1(1) [OF refl, unfolded len]) (use 1 False more in \<open>auto simp: len\<close>)
    then obtain iovs where iovs: "iovec_loop (cur + 1) 0 (n - ?n) nodes = Inr iovs"
      "concat (map (\<lambda>(i, p, l). [base * i + p..<base * i + p + l]) iovs) =
        [base * (cur + 1) + 0..<base * (cur + 1) + 0 + (n - ?n)]"
      "\<forall>(i, p, l)\<in>set iovs. i < length nodes \<and> p + l \<le> base"
      by blast
    have "[base * cur + npos..<base * cur + npos + ?n] @ [base * (cur + 1) + 0..<base * (cur + 1) + 0 + (n - ?n)] =
        [base * cur + npos..<base * cur + npos + n]"
      using 1(4) False upt_add_eq_append [of "base * cur + npos" "base * cur + base" "n - ?n"] by (simp add: algebra_simps)
    then show ?thesis
      using False more iovs 1(3,4) by (subst iovec_loop.simps) (auto simp: len Let_def)
  qed
qed

section \<open>The abstract buffer\<close>

text \<open>What a byte array promises: a sequence of bytes and a position in it.\<close>

definition ba_ok :: "ByteArray \<Rightarrow> bool" where
  "ba_ok b \<longleftrightarrow> 0 < m_baseSize b \<and> nodes_ok (m_baseSize b) (m_nodes b) \<and> m_nodes b \<noteq> [] \<and>
     m_capacity b = m_baseSize b * length (m_nodes b) \<and> m_position b \<le> m_size b \<and> m_size b \<le> m_capacity b \<and>
     m_cur b = m_position b div m_baseSize b"

definition flat :: "ByteArray \<Rightarrow> string" where
  "flat b = concat (m_nodes b)"

definition bytes :: "ByteArray \<Rightarrow> string" where
  "bytes b = take (m_size b) (flat b)"

definition unread :: "ByteArray \<Rightarrow> string" where
  "unread b = drop (m_position b) (bytes b)"

lemma length_flat: "ba_ok b \<Longrightarrow> length (flat b) = m_capacity b"
  by (simp add: ba_ok_def flat_def length_concat_nodes)

lemma length_bytes: "ba_ok b \<Longrightarrow> length (bytes b) = m_size b"
  by (simp add: bytes_def length_flat) (simp add: ba_ok_def)

lemma length_unread: "ba_ok b \<Longrightarrow> length (unread b) = getReadSize b"
  by (simp add: unread_def length_bytes getReadSize_def)

lemma new_ByteArray_ok: "0 < base \<Longrightarrow> ba_ok (new_ByteArray fresh base)"
  by (simp add: ba_ok_def new_ByteArray_def nodes_ok_def Node_def)

lemma new_ByteArray_bytes: "bytes (new_ByteArray fresh base) = []"
  by (simp add: bytes_def new_ByteArray_def)

lemma new_ByteArray_position: "m_position (new_ByteArray fresh base) = 0"
  by (simp add: new_ByteArray_def)

lemma clear_ok: "ba_ok b \<Longrightarrow> ba_ok (clear b)"
  by (cases "m_nodes b") (auto simp: ba_ok_def clear_def nodes_ok_def)

lemma clear_bytes: "bytes (clear b) = []"
  by (simp add: bytes_def clear_def)

lemma setIsLittleEndian_ok: "ba_ok b \<Longrightarrow> ba_ok (setIsLittleEndian v b)"
  by (simp add: ba_ok_def setIsLittleEndian_def)

lemma node_count_enough: "0 < base \<Longrightarrow> n \<le> node_count n base * base"
proof -
  assume "0 < base"
  then have "n + base - 1 < (node_count n base + 1) * base"
    unfolding node_count_def by (metis Suc_eq_plus1 dividend_less_div_times mult.commute mult_Suc_right add.commute)
  with \<open>0 < base\<close> show ?thesis
    by simp
qed

text \<open>\<open>addCapacity\<close> makes room, and changes nothing that can be seen.\<close>

lemma addCapacity_ok:
  assumes "ba_ok b"
  shows "\<exists>b' add. addCapacity n b = (Inr (), b') \<and> ba_ok b' \<and> n \<le> getCapacity b' \<and> flat b' = flat b @ add \<and>
    m_position b' = m_position b \<and> m_size b' = m_size b \<and> m_endian b' = m_endian b \<and> m_baseSize b' = m_baseSize b \<and>
    m_capacity b \<le> m_capacity b'"
proof (cases "n = 0 \<or> getCapacity b \<ge> n")
  case True
  then show ?thesis
    using assms by (auto simp: addCapacity_def ba_return_def Let_def)
next
  case False
  let ?B = "m_baseSize b" and ?c = "node_count (n - getCapacity b) (m_baseSize b)"
  let ?b = "b\<lparr>m_nodes := m_nodes b @ new_nodes b ?c, m_capacity := m_capacity b + ?c * ?B,
               m_cur := (if getCapacity b = 0 then length (m_nodes b) else m_cur b)\<rparr>"
  have B: "0 < ?B"
    using assms by (simp add: ba_ok_def)
  have "addCapacity n b = (Inr (), ?b)"
    using False B by (simp add: addCapacity_def ba_return_def Let_def)
  moreover have "nodes_ok ?B (new_nodes b ?c)" "length (new_nodes b ?c) = ?c"
    by (auto simp: nodes_ok_def new_nodes_def Node_def)
  moreover have "length (m_nodes b) = m_position b div ?B" if "getCapacity b = 0"
  proof -
    have "m_position b = ?B * length (m_nodes b)"
      using that assms by (simp add: getCapacity_def ba_ok_def)
    then show ?thesis
      using B by simp
  qed
  moreover have "n \<le> getCapacity ?b"
    using node_count_enough [OF B, of "n - getCapacity b"] assms by (auto simp: getCapacity_def ba_ok_def)
  ultimately show ?thesis
    using assms
    by (intro exI [of _ ?b] exI [of _ "concat (new_nodes b ?c)"])
      (auto simp: ba_ok_def nodes_ok_def flat_def algebra_simps)
qed

lemma cur_node:
  assumes "ba_ok b" and "p < m_capacity b"
  shows "p div m_baseSize b < length (m_nodes b)" and "m_baseSize b * (p div m_baseSize b) + p mod m_baseSize b = p"
  using assms by (simp_all add: ba_ok_def div_less_iff_less_mult mult.commute)

lemma node_offset_ok:
  assumes "ba_ok b" and "p < m_capacity b"
  shows "node_offset p (p div m_baseSize b) b = Inr (p mod m_baseSize b)"
  using assms cur_node(1) [OF assms] by (simp add: node_offset_def ba_ok_def)

lemma node_offset_end: "ba_ok b \<Longrightarrow> m_position b = m_capacity b \<Longrightarrow> node_offset (m_position b) (m_cur b) b = Inl Null_deref"
  by (auto simp: node_offset_def ba_ok_def)

text \<open>The bytes after \<open>buf\<close> has been copied to position \<open>p\<close>, possibly beyond the end.\<close>

definition overwrite :: "nat \<Rightarrow> string \<Rightarrow> string \<Rightarrow> string" where
  "overwrite p buf xs = take p xs @ buf @ drop (p + length buf) xs"

lemma take_memcpy:
  assumes "p \<le> s" and "s \<le> length xs" and "p + length buf \<le> length (xs @ ys)"
  shows "take (max s (p + length buf)) (memcpy_to p buf (xs @ ys)) = overwrite p buf (take s xs)"
  using assms by (auto simp: memcpy_to_def overwrite_def max_def min_def drop_take)

lemma ba_write_ok:
  assumes "ba_ok b"
  shows "\<exists>b'. ba_write buf b = (Inr (), b') \<and> ba_ok b' \<and> bytes b' = overwrite (m_position b) buf (bytes b) \<and>
    m_position b' = m_position b + length buf \<and> m_endian b' = m_endian b \<and> m_baseSize b' = m_baseSize b"
proof (cases "buf = []")
  case True
  then show ?thesis
    using assms by (simp add: ba_write_def ba_return_def overwrite_def)
next
  case False
  let ?p = "m_position b" and ?B = "m_baseSize b"
  obtain b1 add where b1: "addCapacity (length buf) b = (Inr (), b1)" "ba_ok b1" "length buf \<le> getCapacity b1"
    "flat b1 = flat b @ add" "m_position b1 = ?p" "m_size b1 = m_size b" "m_endian b1 = m_endian b" "m_baseSize b1 = ?B"
    using addCapacity_ok [OF assms, of "length buf"] by blast
  have "0 < length buf"
    using False by simp
  with b1(3,5) have room: "?p + length buf \<le> m_capacity b1" "?p < m_capacity b1"
    unfolding getCapacity_def by linarith+
  have cur: "m_cur b1 = ?p div ?B" and B: "0 < ?B" and nodes: "nodes_ok ?B (m_nodes b1)"
    using b1 by (simp_all add: ba_ok_def)
  note c = cur_node [OF b1(2) room(2), unfolded b1(8)]
  obtain nodes' where w: "ba_write_loop (?p div ?B) (?p mod ?B) ?p buf (m_nodes b1) = Inr ((?p + length buf) div ?B, ?p + length buf, nodes')"
    "concat nodes' = memcpy_to ?p buf (flat b1)" "nodes_ok ?B nodes'" "length nodes' = length (m_nodes b1)"
    using ba_write_loop_flat [OF nodes c(1), of "?p mod ?B" buf ?p] B False c(2) room(1) b1(2,8)
    by (auto simp: ba_ok_def flat_def)
  let ?s = "max (m_size b) (?p + length buf)"
  let ?b = "b1\<lparr>m_cur := (?p + length buf) div ?B, m_position := ?p + length buf, m_nodes := nodes', m_size := ?s\<rparr>"
  have "ba_write buf b = (Inr (), ?b)"
    using False b1 cur node_offset_ok [OF b1(2) room(2)] w(1)
    by (auto simp: ba_write_def ba_bind_def ba_return_def max_def)
  moreover have "ba_ok ?b"
    using b1(2,5,6,8) w(3,4) room(1) by (auto simp: ba_ok_def)
  moreover have "bytes ?b = overwrite ?p buf (bytes b)"
    using take_memcpy [of ?p "m_size b" "flat b" buf add] assms b1 room(1) length_flat [OF b1(2)] length_flat [OF assms] w(2)
    by (simp add: bytes_def flat_def ba_ok_def)
  ultimately show ?thesis
    using b1 by auto
qed

lemma ba_read_ok:
  assumes "ba_ok b" and "n \<le> getReadSize b" and "m_position b < m_capacity b"
  shows "\<exists>b'. ba_read n b = (Inr (take n (unread b)), b') \<and> ba_ok b' \<and> bytes b' = bytes b \<and>
    m_position b' = m_position b + n \<and> m_endian b' = m_endian b \<and> m_capacity b' = m_capacity b \<and> m_baseSize b' = m_baseSize b"
proof -
  let ?p = "m_position b" and ?B = "m_baseSize b"
  have cur: "m_cur b = ?p div ?B" and B: "0 < ?B" and nodes: "nodes_ok ?B (m_nodes b)"
    and n: "?p + n \<le> m_size b" "m_size b \<le> m_capacity b" and cap: "m_capacity b = ?B * length (m_nodes b)"
    using assms by (auto simp: ba_ok_def getReadSize_def)
  note c = cur_node [OF assms(1,3)]
  have r: "ba_read_loop (?p div ?B) (?p mod ?B) ?p n (m_nodes b) = Inr (take n (drop ?p (flat b)), (?p + n) div ?B, ?p + n)"
    using ba_read_loop_flat [OF nodes c(1), of "?p mod ?B" n ?p] B c(2) n cap by (simp add: flat_def)
  have "take n (drop ?p (flat b)) = take n (unread b)"
    using n by (simp add: unread_def bytes_def drop_take)
  then have "ba_read n b = (Inr (take n (unread b)), b\<lparr>m_cur := (?p + n) div ?B, m_position := ?p + n\<rparr>)"
    using assms node_offset_ok [OF assms(1,3)] cur r by (simp add: ba_read_def ba_return_def)
  moreover have "ba_ok (b\<lparr>m_cur := (?p + n) div ?B, m_position := ?p + n\<rparr>)"
    using assms(1) n by (simp add: ba_ok_def)
  ultimately show ?thesis
    by (simp add: bytes_def flat_def)
qed

lemma ba_read_error: "n > getReadSize b \<Longrightarrow> ba_read n b = (Inl Out_of_range, b)"
  by (simp add: ba_read_def ba_throw_def)

text \<open>At the end of the memory \<open>m_cur\<close> is null, and even reading nothing uses it.\<close>

lemma ba_read_end: "ba_ok b \<Longrightarrow> m_position b = m_capacity b \<Longrightarrow> ba_read 0 b = (Inl Null_deref, b)"
  using node_offset_end [of b] by (simp add: ba_read_def ba_throw_def)

lemma ba_read_at_ok:
  assumes "ba_ok b" and "n \<le> getReadSize b" and "m_position b < m_capacity b"
  shows "ba_read_at n (m_position b) b = Inr (take n (unread b))"
proof -
  have "m_position b \<le> m_size b"
    using assms by (simp add: ba_ok_def)
  then have "\<not> n > size_sub (m_size b) (m_position b)"
    using assms(2) by (simp add: size_sub_def getReadSize_def)
  with ba_read_ok [OF assms] show ?thesis
    using assms(2) node_offset_ok [OF assms(1,3)] assms(1)
    by (auto simp: ba_read_at_def ba_read_def ba_return_def ba_throw_def ba_ok_def split: sum.splits)
qed

text \<open>At another position than the current one, the offset is right and the block is the current one.\<close>

lemma ba_read_at_block:
  assumes "ba_ok b" and "m_position b < m_capacity b" and "position \<le> m_size b" and "n \<le> m_size b - position"
    and "q = m_baseSize b * (m_position b div m_baseSize b) + position mod m_baseSize b" and "q + n \<le> m_capacity b"
  shows "ba_read_at n position b = Inr (take n (drop q (flat b)))"
proof -
  let ?B = "m_baseSize b" and ?c = "m_position b div m_baseSize b"
  have "0 < ?B" and nodes: "nodes_ok ?B (m_nodes b)" and cap: "m_capacity b = ?B * length (m_nodes b)" and "m_cur b = ?c"
    using assms(1) by (auto simp: ba_ok_def)
  moreover have "ba_read_loop ?c (position mod ?B) position n (m_nodes b) = Inr (take n (drop q (flat b)), (q + n) div ?B, position + n)"
    using ba_read_loop_flat [OF nodes cur_node(1) [OF assms(1,2)], of "position mod ?B" n position] \<open>0 < ?B\<close> assms(5,6) cap
    by (simp add: flat_def)
  ultimately show ?thesis
    using assms(3,4) cur_node(1) [OF assms(1,2)] by (simp add: ba_read_at_def node_offset_def size_sub_def)
qed

lemma toString_ok: "ba_ok b \<Longrightarrow> toString b = Inr (unread b)"
proof -
  assume ok: "ba_ok b"
  show ?thesis
  proof (cases "getReadSize b = 0")
    case True
    then show ?thesis
      using length_unread [OF ok] by (simp add: toString_def)
  next
    case False
    then have "m_position b < m_capacity b"
      using ok by (simp add: getReadSize_def ba_ok_def)
    with False show ?thesis
      using ba_read_at_ok [OF ok, of "getReadSize b"] length_unread [OF ok] by (simp add: toString_def)
  qed
qed

lemma position_loop_eq:
  assumes "nodes_ok base nodes" and "0 < base" and "cur < length nodes" and "v \<le> base * (length nodes - cur)"
  shows "\<exists>v' cur'. position_loop v cur nodes = (v', cur') \<and> cur' < length nodes \<and> v' \<le> base \<and>
    base * cur + v = base * cur' + v'"
  using assms
proof (induction v cur nodes rule: position_loop.induct)
  case (1 v cur nodes)
  have len: "length (nodes ! cur) = base"
    using 1(2,4) by (simp add: nodes_ok_def)
  show ?case
  proof (cases "v > base")
    case True
    then have "base * 1 < base * (length nodes - cur)"
      using 1(5) by (metis less_le_trans mult_1_right)
    then have "1 < length nodes - cur"
      by (simp only: mult_less_cancel1)
    moreover have "v - base \<le> base * (length nodes - (cur + 1))"
      using 1(5) by (simp add: diff_mult_distrib2)
    ultimately have "\<exists>v' cur'. position_loop (v - base) (cur + 1) nodes = (v', cur') \<and> cur' < length nodes \<and> v' \<le> base \<and>
        base * (cur + 1) + (v - base) = base * cur' + v'"
      using 1(1) [unfolded len] 1(2-4) True by auto
    then show ?thesis
      using True 1(4) len by (subst position_loop.simps) auto
  next
    case False
    then show ?thesis
      using 1(4) len by (subst position_loop.simps) auto
  qed
qed

text \<open>Moving the position beyond the end makes what is in the memory there part of the bytes.\<close>

lemma setPosition_ok:
  assumes "ba_ok b" and "v \<le> m_capacity b"
  shows "\<exists>b'. setPosition v b = (Inr (), b') \<and> ba_ok b' \<and> bytes b' = take (max v (m_size b)) (flat b) \<and> flat b' = flat b \<and>
    m_position b' = v \<and> m_endian b' = m_endian b \<and> m_capacity b' = m_capacity b \<and> m_baseSize b' = m_baseSize b"
proof -
  let ?B = "m_baseSize b"
  have B: "0 < ?B" and nodes: "nodes_ok ?B (m_nodes b)" "0 < length (m_nodes b)"
    and cap: "m_capacity b = ?B * length (m_nodes b)"
    using assms by (auto simp: ba_ok_def)
  obtain v' cur where r: "position_loop v 0 (m_nodes b) = (v', cur)" "cur < length (m_nodes b)" "v' \<le> ?B" "v = ?B * cur + v'"
    using position_loop_eq [OF nodes(1) B nodes(2), of v] assms(2) cap by auto
  have len: "length (m_nodes b ! cur) = ?B"
    using nodes r(2) by (simp add: nodes_ok_def)
  have "(?B * cur + v') div ?B = (if v' = ?B then cur + 1 else cur)"
    using r(3) B by auto
  then have "v div ?B = (if v' = ?B then cur + 1 else cur)"
    by (simp only: r(4))
  then have "setPosition v b = (Inr (), b\<lparr>m_position := v, m_size := max v (m_size b), m_cur := v div ?B\<rparr>)"
    using assms(2) r(1,2) len by (simp add: setPosition_def ba_return_def max_def)
  moreover have "ba_ok (b\<lparr>m_position := v, m_size := max v (m_size b), m_cur := v div ?B\<rparr>)"
    using assms by (auto simp: ba_ok_def)
  ultimately show ?thesis
    by (simp add: bytes_def flat_def)
qed

lemma setPosition_back:
  assumes "ba_ok b" and "v \<le> m_size b"
  shows "\<exists>b'. setPosition v b = (Inr (), b') \<and> ba_ok b' \<and> bytes b' = bytes b \<and> m_position b' = v \<and> m_endian b' = m_endian b \<and>
    m_capacity b' = m_capacity b \<and> m_baseSize b' = m_baseSize b"
proof -
  have "v \<le> m_capacity b" "max v (m_size b) = m_size b"
    using assms by (auto simp: ba_ok_def)
  with setPosition_ok [OF assms(1)] show ?thesis
    by (fastforce simp: bytes_def)
qed

lemma setPosition_error: "v > m_capacity b \<Longrightarrow> setPosition v b = (Inl Out_of_range, b)"
  by (simp add: setPosition_def ba_throw_def)

lemma read_file_loop_ok:
  assumes "ba_ok b" and "m_baseSize b = base"
  shows "\<exists>b'. read_file_loop base cont b = (Inr (), b') \<and> ba_ok b' \<and> bytes b' = overwrite (m_position b) cont (bytes b) \<and>
    m_position b' = m_position b + length cont"
  using assms
proof (induction base cont arbitrary: b rule: read_file_loop.induct)
  case (1 base cont)
  have base: "base \<noteq> 0"
    using 1(2,3) by (auto simp: ba_ok_def)
  obtain b1 where b1: "ba_write (take base cont) b = (Inr (), b1)" "ba_ok b1"
    "bytes b1 = overwrite (m_position b) (take base cont) (bytes b)"
    "m_position b1 = m_position b + length (take base cont)" "m_baseSize b1 = base"
    using ba_write_ok [OF 1(2), of "take base cont"] 1(3) by blast
  show ?case
  proof (cases "length cont < base")
    case True
    then show ?thesis
      using b1 base by (subst read_file_loop.simps) (simp add: ba_bind_def ba_return_def)
  next
    case False
    have "m_position b \<le> length (bytes b)"
      using 1(2) by (simp add: length_bytes) (simp add: ba_ok_def)
    then have "overwrite (m_position b1) (drop base cont) (bytes b1) = overwrite (m_position b) cont (bytes b)"
      using False by (simp add: b1(3,4) overwrite_def min_def ac_simps)
    moreover from 1(1) [OF base False b1(2,5)] obtain b' where "read_file_loop base (drop base cont) b1 = (Inr (), b')" "ba_ok b'"
      "bytes b' = overwrite (m_position b1) (drop base cont) (bytes b1)" "m_position b' = m_position b1 + length (drop base cont)"
      by blast
    ultimately show ?thesis
      using b1 base False by (subst read_file_loop.simps) (simp add: ba_bind_def)
  qed
qed

lemma file_loop_step:
  assumes "nodes_ok base nodes" and "cur < length nodes" and "diff < base" and "0 < rs"
    and "diff + len \<le> base" and "(if base < rs then base else rs) = diff + len" and "pos mod base = diff"
    and "file_loop base (int (rs - len)) (int (pos + len)) (cur + 1) nodes = Inr s"
  shows "file_loop base (int rs) (int pos) cur nodes = Inr (take len (drop (base * cur + diff) (concat nodes)) @ s)"
proof -
  have d: "int pos mod int base = int diff"
    using assms(7) by (simp flip: zmod_int)
  have l: "(if int rs > int base then int base else int rs) - int diff = int len"
    using assms(6) by (cases "base < rs") simp_all
  have "len \<le> rs"
    using assms(6) by (auto split: if_splits)
  with assms(8) have "file_loop base (int rs - int len) (int pos + int len) (cur + 1) nodes = Inr s"
    by (simp only: of_nat_add of_nat_diff)
  then show ?thesis
    using assms(2-4) take_node [OF assms(1,2,5)]
    by (subst file_loop.simps) (simp only: d l Let_def, simp)
qed

lemma file_loop_aligned:
  assumes "nodes_ok base nodes" and "0 < base" and "base * cur + rs \<le> base * length nodes"
  shows "file_loop base (int rs) (int (base * cur)) cur nodes = Inr (take rs (drop (base * cur) (concat nodes)))"
  using assms(3)
proof (induction rs arbitrary: cur rule: less_induct)
  case (less rs)
  show ?case
  proof (cases "rs = 0")
    case True
    then show ?thesis
      by (subst file_loop.simps) simp
  next
    case False
    define len where "len = (if base < rs then base else rs)"
    then have "0 < len" "len \<le> rs" "len \<le> base"
      using False assms(2) by auto
    have "base * cur < base * length nodes"
      using less(2) False by linarith
    then have cur: "cur < length nodes"
      by simp
    have "file_loop base (int (rs - len)) (int (base * cur + len)) (cur + 1) nodes = Inr (take (rs - len) (drop (base * cur + len) (concat nodes)))"
    proof (cases "base < rs")
      case True
      then show ?thesis
        using less(1) [of "rs - len" "cur + 1"] less(2) assms(2) by (simp add: len_def add.commute)
    next
      case rs: False
      then show ?thesis
        by (subst file_loop.simps) (simp add: len_def)
    qed
    from file_loop_step [OF assms(1) cur assms(2) _ _ _ _ this]
    show ?thesis
      using \<open>len \<le> base\<close> \<open>len \<le> rs\<close> False take_add [of len "rs - len" "drop (base * cur) (concat nodes)"]
      by (simp flip: len_def add: add.commute)
  qed
qed

lemma writeToFile_ok:
  assumes "ba_ok b" and "m_position b mod m_baseSize b = 0 \<or> m_baseSize b \<le> getReadSize b"
  shows "writeToFile True b = Inr (Some (unread b))"
proof -
  let ?p = "m_position b" and ?B = "m_baseSize b" and ?n = "getReadSize b" and ?d = "m_position b mod m_baseSize b"
  have B: "0 < ?B" and nodes: "nodes_ok ?B (m_nodes b)" and cur: "m_cur b = ?p div ?B" and le: "?p + ?n \<le> ?B * length (m_nodes b)"
    and sz: "m_size b = ?p + ?n"
    using assms(1) by (auto simp: ba_ok_def getReadSize_def)
  have p: "?p = ?B * (?p div ?B) + ?d"
    by simp
  have "file_loop ?B (int ?n) (int ?p) (?p div ?B) (m_nodes b) = Inr (take ?n (drop ?p (flat b)))"
  proof (cases "?d = 0")
    case True
    then have "?B * (?p div ?B) = ?p"
      using p by simp
    with file_loop_aligned [OF nodes B, of "?p div ?B" ?n] le show ?thesis
      by (simp only: flat_def)
  next
    case False
    then have n: "?B \<le> ?n"
      using assms(2) by simp
    then have c: "?p < m_capacity b"
      using le B assms(1) unfolding ba_ok_def by linarith
    have d: "?d < ?B" "?d + (?B - ?d) = ?B"
      using B by simp_all
    have e: "?B * (?p div ?B + 1) = ?p + (?B - ?d)"
      using p d by (simp only: distrib_left mult_1_right)
    have "file_loop ?B (int (?n - (?B - ?d))) (int (?p + (?B - ?d))) (?p div ?B + 1) (m_nodes b) =
        Inr (take (?n - (?B - ?d)) (drop (?p + (?B - ?d)) (flat b)))"
      using file_loop_aligned [OF nodes B, of "?p div ?B + 1" "?n - (?B - ?d)"] le n d unfolding e by (simp add: flat_def)
    from file_loop_step [OF nodes cur_node(1) [OF assms(1) c] d(1) _ _ _ refl this]
    show ?thesis
      using n B d take_add [of "?B - ?d" "?n - (?B - ?d)" "drop ?p (flat b)"] p
      by (simp add: flat_def add.commute del: mult_div_mod_eq mod_mult_div_eq)
  qed
  then show ?thesis
    using sz cur by (simp add: writeToFile_def unread_def bytes_def drop_take)
qed

lemma writeToFile_bad:
  assumes "ba_ok b" and "0 < getReadSize b" and "getReadSize b < m_position b mod m_baseSize b"
  shows "writeToFile True b = Inl Bad_length"
proof -
  have "m_position b < m_capacity b" and B: "0 < m_baseSize b" and cur: "m_cur b = m_position b div m_baseSize b"
    using assms(1,2) by (auto simp: ba_ok_def getReadSize_def)
  then have "m_cur b < length (m_nodes b)"
    using cur_node [OF assms(1)] by simp
  moreover have "getReadSize b < m_baseSize b"
    using assms(3) B mod_less_divisor [OF B, of "m_position b"] by linarith
  ultimately show ?thesis
    using assms(2,3) B unfolding writeToFile_def
    by (subst file_loop.simps) (simp add: Let_def flip: zmod_int)
qed

lemma iovecs_ok:
  assumes "ba_ok b" and "p < m_capacity b" and "p + n \<le> m_capacity b"
  shows "\<exists>iovs. iovecs n p (p div m_baseSize b) b = Inr iovs \<and>
    concat (map (\<lambda>(i, q, l). [m_baseSize b * i + q..<m_baseSize b * i + q + l]) iovs) = [p..<p + n] \<and>
    (\<forall>(i, q, l)\<in>set iovs. i < length (m_nodes b) \<and> q + l \<le> m_baseSize b)"
proof -
  have "nodes_ok (m_baseSize b) (m_nodes b)" "p mod m_baseSize b < m_baseSize b"
    "m_baseSize b * (p div m_baseSize b) + p mod m_baseSize b + n \<le> m_baseSize b * length (m_nodes b)"
    using assms cur_node(2) [OF assms(1,2)] by (simp_all add: ba_ok_def)
  from iovec_loop_flat [OF this(1) cur_node(1) [OF assms(1,2)] this(2,3)] show ?thesis
    using node_offset_ok [OF assms(1,2)] cur_node(2) [OF assms(1,2)] by (simp add: iovecs_def)
qed

text \<open>The length is bounded by what is left from the current position, not from the given one.\<close>

lemma getReadBuffers_at_ok:
  assumes "ba_ok b" and "0 < n" and "n \<le> getReadSize b" and "position + n \<le> m_capacity b"
  shows "\<exists>iovs. getReadBuffers_at n position b = Inr (n, iovs) \<and>
    concat (map (\<lambda>(i, q, l). [m_baseSize b * i + q..<m_baseSize b * i + q + l]) iovs) = [position..<position + n]"
proof -
  have "m_baseSize b \<noteq> 0" "position < m_capacity b"
    using assms by (auto simp: ba_ok_def)
  with iovecs_ok [OF assms(1) _ assms(4)] show ?thesis
    using assms(2,3) by (auto simp: getReadBuffers_at_def)
qed

section \<open>Reachable byte arrays\<close>

inductive ba_step :: "ByteArray \<Rightarrow> ByteArray \<Rightarrow> bool" where
  put: "ba_write buf b = (r, b') \<Longrightarrow> ba_step b b'"
| get: "ba_read n b = (r, b') \<Longrightarrow> ba_step b b'"
| set_position: "setPosition v b = (r, b') \<Longrightarrow> ba_step b b'"
| write_buffers: "getWriteBuffers n b = (r, b') \<Longrightarrow> ba_step b b'"
| from_file: "readFromFile f b = (r, b') \<Longrightarrow> ba_step b b'"
| set_endian: "ba_step b (setIsLittleEndian v b)"
| clear: "ba_step b (clear b)"

lemma ba_read_keeps: "ba_ok b \<Longrightarrow> ba_ok (snd (ba_read n b))"
proof -
  assume ok: "ba_ok b"
  consider "n > getReadSize b" | "n \<le> getReadSize b" "m_position b < m_capacity b" | "n \<le> getReadSize b" "m_position b = m_capacity b"
    using ok by (fastforce simp: ba_ok_def)
  then show ?thesis
  proof cases
    case 3
    then have "n = 0"
      using ok by (simp add: getReadSize_def ba_ok_def)
    then show ?thesis
      using ba_read_end [OF ok 3(2)] ok by simp
  qed (use ok ba_read_error ba_read_ok [OF ok] in \<open>auto, fastforce\<close>)
qed

lemma getWriteBuffers_ok:
  assumes "ba_ok b" and "0 < n"
  shows "\<exists>iovs b'. getWriteBuffers n b = (Inr (n, iovs), b') \<and> ba_ok b' \<and> bytes b' = bytes b \<and> m_position b' = m_position b \<and>
    concat (map (\<lambda>(i, q, l). [m_baseSize b * i + q..<m_baseSize b * i + q + l]) iovs) = [m_position b..<m_position b + n] \<and>
    (\<forall>(i, q, l)\<in>set iovs. i < length (m_nodes b') \<and> q + l \<le> m_baseSize b)"
proof -
  obtain b1 add where b1: "addCapacity n b = (Inr (), b1)" "ba_ok b1" "n \<le> getCapacity b1"
    "flat b1 = flat b @ add" "m_position b1 = m_position b" "m_size b1 = m_size b" "m_baseSize b1 = m_baseSize b"
    using addCapacity_ok [OF assms(1), of n] by blast
  with assms(2) have room: "m_position b1 < m_capacity b1" "m_position b1 + n \<le> m_capacity b1"
    unfolding getCapacity_def by linarith+
  have cur: "m_cur b1 = m_position b1 div m_baseSize b1"
    using b1(2) by (simp add: ba_ok_def)
  have "bytes b1 = bytes b"
    using b1(4,6) length_flat [OF assms(1)] assms(1) by (simp add: bytes_def ba_ok_def)
  with iovecs_ok [OF b1(2) room] show ?thesis
    using b1 assms(2) cur by (auto simp: getWriteBuffers_def ba_bind_def ba_return_def)
qed

lemma ba_step_ok: "ba_step b b' \<Longrightarrow> ba_ok b \<Longrightarrow> ba_ok b'"
proof (induction rule: ba_step.induct)
  case (put buf b r b')
  then show ?case
    using ba_write_ok [of b buf] by auto
next
  case (get n b r b')
  then show ?case
    using ba_read_keeps [of b n] by auto
next
  case (set_position v b r b')
  then show ?case
    using setPosition_ok [of b v] setPosition_error [of b v] by (cases "v \<le> m_capacity b") auto
next
  case (write_buffers n b r b')
  then show ?case
    using getWriteBuffers_ok [of b n] by (cases "n = 0") (auto simp: getWriteBuffers_def ba_return_def)
next
  case (from_file f b r b')
  then show ?case
    using read_file_loop_ok [of b "m_baseSize b" "the f"]
    by (cases f) (auto simp: readFromFile_def ba_bind_def ba_return_def)
qed (simp_all add: setIsLittleEndian_ok clear_ok)

abbreviation ba_reach :: "ByteArray \<Rightarrow> bool" where
  "ba_reach \<equiv> reachable (\<lambda>b. \<exists>fresh base. 0 < base \<and> b = new_ByteArray fresh base) ba_step"

interpretation array_machine: step_invariant "\<lambda>b. \<exists>fresh base. 0 < base \<and> b = new_ByteArray fresh base" ba_step ba_ok
  by unfold_locales (auto simp: new_ByteArray_ok ba_step_ok)

lemmas ba_reach_ok = array_machine.reachable_inv

lemma ba_reach_new: "0 < base \<Longrightarrow> ba_reach (new_ByteArray fresh base)"
  by (rule reachable_init) blast

lemmas ba_reach_step = reachable_step [of _ ba_step]

lemma ba_reach_put: "ba_reach b \<Longrightarrow> ba_reach (snd (ba_write buf b))"
  by (erule ba_reach_step) (rule ba_step.put [OF prod.collapse [symmetric]])

lemma ba_reach_seek: "ba_reach b \<Longrightarrow> ba_reach (snd (setPosition v b))"
  by (erule ba_reach_step) (rule ba_step.set_position [OF prod.collapse [symmetric]])

section \<open>Properties\<close>

text \<open>The abstract buffer: the bytes written so far and the position.\<close>

type_synonym buffer = "string \<times> nat"

definition abs_ba :: "ByteArray \<Rightarrow> buffer" where
  "abs_ba b = (bytes b, m_position b)"

fun buffer_write :: "string \<Rightarrow> buffer \<Rightarrow> buffer" where
  "buffer_write buf (xs, p) = (overwrite p buf xs, p + length buf)"

fun buffer_read :: "nat \<Rightarrow> buffer \<Rightarrow> string \<times> buffer" where
  "buffer_read n (xs, p) = (take n (drop p xs), xs, p + n)"

fun buffer_seek :: "nat \<Rightarrow> buffer \<Rightarrow> buffer" where
  "buffer_seek v (xs, p) = (xs, v)"

text \<open>
  C32: a byte array refines a plain sequence of bytes with a position, whatever the size of its
  blocks: \<open>write\<close> overwrites and extends it at the position, \<open>read\<close> takes the next bytes or throws and
  changes nothing if there are too few, \<open>setPosition\<close> moves inside it, \<open>toString\<close> is the rest of it,
  and \<open>readFromFile\<close> is one \<open>write\<close> of the whole file. The exception is a \<open>read\<close> at the very end of the
  memory, where the pointer to the current block is null.
\<close>

theorem bytearray_refines:
  assumes "ba_reach b"
  shows "(\<exists>b'. ba_write buf b = (Inr (), b') \<and> abs_ba b' = buffer_write buf (abs_ba b)) \<and>
    (n \<le> length (fst (abs_ba b)) - snd (abs_ba b) \<and> m_position b < m_capacity b \<longrightarrow>
      (\<exists>b'. ba_read n b = (Inr (fst (buffer_read n (abs_ba b))), b') \<and> abs_ba b' = snd (buffer_read n (abs_ba b)))) \<and>
    (n > length (fst (abs_ba b)) - snd (abs_ba b) \<longrightarrow> ba_read n b = (Inl Out_of_range, b)) \<and>
    (v \<le> length (fst (abs_ba b)) \<longrightarrow> (\<exists>b'. setPosition v b = (Inr (), b') \<and> abs_ba b' = buffer_seek v (abs_ba b))) \<and>
    toString b = Inr (drop (snd (abs_ba b)) (fst (abs_ba b))) \<and>
    (\<exists>b'. readFromFile (Some buf) b = (Inr True, b') \<and> abs_ba b' = buffer_write buf (abs_ba b))"
proof (intro conjI impI)
  note ok = ba_reach_ok [OF assms]
  show "\<exists>b'. ba_write buf b = (Inr (), b') \<and> abs_ba b' = buffer_write buf (abs_ba b)"
    using ba_write_ok [OF ok, of buf] by (auto simp: abs_ba_def)
  show "\<exists>b'. ba_read n b = (Inr (fst (buffer_read n (abs_ba b))), b') \<and> abs_ba b' = snd (buffer_read n (abs_ba b))"
    if "n \<le> length (fst (abs_ba b)) - snd (abs_ba b) \<and> m_position b < m_capacity b"
    using ba_read_ok [OF ok, of n] that by (auto simp: abs_ba_def unread_def length_bytes [OF ok] getReadSize_def)
  show "ba_read n b = (Inl Out_of_range, b)" if "n > length (fst (abs_ba b)) - snd (abs_ba b)"
    using ba_read_error [of b n] that by (simp add: abs_ba_def length_bytes [OF ok] getReadSize_def)
  show "\<exists>b'. setPosition v b = (Inr (), b') \<and> abs_ba b' = buffer_seek v (abs_ba b)" if "v \<le> length (fst (abs_ba b))"
    using setPosition_back [OF ok, of v] that by (auto simp: abs_ba_def length_bytes [OF ok])
  show "toString b = Inr (drop (snd (abs_ba b)) (fst (abs_ba b)))"
    using toString_ok [OF ok] by (simp add: abs_ba_def unread_def)
  show "\<exists>b'. readFromFile (Some buf) b = (Inr True, b') \<and> abs_ba b' = buffer_write buf (abs_ba b)"
    using read_file_loop_ok [OF ok refl, of buf]
    by (auto simp: readFromFile_def ba_bind_def ba_return_def abs_ba_def)
qed

theorem bytearray_refines_witness:
  "\<exists>b'. ba_write ''hello'' (new_ByteArray (\<lambda>_. NUL) 2) = (Inr (), b') \<and> abs_ba b' = (''hello'', 5)"
  using bytearray_refines [OF ba_reach_new, of 2 "''hello''" "\<lambda>_. NUL" 0 0]
  by (simp add: abs_ba_def new_ByteArray_bytes overwrite_def new_ByteArray_position numeral_eq_Suc)

text \<open>
  The buffers handed to \<open>readv\<close> and \<open>writev\<close> are exactly the memory of the next bytes, in order and
  inside the blocks: \<open>getReadBuffers\<close> covers as many unread bytes as there are, at most \<open>n\<close>, and
  \<open>getWriteBuffers\<close> covers \<open>n\<close> bytes from the position and changes neither bytes nor position.
\<close>

theorem scatter_gather_exact:
  assumes "ba_reach b" and "0 < n" and "0 < getReadSize b"
  shows "(\<exists>iovs. getReadBuffers n b = Inr (min n (getReadSize b), iovs) \<and>
      concat (map (\<lambda>(i, q, l). [m_baseSize b * i + q..<m_baseSize b * i + q + l]) iovs) =
        [m_position b..<m_position b + min n (getReadSize b)] \<and>
      (\<forall>(i, q, l)\<in>set iovs. i < length (m_nodes b) \<and> q + l \<le> m_baseSize b)) \<and>
    (\<exists>iovs b'. getWriteBuffers n b = (Inr (n, iovs), b') \<and> abs_ba b' = abs_ba b \<and>
      concat (map (\<lambda>(i, q, l). [m_baseSize b * i + q..<m_baseSize b * i + q + l]) iovs) = [m_position b..<m_position b + n] \<and>
      (\<forall>(i, q, l)\<in>set iovs. i < length (m_nodes b') \<and> q + l \<le> m_baseSize b))"
proof (intro conjI)
  note ok = ba_reach_ok [OF assms(1)]
  let ?n = "min n (getReadSize b)"
  have "m_position b < m_capacity b" "m_position b + ?n \<le> m_capacity b" and cur: "m_cur b = m_position b div m_baseSize b"
    using ok assms(3) by (auto simp: ba_ok_def getReadSize_def)
  then obtain iovs where "iovecs ?n (m_position b) (m_cur b) b = Inr iovs"
    "concat (map (\<lambda>(i, q, l). [m_baseSize b * i + q..<m_baseSize b * i + q + l]) iovs) = [m_position b..<m_position b + ?n]"
    "\<forall>(i, q, l)\<in>set iovs. i < length (m_nodes b) \<and> q + l \<le> m_baseSize b"
    using iovecs_ok [OF ok] unfolding cur by blast
  moreover have "(if n > getReadSize b then getReadSize b else n) = ?n" "?n \<noteq> 0"
    using assms by auto
  ultimately show "\<exists>iovs. getReadBuffers n b = Inr (?n, iovs) \<and>
      concat (map (\<lambda>(i, q, l). [m_baseSize b * i + q..<m_baseSize b * i + q + l]) iovs) = [m_position b..<m_position b + ?n] \<and>
      (\<forall>(i, q, l)\<in>set iovs. i < length (m_nodes b) \<and> q + l \<le> m_baseSize b)"
    unfolding getReadBuffers_def Let_def by (simp del: neq0_conv)
  show "\<exists>iovs b'. getWriteBuffers n b = (Inr (n, iovs), b') \<and> abs_ba b' = abs_ba b \<and>
      concat (map (\<lambda>(i, q, l). [m_baseSize b * i + q..<m_baseSize b * i + q + l]) iovs) = [m_position b..<m_position b + n] \<and>
      (\<forall>(i, q, l)\<in>set iovs. i < length (m_nodes b') \<and> q + l \<le> m_baseSize b)"
    using getWriteBuffers_ok [OF ok assms(2)] by (auto simp: abs_ba_def)
qed

definition example_array :: ByteArray where
  "example_array = snd (setPosition 1 (snd (ba_write ''hello'' (new_ByteArray (\<lambda>_. NUL) 2))))"

lemma example_array_reach: "ba_reach example_array"
  unfolding example_array_def
  by (intro ba_reach_seek ba_reach_put ba_reach_new) simp

lemma example_array_fields:
  "m_position example_array = 1" "m_size example_array = 5" "m_baseSize example_array = 2" "unread example_array = ''ello''"
  "getReadSize example_array = 4"
proof -
  obtain b where b: "ba_write ''hello'' (new_ByteArray (\<lambda>_. NUL) 2) = (Inr (), b)" "ba_ok b" "bytes b = ''hello''" "m_baseSize b = 2"
    using ba_write_ok [OF new_ByteArray_ok, of 2 "''hello''" "\<lambda>_. NUL"]
    by (auto simp: new_ByteArray_bytes new_ByteArray_position overwrite_def) (auto simp: new_ByteArray_def)
  have m: "m_size b = 5"
    using length_bytes [OF b(2)] b(3) by simp
  obtain b' where b': "setPosition 1 b = (Inr (), b')" "ba_ok b'" "m_position b' = 1" "bytes b' = bytes b" "m_baseSize b' = m_baseSize b"
    using setPosition_back [OF b(2), of 1] m by auto
  with b b' show "m_position example_array = 1" "m_size example_array = 5" "m_baseSize example_array = 2"
    "unread example_array = ''ello''"
    using length_bytes [OF b'(2)] by (simp_all add: example_array_def unread_def)
  then show "getReadSize example_array = 4"
    by (simp add: getReadSize_def)
qed

theorem scatter_gather_exact_witness:
  "\<exists>iovs. getReadBuffers 3 example_array = Inr (3, iovs) \<and>
    concat (map (\<lambda>(i, q, l). [2 * i + q..<2 * i + q + l]) iovs) = [1..<4]"
  using conjunct1 [OF scatter_gather_exact [OF example_array_reach, of 3]]
  unfolding example_array_fields by (simp del: upt_rec_numeral) blast

text \<open>
  \<open>writeToFile\<close> writes exactly the unread bytes if the position is at the start of a block or at
  least a block of bytes is left; otherwise its length is short by the offset in the block, and it
  is negative if fewer bytes are left than the offset.
\<close>

theorem writeToFile_exact:
  assumes "ba_reach b"
  shows "(m_position b mod m_baseSize b = 0 \<or> m_baseSize b \<le> getReadSize b \<longrightarrow> writeToFile True b = Inr (Some (unread b))) \<and>
    (0 < getReadSize b \<and> getReadSize b < m_position b mod m_baseSize b \<longrightarrow> writeToFile True b = Inl Bad_length)"
  using writeToFile_ok [OF ba_reach_ok [OF assms]] writeToFile_bad [OF ba_reach_ok [OF assms]] by simp

theorem writeToFile_exact_witness: "writeToFile True example_array = Inr (Some ''ello'')"
  using writeToFile_exact [OF example_array_reach] by (simp add: example_array_fields getReadSize_def)

end
