(* ===== verification/Byte_Codec.thy ===== *)
theory Byte_Codec
  imports Byte_Array
begin

text \<open>
  The typed functions of \<open>bytearray.cc\<close> on top of \<open>read\<close> and \<open>write\<close>, and the byte order functions of
  \<open>endian.h\<close>: integers of fixed width, variable-length integers, floating-point numbers (as the bits
  that are copied) and strings with a length in front.

  \<open>SYLAR_BYTE_ORDER\<close>, the byte order of the machine, is the argument \<open>host\<close>. A signed integer is the
  word with the same bits. The largest string that can be allocated is the argument \<open>max_size\<close>.
  Multiplication and negation of signed integers are those of two's complement.
\<close>

section \<open>Integers in memory\<close>

definition le_bytes :: "nat \<Rightarrow> 'a::len word \<Rightarrow> string" where
  "le_bytes n v = map (\<lambda>i. char_of (unat v div 256 ^ i)) [0..<n]"

definition le_value :: "string \<Rightarrow> 'a::len word" where
  "le_value bs = of_nat (horner_sum of_char 256 bs)"

fun mem_bytes :: "endian \<Rightarrow> nat \<Rightarrow> 'a::len word \<Rightarrow> string" where
  "mem_bytes SYLAR_LITTLE_ENDIAN n v = le_bytes n v"
| "mem_bytes SYLAR_BIG_ENDIAN n v = rev (le_bytes n v)"

fun mem_value :: "endian \<Rightarrow> string \<Rightarrow> 'a::len word" where
  "mem_value SYLAR_LITTLE_ENDIAN bs = le_value bs"
| "mem_value SYLAR_BIG_ENDIAN bs = le_value (rev bs)"

text \<open>\<open>bswap_16\<close>, \<open>bswap_32\<close> and \<open>bswap_64\<close> of the C library, by the number of bytes.\<close>

definition byteswap :: "nat \<Rightarrow> 'a::len word \<Rightarrow> 'a word" where
  "byteswap n v = le_value (rev (le_bytes n v))"

definition byteswapOnLittleEndian :: "endian \<Rightarrow> nat \<Rightarrow> 'a::len word \<Rightarrow> 'a word" where
  "byteswapOnLittleEndian host n t = (if host = SYLAR_BIG_ENDIAN then t else byteswap n t)"

definition byteswapOnBigEndian :: "endian \<Rightarrow> nat \<Rightarrow> 'a::len word \<Rightarrow> 'a word" where
  "byteswapOnBigEndian host n t = (if host = SYLAR_BIG_ENDIAN then byteswap n t else t)"

section \<open>Integers of fixed width\<close>

definition write_fixed :: "endian \<Rightarrow> nat \<Rightarrow> 'a::len word \<Rightarrow> unit ba" where
  "write_fixed host n v b =
     (let v = (if m_endian b \<noteq> host then byteswap n v else v) in ba_write (mem_bytes host n v) b)"

definition writeFint8 :: "endian \<Rightarrow> u8 \<Rightarrow> unit ba" where
  "writeFint8 host v = ba_write (mem_bytes host 1 v)"

definition writeFuint8 :: "endian \<Rightarrow> u8 \<Rightarrow> unit ba" where
  "writeFuint8 host v = ba_write (mem_bytes host 1 v)"

definition writeFint16 :: "endian \<Rightarrow> u16 \<Rightarrow> unit ba" where
  "writeFint16 host = write_fixed host 2"

definition writeFuint16 :: "endian \<Rightarrow> u16 \<Rightarrow> unit ba" where
  "writeFuint16 host = write_fixed host 2"

definition writeFint32 :: "endian \<Rightarrow> u32 \<Rightarrow> unit ba" where
  "writeFint32 host = write_fixed host 4"

definition writeFuint32 :: "endian \<Rightarrow> u32 \<Rightarrow> unit ba" where
  "writeFuint32 host = write_fixed host 4"

definition writeFint64 :: "endian \<Rightarrow> u64 \<Rightarrow> unit ba" where
  "writeFint64 host = write_fixed host 8"

definition writeFuint64 :: "endian \<Rightarrow> u64 \<Rightarrow> unit ba" where
  "writeFuint64 host = write_fixed host 8"

text \<open>The macro \<open>XX(type)\<close>.\<close>

definition read_fixed :: "endian \<Rightarrow> nat \<Rightarrow> 'a::len word ba" where
  "read_fixed host n =
     ba_bind (ba_read n) (\<lambda>bs b.
       let v = mem_value host bs in ba_return (if m_endian b = host then v else byteswap n v) b)"

definition readFint8 :: "endian \<Rightarrow> u8 ba" where
  "readFint8 host = ba_bind (ba_read 1) (\<lambda>bs. ba_return (mem_value host bs))"

definition readFuint8 :: "endian \<Rightarrow> u8 ba" where
  "readFuint8 host = ba_bind (ba_read 1) (\<lambda>bs. ba_return (mem_value host bs))"

definition readFint16 :: "endian \<Rightarrow> u16 ba" where
  "readFint16 host = read_fixed host 2"

definition readFuint16 :: "endian \<Rightarrow> u16 ba" where
  "readFuint16 host = read_fixed host 2"

definition readFint32 :: "endian \<Rightarrow> u32 ba" where
  "readFint32 host = read_fixed host 4"

definition readFuint32 :: "endian \<Rightarrow> u32 ba" where
  "readFuint32 host = read_fixed host 4"

definition readFint64 :: "endian \<Rightarrow> u64 ba" where
  "readFint64 host = read_fixed host 8"

definition readFuint64 :: "endian \<Rightarrow> u64 ba" where
  "readFuint64 host = read_fixed host 8"

definition writeFloat :: "endian \<Rightarrow> u32 \<Rightarrow> unit ba" where
  "writeFloat host v = writeFuint32 host v"

definition writeDouble :: "endian \<Rightarrow> u64 \<Rightarrow> unit ba" where
  "writeDouble host v = writeFuint64 host v"

definition readFloat :: "endian \<Rightarrow> u32 ba" where
  "readFloat host = readFuint32 host"

definition readDouble :: "endian \<Rightarrow> u64 ba" where
  "readDouble host = readFuint64 host"

section \<open>Integers of variable length\<close>

definition EncodeZigzag32 :: "u32 \<Rightarrow> u32" where
  "EncodeZigzag32 v = (if sint v < 0 then (- v) * 2 - 1 else v * 2)"

definition EncodeZigzag64 :: "u64 \<Rightarrow> u64" where
  "EncodeZigzag64 v = (if sint v < 0 then (- v) * 2 - 1 else v * 2)"

definition DecodeZigzag32 :: "u32 \<Rightarrow> u32" where
  "DecodeZigzag32 v = drop_bit 1 v XOR - (v AND 1)"

definition DecodeZigzag64 :: "u64 \<Rightarrow> u64" where
  "DecodeZigzag64 v = drop_bit 1 v XOR - (v AND 1)"

text \<open>The loop that fills \<open>tmp\<close>; the first argument is the room that is left in it.\<close>

fun varint_loop :: "nat \<Rightarrow> 'a::len word \<Rightarrow> ba_error + string" where
  "varint_loop 0 v = Inl Overrun"
| "varint_loop (Suc room) v =
     (if v \<ge> 0x80
      then map_sum id (\<lambda>r. char_of (unat ((v AND 0x7F) OR 0x80)) # r) (varint_loop room (drop_bit 7 v))
      else Inr [char_of (unat v)])"

definition write_varint :: "nat \<Rightarrow> 'a::len word \<Rightarrow> unit ba" where
  "write_varint room v = (case varint_loop room v of Inl e \<Rightarrow> ba_throw e | Inr tmp \<Rightarrow> ba_write tmp)"

definition writeUint32 :: "u32 \<Rightarrow> unit ba" where
  "writeUint32 v = write_varint 5 v"

definition writeUint64 :: "u64 \<Rightarrow> unit ba" where
  "writeUint64 v = write_varint 10 v"

definition writeInt32 :: "u32 \<Rightarrow> unit ba" where
  "writeInt32 v = writeUint32 (EncodeZigzag32 v)"

definition writeInt64 :: "u64 \<Rightarrow> unit ba" where
  "writeInt64 v = writeUint64 (EncodeZigzag64 v)"

function read_varint :: "endian \<Rightarrow> nat \<Rightarrow> nat \<Rightarrow> 'a::len word \<Rightarrow> 'a word ba" where
  "read_varint host bits i r =
     (if i < bits
      then ba_bind (readFuint8 host) (\<lambda>c.
        if c < 0x80 then ba_return (r OR push_bit i (ucast c))
        else read_varint host bits (i + 7) (r OR push_bit i (ucast (c AND 0x7f))))
      else ba_return r)"
  by pat_completeness auto
termination
  by (relation "measure (\<lambda>(host, bits, i, r). bits - i)") auto

declare read_varint.simps [simp del]

definition readUint32 :: "endian \<Rightarrow> u32 ba" where
  "readUint32 host = read_varint host 32 0 0"

definition readUint64 :: "endian \<Rightarrow> u64 ba" where
  "readUint64 host = read_varint host 64 0 0"

definition readInt32 :: "endian \<Rightarrow> u32 ba" where
  "readInt32 host = ba_bind (readUint32 host) (\<lambda>v. ba_return (DecodeZigzag32 v))"

definition readInt64 :: "endian \<Rightarrow> u64 ba" where
  "readInt64 host = ba_bind (readUint64 host) (\<lambda>v. ba_return (DecodeZigzag64 v))"

section \<open>Strings\<close>

definition writeStringF16 :: "endian \<Rightarrow> string \<Rightarrow> unit ba" where
  "writeStringF16 host s = ba_bind (writeFuint16 host (of_nat (length s))) (\<lambda>_. ba_write s)"

definition writeStringF32 :: "endian \<Rightarrow> string \<Rightarrow> unit ba" where
  "writeStringF32 host s = ba_bind (writeFuint32 host (of_nat (length s))) (\<lambda>_. ba_write s)"

definition writeStringF64 :: "endian \<Rightarrow> string \<Rightarrow> unit ba" where
  "writeStringF64 host s = ba_bind (writeFuint64 host (of_nat (length s))) (\<lambda>_. ba_write s)"

definition writeStringVint :: "string \<Rightarrow> unit ba" where
  "writeStringVint s = ba_bind (writeUint64 (of_nat (length s))) (\<lambda>_. ba_write s)"

definition writeStringWithoutLength :: "string \<Rightarrow> unit ba" where
  "writeStringWithoutLength s = ba_write s"

text \<open>\<open>buff.resize(len)\<close> throws if there is not that much memory; then \<open>read(&buff[0], len)\<close>.\<close>

definition read_string :: "nat \<Rightarrow> 'a::len word \<Rightarrow> string ba" where
  "read_string max_size len = (if unat len > max_size then ba_throw Bad_alloc else ba_read (unat len))"

definition readStringF16 :: "nat \<Rightarrow> endian \<Rightarrow> string ba" where
  "readStringF16 max_size host = ba_bind (readFuint16 host) (read_string max_size)"

definition readStringF32 :: "nat \<Rightarrow> endian \<Rightarrow> string ba" where
  "readStringF32 max_size host = ba_bind (readFuint32 host) (read_string max_size)"

definition readStringF64 :: "nat \<Rightarrow> endian \<Rightarrow> string ba" where
  "readStringF64 max_size host = ba_bind (readFuint64 host) (read_string max_size)"

definition readStringVint :: "nat \<Rightarrow> endian \<Rightarrow> string ba" where
  "readStringVint max_size host = ba_bind (readUint64 host) (read_string max_size)"

section \<open>Bytes of a number\<close>

lemma upt_map_Suc: "[0..<Suc n] = 0 # map Suc [0..<n]"
  by (simp add: map_Suc_upt upt_conv_Cons del: upt_Suc)

lemma horner_char_of: "horner_sum of_char 256 (map (\<lambda>i. char_of (x div 256 ^ i)) [0..<n]) = (x :: nat) mod 256 ^ n"
proof (induction n arbitrary: x)
  case (Suc n)
  then show ?case
    using Suc [of "x div 256"] by (simp add: upt_map_Suc comp_def div_mult2_eq mod_mult2_eq del: upt_Suc)
qed simp

lemma horner_less: "horner_sum of_char (256 :: nat) bs < 256 ^ length bs"
proof (induction bs)
  case (Cons c bs)
  with ord_less_256 [of c] have "ord c + 256 * horner_sum of_char (256 :: nat) bs < 256 * 256 ^ length bs"
    by linarith
  then show ?case
    by simp
qed simp

lemma char_of_horner: "map (\<lambda>i. char_of (horner_sum of_char (256 :: nat) bs div 256 ^ i)) [0..<length bs] = bs"
proof (induction bs)
  case (Cons c bs)
  have "(ord c + 256 * horner_sum of_char 256 bs) div (256 * 256 ^ i) = horner_sum of_char (256 :: nat) bs div 256 ^ i" for i
    by (simp add: div_mult2_eq)
  moreover have "char_of (ord c + 256 * horner_sum of_char (256 :: nat) bs) = c"
    using char_of_take_bit_eq [of 8 "ord c + 256 * horner_sum of_char (256 :: nat) bs"] by (simp add: take_bit_eq_mod)
  ultimately show ?case
    using Cons by (simp add: upt_map_Suc comp_def del: upt_Suc)
qed simp

lemma length_le_bytes [simp]: "length (le_bytes n v) = n"
  by (simp add: le_bytes_def)

lemma le_value_bytes: "LENGTH('a) \<le> 8 * n \<Longrightarrow> le_value (le_bytes n v) = (v :: 'a::len word)"
proof -
  assume "LENGTH('a) \<le> 8 * n"
  then have "(2 :: nat) ^ LENGTH('a) \<le> 256 ^ n"
    using power_increasing [of "LENGTH('a)" "8 * n" "2 :: nat"] by (simp add: power_mult)
  then have "unat v < 256 ^ n"
    using unsigned_less [of v, where 'a = nat] by linarith
  then show ?thesis
    by (simp add: le_value_def le_bytes_def horner_char_of)
qed

lemma le_bytes_value: "LENGTH('a) = 8 * length bs \<Longrightarrow> le_bytes (length bs) (le_value bs :: 'a::len word) = bs"
proof -
  assume "LENGTH('a) = 8 * length bs"
  then have "unat (le_value bs :: 'a word) = horner_sum of_char 256 bs"
    using horner_less [of bs] by (simp add: le_value_def unat_of_nat power_mult)
  then show ?thesis
    by (simp add: le_bytes_def char_of_horner)
qed

lemma mem_value_bytes: "LENGTH('a) \<le> 8 * n \<Longrightarrow> mem_value host (mem_bytes host n v) = (v :: 'a::len word)"
  by (cases host) (simp_all add: le_value_bytes)

lemma mem_bytes_swap: "LENGTH('a) = 8 * n \<Longrightarrow> mem_bytes e n (byteswap n v) = rev (mem_bytes e n (v :: 'a::len word))"
  using le_bytes_value [of "rev (le_bytes n v)", where 'a = 'a] by (cases e) (simp_all add: byteswap_def)

lemma byteswap_twice: "LENGTH('a) = 8 * n \<Longrightarrow> byteswap n (byteswap n v) = (v :: 'a::len word)"
  using mem_bytes_swap [of n SYLAR_LITTLE_ENDIAN v] by (simp add: byteswap_def [of n "byteswap n v"] le_value_bytes)

text \<open>The bytes written depend on the byte order of the array and not on that of the machine.\<close>

lemma wire_bytes:
  "LENGTH('a) = 8 * n \<Longrightarrow> mem_bytes host n (if e \<noteq> host then byteswap n v else v) = mem_bytes e n (v :: 'a::len word)"
  using mem_bytes_swap [of n host v] by (cases e; cases host) simp_all

lemma wire_value:
  "LENGTH('a) = 8 * n \<Longrightarrow>
    (if e = host then mem_value host (mem_bytes e n v) else byteswap n (mem_value host (mem_bytes e n v))) = (v :: 'a::len word)"
  using mem_value_bytes [of n host v] mem_value_bytes [of n host "byteswap n v"] byteswap_twice [of n v] wire_bytes [of n host e v]
  by (cases "e = host") simp_all

section \<open>Encodings\<close>

text \<open>\<open>b'\<close> is \<open>b\<close> after \<open>n\<close> bytes have been read.\<close>

definition advanced :: "ByteArray \<Rightarrow> nat \<Rightarrow> ByteArray \<Rightarrow> bool" where
  "advanced b n b' \<longleftrightarrow> ba_ok b' \<and> bytes b' = bytes b \<and> m_position b' = m_position b + n \<and> m_endian b' = m_endian b \<and>
     m_capacity b' = m_capacity b \<and> m_baseSize b' = m_baseSize b"

lemma advanced_unread: "advanced b n b' \<Longrightarrow> unread b' = drop n (unread b)"
  by (simp add: advanced_def unread_def add.commute)

lemma advanced_trans: "advanced b n b' \<Longrightarrow> advanced b' m b'' \<Longrightarrow> advanced b (n + m) b''"
  by (simp add: advanced_def)

lemma ba_read_prefix:
  assumes "ba_ok b" and "unread b = xs @ rest" and "xs = [] \<Longrightarrow> m_position b < m_capacity b"
  shows "\<exists>b'. ba_read (length xs) b = (Inr xs, b') \<and> advanced b (length xs) b'"
proof -
  have n: "length xs \<le> getReadSize b"
    using length_unread [OF assms(1)] assms(2) by simp
  moreover have "m_position b < m_capacity b"
    using assms(1,3) n by (cases xs) (auto simp: ba_ok_def getReadSize_def)
  ultimately show ?thesis
    using ba_read_ok [OF assms(1)] assms(2) unfolding advanced_def by (metis append_eq_conv_conj)
qed

lemma ba_write_write: "ba_ok b \<Longrightarrow> ba_bind (ba_write xs) (\<lambda>_. ba_write ys) b = (Inr (), b') \<Longrightarrow>
    \<exists>b1. ba_write xs b = (Inr (), b1) \<and> ba_ok b1 \<and> ba_write ys b1 = (Inr (), b')"
  using ba_write_ok [of b xs] by (auto simp: ba_bind_def)

text \<open>
  The contract of a pair of typed functions: what is written is an encoding of the value, and the
  reader takes the encoding of a valid value off the unread bytes. A hollow value (an empty string)
  ends with a \<open>read\<close> of no bytes, which must not happen at the end of the memory.
\<close>

locale codec =
  fixes enc :: "endian \<Rightarrow> 'v \<Rightarrow> string" and wr :: "'v \<Rightarrow> unit ba" and rd :: "'v ba"
    and valid :: "'v \<Rightarrow> bool" and hollow :: "'v \<Rightarrow> bool"
  assumes wr_enc: "ba_ok b \<Longrightarrow> valid v \<Longrightarrow>
      \<exists>b'. wr v b = (Inr (), b') \<and> ba_ok b' \<and> bytes b' = overwrite (m_position b) (enc (m_endian b) v) (bytes b) \<and>
        m_position b' = m_position b + length (enc (m_endian b) v) \<and> m_endian b' = m_endian b \<and> m_baseSize b' = m_baseSize b"
    and rd_enc: "ba_ok b \<Longrightarrow> valid v \<Longrightarrow> unread b = enc (m_endian b) v @ rest \<Longrightarrow>
      (hollow v \<Longrightarrow> m_position b + length (enc (m_endian b) v) < m_capacity b) \<Longrightarrow>
      \<exists>b'. rd b = (Inr v, b') \<and> advanced b (length (enc (m_endian b) v)) b'"
    and enc_nonempty: "enc e v \<noteq> []"
begin

lemma roundtrip:
  assumes "ba_ok b" and "valid v"
  shows "\<exists>b1 b2 b3. wr v b = (Inr (), b1) \<and> setPosition (m_position b) b1 = (Inr (), b2) \<and>
    ((hollow v \<longrightarrow> m_position b1 < m_capacity b1) \<longrightarrow> rd b2 = (Inr v, b3) \<and> m_position b3 = m_position b1)"
proof -
  let ?e = "enc (m_endian b) v" and ?p = "m_position b"
  obtain b1 where b1: "wr v b = (Inr (), b1)" "ba_ok b1" "bytes b1 = overwrite ?p ?e (bytes b)"
    "m_position b1 = ?p + length ?e" "m_endian b1 = m_endian b"
    using wr_enc [OF assms] by blast
  then have "?p \<le> m_size b1"
    by (simp add: ba_ok_def)
  then obtain b2 where b2: "setPosition ?p b1 = (Inr (), b2)" "ba_ok b2" "bytes b2 = bytes b1" "m_position b2 = ?p"
    "m_endian b2 = m_endian b1" "m_capacity b2 = m_capacity b1"
    using setPosition_back [OF b1(2)] by blast
  have "length (bytes b) \<ge> ?p"
    using assms(1) by (simp add: length_bytes) (simp add: ba_ok_def)
  then have "unread b2 = enc (m_endian b2) v @ drop (?p + length ?e) (bytes b)"
    using b1 b2 by (simp add: unread_def overwrite_def)
  from rd_enc [OF b2(2) assms(2) this] show ?thesis
    using b1 b2 unfolding advanced_def by (cases "hollow v \<longrightarrow> m_position b1 < m_capacity b1") fastforce+
qed

end

text \<open>A value that is a sequence of bytes of one \<open>write\<close>.\<close>

lemma codec_bytesI:
  assumes "\<And>v b. valid v \<Longrightarrow> wr v b = ba_write (enc (m_endian b) v) b"
    and "\<And>b v rest. ba_ok b \<Longrightarrow> valid v \<Longrightarrow> unread b = enc (m_endian b) v @ rest \<Longrightarrow>
      \<exists>b'. rd b = (Inr v, b') \<and> advanced b (length (enc (m_endian b) v)) b'"
    and "\<And>e v. enc e v \<noteq> []"
  shows "codec enc wr rd valid (\<lambda>_. False)"
  using assms(2,3) by unfold_locales (simp_all add: assms(1) ba_write_ok)

lemma write_fixed_enc: "LENGTH('a) = 8 * n \<Longrightarrow> write_fixed host n v b = ba_write (mem_bytes (m_endian b) n (v :: 'a::len word)) b"
  by (simp add: write_fixed_def Let_def wire_bytes)

lemma length_mem_bytes [simp]: "length (mem_bytes e n v) = n"
  by (cases e) simp_all

lemma read_fixed_enc:
  assumes "LENGTH('a) = 8 * n" and "0 < n" and "ba_ok b" and "unread b = mem_bytes (m_endian b) n v @ rest"
  shows "\<exists>b'. read_fixed host n b = (Inr (v :: 'a::len word), b') \<and> advanced b n b'"
proof -
  obtain b' where "ba_read n b = (Inr (mem_bytes (m_endian b) n v), b')" "advanced b n b'"
    using ba_read_prefix [OF assms(3,4)] assms(2) by (metis length_mem_bytes list.size(3) neq0_conv)
  then show ?thesis
    using wire_value [OF assms(1), of "m_endian b" host v]
    by (simp add: read_fixed_def ba_bind_def ba_return_def Let_def advanced_def)
qed

lemma codec_fixed:
  "LENGTH('a) = 8 * n \<Longrightarrow> 0 < n \<Longrightarrow>
    codec (\<lambda>e. mem_bytes e n) (write_fixed host n) (read_fixed host n :: 'a::len word ba) (\<lambda>_. True) (\<lambda>_. False)"
proof (rule codec_bytesI)
  show "mem_bytes e n (v :: 'a word) \<noteq> []" if "0 < n" for e and v :: "'a word"
    using that length_mem_bytes [of e n v] by (metis list.size(3) less_irrefl)
qed (simp_all add: write_fixed_enc read_fixed_enc)

lemma byte_order_irrelevant: "mem_bytes e 1 (v :: u8) = mem_bytes e' 1 v" "mem_value e [c] = (mem_value e' [c] :: u8)"
  by (cases e; cases e'; simp add: le_bytes_def)+

lemma read_byte_enc:
  assumes "ba_ok b" and "unread b = c # rest"
  shows "\<exists>b'. readFuint8 host b = (Inr (of_nat (ord c)), b') \<and> advanced b 1 b'"
proof -
  have "mem_value host [c] = (of_nat (ord c) :: u8)"
    by (cases host) (simp_all add: le_value_def)
  then show ?thesis
    using ba_read_prefix [of b "[c]" rest] assms by (auto simp: readFuint8_def ba_bind_def ba_return_def)
qed

lemma mem_bytes_1: "mem_bytes e 1 (v :: u8) = [char_of (unat v)]"
  by (cases e) (simp_all add: le_bytes_def)

lemma codec_byte: "codec (\<lambda>e. mem_bytes e 1) (writeFuint8 host) (readFuint8 host) (\<lambda>_. True) (\<lambda>_. False)"
proof (rule codec_bytesI)
  show "\<exists>b'. readFuint8 host b = (Inr v, b') \<and> advanced b (length (mem_bytes (m_endian b) 1 v)) b'"
    if "ba_ok b" "unread b = mem_bytes (m_endian b) 1 v @ rest" for b v rest
    using read_byte_enc [of b "char_of (unat v)" rest host] that unsigned_less [of v, where 'a = nat]
    by (simp add: mem_bytes_1 [unfolded One_nat_def] del: unsigned_less)
qed (simp_all add: writeFuint8_def mem_bytes_1 [unfolded One_nat_def])

section \<open>Variable length\<close>

text \<open>The format: seven bits a byte, the lowest first, the highest bit set in all but the last byte.\<close>

fun varint_bytes :: "nat \<Rightarrow> string" where
  "varint_bytes n = (if n < 128 then [char_of n] else char_of (n mod 128 + 128) # varint_bytes (n div 128))"

declare varint_bytes.simps [simp del]

lemma varint_nonempty: "varint_bytes n \<noteq> []"
  by (subst varint_bytes.simps) simp

lemma varint_length: "n < 128 ^ Suc k \<Longrightarrow> length (varint_bytes n) \<le> Suc k"
proof (induction k arbitrary: n)
  case 0
  then show ?case
    by (subst varint_bytes.simps) simp
next
  case (Suc k)
  then have "n div 128 < 128 ^ Suc k"
    by (simp add: div_less_iff_less_mult)
  with Suc.IH show ?case
    by (subst varint_bytes.simps) simp
qed

lemma unat_80: "unat (0x80 :: 'a::len word) = 128" "256 \<le> (2 :: nat) ^ LENGTH('a)" if "8 \<le> LENGTH('a)"
proof -
  show "256 \<le> (2 :: nat) ^ LENGTH('a)"
    using power_increasing [OF that, of "2 :: nat"] by simp
  then show "unat (0x80 :: 'a word) = 128"
    by (simp add: take_bit_nat_eq_self)
qed

lemma seven_bits: "unat ((v AND 0x7F) OR 0x80) = unat v mod 128 + 128" if "8 \<le> LENGTH('a)" for v :: "'a::len word"
proof -
  have "v AND 0x7F = take_bit 7 v"
    by (simp add: take_bit_eq_mask mask_numeral)
  moreover have "take_bit 7 v AND 2 ^ 7 = 0"
    unfolding and_exp_eq_0_iff_not_bit by (simp add: bit_take_bit_iff)
  ultimately have e: "(v AND 0x7F) OR 0x80 = take_bit 7 v + 0x80"
    by (simp add: disjunctive_add_eq_or)
  have "unat (take_bit 7 v) = unat v mod 128"
    by (simp only: unsigned_take_bit_eq) (simp add: take_bit_eq_mod)
  moreover have "unat v mod 128 + 128 < 2 ^ LENGTH('a)"
    using unat_80 [OF that] mod_less_divisor [of 128 "unat v"] by linarith
  ultimately show ?thesis
    using unat_80 [OF that] by (simp add: e unat_word_ariths)
qed

lemma varint_loop_eq:
  "8 \<le> LENGTH('a) \<Longrightarrow> unat v < 128 ^ k \<Longrightarrow> 0 < k \<Longrightarrow> varint_loop k (v :: 'a::len word) = Inr (varint_bytes (unat v))"
proof (induction k arbitrary: v)
  case (Suc k)
  have ge: "v \<ge> 0x80 \<longleftrightarrow> unat v \<ge> 128"
    using unat_80 [OF Suc.prems(1)] by (simp only: word_le_nat_alt)
  show ?case
  proof (cases "unat v \<ge> 128")
    case True
    have d: "unat (drop_bit 7 v) = unat v div 128"
      by (simp only: unat_drop_bit_eq) (simp add: drop_bit_eq_div)
    have "0 < k"
      using Suc.prems(2) True by (cases k) auto
    moreover have "unat (drop_bit 7 v) < 128 ^ k"
      using Suc.prems(2) by (simp add: d div_less_iff_less_mult)
    ultimately have "varint_loop k (drop_bit 7 v) = Inr (varint_bytes (unat v div 128))"
      using Suc.IH [of "drop_bit 7 v"] Suc.prems(1) d by simp
    then show ?thesis
      using True ge by (subst varint_bytes.simps) (simp add: seven_bits [OF Suc.prems(1)])
  next
    case False
    then show ?thesis
      using ge by (subst varint_bytes.simps) simp
  qed
qed simp

text \<open>Putting seven bits in front of a number.\<close>

lemma push_seven: "push_bit i (of_nat (n mod 128)) OR push_bit (i + 7) (of_nat (n div 128)) = push_bit i (of_nat n :: 'a::len word)"
proof (rule bit_eqI)
  fix k
  have "n mod 128 = take_bit 7 n" "n div 128 = drop_bit 7 n"
    by (simp_all add: take_bit_eq_mod drop_bit_eq_div)
  then show "bit (push_bit i (of_nat (n mod 128)) OR push_bit (i + 7) (of_nat (n div 128)) :: 'a word) k =
      bit (push_bit i (of_nat n) :: 'a word) k"
    by (cases "i + 7 \<le> k") (auto simp: bit_simps not_le)
qed

lemma byte_cases:
  assumes "m < 256"
  shows "of_nat (ord (char_of m)) < (0x80 :: u8) \<longleftrightarrow> m < 128"
    and "ucast (of_nat (ord (char_of m)) :: u8) = (of_nat m :: 'a::len word)"
    and "ucast ((of_nat (ord (char_of m)) :: u8) AND 0x7f) = (of_nat (m mod 128) :: 'a::len word)"
proof -
  have m: "unat (of_nat m :: u8) = m" and c: "ord (char_of m) = m"
    using assms by (simp_all add: unat_of_nat)
  show "of_nat (ord (char_of m)) < (0x80 :: u8) \<longleftrightarrow> m < 128"
    using assms m by (simp add: word_less_nat_alt)
  show "ucast (of_nat (ord (char_of m)) :: u8) = (of_nat m :: 'a word)"
    by (metis m c of_nat_unat)
  have "(of_nat m :: u8) AND 0x7f = take_bit 7 (of_nat m)"
    by (simp add: take_bit_eq_mask mask_numeral)
  then have "unat ((of_nat m :: u8) AND 0x7f) = m mod 128"
    by (simp only: unsigned_take_bit_eq m) (simp add: take_bit_eq_mod)
  then show "ucast ((of_nat (ord (char_of m)) :: u8) AND 0x7f) = (of_nat (m mod 128) :: 'a word)"
    by (metis c of_nat_unat)
qed

lemma read_varint_enc:
  fixes r :: "'a::len word"
  assumes "ba_ok b" and "unread b = varint_bytes n @ rest" and "n < 2 ^ (LENGTH('a) - i)" and "i < LENGTH('a)"
  shows "\<exists>b'. read_varint host LENGTH('a) i r b = (Inr (r OR push_bit i (of_nat n)), b') \<and> advanced b (length (varint_bytes n)) b'"
  using assms
proof (induction n arbitrary: b i r rule: varint_bytes.induct)
  case (1 n)
  show ?case
  proof (cases "n < 128")
    case True
    then have bs: "varint_bytes n = [char_of n]"
      by (subst varint_bytes.simps) simp
    then obtain b' where "readFuint8 host b = (Inr (of_nat (ord (char_of n))), b')" "advanced b 1 b'"
      using read_byte_enc [OF 1(2), of "char_of n" rest host] 1(3) by auto
    then show ?thesis
      using True 1(5) byte_cases(1) [of n] byte_cases(2) [of n, where 'a = 'a] bs
      by (subst read_varint.simps) (simp add: ba_bind_def ba_return_def)
  next
    case False
    let ?m = "n mod 128 + 128" and ?r = "r OR push_bit i (of_nat (n mod 128))"
    have bs: "varint_bytes n = char_of ?m # varint_bytes (n div 128)"
      using False by (subst varint_bytes.simps) simp
    have m: "?m < 256" "\<not> ?m < 128" "?m mod 128 = n mod 128"
      by (simp_all add: mod_less_divisor [of 128 n, simplified])
    obtain b1 where b1: "readFuint8 host b = (Inr (of_nat (ord (char_of ?m))), b1)" "advanced b 1 b1"
      using read_byte_enc [OF 1(2), of "char_of ?m" _ host] 1(3) bs by auto
    have "(2 :: nat) ^ 7 < 2 ^ (LENGTH('a) - i)"
      using 1(4) False by simp
    then have i: "7 < LENGTH('a) - i"
      by (simp only: power_strict_increasing_iff one_less_numeral_iff semiring_norm)
    then have "LENGTH('a) - i = (LENGTH('a) - (i + 7)) + 7"
      by simp
    then have "(2 :: nat) ^ (LENGTH('a) - i) = 2 ^ (LENGTH('a) - (i + 7)) * 2 ^ 7"
      by (simp only: power_add)
    then have "n div 128 < 2 ^ (LENGTH('a) - (i + 7))"
      using 1(4) by (simp add: div_less_iff_less_mult)
    moreover have "i + 7 < LENGTH('a)"
      using i by linarith
    moreover have "ba_ok b1" "unread b1 = varint_bytes (n div 128) @ rest"
      using b1(2) advanced_unread [OF b1(2)] 1(3) bs by (simp_all add: advanced_def)
    ultimately obtain b' where b': "read_varint host LENGTH('a) (i + 7) ?r b1 = (Inr (?r OR push_bit (i + 7) (of_nat (n div 128))), b')"
      "advanced b1 (length (varint_bytes (n div 128))) b'"
      using 1(1) [OF False, of b1 "i + 7" ?r] by auto
    have "?r OR push_bit (i + 7) (of_nat (n div 128)) = r OR push_bit i (of_nat n)"
      by (simp only: or.assoc push_seven)
    then show ?thesis
      using b' advanced_trans [OF b1(2) b'(2)] b1(1) 1(5) byte_cases(1) [OF m(1)] byte_cases(3) [OF m(1), where 'a = 'a] m(2,3) bs
      by (subst read_varint.simps) (simp add: ba_bind_def ba_return_def)
  qed
qed

lemma codec_varint:
  assumes "8 \<le> LENGTH('a)" and "2 ^ LENGTH('a) \<le> (128 :: nat) ^ k" and "0 < k"
  shows "codec (\<lambda>_ v. varint_bytes (unat v)) (write_varint k) (read_varint host LENGTH('a) 0 (0 :: 'a::len word)) (\<lambda>_. True) (\<lambda>_. False)"
proof (rule codec_bytesI)
  show "write_varint k v b = ba_write (varint_bytes (unat v)) b" for v :: "'a word" and b
    using varint_loop_eq [OF assms(1) _ assms(3), of v] assms(2) unsigned_less [of v, where 'a = nat]
    by (simp add: write_varint_def del: unsigned_less)
  show "\<exists>b'. read_varint host LENGTH('a) 0 (0 :: 'a word) b = (Inr v, b') \<and> advanced b (length (varint_bytes (unat v))) b'"
    if "ba_ok b" "unread b = varint_bytes (unat v) @ rest" for b v rest
    using read_varint_enc [OF that(1,2), of 0 host "0 :: 'a word"] by simp
qed (simp add: varint_nonempty)

text \<open>Zigzag: small numbers of either sign become small unsigned numbers.\<close>

lemma shift_back:
  fixes u c :: "'a::len word"
  assumes "k = 1" and "c = 0 \<or> c = 1"
  shows "\<not> bit u (LENGTH('a) - 1) \<Longrightarrow> drop_bit k (push_bit k u OR c) = u"
    and "(push_bit k u OR c) AND 1 = c"
    and "push_bit k u + c = push_bit k u OR c"
proof -
  have k: "0 < k"
    using assms(1) by simp
  have "k + n < LENGTH('a)" if "\<not> bit u (LENGTH('a) - 1)" "bit u n" for n
  proof -
    have "n < LENGTH('a)" "n \<noteq> LENGTH('a) - 1"
      using that bit_imp_le_length [of u n] by auto
    then show ?thesis
      using assms(1) by linarith
  qed
  then show "drop_bit k (push_bit k u OR c) = u" if "\<not> bit u (LENGTH('a) - 1)"
    using that assms(2) k by (intro bit_eqI) (auto simp: bit_simps)
  show "(push_bit k u OR c) AND 1 = c"
    using assms(2) k by (intro bit_eqI) (auto simp: bit_simps)
  show "push_bit k u + c = push_bit k u OR c"
    using assms(2) k by (intro disjunctive_add_eq_or bit_eqI) (auto simp: bit_simps)
qed

lemma zigzag:
  fixes v :: "'a::len word"
  defines "w \<equiv> (if sint v < 0 then (- v) * 2 - 1 else v * 2)"
  shows "drop_bit 1 w XOR - (w AND 1) = v"
proof (cases "sint v < 0")
  case True
  then have "bit v (LENGTH('a) - 1)"
    by (simp add: bit_last_iff)
  then have u: "\<not> bit (NOT v) (LENGTH('a) - 1)"
    by (simp add: bit_simps)
  have "w = push_bit 1 (NOT v) + 1"
    using True by (simp add: w_def not_eq_complement algebra_simps)
  then have w: "w = push_bit 1 (NOT v) OR 1"
    using shift_back(3) [of 1 1 "NOT v"] by (simp only: refl simp_thms)
  show ?thesis
    unfolding w using shift_back(1,2) [of 1 1 "NOT v"] u by (simp only: refl simp_thms) simp
next
  case False
  then have u: "\<not> bit v (LENGTH('a) - 1)"
    by (simp add: bit_last_iff)
  have w: "w = push_bit 1 v OR 0"
    using False by (simp add: w_def mult.commute)
  show ?thesis
    unfolding w using shift_back(1,2) [of 1 0 v] u by (simp only: refl simp_thms) simp
qed

section \<open>Length and contents\<close>

lemma overwrite_append:
  "p \<le> length xs \<Longrightarrow> overwrite (p + length u) v (overwrite p u xs) = overwrite p (u @ v) xs"
  by (simp add: overwrite_def min_def ac_simps)

text \<open>A codec for the length gives one for strings with the length in front.\<close>

locale length_codec = codec enc wr rd "\<lambda>_. True" "\<lambda>_. False"
  for enc :: "endian \<Rightarrow> 'a::len word \<Rightarrow> string" and wr :: "'a word \<Rightarrow> unit ba" and rd :: "'a word ba"
begin

abbreviation enc_string :: "endian \<Rightarrow> string \<Rightarrow> string" where
  "enc_string e s \<equiv> enc e (of_nat (length s)) @ s"

lemma string_codec:
  "codec enc_string (\<lambda>s. ba_bind (wr (of_nat (length s))) (\<lambda>_. ba_write s)) (ba_bind rd (read_string max_size))
    (\<lambda>s. length s < 2 ^ LENGTH('a) \<and> length s \<le> max_size) (\<lambda>s. s = [])"
proof
  fix b s
  assume ok: "ba_ok b" and "length (s :: string) < 2 ^ LENGTH('a) \<and> length s \<le> max_size"
  let ?n = "of_nat (length s) :: 'a word"
  obtain b1 where b1: "wr ?n b = (Inr (), b1)" "ba_ok b1" "bytes b1 = overwrite (m_position b) (enc (m_endian b) ?n) (bytes b)"
    "m_position b1 = m_position b + length (enc (m_endian b) ?n)" "m_endian b1 = m_endian b" "m_baseSize b1 = m_baseSize b"
    using wr_enc [OF ok TrueI, of ?n] by blast
  have "m_position b \<le> length (bytes b)"
    using ok by (simp add: length_bytes) (simp add: ba_ok_def)
  from overwrite_append [OF this, of "enc (m_endian b) ?n" s]
  show "\<exists>b'. ba_bind (wr ?n) (\<lambda>_. ba_write s) b = (Inr (), b') \<and> ba_ok b' \<and>
      bytes b' = overwrite (m_position b) (enc_string (m_endian b) s) (bytes b) \<and>
      m_position b' = m_position b + length (enc_string (m_endian b) s) \<and> m_endian b' = m_endian b \<and> m_baseSize b' = m_baseSize b"
    using b1 ba_write_ok [OF b1(2), of s] by (auto simp: ba_bind_def)
next
  fix b s rest
  assume ok: "ba_ok b" and s: "length (s :: string) < 2 ^ LENGTH('a) \<and> length s \<le> max_size"
    and u: "unread b = enc_string (m_endian b) s @ rest"
    and room: "s = [] \<Longrightarrow> m_position b + length (enc_string (m_endian b) s) < m_capacity b"
  let ?n = "of_nat (length s) :: 'a word"
  have n: "unat ?n = length s"
    using s by (simp add: unat_of_nat)
  obtain b1 where b1: "rd b = (Inr ?n, b1)" "advanced b (length (enc (m_endian b) ?n)) b1"
    using rd_enc [OF ok TrueI, of ?n "s @ rest"] u by auto
  have "ba_ok b1" "unread b1 = s @ rest"
    using b1(2) advanced_unread [OF b1(2)] u by (simp_all add: advanced_def)
  moreover have "s = [] \<Longrightarrow> m_position b1 < m_capacity b1"
    using room b1(2) by (simp add: advanced_def)
  ultimately obtain b2 where "ba_read (length s) b1 = (Inr s, b2)" "advanced b1 (length s) b2"
    using ba_read_prefix by blast
  then show "\<exists>b'. ba_bind rd (read_string max_size) b = (Inr s, b') \<and> advanced b (length (enc_string (m_endian b) s)) b'"
    using b1 s advanced_trans [OF b1(2)] by (auto simp: ba_bind_def read_string_def n)
next
  show "enc_string e s \<noteq> []" for e s
    using enc_nonempty by simp
qed

end

section \<open>The functions of \<open>ByteArray\<close>\<close>

interpretation fixed8: codec "\<lambda>e. mem_bytes e 1" "writeFuint8 host" "readFuint8 host" "\<lambda>_. True" "\<lambda>_. False" for host
  by (rule codec_byte)

interpretation fixed16: length_codec "\<lambda>e. mem_bytes e 2" "writeFuint16 host" "readFuint16 host" for host
  unfolding length_codec_def writeFuint16_def readFuint16_def by (rule codec_fixed) simp_all

interpretation fixed32: length_codec "\<lambda>e. mem_bytes e 4" "writeFuint32 host" "readFuint32 host" for host
  unfolding length_codec_def writeFuint32_def readFuint32_def by (rule codec_fixed) simp_all

interpretation fixed64: length_codec "\<lambda>e. mem_bytes e 8" "writeFuint64 host" "readFuint64 host" for host
  unfolding length_codec_def writeFuint64_def readFuint64_def by (rule codec_fixed) simp_all

interpretation varint32: codec "\<lambda>_ v. varint_bytes (unat v)" writeUint32 "readUint32 host" "\<lambda>_. True" "\<lambda>_. False" for host
  using codec_varint [where 'a = 32, of 5 host] unfolding writeUint32_def [abs_def] readUint32_def by simp

interpretation varint64: length_codec "\<lambda>_ v. varint_bytes (unat v)" writeUint64 "readUint64 host" for host
  using codec_varint [where 'a = 64, of 10 host]
  unfolding length_codec_def writeUint64_def [abs_def] readUint64_def by simp

lemma zigzag32: "DecodeZigzag32 (EncodeZigzag32 v) = v"
  unfolding DecodeZigzag32_def EncodeZigzag32_def by (rule zigzag)

lemma zigzag64: "DecodeZigzag64 (EncodeZigzag64 v) = v"
  unfolding DecodeZigzag64_def EncodeZigzag64_def by (rule zigzag)

interpretation zigzag32: codec "\<lambda>_ v. varint_bytes (unat (EncodeZigzag32 v))" writeInt32 "readInt32 host" "\<lambda>_. True" "\<lambda>_. False" for host
proof
  show "\<exists>b'. readInt32 host b = (Inr v, b') \<and> advanced b (length (varint_bytes (unat (EncodeZigzag32 v)))) b'"
    if "ba_ok b" "unread b = varint_bytes (unat (EncodeZigzag32 v)) @ rest" for b v rest
    using varint32.rd_enc [OF that(1) TrueI that(2), of host] by (auto simp: readInt32_def ba_bind_def ba_return_def zigzag32)
qed (simp_all add: writeInt32_def varint32.wr_enc varint_nonempty)

interpretation zigzag64: codec "\<lambda>_ v. varint_bytes (unat (EncodeZigzag64 v))" writeInt64 "readInt64 host" "\<lambda>_. True" "\<lambda>_. False" for host
proof
  show "\<exists>b'. readInt64 host b = (Inr v, b') \<and> advanced b (length (varint_bytes (unat (EncodeZigzag64 v)))) b'"
    if "ba_ok b" "unread b = varint_bytes (unat (EncodeZigzag64 v)) @ rest" for b v rest
    using varint64.rd_enc [OF that(1) TrueI that(2), of host] by (auto simp: readInt64_def ba_bind_def ba_return_def zigzag64)
qed (simp_all add: writeInt64_def varint64.wr_enc varint_nonempty)

interpretation string16: codec "fixed16.enc_string" "writeStringF16 host" "readStringF16 max_size host"
  "\<lambda>s. length s < 2 ^ 16 \<and> length s \<le> max_size" "\<lambda>s. s = []" for max_size host
  using fixed16.string_codec [of host max_size] unfolding writeStringF16_def [abs_def] readStringF16_def by simp

interpretation string32: codec "fixed32.enc_string" "writeStringF32 host" "readStringF32 max_size host"
  "\<lambda>s. length s < 2 ^ 32 \<and> length s \<le> max_size" "\<lambda>s. s = []" for max_size host
  using fixed32.string_codec [of host max_size] unfolding writeStringF32_def [abs_def] readStringF32_def by simp

interpretation string64: codec "fixed64.enc_string" "writeStringF64 host" "readStringF64 max_size host"
  "\<lambda>s. length s < 2 ^ 64 \<and> length s \<le> max_size" "\<lambda>s. s = []" for max_size host
  using fixed64.string_codec [of host max_size] unfolding writeStringF64_def [abs_def] readStringF64_def by simp

interpretation stringv: codec "varint64.enc_string" writeStringVint "readStringVint max_size host"
  "\<lambda>s. length s < 2 ^ 64 \<and> length s \<le> max_size" "\<lambda>s. s = []" for max_size host
  using varint64.string_codec [of host max_size] unfolding writeStringVint_def [abs_def] readStringVint_def by simp

section \<open>Sequences of values\<close>

text \<open>A value with the function that writes it; \<open>read_field\<close> uses the function for the same type.\<close>

datatype field =
  Fint8 u8 | Fuint8 u8 | Fint16 u16 | Fuint16 u16 | Fint32 u32 | Fuint32 u32 | Fint64 u64 | Fuint64 u64 |
  Int32 u32 | Uint32 u32 | Int64 u64 | Uint64 u64 | Float u32 | Double u64 |
  StringF16 string | StringF32 string | StringF64 string | StringVint string

fun write_field :: "endian \<Rightarrow> field \<Rightarrow> unit ba" where
  "write_field host (Fint8 v) = writeFint8 host v"
| "write_field host (Fuint8 v) = writeFuint8 host v"
| "write_field host (Fint16 v) = writeFint16 host v"
| "write_field host (Fuint16 v) = writeFuint16 host v"
| "write_field host (Fint32 v) = writeFint32 host v"
| "write_field host (Fuint32 v) = writeFuint32 host v"
| "write_field host (Fint64 v) = writeFint64 host v"
| "write_field host (Fuint64 v) = writeFuint64 host v"
| "write_field host (Int32 v) = writeInt32 v"
| "write_field host (Uint32 v) = writeUint32 v"
| "write_field host (Int64 v) = writeInt64 v"
| "write_field host (Uint64 v) = writeUint64 v"
| "write_field host (Float v) = writeFloat host v"
| "write_field host (Double v) = writeDouble host v"
| "write_field host (StringF16 s) = writeStringF16 host s"
| "write_field host (StringF32 s) = writeStringF32 host s"
| "write_field host (StringF64 s) = writeStringF64 host s"
| "write_field host (StringVint s) = writeStringVint s"

definition ba_map :: "('a \<Rightarrow> 'c) \<Rightarrow> 'a ba \<Rightarrow> 'c ba" where
  "ba_map f m = ba_bind m (\<lambda>x. ba_return (f x))"

fun read_field :: "nat \<Rightarrow> endian \<Rightarrow> field \<Rightarrow> field ba" where
  "read_field max_size host (Fint8 _) = ba_map Fint8 (readFint8 host)"
| "read_field max_size host (Fuint8 _) = ba_map Fuint8 (readFuint8 host)"
| "read_field max_size host (Fint16 _) = ba_map Fint16 (readFint16 host)"
| "read_field max_size host (Fuint16 _) = ba_map Fuint16 (readFuint16 host)"
| "read_field max_size host (Fint32 _) = ba_map Fint32 (readFint32 host)"
| "read_field max_size host (Fuint32 _) = ba_map Fuint32 (readFuint32 host)"
| "read_field max_size host (Fint64 _) = ba_map Fint64 (readFint64 host)"
| "read_field max_size host (Fuint64 _) = ba_map Fuint64 (readFuint64 host)"
| "read_field max_size host (Int32 _) = ba_map Int32 (readInt32 host)"
| "read_field max_size host (Uint32 _) = ba_map Uint32 (readUint32 host)"
| "read_field max_size host (Int64 _) = ba_map Int64 (readInt64 host)"
| "read_field max_size host (Uint64 _) = ba_map Uint64 (readUint64 host)"
| "read_field max_size host (Float _) = ba_map Float (readFloat host)"
| "read_field max_size host (Double _) = ba_map Double (readDouble host)"
| "read_field max_size host (StringF16 _) = ba_map StringF16 (readStringF16 max_size host)"
| "read_field max_size host (StringF32 _) = ba_map StringF32 (readStringF32 max_size host)"
| "read_field max_size host (StringF64 _) = ba_map StringF64 (readStringF64 max_size host)"
| "read_field max_size host (StringVint _) = ba_map StringVint (readStringVint max_size host)"

fun write_fields :: "endian \<Rightarrow> field list \<Rightarrow> unit ba" where
  "write_fields host [] = ba_return ()"
| "write_fields host (f # fs) = ba_bind (write_field host f) (\<lambda>_. write_fields host fs)"

fun read_fields :: "nat \<Rightarrow> endian \<Rightarrow> field list \<Rightarrow> field list ba" where
  "read_fields max_size host [] = ba_return []"
| "read_fields max_size host (f # fs) =
     ba_bind (read_field max_size host f) (\<lambda>x. ba_map (\<lambda>xs. x # xs) (read_fields max_size host fs))"

fun enc_field :: "endian \<Rightarrow> field \<Rightarrow> string" where
  "enc_field e (Fint8 v) = mem_bytes e 1 v"
| "enc_field e (Fuint8 v) = mem_bytes e 1 v"
| "enc_field e (Fint16 v) = mem_bytes e 2 v"
| "enc_field e (Fuint16 v) = mem_bytes e 2 v"
| "enc_field e (Fint32 v) = mem_bytes e 4 v"
| "enc_field e (Fuint32 v) = mem_bytes e 4 v"
| "enc_field e (Fint64 v) = mem_bytes e 8 v"
| "enc_field e (Fuint64 v) = mem_bytes e 8 v"
| "enc_field e (Int32 v) = varint_bytes (unat (EncodeZigzag32 v))"
| "enc_field e (Uint32 v) = varint_bytes (unat v)"
| "enc_field e (Int64 v) = varint_bytes (unat (EncodeZigzag64 v))"
| "enc_field e (Uint64 v) = varint_bytes (unat v)"
| "enc_field e (Float v) = mem_bytes e 4 v"
| "enc_field e (Double v) = mem_bytes e 8 v"
| "enc_field e (StringF16 s) = fixed16.enc_string e s"
| "enc_field e (StringF32 s) = fixed32.enc_string e s"
| "enc_field e (StringF64 s) = fixed64.enc_string e s"
| "enc_field e (StringVint s) = varint64.enc_string e s"

fun valid_field :: "nat \<Rightarrow> field \<Rightarrow> bool" where
  "valid_field max_size (StringF16 s) = (length s < 2 ^ 16 \<and> length s \<le> max_size)"
| "valid_field max_size (StringF32 s) = (length s < 2 ^ 32 \<and> length s \<le> max_size)"
| "valid_field max_size (StringF64 s) = (length s < 2 ^ 64 \<and> length s \<le> max_size)"
| "valid_field max_size (StringVint s) = (length s < 2 ^ 64 \<and> length s \<le> max_size)"
| "valid_field max_size f = True"

definition empty_string :: "field \<Rightarrow> bool" where
  "empty_string f \<longleftrightarrow> f \<in> {StringF16 [], StringF32 [], StringF64 [], StringVint []}"

lemma same_functions:
  "writeFint8 = writeFuint8" "writeFint16 = writeFuint16" "writeFint32 = writeFuint32" "writeFint64 = writeFuint64"
  "readFint8 = readFuint8" "readFint16 = readFuint16" "readFint32 = readFuint32" "readFint64 = readFuint64"
  "writeFloat = writeFuint32" "writeDouble = writeFuint64" "readFloat = readFuint32" "readDouble = readFuint64"
  by (simp_all add: fun_eq_iff writeFint8_def writeFuint8_def writeFint16_def writeFuint16_def writeFint32_def writeFuint32_def
      writeFint64_def writeFuint64_def readFint8_def readFuint8_def readFint16_def readFuint16_def readFint32_def readFuint32_def
      readFint64_def readFuint64_def writeFloat_def writeDouble_def readFloat_def readDouble_def)

lemma write_field_enc:
  assumes "ba_ok b" and "valid_field max_size f"
  shows "\<exists>b'. write_field host f b = (Inr (), b') \<and> ba_ok b' \<and> bytes b' = overwrite (m_position b) (enc_field (m_endian b) f) (bytes b) \<and>
    m_position b' = m_position b + length (enc_field (m_endian b) f) \<and> m_endian b' = m_endian b \<and> m_baseSize b' = m_baseSize b"
  using assms
  by (cases f)
    (simp_all only: write_field.simps enc_field.simps valid_field.simps same_functions TrueI fixed8.wr_enc fixed16.wr_enc fixed32.wr_enc
      fixed64.wr_enc varint32.wr_enc varint64.wr_enc zigzag32.wr_enc zigzag64.wr_enc
      string16.wr_enc [where max_size = max_size] string32.wr_enc [where max_size = max_size]
      string64.wr_enc [where max_size = max_size] stringv.wr_enc [where max_size = max_size])

lemma ba_map_ok: "\<exists>b'. m b = (Inr v, b') \<and> P b' \<Longrightarrow> \<exists>b'. ba_map f m b = (Inr (f v), b') \<and> P b'"
  by (auto simp: ba_map_def ba_bind_def ba_return_def)

lemma read_field_enc:
  assumes "ba_ok b" and "valid_field max_size f" and "unread b = enc_field (m_endian b) f @ rest"
    and "empty_string f \<Longrightarrow> m_position b + length (enc_field (m_endian b) f) < m_capacity b"
  shows "\<exists>b'. read_field max_size host f b = (Inr f, b') \<and> advanced b (length (enc_field (m_endian b) f)) b'"
  using assms
  by (cases f)
    (simp_all only: read_field.simps enc_field.simps valid_field.simps same_functions empty_string_def,
     (rule ba_map_ok, (rule fixed8.rd_enc fixed16.rd_enc fixed32.rd_enc fixed64.rd_enc varint32.rd_enc varint64.rd_enc zigzag32.rd_enc
       zigzag64.rd_enc string16.rd_enc string32.rd_enc string64.rd_enc stringv.rd_enc; simp))+)

abbreviation enc_fields :: "endian \<Rightarrow> field list \<Rightarrow> string" where
  "enc_fields e fs \<equiv> concat (map (enc_field e) fs)"

lemma write_fields_enc:
  assumes "ba_ok b" and "\<forall>f\<in>set fs. valid_field max_size f"
  shows "\<exists>b'. write_fields host fs b = (Inr (), b') \<and> ba_ok b' \<and>
    bytes b' = overwrite (m_position b) (enc_fields (m_endian b) fs) (bytes b) \<and>
    m_position b' = m_position b + length (enc_fields (m_endian b) fs) \<and> m_endian b' = m_endian b"
  using assms
proof (induction fs arbitrary: b)
  case Nil
  then show ?case
    by (simp add: ba_return_def overwrite_def)
next
  case (Cons f fs)
  let ?e = "enc_field (m_endian b) f"
  obtain b1 where b1: "write_field host f b = (Inr (), b1)" "ba_ok b1" "bytes b1 = overwrite (m_position b) ?e (bytes b)"
    "m_position b1 = m_position b + length ?e" "m_endian b1 = m_endian b"
    using write_field_enc [of b max_size f host] Cons.prems by auto
  have "m_position b \<le> length (bytes b)"
    using Cons.prems(1) by (simp add: length_bytes) (simp add: ba_ok_def)
  from overwrite_append [OF this, of ?e "enc_fields (m_endian b) fs"] show ?case
    using Cons.IH [OF b1(2)] Cons.prems(2) b1 by (auto simp: ba_bind_def)
qed

lemma read_fields_enc:
  assumes "ba_ok b" and "\<forall>f\<in>set fs. valid_field max_size f" and "unread b = enc_fields (m_endian b) fs @ rest"
    and "(\<exists>f\<in>set fs. empty_string f) \<longrightarrow> m_position b + length (enc_fields (m_endian b) fs) < m_capacity b"
  shows "\<exists>b'. read_fields max_size host fs b = (Inr fs, b') \<and> advanced b (length (enc_fields (m_endian b) fs)) b'"
  using assms
proof (induction fs arbitrary: b)
  case Nil
  then show ?case
    by (simp add: ba_return_def advanced_def)
next
  case (Cons f fs)
  let ?e = "enc_field (m_endian b) f"
  obtain b1 where b1: "read_field max_size host f b = (Inr f, b1)" "advanced b (length ?e) b1"
    using read_field_enc [of b max_size f "enc_fields (m_endian b) fs @ rest" host] Cons.prems by auto
  have "ba_ok b1" "m_endian b1 = m_endian b" "unread b1 = enc_fields (m_endian b) fs @ rest"
    "m_position b1 = m_position b + length ?e" "m_capacity b1 = m_capacity b"
    using b1(2) advanced_unread [OF b1(2)] Cons.prems(3) by (simp_all add: advanced_def)
  then obtain b2 where "read_fields max_size host fs b1 = (Inr fs, b2)" "advanced b1 (length (enc_fields (m_endian b) fs)) b2"
    using Cons.IH [of b1] Cons.prems(2,4) by auto
  then show ?case
    using b1 advanced_trans [OF b1(2)] by (auto simp: ba_bind_def ba_map_def ba_return_def)
qed

section \<open>Properties\<close>



text \<open>
  The varint functions write at most five and ten bytes, so that the local array \<open>tmp\<close> is never
  overrun, and what they write is seven bits a byte with the lowest first.
\<close>

theorem varint_fits:
  "varint_loop 5 (v :: u32) = Inr (varint_bytes (unat v)) \<and> length (varint_bytes (unat v)) \<le> 5 \<and>
    varint_loop 10 (w :: u64) = Inr (varint_bytes (unat w)) \<and> length (varint_bytes (unat w)) \<le> 10"
proof -
  have v: "unat v < 128 ^ Suc 4" and w: "unat w < 128 ^ Suc 9"
    using unsigned_less [of v, where 'a = nat] unsigned_less [of w, where 'a = nat] by simp_all
  then show ?thesis
    using varint_length [OF v] varint_length [OF w] varint_loop_eq [of v 5] varint_loop_eq [of w 10] by simp
qed

text \<open>
  A string of 65536 bytes or more loses the upper part of its length in \<open>writeStringF16\<close>: the length
  field is that of a shorter string, and all the bytes follow.
\<close>

lemma writeStringF16_truncates:
  assumes "length s = 65536 + k"
  shows "writeStringF16 host s = ba_bind (writeFuint16 host (of_nat k)) (\<lambda>_. ba_write s)"
proof -
  have "(of_nat (length s) :: u16) = of_nat k"
    using assms by (simp only: word_of_nat_eq_iff take_bit_eq_mod) simp
  then show ?thesis
    by (simp only: writeStringF16_def)
qed

text \<open>
  An empty string whose length field ends at the very end of the memory cannot be read back: the
  \<open>read\<close> of no bytes dereferences the null pointer \<open>m_cur\<close>.
\<close>

theorem empty_string_at_end:
  assumes "ba_reach b" and "unread b = mem_bytes (m_endian b) 2 (0 :: u16)" and "m_position b + 2 = m_capacity b"
  shows "\<exists>b'. readStringF16 max_size host b = (Inl Null_deref, b')"
proof -
  note ok = ba_reach_ok [OF assms(1)]
  obtain b1 where "readFuint16 host b = (Inr 0, b1)" "advanced b 2 b1"
    using fixed16.rd_enc [OF ok TrueI, of 0 "[]" host] assms(2) by auto
  moreover from this assms(3) have "ba_read 0 b1 = (Inl Null_deref, b1)"
    by (intro ba_read_end) (simp_all add: advanced_def)
  ultimately show ?thesis
    by (simp add: readStringF16_def ba_bind_def read_string_def)
qed

definition example_empty :: ByteArray where
  "example_empty = snd (setPosition 0 (snd (ba_write [NUL, NUL] (new_ByteArray (\<lambda>_. NUL) 2))))"

lemma example_empty_nodes:
  "m_nodes example_empty = [[NUL, NUL]]" "m_position example_empty = 0" "m_size example_empty = 2"
    "m_capacity example_empty = 2" "m_endian example_empty = SYLAR_BIG_ENDIAN"
  by code_simp+

theorem empty_string_at_end_witness: "\<exists>b'. readStringF16 100 SYLAR_LITTLE_ENDIAN example_empty = (Inl Null_deref, b')"
proof (rule empty_string_at_end)
  show "ba_reach example_empty"
    unfolding example_empty_def by (intro ba_reach_seek ba_reach_put ba_reach_new) simp
  show "unread example_empty = mem_bytes (m_endian example_empty) 2 (0 :: u16)"
    by (simp add: unread_def bytes_def flat_def example_empty_nodes le_bytes_def) code_simp
qed (simp add: example_empty_nodes)

end
