(* ===== verification/Addresses.thy ===== *)
theory Addresses
  imports Byte_Codec Std_Map Util
begin

text \<open>
  \<open>address.h\<close> and \<open>address.cc\<close>: socket addresses, their order, their text and the arithmetic of networks.

  The structures of the socket library are records; \<open>getAddr\<close> gives the bytes such a structure has in memory
  on a machine with byte order \<open>host\<close>, and \<open>Create\<close> reads them from memory. \<open>getaddrinfo\<close>, \<open>inet_pton\<close> and
  \<open>getifaddrs\<close> are arguments. A result \<open>None\<close> of an operation is undefined behaviour of the C++ code (an access
  outside an array, a null pointer followed, a shift that is too wide); a null pointer that is returned is \<open>Some None\<close>.
\<close>

section \<open>Structures of the socket library\<close>

record sockaddr =
  sa_family :: u16
  sa_data :: string

record sockaddr_in =
  sin_family :: u16
  sin_port :: u16
  sin_addr :: u32
  sin_zero :: string

record sockaddr_in6 =
  sin6_family :: u16
  sin6_port :: u16
  sin6_flowinfo :: u32
  sin6_addr :: "u8 list"
  sin6_scope_id :: u32

record sockaddr_un =
  sun_family :: u16
  sun_path :: string

definition AF_UNSPEC :: int where "AF_UNSPEC = 0"
definition AF_UNIX :: int where "AF_UNIX = 1"
definition AF_INET :: int where "AF_INET = 2"
definition AF_INET6 :: int where "AF_INET6 = 10"
definition AI_NUMERICHOST :: int where "AI_NUMERICHOST = 4"

text \<open>The size of \<open>sun_path\<close> and its offset.\<close>

definition UNIX_PATH_MAX :: nat where "UNIX_PATH_MAX = 108"
definition sun_offset :: nat where "sun_offset = 2"

definition byte_char :: "u8 \<Rightarrow> char" where
  "byte_char b = char_of (unat b)"

definition char_byte :: "char \<Rightarrow> u8" where
  "char_byte c = of_nat (ord c)"

definition zeros :: "nat \<Rightarrow> string" where
  "zeros n = replicate n NUL"

fun memcmp :: "string \<Rightarrow> string \<Rightarrow> int" where
  "memcmp (a # s) (b # t) = (if a = b then memcmp s t else int (ord a) - int (ord b))"
| "memcmp _ _ = 0"

fun memchr :: "char \<Rightarrow> string \<Rightarrow> nat option" where
  "memchr c [] = None"
| "memchr c (a # s) = (if a = c then Some 0 else map_option Suc (memchr c s))"

section \<open>Masks\<close>

text \<open>
  \<open>(1 << (sizeof(T) * 8 - bits)) - 1\<close>: the count is a \<open>size_t\<close> and wraps around, the \<open>1\<close> is an \<open>int\<close>. A count from
  32 on is undefined, and so is 31: \<open>1 << 31\<close> is the smallest \<open>int\<close>, from which 1 is taken.
\<close>

definition CreateMask :: "u32 \<Rightarrow> 'a::len word option" where
  "CreateMask bits =
     (let n = unat ((of_nat LENGTH('a) :: u64) - ucast bits)
      in if n < 31 then Some (of_nat (2 ^ n - 1)) else None)"

lemma clear_bit_less: "v \<noteq> 0 \<Longrightarrow> unat (v AND (v - 1)) < unat (v :: 'a::len word)"
proof -
  assume "v \<noteq> 0"
  then have "unat (v - 1) < unat v"
    using measure_unat by blast
  moreover have "unat (v AND (v - 1)) \<le> unat (v - 1)"
    using word_and_le1 [of v "v - 1"] by (simp add: word_le_nat_alt)
  ultimately show ?thesis
    by linarith
qed

function CountBytes_loop :: "'a::len word \<Rightarrow> u32 \<Rightarrow> u32" where
  "CountBytes_loop v result =
     (if v = 0 then result else CountBytes_loop (v AND (v - 1)) (result + 1))"
  by pat_completeness auto

termination
  by (relation "measure (\<lambda>(v, result). unat v)") (simp_all add: clear_bit_less)

declare CountBytes_loop.simps [simp del]

definition CountBytes :: "'a::len word \<Rightarrow> u32" where
  "CountBytes v = CountBytes_loop v 0"

section \<open>Addresses\<close>

datatype Address =
  IPv4Address sockaddr_in
| IPv6Address sockaddr_in6
| UnixAddress sockaddr_un u32
| UnknownAddress sockaddr

fun getAddr :: "endian \<Rightarrow> Address \<Rightarrow> string" where
  "getAddr host (IPv4Address m) =
     mem_bytes host 2 (sin_family m) @ mem_bytes host 2 (sin_port m) @ mem_bytes host 4 (sin_addr m) @ sin_zero m"
| "getAddr host (IPv6Address m) =
     mem_bytes host 2 (sin6_family m) @ mem_bytes host 2 (sin6_port m) @ mem_bytes host 4 (sin6_flowinfo m) @
     map byte_char (sin6_addr m) @ mem_bytes host 4 (sin6_scope_id m)"
| "getAddr host (UnixAddress m n) = mem_bytes host 2 (sun_family m) @ sun_path m"
| "getAddr host (UnknownAddress m) = mem_bytes host 2 (sa_family m) @ sa_data m"

fun getAddrLen :: "Address \<Rightarrow> u32" where
  "getAddrLen (IPv4Address m) = 16"
| "getAddrLen (IPv6Address m) = 28"
| "getAddrLen (UnixAddress m n) = n"
| "getAddrLen (UnknownAddress m) = 16"

fun getFamily :: "Address \<Rightarrow> int" where
  "getFamily (IPv4Address m) = uint (sin_family m)"
| "getFamily (IPv6Address m) = uint (sin6_family m)"
| "getFamily (UnixAddress m n) = uint (sun_family m)"
| "getFamily (UnknownAddress m) = uint (sa_family m)"

text \<open>\<open>operator<\<close> on the bytes of the two addresses, each of its own length.\<close>

definition mem_less :: "string \<Rightarrow> string \<Rightarrow> bool" where
  "mem_less s t =
     (let minlen = min (length s) (length t);
          result = memcmp (take minlen s) (take minlen t)
      in if result < 0 then True
         else if result > 0 then False
         else length s < length t)"

definition mem_equal :: "string \<Rightarrow> string \<Rightarrow> bool" where
  "mem_equal s t \<longleftrightarrow> length s = length t \<and> memcmp s t = 0"

definition addr_mem :: "endian \<Rightarrow> Address \<Rightarrow> string option" where
  "addr_mem host a =
     (if unat (getAddrLen a) \<le> length (getAddr host a) then Some (take (unat (getAddrLen a)) (getAddr host a)) else None)"

definition address_less :: "endian \<Rightarrow> Address \<Rightarrow> Address \<Rightarrow> bool option" where
  "address_less host a b =
     (case (addr_mem host a, addr_mem host b) of (Some s, Some t) \<Rightarrow> Some (mem_less s t) | _ \<Rightarrow> None)"

definition address_equal :: "endian \<Rightarrow> Address \<Rightarrow> Address \<Rightarrow> bool option" where
  "address_equal host a b =
     (case (addr_mem host a, addr_mem host b) of (Some s, Some t) \<Rightarrow> Some (mem_equal s t) | _ \<Rightarrow> None)"

definition address_unequal :: "endian \<Rightarrow> Address \<Rightarrow> Address \<Rightarrow> bool option" where
  "address_unequal host a b = map_option Not (address_equal host a b)"

text \<open>The casts of \<open>Create\<close>: a structure is read from the memory the pointer points to.\<close>

definition read_sockaddr :: "endian \<Rightarrow> string \<Rightarrow> sockaddr option" where
  "read_sockaddr host bs =
     (if length bs < 16 then None
      else Some \<lparr>sa_family = mem_value host (take 2 bs), sa_data = take 14 (drop 2 bs)\<rparr>)"

definition read_sockaddr_in :: "endian \<Rightarrow> string \<Rightarrow> sockaddr_in option" where
  "read_sockaddr_in host bs =
     (if length bs < 16 then None
      else Some \<lparr>sin_family = mem_value host (take 2 bs), sin_port = mem_value host (take 2 (drop 2 bs)),
                 sin_addr = mem_value host (take 4 (drop 4 bs)), sin_zero = take 8 (drop 8 bs)\<rparr>)"

definition read_sockaddr_in6 :: "endian \<Rightarrow> string \<Rightarrow> sockaddr_in6 option" where
  "read_sockaddr_in6 host bs =
     (if length bs < 28 then None
      else Some \<lparr>sin6_family = mem_value host (take 2 bs), sin6_port = mem_value host (take 2 (drop 2 bs)),
                 sin6_flowinfo = mem_value host (take 4 (drop 4 bs)),
                 sin6_addr = map char_byte (take 16 (drop 8 bs)), sin6_scope_id = mem_value host (take 4 (drop 24 bs))\<rparr>)"

definition mem_family :: "endian \<Rightarrow> string \<Rightarrow> int option" where
  "mem_family host bs = (if length bs < 2 then None else Some (uint (mem_value host (take 2 bs) :: u16)))"

definition Address_Create :: "endian \<Rightarrow> string option \<Rightarrow> Address option option" where
  "Address_Create host addr =
     (case addr of
        None \<Rightarrow> Some None
      | Some bs \<Rightarrow>
          (case mem_family host bs of
             None \<Rightarrow> None
           | Some f \<Rightarrow>
               if f = AF_INET then map_option (\<lambda>m. Some (IPv4Address m)) (read_sockaddr_in host bs)
               else if f = AF_INET6 then map_option (\<lambda>m. Some (IPv6Address m)) (read_sockaddr_in6 host bs)
               else map_option (\<lambda>m. Some (UnknownAddress m)) (read_sockaddr host bs)))"

section \<open>IPv4\<close>

definition new_IPv4Address :: "endian \<Rightarrow> u32 \<Rightarrow> u16 \<Rightarrow> sockaddr_in" where
  "new_IPv4Address host address port =
     \<lparr>sin_family = of_int AF_INET, sin_port = byteswapOnLittleEndian host 2 port,
      sin_addr = byteswapOnLittleEndian host 4 address, sin_zero = zeros 8\<rparr>"

definition IPv4Address_Create :: "endian \<Rightarrow> (string \<Rightarrow> u32 option) \<Rightarrow> string \<Rightarrow> u16 \<Rightarrow> sockaddr_in option" where
  "IPv4Address_Create host inet_pton address port =
     (let rt = (new_IPv4Address host 0 0)\<lparr>sin_port := byteswapOnLittleEndian host 2 port\<rparr>
      in case inet_pton address of None \<Rightarrow> None | Some a \<Rightarrow> Some (rt\<lparr>sin_addr := a\<rparr>))"

definition IPv4Address_insert :: "endian \<Rightarrow> sockaddr_in \<Rightarrow> string" where
  "IPv4Address_insert host m =
     (let addr = byteswapOnLittleEndian host 4 (sin_addr m)
      in dec_str (unat (drop_bit 24 addr AND 0xff)) @ ''.'' @
         dec_str (unat (drop_bit 16 addr AND 0xff)) @ ''.'' @
         dec_str (unat (drop_bit 8 addr AND 0xff)) @ ''.'' @
         dec_str (unat (addr AND 0xff)) @
         '':'' @ dec_str (unat (byteswapOnLittleEndian host 2 (sin_port m))))"

definition IPv4Address_broadcastAddress :: "endian \<Rightarrow> u32 \<Rightarrow> sockaddr_in \<Rightarrow> sockaddr_in option option" where
  "IPv4Address_broadcastAddress host prefix_len m =
     (if prefix_len > 32 then Some None
      else case CreateMask prefix_len of
             None \<Rightarrow> None
           | Some msk \<Rightarrow> Some (Some (m\<lparr>sin_addr := sin_addr m OR byteswapOnLittleEndian host 4 msk\<rparr>)))"

definition IPv4Address_networkAddress :: "endian \<Rightarrow> u32 \<Rightarrow> sockaddr_in \<Rightarrow> sockaddr_in option option" where
  "IPv4Address_networkAddress host prefix_len m =
     (if prefix_len > 32 then Some None
      else case CreateMask prefix_len of
             None \<Rightarrow> None
           | Some msk \<Rightarrow> Some (Some (m\<lparr>sin_addr := sin_addr m AND byteswapOnLittleEndian host 4 (NOT msk)\<rparr>)))"

definition IPv4Address_subnetMask :: "endian \<Rightarrow> u32 \<Rightarrow> sockaddr_in option" where
  "IPv4Address_subnetMask host prefix_len =
     (case CreateMask prefix_len of
        None \<Rightarrow> None
      | Some msk \<Rightarrow> Some \<lparr>sin_family = of_int AF_INET, sin_port = 0,
                            sin_addr = NOT (byteswapOnLittleEndian host 4 msk), sin_zero = zeros 8\<rparr>)"

definition IPv4Address_getPort :: "endian \<Rightarrow> sockaddr_in \<Rightarrow> u32" where
  "IPv4Address_getPort host m = ucast (byteswapOnLittleEndian host 2 (sin_port m))"

definition IPv4Address_setPort :: "endian \<Rightarrow> u16 \<Rightarrow> sockaddr_in \<Rightarrow> sockaddr_in" where
  "IPv4Address_setPort host v m = m\<lparr>sin_port := byteswapOnLittleEndian host 2 v\<rparr>"

section \<open>IPv6\<close>

definition new_IPv6Address :: sockaddr_in6 where
  "new_IPv6Address =
     \<lparr>sin6_family = of_int AF_INET6, sin6_port = 0, sin6_flowinfo = 0, sin6_addr = replicate 16 0, sin6_scope_id = 0\<rparr>"

definition IPv6Address_bytes :: "endian \<Rightarrow> u8 list \<Rightarrow> u16 \<Rightarrow> sockaddr_in6" where
  "IPv6Address_bytes host address port =
     new_IPv6Address\<lparr>sin6_port := byteswapOnLittleEndian host 2 port, sin6_addr := take 16 address\<rparr>"

definition IPv6Address_Create :: "endian \<Rightarrow> (string \<Rightarrow> u8 list option) \<Rightarrow> string \<Rightarrow> u16 \<Rightarrow> sockaddr_in6 option" where
  "IPv6Address_Create host inet_pton address port =
     (let rt = new_IPv6Address\<lparr>sin6_port := byteswapOnLittleEndian host 2 port\<rparr>
      in case inet_pton address of None \<Rightarrow> None | Some a \<Rightarrow> Some (rt\<lparr>sin6_addr := a\<rparr>))"

text \<open>\<open>os << std::hex << n\<close> for a number that is not negative.\<close>

fun hex_str :: "nat \<Rightarrow> string" where
  "hex_str n = (if n < 16 then [hex_digit n] else hex_str (n div 16) @ [hex_digit (n mod 16)])"

declare hex_str.simps [simp del]

text \<open>\<open>(uint16_t *)m_addr.sin6_addr.s6_addr\<close>\<close>

definition addr_u16 :: "endian \<Rightarrow> u8 list \<Rightarrow> nat \<Rightarrow> u16" where
  "addr_u16 host a i = mem_value host [byte_char (a ! (2 * i)), byte_char (a ! (2 * i + 1))]"

definition insert_group :: "endian \<Rightarrow> (nat \<Rightarrow> u16) \<Rightarrow> nat \<Rightarrow> bool \<times> string \<Rightarrow> bool \<times> string" where
  "insert_group host addr i = (\<lambda>(used_zeros, os).
     if addr i = 0 \<and> \<not> used_zeros then (used_zeros, os)
     else
       let (used_zeros, os) = (if i \<noteq> 0 \<and> addr (i - 1) = 0 \<and> \<not> used_zeros then (True, os @ '':'') else (used_zeros, os));
           os = (if i \<noteq> 0 then os @ '':'' else os)
       in (used_zeros, os @ hex_str (unat (byteswapOnLittleEndian host 2 (addr i)))))"

definition IPv6Address_insert :: "endian \<Rightarrow> sockaddr_in6 \<Rightarrow> string" where
  "IPv6Address_insert host m =
     (let addr = addr_u16 host (sin6_addr m);
          (used_zeros, os) = fold (insert_group host addr) [0..<8] (False, ''['');
          os = (if \<not> used_zeros \<and> addr 7 = 0 then os @ ''::'' else os)
      in os @ '']:'' @ dec_str (unat (byteswapOnLittleEndian host 2 (sin6_port m))))"

text \<open>\<open>s6_addr[i] = v\<close> for every index from \<open>i\<close> to \<open>j - 1\<close>\<close>

definition fill :: "nat \<Rightarrow> nat \<Rightarrow> u8 \<Rightarrow> u8 list \<Rightarrow> u8 list" where
  "fill i j v a = fold (\<lambda>k a. a[k := v]) [i..<j] a"

definition IPv6Address_broadcastAddress :: "u32 \<Rightarrow> sockaddr_in6 \<Rightarrow> sockaddr_in6 option" where
  "IPv6Address_broadcastAddress prefix_len m =
     (let k = unat (prefix_len div 8)
      in case CreateMask (prefix_len mod 8) of
           None \<Rightarrow> None
         | Some msk \<Rightarrow>
             if k \<ge> 16 then None
             else Some (m\<lparr>sin6_addr := fill (k + 1) 16 0xff ((sin6_addr m)[k := sin6_addr m ! k OR msk])\<rparr>))"

definition IPv6Address_networkAddress :: "u32 \<Rightarrow> sockaddr_in6 \<Rightarrow> sockaddr_in6 option" where
  "IPv6Address_networkAddress prefix_len m =
     (let k = unat (prefix_len div 8)
      in case CreateMask (prefix_len mod 8) of
           None \<Rightarrow> None
         | Some msk \<Rightarrow>
             if k \<ge> 16 then None
             else Some (m\<lparr>sin6_addr := fill (k + 1) 16 0x00 ((sin6_addr m)[k := sin6_addr m ! k AND msk])\<rparr>))"

definition IPv6Address_subnetMask :: "u32 \<Rightarrow> sockaddr_in6 option" where
  "IPv6Address_subnetMask prefix_len =
     (let k = unat (prefix_len div 8)
      in case CreateMask (prefix_len mod 8) of
           None \<Rightarrow> None
         | Some msk \<Rightarrow>
             if k \<ge> 16 then None
             else Some (new_IPv6Address\<lparr>sin6_addr := fill 0 k 0xff ((replicate 16 0)[k := NOT msk])\<rparr>))"

definition IPv6Address_getPort :: "endian \<Rightarrow> sockaddr_in6 \<Rightarrow> u32" where
  "IPv6Address_getPort host m = ucast (byteswapOnLittleEndian host 2 (sin6_port m))"

definition IPv6Address_setPort :: "endian \<Rightarrow> u16 \<Rightarrow> sockaddr_in6 \<Rightarrow> sockaddr_in6" where
  "IPv6Address_setPort host v m = m\<lparr>sin6_port := byteswapOnLittleEndian host 2 v\<rparr>"

section \<open>Unix and unknown addresses\<close>

definition MAX_PATH_LEN :: nat where
  "MAX_PATH_LEN = UNIX_PATH_MAX - 1"

definition new_UnixAddress :: Address where
  "new_UnixAddress =
     UnixAddress \<lparr>sun_family = of_int AF_UNIX, sun_path = zeros UNIX_PATH_MAX\<rparr> (of_nat (sun_offset + MAX_PATH_LEN))"

datatype address_error = Path_too_long

definition UnixAddress_path :: "string \<Rightarrow> address_error + Address" where
  "UnixAddress_path path =
     (let n = of_nat (length path) + 1 :: u32;
          n = (if path \<noteq> [] \<and> hd path = NUL then n - 1 else n)
      in if unat n > UNIX_PATH_MAX then Inl Path_too_long
         else Inr (UnixAddress
                     \<lparr>sun_family = of_int AF_UNIX,
                      sun_path = take (unat n) (path @ [NUL]) @ drop (unat n) (zeros UNIX_PATH_MAX)\<rparr>
                     (n + of_nat sun_offset)))"

fun setAddrLen :: "u32 \<Rightarrow> Address \<Rightarrow> Address" where
  "setAddrLen v (UnixAddress m n) = UnixAddress m v"
| "setAddrLen v a = a"

definition UnixAddress_getPath :: "sockaddr_un \<Rightarrow> u32 \<Rightarrow> string option" where
  "UnixAddress_getPath m m_length =
     (if unat m_length > sun_offset \<and> sun_path m ! 0 = NUL
      then let n = unat (m_length - of_nat sun_offset - 1)
           in if n + 1 \<le> length (sun_path m) then Some ([CHR 0x5C, CHR ''0''] @ take n (drop 1 (sun_path m))) else None
      else if NUL \<in> set (sun_path m) then Some (c_str (sun_path m)) else None)"

definition UnknownAddress_family :: "int \<Rightarrow> sockaddr" where
  "UnknownAddress_family family = \<lparr>sa_family = of_int family, sa_data = zeros 14\<rparr>"

definition UnknownAddress_insert :: "sockaddr \<Rightarrow> string" where
  "UnknownAddress_insert m = ''[UnknownAddress family='' @ dec_str (unat (sa_family m)) @ '']''"

fun address_toString :: "endian \<Rightarrow> Address \<Rightarrow> string option" where
  "address_toString host (IPv4Address m) = Some (IPv4Address_insert host m)"
| "address_toString host (IPv6Address m) = Some (IPv6Address_insert host m)"
| "address_toString host (UnixAddress m n) = UnixAddress_getPath m n"
| "address_toString host (UnknownAddress m) = Some (UnknownAddress_insert m)"

section \<open>Look-ups\<close>

record addrinfo_hints =
  ai_flags :: int
  ai_family :: int
  ai_socktype :: int
  ai_protocol :: int

text \<open>\<open>getaddrinfo\<close> gives an error or the list of the \<open>ai_addr\<close>: the memory a pointer points to, \<open>None\<close> for a null pointer.\<close>

type_synonym getaddrinfo = "string \<Rightarrow> string option \<Rightarrow> addrinfo_hints \<Rightarrow> int + string option list"

text \<open>The host and the service of \<open>Lookup\<close>: the service is a pointer into the text \<open>host\<close>.\<close>

definition lookup_bracket :: "string \<Rightarrow> string \<times> string option" where
  "lookup_bracket host =
     (if host \<noteq> [] \<and> hd host = CHR ''[''
      then case memchr (CHR '']'') (tl host) of
             None \<Rightarrow> ([], None)
           | Some e \<Rightarrow> (take e (tl host), if cstr_at host (e + 2) = CHR '':'' then Some (drop (e + 3) host) else None)
      else ([], None))"

definition lookup_plain :: "string \<Rightarrow> string \<times> string option" where
  "lookup_plain host =
     (case memchr (CHR '':'') host of
        None \<Rightarrow> ([], None)
      | Some p \<Rightarrow>
          if memchr (CHR '':'') (drop (p + 1) host) = None then (take p host, Some (drop (p + 1) host))
          else ([], Some (drop p host)))"

definition lookup_split :: "string \<Rightarrow> string \<times> string option" where
  "lookup_split host =
     (let (node, service) = lookup_bracket host;
          (node, service) = (if node = [] then lookup_plain host else (node, service))
      in (if node = [] then host else node, service))"

fun create_all :: "endian \<Rightarrow> string option list \<Rightarrow> Address option list option" where
  "create_all bo [] = Some []"
| "create_all bo (m # ms) =
     (case Address_Create bo m of
        None \<Rightarrow> None
      | Some a \<Rightarrow> map_option ((#) a) (create_all bo ms))"

definition Lookup :: "endian \<Rightarrow> getaddrinfo \<Rightarrow> string \<Rightarrow> int \<Rightarrow> int \<Rightarrow> int \<Rightarrow> Address option list \<Rightarrow>
    (bool \<times> Address option list) option" where
  "Lookup bo gai host family type protocol result =
     (let hints = \<lparr>ai_flags = 0, ai_family = family, ai_socktype = type, ai_protocol = protocol\<rparr>;
          (node, service) = lookup_split host
      in case gai (c_str node) (map_option c_str service) hints of
           Inl error \<Rightarrow> Some (False, result)
         | Inr results \<Rightarrow>
             map_option (\<lambda>as. (result @ as \<noteq> [], result @ as)) (create_all bo results))"

definition LookupAny :: "endian \<Rightarrow> getaddrinfo \<Rightarrow> string \<Rightarrow> int \<Rightarrow> int \<Rightarrow> int \<Rightarrow> Address option option" where
  "LookupAny bo gai host family type protocol =
     map_option (\<lambda>(ok, result). if ok then hd result else None) (Lookup bo gai host family type protocol [])"

text \<open>\<open>dynamic_pointer_cast<IPAddress>\<close>\<close>

fun is_IPAddress :: "Address option \<Rightarrow> bool" where
  "is_IPAddress (Some (IPv4Address m)) = True"
| "is_IPAddress (Some (IPv6Address m)) = True"
| "is_IPAddress a = False"

fun first_ip :: "Address option list \<Rightarrow> Address option" where
  "first_ip [] = None"
| "first_ip (a # as) = (if is_IPAddress a then a else first_ip as)"

definition LookupAnyIPAddress :: "endian \<Rightarrow> getaddrinfo \<Rightarrow> string \<Rightarrow> int \<Rightarrow> int \<Rightarrow> int \<Rightarrow> Address option option" where
  "LookupAnyIPAddress bo gai host family type protocol =
     map_option (\<lambda>(ok, result). if ok then first_ip result else None) (Lookup bo gai host family type protocol [])"

fun IPAddress_setPort :: "endian \<Rightarrow> u16 \<Rightarrow> Address \<Rightarrow> Address" where
  "IPAddress_setPort bo v (IPv4Address m) = IPv4Address (IPv4Address_setPort bo v m)"
| "IPAddress_setPort bo v (IPv6Address m) = IPv6Address (IPv6Address_setPort bo v m)"
| "IPAddress_setPort bo v a = a"

fun IPAddress_getPort :: "endian \<Rightarrow> Address \<Rightarrow> u32" where
  "IPAddress_getPort bo (IPv4Address m) = IPv4Address_getPort bo m"
| "IPAddress_getPort bo (IPv6Address m) = IPv6Address_getPort bo m"
| "IPAddress_getPort bo a = 0"

text \<open>\<open>results\<close> is not null when \<open>getaddrinfo\<close> succeeds; only its first entry is used.\<close>

definition IPAddress_Create :: "endian \<Rightarrow> getaddrinfo \<Rightarrow> string \<Rightarrow> u16 \<Rightarrow> Address option option" where
  "IPAddress_Create bo gai address port =
     (case gai address None \<lparr>ai_flags = AI_NUMERICHOST, ai_family = AF_UNSPEC, ai_socktype = 0, ai_protocol = 0\<rparr> of
        Inl error \<Rightarrow> Some None
      | Inr [] \<Rightarrow> None
      | Inr (r # _) \<Rightarrow>
          map_option (\<lambda>a. if is_IPAddress a then map_option (IPAddress_setPort bo port) a else None) (Address_Create bo r))"

section \<open>Interfaces\<close>

record ifaddrs =
  ifa_name :: string
  ifa_addr :: "string option"
  ifa_netmask :: "string option"

type_synonym iface_map = "(string \<times> Address \<times> u32) list"

text \<open>A \<open>std::multimap\<close> in the order of iteration: an entry is inserted behind those with the same key.\<close>

fun multimap_insert :: "string \<Rightarrow> 'v \<Rightarrow> (string \<times> 'v) list \<Rightarrow> (string \<times> 'v) list" where
  "multimap_insert k v [] = [(k, v)]"
| "multimap_insert k v ((k', v') # m) =
     (if mem_less k k' then (k, v) # (k', v') # m else (k', v') # multimap_insert k v m)"

definition netmask_prefix :: "endian \<Rightarrow> int \<Rightarrow> string option \<Rightarrow> u32 option" where
  "netmask_prefix bo f netmask =
     (case netmask of
        None \<Rightarrow> None
      | Some bs \<Rightarrow>
          if f = AF_INET then map_option (\<lambda>m. CountBytes (sin_addr m)) (read_sockaddr_in bo bs)
          else map_option (\<lambda>m. fold (\<lambda>i n. n + CountBytes (sin6_addr m ! i)) [0..<16] 0) (read_sockaddr_in6 bo bs))"

definition interface_entry :: "endian \<Rightarrow> int \<Rightarrow> ifaddrs \<Rightarrow> iface_map \<Rightarrow> iface_map option" where
  "interface_entry bo family next result =
     (case ifa_addr next of
        None \<Rightarrow> None
      | Some bs \<Rightarrow>
          (case mem_family bo bs of
             None \<Rightarrow> None
           | Some f \<Rightarrow>
               if family \<noteq> AF_UNSPEC \<and> family \<noteq> f then Some result
               else if f = AF_INET \<or> f = AF_INET6 then
                 (case (Address_Create bo (Some bs), netmask_prefix bo f (ifa_netmask next)) of
                    (Some (Some addr), Some prefix_len) \<Rightarrow>
                      Some (multimap_insert (ifa_name next) (addr, prefix_len) result)
                  | _ \<Rightarrow> None)
               else Some result))"

fun interface_entries :: "endian \<Rightarrow> int \<Rightarrow> ifaddrs list \<Rightarrow> iface_map \<Rightarrow> iface_map option" where
  "interface_entries bo family [] result = Some result"
| "interface_entries bo family (next # rest) result =
     (case interface_entry bo family next result of
        None \<Rightarrow> None
      | Some result \<Rightarrow> interface_entries bo family rest result)"

definition GetInterfaceAddresses :: "endian \<Rightarrow> ifaddrs list option \<Rightarrow> iface_map \<Rightarrow> int \<Rightarrow> (bool \<times> iface_map) option" where
  "GetInterfaceAddresses bo getifaddrs result family =
     (case getifaddrs of
        None \<Rightarrow> Some (False, result)
      | Some results \<Rightarrow> map_option (\<lambda>r. (r \<noteq> [], r)) (interface_entries bo family results result))"

definition GetInterfaceAddresses_of :: "endian \<Rightarrow> ifaddrs list option \<Rightarrow> (Address \<times> u32) list \<Rightarrow> string \<Rightarrow> int \<Rightarrow>
    (bool \<times> (Address \<times> u32) list) option" where
  "GetInterfaceAddresses_of bo getifaddrs result iface family =
     (if iface = [] \<or> iface = ''*'' then
        let result = (if family = AF_INET \<or> family = AF_UNSPEC then result @ [(IPv4Address (new_IPv4Address bo 0 0), 0)] else result);
            result = (if family = AF_INET6 \<or> family = AF_UNSPEC then result @ [(IPv6Address new_IPv6Address, 0)] else result)
        in Some (True, result)
      else case GetInterfaceAddresses bo getifaddrs [] family of
             None \<Rightarrow> None
           | Some (False, results) \<Rightarrow> Some (False, result)
           | Some (True, results) \<Rightarrow>
               let result = result @ map snd (filter (\<lambda>(k, v). k = iface) results)
               in Some (result \<noteq> [], result))"

section \<open>Byte order\<close>

lemma bit_low: "a < 256 \<Longrightarrow> bit (a + 256 * h) i = (if i < 8 then bit a i else bit (h :: nat) (i - 8))"
proof -
  assume "a < 256"
  then have "take_bit 8 (a + 256 * h) = a" and "drop_bit 8 (a + 256 * h) = h"
    by (simp_all add: take_bit_eq_mod drop_bit_eq_div)
  then have "i < 8 \<Longrightarrow> bit (a + 256 * h) i = bit a i" and "bit (a + 256 * h) (8 + (i - 8)) = bit h (i - 8)"
    using bit_take_bit_iff [of 8 "a + 256 * h" i] bit_drop_bit_eq [of 8 "a + 256 * h"] by (auto simp: fun_eq_iff)
  then show ?thesis
    by auto
qed

lemma bit_horner_char:
  "bit (horner_sum of_char (256 :: nat) bs) i \<longleftrightarrow> i < 8 * length bs \<and> bit (ord (bs ! (i div 8))) (i mod 8)"
proof (induction bs arbitrary: i)
  case (Cons c bs)
  show ?case
  proof (cases "i < 8")
    case False
    then have "i div 8 = Suc ((i - 8) div 8)" and "i mod 8 = (i - 8) mod 8"
      by (simp_all add: le_div_geq le_mod_geq)
    with False show ?thesis
      using Cons [of "i - 8"] by (auto simp: bit_low)
  qed (simp add: bit_low)
qed simp

lemma bit_le_value:
  "LENGTH('a) = 8 * length bs \<Longrightarrow> i < LENGTH('a) \<Longrightarrow>
    bit (le_value bs :: 'a::len word) i \<longleftrightarrow> bit (ord (bs ! (i div 8))) (i mod 8)"
  by (simp add: le_value_def bit_horner_char bit_of_nat_iff)

lemma bit_le_bytes:
  "k < n \<Longrightarrow> j < 8 \<Longrightarrow> bit (ord (le_bytes n v ! k)) j \<longleftrightarrow> bit (v :: 'a::len word) (8 * k + j)"
proof -
  assume "k < n" "j < 8"
  then have "ord (le_bytes n v ! k) = take_bit 8 (drop_bit (8 * k) (unat v))"
    by (simp add: le_bytes_def take_bit_eq_mod drop_bit_eq_div power_mult)
  with \<open>j < 8\<close> show ?thesis
    by (simp add: bit_take_bit_iff bit_drop_bit_eq bit_unsigned_iff)
qed

definition swap_index :: "nat \<Rightarrow> nat \<Rightarrow> nat" where
  "swap_index n i = 8 * (n - 1 - i div 8) + i mod 8"

lemma bit_byteswap:
  assumes "LENGTH('a) = 8 * n"
  shows "i < LENGTH('a) \<Longrightarrow> bit (byteswap n (v :: 'a::len word)) i \<longleftrightarrow> bit v (swap_index n i)"
proof -
  assume i: "i < LENGTH('a)"
  then have "i div 8 < n"
    using assms by (simp add: div_less_iff_less_mult mult.commute)
  with assms i show ?thesis
    by (simp add: byteswap_def bit_le_value rev_nth bit_le_bytes swap_index_def)
qed

lemma swap_index_less: "i < 8 * n \<Longrightarrow> swap_index n i < 8 * n"
proof -
  assume "i < 8 * n"
  then have "0 < n" and "i mod 8 < 8"
    by auto
  then show ?thesis
    unfolding swap_index_def by (cases n) (auto simp: algebra_simps)
qed

lemma byteswap_and: "LENGTH('a) = 8 * n \<Longrightarrow> byteswap n (x AND y :: 'a::len word) = byteswap n x AND byteswap n y"
  and byteswap_or: "LENGTH('a) = 8 * n \<Longrightarrow> byteswap n (x OR y :: 'a::len word) = byteswap n x OR byteswap n y"
  and byteswap_not: "LENGTH('a) = 8 * n \<Longrightarrow> byteswap n (NOT x :: 'a::len word) = NOT (byteswap n x)"
  by (auto intro!: bit_eqI simp: bit_byteswap bit_and_iff bit_or_iff bit_not_iff swap_index_less)

lemma hton_and: "LENGTH('a) = 8 * n \<Longrightarrow> byteswapOnLittleEndian host n (x AND y :: 'a::len word) =
    byteswapOnLittleEndian host n x AND byteswapOnLittleEndian host n y"
  and hton_or: "LENGTH('a) = 8 * n \<Longrightarrow> byteswapOnLittleEndian host n (x OR y :: 'a::len word) =
    byteswapOnLittleEndian host n x OR byteswapOnLittleEndian host n y"
  and hton_not: "LENGTH('a) = 8 * n \<Longrightarrow> byteswapOnLittleEndian host n (NOT x :: 'a::len word) =
    NOT (byteswapOnLittleEndian host n x)"
  and hton_twice: "LENGTH('a) = 8 * n \<Longrightarrow> byteswapOnLittleEndian host n (byteswapOnLittleEndian host n x) = (x :: 'a::len word)"
  by (simp_all add: byteswapOnLittleEndian_def byteswap_and byteswap_or byteswap_not byteswap_twice)

section \<open>Counting bits\<close>

lemma lowest_bit: "v \<noteq> 0 \<Longrightarrow> \<exists>l. bit (v :: 'a::len word) l \<and> (\<forall>j<l. \<not> bit v j)"
proof -
  assume "v \<noteq> 0"
  then have "\<exists>l. bit v l"
    by (auto simp: bit_eq_iff)
  then show ?thesis
    using exists_least_iff [of "bit v"] by blast
qed

lemma clear_lowest:
  assumes "bit (v :: 'a::len word) l" "\<forall>j<l. \<not> bit v j"
  shows "v AND (v - 1) = unset_bit l v"
proof -
  let ?a = "unset_bit l v"
  have l: "l < LENGTH('a)"
    using assms(1) by (rule bit_imp_le_length)
  have "v = ?a + 2 ^ l"
  proof -
    have "?a OR 2 ^ l = v"
      by (rule bit_eqI) (auto simp: bit_or_iff bit_unset_bit_iff bit_exp_iff assms(1))
    moreover have "?a AND 2 ^ l = 0"
      by (rule bit_eqI) (auto simp: bit_and_iff bit_unset_bit_iff bit_exp_iff)
    ultimately show ?thesis
      using word_plus_and_or [of ?a "2 ^ l"] by simp
  qed
  then have "v - 1 = ?a + mask l"
    by (simp add: mask_eq_exp_minus_1)
  also have "\<dots> = ?a OR mask l"
  proof -
    have "?a AND mask l = 0"
      by (rule bit_eqI) (use assms(2) in \<open>auto simp: bit_and_iff bit_unset_bit_iff bit_mask_iff\<close>)
    then show ?thesis
      using word_plus_and_or [of ?a "mask l"] by simp
  qed
  finally show ?thesis
    by (intro bit_eqI) (use assms(2) in \<open>auto simp: bit_and_iff bit_or_iff bit_unset_bit_iff bit_mask_iff\<close>)
qed

definition bits_of :: "'a::len word \<Rightarrow> nat set" where
  "bits_of v = {i. bit v i}"

lemma finite_bits [simp]: "finite (bits_of (v :: 'a::len word))"
  by (rule finite_subset [of _ "{..<LENGTH('a)}"]) (auto simp: bits_of_def dest: bit_imp_le_length)

lemma CountBytes_loop_card: "CountBytes_loop v r = r + of_nat (card (bits_of v))"
proof (induction v r rule: CountBytes_loop.induct)
  case (1 v r)
  show ?case
  proof (cases "v = 0")
    case False
    then obtain l where l: "bit v l" "\<forall>j<l. \<not> bit v j"
      using lowest_bit by blast
    have "bits_of v = insert l (bits_of (unset_bit l v))" and "l \<notin> bits_of (unset_bit l v)"
      using l(1) by (auto simp: bits_of_def bit_unset_bit_iff)
    then have "card (bits_of v) = Suc (card (bits_of (v AND (v - 1))))"
      using clear_lowest [OF l] by simp
    then show ?thesis
      using 1 [OF False] False by (simp add: CountBytes_loop.simps [of v r])
  qed (simp add: CountBytes_loop.simps bits_of_def)
qed

lemma CountBytes_card: "CountBytes v = of_nat (card (bits_of v))"
  by (simp add: CountBytes_def CountBytes_loop_card)

lemma card_byteswap: "LENGTH('a) = 8 * n \<Longrightarrow> card (bits_of (byteswap n (v :: 'a::len word))) = card (bits_of v)"
proof -
  assume n: "LENGTH('a) = 8 * n"
  have inv: "i < 8 * n \<Longrightarrow> swap_index n (swap_index n i) = i" for i
  proof -
    assume "i < 8 * n"
    then have "i div 8 < n"
      by (simp add: div_less_iff_less_mult mult.commute)
    then show ?thesis
      by (simp add: swap_index_def)
  qed
  have from_swap: "bit (byteswap n v) i \<Longrightarrow> bit v (swap_index n i)" for i
    using bit_imp_le_length [of "byteswap n v" i] n by (simp add: bit_byteswap [OF n])
  have to: "bit v i \<Longrightarrow> bit (byteswap n v) (swap_index n i)" for i
    using bit_imp_le_length [of v i] n inv [of i] swap_index_less [of i n] by (simp add: bit_byteswap [OF n])
  have "bij_betw (swap_index n) (bits_of (byteswap n v)) (bits_of v)"
  proof (rule bij_betw_byWitness [where f' = "swap_index n"])
    show "swap_index n ` bits_of v \<subseteq> bits_of (byteswap n v)"
      using to by (auto simp: bits_of_def)
  qed (use n inv from_swap in \<open>auto simp: bits_of_def dest: bit_imp_le_length\<close>)
  then show ?thesis
    by (rule bij_betw_same_card)
qed

section \<open>IPv4 networks\<close>

text \<open>The number an IPv4 address stands for.\<close>

definition ipv4_number :: "endian \<Rightarrow> sockaddr_in \<Rightarrow> nat" where
  "ipv4_number host m = unat (byteswapOnLittleEndian host 4 (sin_addr m))"

lemma CreateMask_ok:
  assumes "unat bits \<le> LENGTH('a)" "LENGTH('a) < 31 + unat bits" "LENGTH('a) \<le> 64"
  shows "CreateMask bits = Some (mask (LENGTH('a) - unat bits) :: 'a::len word)"
proof -
  have "unat (ucast bits :: u64) = unat bits"
    using unsigned_less [of bits, where 'a = nat] by (simp add: unsigned_ucast_eq take_bit_nat_eq_self)
  moreover have "unat (of_nat LENGTH('a) :: u64) = LENGTH('a)"
    using assms(3) by (simp add: unat_of_nat)
  ultimately have "unat ((of_nat LENGTH('a) :: u64) - ucast bits) = LENGTH('a) - unat bits"
    using assms(1) by (simp add: unat_sub word_le_nat_alt)
  with assms(2) show ?thesis
    by (auto simp: CreateMask_def Let_def mask_eq_exp_minus_1 of_nat_diff)
qed

lemma CreateMask32:
  "2 \<le> p \<Longrightarrow> p \<le> 32 \<Longrightarrow> CreateMask p = Some (mask (32 - unat p) :: u32)"
  by (rule CreateMask_ok [where 'a = 32, simplified]) (simp_all add: word_le_nat_alt)

lemma CreateMask8: "CreateMask (p mod 8) = Some (mask (8 - unat p mod 8) :: u8)"
proof -
  have p: "unat (p mod 8) = unat p mod 8"
    by (simp add: unat_mod_distrib)
  then have "unat (p mod 8) < 8"
    by simp
  then show ?thesis
    using CreateMask_ok [of "p mod 8", where 'a = 8] by (simp add: p)
qed

lemma unat_and_not_mask: "unat (v AND NOT (mask k) :: u32) = unat v div 2 ^ k * 2 ^ k"
proof -
  have "v AND NOT (mask k) = v - (v AND mask k)"
  proof -
    have "(v AND NOT (mask k)) OR (v AND mask k) = v" and "(v AND NOT (mask k)) AND (v AND mask k) = 0"
      by (auto intro!: bit_eqI simp: bit_or_iff bit_and_iff bit_not_iff dest: bit_imp_le_length)
    then show ?thesis
      using word_plus_and_or [of "v AND NOT (mask k)" "v AND mask k"] by (simp add: eq_diff_eq)
  qed
  then have "unat (v AND NOT (mask k)) = unat v - unat (v AND mask k)"
    by (simp add: unat_sub word_and_le2)
  also have "unat (v AND mask k) = unat v mod 2 ^ k"
    by (simp only: take_bit_eq_mask [symmetric] unsigned_take_bit_eq) (simp add: take_bit_eq_mod)
  finally show ?thesis
    by (simp add: minus_mod_eq_div_mult)
qed

lemma unat_mask32: "k \<le> 32 \<Longrightarrow> unat (mask k :: u32) = 2 ^ k - 1"
proof -
  assume k: "k \<le> 32"
  then have "(2 :: nat) ^ k \<le> 2 ^ 32"
    by (intro power_increasing) simp_all
  moreover have "0 < (2 :: nat) ^ k"
    by simp
  ultimately have "(2 :: nat) ^ k - 1 < 2 ^ 32"
    by linarith
  moreover have "(mask k :: u32) = of_nat (2 ^ k - 1)"
    by (simp add: mask_eq_exp_minus_1 of_nat_diff)
  ultimately show ?thesis
    by (simp only: unat_of_nat) simp
qed

lemma unat_or_mask: "k \<le> 32 \<Longrightarrow> unat (v OR mask k :: u32) = unat v div 2 ^ k * 2 ^ k + 2 ^ k - 1"
proof -
  assume k: "k \<le> 32"
  let ?n = "v AND NOT (mask k)"
  have "?n OR mask k = v OR mask k" and "?n AND mask k = 0"
    by (auto intro!: bit_eqI simp: bit_or_iff bit_and_iff bit_not_iff bit_mask_iff dest: bit_imp_le_length)
  then have eq: "v OR mask k = ?n + mask k"
    using word_plus_and_or [of ?n "mask k"] by simp
  have m: "unat (mask k :: u32) = 2 ^ k - 1"
    using k by (rule unat_mask32)
  have pow: "(2 :: nat) ^ 32 = 2 ^ (32 - k) * 2 ^ k"
    using k by (simp flip: power_add)
  have "unat v < 2 ^ (32 - k) * 2 ^ k"
    using unsigned_less [of v, where 'a = nat] unfolding pow [symmetric] by simp
  then have "unat v div 2 ^ k < 2 ^ (32 - k)"
    by (simp add: div_less_iff_less_mult)
  then have "(unat v div 2 ^ k + 1) * 2 ^ k \<le> 2 ^ (32 - k) * 2 ^ k"
    by (intro mult_le_mono) simp_all
  then have "unat v div 2 ^ k * 2 ^ k + 2 ^ k \<le> 2 ^ 32"
    unfolding pow by simp
  then have "unat ?n + unat (mask k :: u32) < 2 ^ LENGTH(32)"
    unfolding unat_and_not_mask m using zero_less_power [of "2 :: nat" k] by simp
  then have "unat (?n + mask k) = unat ?n + unat (mask k :: u32)"
    by (rule unat_add_lem [THEN iffD1])
  then show ?thesis
    unfolding eq unat_and_not_mask m using zero_less_power [of "2 :: nat" k] by simp
qed

lemma unat_not_mask: "k \<le> 32 \<Longrightarrow> unat (NOT (mask k) :: u32) = 2 ^ 32 - 2 ^ k"
proof -
  assume k: "k \<le> 32"
  have "unat (- 1 :: u32) = 2 ^ 32 - 1"
    by (simp add: unsigned_minus_1_eq_mask mask_eq_exp_minus_1)
  moreover have "(2 ^ 32 - 1) div 2 ^ k * 2 ^ k = (2 ^ 32 - 2 ^ k :: nat)"
  proof -
    have "(2 :: nat) ^ 32 = 2 ^ (32 - k) * 2 ^ k"
      using k by (simp flip: power_add)
    moreover have "(2 ^ 32 - 1) mod 2 ^ k = (2 ^ k - 1 :: nat)"
      using k mask_mod_exp [of 32 k, where 'a = nat] by (simp add: min_def)
    ultimately show ?thesis
      using k by (simp only: minus_mod_eq_div_mult [symmetric]) (simp add: power_increasing)
  qed
  ultimately show ?thesis
    using unat_and_not_mask [of "- 1" k] by simp
qed

lemma ipv4_networkAddress:
  assumes "2 \<le> p" "p \<le> 32"
  shows "\<exists>net. IPv4Address_networkAddress host p m = Some (Some net) \<and> sin_port net = sin_port m \<and> sin_family net = sin_family m \<and>
    ipv4_number host net = ipv4_number host m div 2 ^ (32 - unat p) * 2 ^ (32 - unat p)"
  using assms by (simp add: IPv4Address_networkAddress_def CreateMask32 ipv4_number_def hton_and hton_twice unat_and_not_mask)

lemma ipv4_broadcastAddress:
  assumes "2 \<le> p" "p \<le> 32"
  shows "\<exists>bc. IPv4Address_broadcastAddress host p m = Some (Some bc) \<and> sin_port bc = sin_port m \<and> sin_family bc = sin_family m \<and>
    ipv4_number host bc = ipv4_number host m div 2 ^ (32 - unat p) * 2 ^ (32 - unat p) + 2 ^ (32 - unat p) - 1"
  using assms by (simp add: IPv4Address_broadcastAddress_def CreateMask32 ipv4_number_def hton_or hton_twice unat_or_mask)

lemma card_not_mask: "k \<le> 32 \<Longrightarrow> card (bits_of (NOT (mask k) :: u32)) = 32 - k"
proof -
  have "bits_of (NOT (mask k) :: u32) = {k..<32}"
    by (auto simp: bits_of_def bit_not_iff bit_mask_iff)
  then show ?thesis
    by simp
qed

lemma ipv4_subnetMask:
  assumes "2 \<le> p" "p \<le> 32"
  shows "\<exists>sm. IPv4Address_subnetMask host p = Some sm \<and> sin_family sm = of_int AF_INET \<and>
    ipv4_number host sm = 2 ^ 32 - 2 ^ (32 - unat p) \<and> CountBytes (sin_addr sm) = p"
proof -
  let ?k = "32 - unat p"
  have p: "unat p \<le> 32"
    using assms(2) by (simp add: word_le_nat_alt)
  have "card (bits_of (byteswapOnLittleEndian host 4 (NOT (mask ?k) :: u32))) = unat p"
    using p by (simp add: byteswapOnLittleEndian_def card_byteswap card_not_mask)
  then have "CountBytes (NOT (byteswapOnLittleEndian host 4 (mask ?k :: u32))) = p"
    by (simp add: CountBytes_card hton_not)
  then show ?thesis
    using assms by (simp add: IPv4Address_subnetMask_def CreateMask32 ipv4_number_def hton_not hton_twice unat_not_mask)
qed

text \<open>Prefix lengths 0 and 1 shift too far, and \<open>subnetMask\<close> does not refuse a prefix length over 32.\<close>

lemma CreateMask_undefined:
  "CreateMask 0 = (None :: u32 option)" "CreateMask 1 = (None :: u32 option)" "CreateMask 33 = (None :: u32 option)"
  by (simp_all add: CreateMask_def Let_def unat_ULLONG_MAX)

section \<open>IPv6 networks\<close>

lemma fill_nth:
  "length (fill i j v a) = length a"
  "n < length a \<Longrightarrow> fill i j v a ! n = (if i \<le> n \<and> n < j then v else a ! n)"
proof -
  have "length (fill i j v a) = length a \<and> (\<forall>n<length a. fill i j v a ! n = (if i \<le> n \<and> n < j then v else a ! n))"
    unfolding fill_def
  proof (induction j)
    case (Suc j)
    then show ?case
      by (cases "i \<le> j") (auto simp: nth_list_update not_le less_Suc_eq)
  qed simp
  then show "length (fill i j v a) = length a" "n < length a \<Longrightarrow> fill i j v a ! n = (if i \<le> n \<and> n < j then v else a ! n)"
    by auto
qed

text \<open>Bit \<open>n\<close> of an IPv6 address, counted from the most significant one.\<close>

definition ipv6_bit :: "u8 list \<Rightarrow> nat \<Rightarrow> bool" where
  "ipv6_bit a n = bit (a ! (n div 8)) (7 - n mod 8)"

lemma prefix_byte: "p < 128 \<Longrightarrow> unat (p div 8 :: u32) = unat p div 8 \<and> unat p div 8 < 16"
  by (simp add: unat_div_distrib word_less_nat_alt)

lemma bit_ones: "bit (- 1 :: u8) (7 - j)"
  by (simp add: bit_minus_1_iff less_imp_diff_less)

lemma ones_ff: "(0xff :: u8) = - 1"
  by simp

lemma mirror_less: "a < 8 \<Longrightarrow> b < 8 \<Longrightarrow> 7 - a < 8 - b \<longleftrightarrow> b \<le> (a :: nat)"
  by arith

lemma byte_split: "n div 8 = p div 8 \<Longrightarrow> (n < p \<longleftrightarrow> n mod 8 < p mod (8 :: nat))"
  by (metis div_mult_mod_eq nat_add_left_cancel_less)

lemma ipv6_broadcastAddress:
  assumes "p < 128" "length (sin6_addr m) = 16"
  shows "\<exists>bc. IPv6Address_broadcastAddress p m = Some bc \<and> sin6_port bc = sin6_port m \<and> length (sin6_addr bc) = 16 \<and>
    (\<forall>n<128. ipv6_bit (sin6_addr bc) n = (unat p \<le> n \<or> ipv6_bit (sin6_addr m) n))"
proof -
  let ?k = "unat p div 8"
  have k: "unat (p div 8) = ?k" "?k < 16"
    using prefix_byte [OF assms(1)] by auto
  have "ipv6_bit (fill (?k + 1) 16 (- 1) ((sin6_addr m)[?k := sin6_addr m ! ?k OR mask (8 - unat p mod 8)])) n =
      (unat p \<le> n \<or> ipv6_bit (sin6_addr m) n)" if "n < 128" for n
  proof -
    have n: "n div 8 < 16" "n mod 8 < 8" "7 - n mod 8 < 8"
      using that by auto
    consider "n div 8 < ?k" | "n div 8 = ?k" | "?k < n div 8"
      by linarith
    then show ?thesis
    proof cases
      case 1
      then have "n < unat p"
        by (metis div_le_mono not_le)
      with 1 show ?thesis
        using n assms(2) by (simp add: ipv6_bit_def fill_nth)
    next
      case 2
      then show ?thesis
        using n k assms(2) byte_split [OF 2] mirror_less [of "n mod 8" "unat p mod 8"] by (auto simp: ipv6_bit_def fill_nth bit_or_iff bit_mask_iff)
    next
      case 3
      then have "unat p \<le> n"
        by (metis div_le_mono le_cases not_le)
      with 3 show ?thesis
        using n k assms(2) by (simp add: ipv6_bit_def fill_nth bit_ones del: bit_minus_1_iff)
    qed
  qed
  then show ?thesis
    using k assms(2) by (simp add: IPv6Address_broadcastAddress_def CreateMask8 fill_nth Let_def ones_ff)
qed

lemma ipv6_subnetMask:
  assumes "p < 128"
  shows "\<exists>sm. IPv6Address_subnetMask p = Some sm \<and> length (sin6_addr sm) = 16 \<and> (\<forall>n<128. ipv6_bit (sin6_addr sm) n = (n < unat p))"
proof -
  let ?k = "unat p div 8"
  have k: "unat (p div 8) = ?k" "?k < 16"
    using prefix_byte [OF assms(1)] by auto
  have "ipv6_bit (fill 0 ?k (- 1) ((replicate 16 0)[?k := NOT (mask (8 - unat p mod 8))])) n = (n < unat p)" if "n < 128" for n
  proof -
    have n: "n div 8 < 16" "n mod 8 < 8" "7 - n mod 8 < 8"
      using that by auto
    consider "n div 8 < ?k" | "n div 8 = ?k" | "?k < n div 8"
      by linarith
    then show ?thesis
    proof cases
      case 1
      then have "n < unat p"
        by (metis div_le_mono not_le)
      with 1 show ?thesis
        using n by (simp add: ipv6_bit_def fill_nth bit_ones del: bit_minus_1_iff)
    next
      case 2
      then show ?thesis
        using n k byte_split [OF 2] mirror_less [of "n mod 8" "unat p mod 8"] by (auto simp: ipv6_bit_def fill_nth bit_not_iff bit_mask_iff)
    next
      case 3
      then have "unat p \<le> n"
        by (metis div_le_mono le_cases not_le)
      with 3 show ?thesis
        using n k by (simp add: ipv6_bit_def fill_nth)
    qed
  qed
  then show ?thesis
    using k by (simp add: IPv6Address_subnetMask_def CreateMask8 fill_nth Let_def ones_ff)
qed

text \<open>The defects of the IPv6 operations: prefix length 128, and the network of an address.\<close>

lemma ipv6_prefix_128:
  "IPv6Address_broadcastAddress 128 m = None" "IPv6Address_networkAddress 128 m = None" "IPv6Address_subnetMask 128 = None"
  by (simp_all add: IPv6Address_broadcastAddress_def IPv6Address_networkAddress_def IPv6Address_subnetMask_def Let_def split: option.splits)

lemma ipv6_network_wrong:
  "map_option (\<lambda>m. take 2 (sin6_addr m)) (IPv6Address_networkAddress 12 (IPv6Address_bytes SYLAR_LITTLE_ENDIAN (0x20 # 0x35 # replicate 14 1) 0)) =
     Some [0x20, 0x05]"
  by code_simp

section \<open>The order of addresses\<close>

lemma memcmp_lex:
  "length s = length t \<Longrightarrow> memcmp s t < 0 \<longleftrightarrow> (map ord s, map ord t) \<in> lexord {(a, b). a < b}"
  "length s = length t \<Longrightarrow> memcmp s t = 0 \<longleftrightarrow> s = t"
  by (induction s t rule: memcmp.induct) (auto simp: of_char_eq_iff)

lemma mem_less_simps [simp]:
  "mem_less s [] = False"
  "mem_less [] (b # t) = True"
  "mem_less (a # s) (b # t) = (ord a < ord b \<or> a = b \<and> mem_less s t)"
  by (auto simp: mem_less_def Let_def min_def)

interpretation memory_order: std_compare mem_less
proof
  show "\<not> mem_less a a" for a
    by (induction a) auto
  show "mem_less a b \<Longrightarrow> mem_less b c \<Longrightarrow> mem_less a c" for a b c
  proof (induction b arbitrary: a c)
    case (Cons y b)
    then show ?case
      by (cases a; cases c) auto
  qed simp
  show "\<not> mem_less a b \<Longrightarrow> \<not> mem_less b c \<Longrightarrow> \<not> mem_less a c" for a b c
  proof (induction b arbitrary: a c)
    case Nil
    then show ?case
      by (cases a; cases c) auto
  next
    case (Cons y b)
    then show ?case
      by (cases a; cases c) (auto simp: not_less of_char_eq_iff)
  qed
qed

lemma mem_less_total: "s = t \<or> mem_less s t \<or> mem_less t s"
proof (induction s arbitrary: t)
  case Nil
  then show ?case
    by (cases t) auto
next
  case (Cons a s)
  then show ?case
    by (cases t) (auto simp: of_char_eq_iff not_less_iff_gr_or_eq neq_iff)
qed

lemma mem_equal_iff [simp]: "mem_equal s t \<longleftrightarrow> s = t"
  using memcmp_lex(2) by (auto simp: mem_equal_def)

section \<open>Well-formed addresses\<close>

fun address_ok :: "Address \<Rightarrow> bool" where
  "address_ok (IPv4Address m) \<longleftrightarrow> sin_family m = of_int AF_INET \<and> length (sin_zero m) = 8"
| "address_ok (IPv6Address m) \<longleftrightarrow> sin6_family m = of_int AF_INET6 \<and> length (sin6_addr m) = 16"
| "address_ok (UnixAddress m n) \<longleftrightarrow> sun_family m = of_int AF_UNIX \<and> length (sun_path m) = UNIX_PATH_MAX \<and> unat n \<le> sun_offset + UNIX_PATH_MAX"
| "address_ok (UnknownAddress m) \<longleftrightarrow> length (sa_data m) = 14"

lemma address_ok_mem: "address_ok a \<Longrightarrow> addr_mem host a = Some (take (unat (getAddrLen a)) (getAddr host a))"
  by (cases a) (simp_all add: addr_mem_def UNIX_PATH_MAX_def sun_offset_def)

lemma char_byte_char [simp]: "char_byte (byte_char b) = b" "byte_char (char_byte c) = c"
proof -
  have "unat b < 256"
    using unsigned_less [of b, where 'a = nat] by simp
  then show "char_byte (byte_char b) = b"
    by (simp add: char_byte_def byte_char_def)
  show "byte_char (char_byte c) = c"
    by (simp add: char_byte_def byte_char_def unat_of_nat)
qed

lemma mem_value_in [simp]:
  "mem_value host (mem_bytes host 2 v) = (v :: u16)" "mem_value host (mem_bytes host 4 w) = (w :: u32)"
  by (simp_all add: mem_value_bytes)

lemma family_eq: "uint (f :: u16) = k \<Longrightarrow> f = of_int k"
  by auto

lemma Create_ok: "Address_Create host m = Some (Some a) \<Longrightarrow> address_ok a"
  by (auto simp: Address_Create_def mem_family_def read_sockaddr_def read_sockaddr_in_def read_sockaddr_in6_def
      dest!: family_eq split: option.splits if_splits)

text \<open>The addresses the operations make; \<open>inet_pton\<close> fills all 16 bytes, and a length set for a Unix address fits the structure.\<close>

inductive address_made :: "endian \<Rightarrow> Address \<Rightarrow> bool" for host where
  memory: "Address_Create host m = Some (Some a) \<Longrightarrow> address_made host a"
| ipv4: "address_made host (IPv4Address (new_IPv4Address host n port))"
| ipv4_text: "IPv4Address_Create host pton t port = Some m \<Longrightarrow> address_made host (IPv4Address m)"
| ipv6: "address_made host (IPv6Address new_IPv6Address)"
| ipv6_bytes: "16 \<le> length bs \<Longrightarrow> address_made host (IPv6Address (IPv6Address_bytes host bs port))"
| ipv6_text: "IPv6Address_Create host pton6 t port = Some m \<Longrightarrow> (\<And>bs. pton6 t = Some bs \<Longrightarrow> length bs = 16) \<Longrightarrow>
    address_made host (IPv6Address m)"
| ip_text: "IPAddress_Create host gai t port = Some (Some a) \<Longrightarrow> address_made host a"
| unix: "address_made host new_UnixAddress"
| unix_path: "UnixAddress_path path = Inr a \<Longrightarrow> address_made host a"
| unix_length: "address_made host a \<Longrightarrow> unat v \<le> sun_offset + UNIX_PATH_MAX \<Longrightarrow> address_made host (setAddrLen v a)"
| unknown: "address_made host (UnknownAddress (UnknownAddress_family f))"
| port: "address_made host a \<Longrightarrow> address_made host (IPAddress_setPort host port a)"
| broadcast4: "address_made host (IPv4Address m) \<Longrightarrow> IPv4Address_broadcastAddress host p m = Some (Some m') \<Longrightarrow>
    address_made host (IPv4Address m')"
| network4: "address_made host (IPv4Address m) \<Longrightarrow> IPv4Address_networkAddress host p m = Some (Some m') \<Longrightarrow>
    address_made host (IPv4Address m')"
| subnet4: "IPv4Address_subnetMask host p = Some m \<Longrightarrow> address_made host (IPv4Address m)"
| broadcast6: "address_made host (IPv6Address m6) \<Longrightarrow> IPv6Address_broadcastAddress p m6 = Some m6' \<Longrightarrow>
    address_made host (IPv6Address m6')"
| network6: "address_made host (IPv6Address m6) \<Longrightarrow> IPv6Address_networkAddress p m6 = Some m6' \<Longrightarrow>
    address_made host (IPv6Address m6')"
| subnet6: "IPv6Address_subnetMask p = Some m6 \<Longrightarrow> address_made host (IPv6Address m6)"

lemma setPort_ok: "address_ok a \<Longrightarrow> address_ok (IPAddress_setPort host port a)"
  by (cases a) (simp_all add: IPv4Address_setPort_def IPv6Address_setPort_def)

lemma UnixAddress_path_ok: "UnixAddress_path path = Inr a \<Longrightarrow> address_ok a"
proof -
  assume *: "UnixAddress_path path = Inr a"
  define n :: u32 where "n = (if path \<noteq> [] \<and> hd path = NUL then of_nat (length path) + 1 - 1 else of_nat (length path) + 1)"
  from * have n: "unat n \<le> 108" and a: "a = UnixAddress \<lparr>sun_family = of_int AF_UNIX,
      sun_path = take (unat n) (path @ [NUL]) @ drop (unat n) (zeros UNIX_PATH_MAX)\<rparr> (n + of_nat sun_offset)"
    by (auto simp: UnixAddress_path_def Let_def n_def UNIX_PATH_MAX_def split: if_splits)
  have "unat (of_nat (length path) :: u32) \<le> length path" and "unat (of_nat (length path + 1) :: u32) \<le> length path + 1"
    by (simp_all only: unat_of_nat mod_less_eq_dividend)
  then have "unat n \<le> length path + 1"
    unfolding n_def by (auto simp: add.commute)
  then have "length (take (unat n) (path @ [NUL])) = unat n"
    by simp
  moreover have "unat (n + of_nat sun_offset) \<le> unat n + 2"
    using unat_plus_if' [of n 2] by (auto simp: sun_offset_def split: if_splits)
  ultimately show ?thesis
    using n by (simp add: a zeros_def UNIX_PATH_MAX_def sun_offset_def del: length_take take_append)
qed

lemma address_made_ok: "address_made host a \<Longrightarrow> address_ok a"
proof (induction rule: address_made.induct)
  case (ip_text gai t port a)
  then show ?case
    by (auto simp: IPAddress_Create_def split: sum.splits list.splits if_splits intro!: setPort_ok dest: Create_ok)
next
  case (unix_length a v)
  then show ?case
    by (cases a) auto
next
  case unix
  show ?case
    by (simp add: new_UnixAddress_def zeros_def UNIX_PATH_MAX_def MAX_PATH_LEN_def sun_offset_def)
qed (auto simp: new_IPv4Address_def IPv4Address_Create_def new_IPv6Address_def IPv6Address_bytes_def IPv6Address_Create_def
    UnknownAddress_family_def IPv4Address_broadcastAddress_def IPv4Address_networkAddress_def IPv4Address_subnetMask_def
    IPv6Address_broadcastAddress_def IPv6Address_networkAddress_def IPv6Address_subnetMask_def zeros_def fill_nth Let_def
    intro: Create_ok UnixAddress_path_ok setPort_ok split: option.splits if_splits)

lemma Create_getAddr: "address_ok a \<Longrightarrow> is_IPAddress (Some a) \<Longrightarrow> Address_Create host (Some (getAddr host a)) = Some (Some a)"
  by (cases a) (auto simp: Address_Create_def mem_family_def read_sockaddr_in_def read_sockaddr_in6_def AF_INET_def AF_INET6_def
      comp_def)

text \<open>
  C27: Every address that the constructors, \<open>Create\<close> and the operations make has the structure of its class: the family,
  the sizes of its arrays and a length within the structure. So the comparisons never read outside the structures,
  \<open>operator<\<close> is a strict total order of the bytes, whose equality is \<open>operator==\<close>, and the memory of an IP address
  read by \<open>Create\<close> is that address again.
\<close>

theorem address_types:
  assumes "address_made host a" "address_made host b" "address_made host c"
  shows "address_ok a \<and> (\<exists>r. address_less host a b = Some r) \<and> address_less host a a = Some False \<and>
    (address_less host a b = Some True \<longrightarrow> address_less host b c = Some True \<longrightarrow> address_less host a c = Some True) \<and>
    (address_equal host a b = Some True \<longleftrightarrow> address_less host a b = Some False \<and> address_less host b a = Some False) \<and>
    (is_IPAddress (Some a) \<longrightarrow> Address_Create host (Some (getAddr host a)) = Some (Some a))"
  using assms [THEN address_made_ok] memory_order.trans memory_order.irrefl Create_getAddr
    mem_less_total [of "take (unat (getAddrLen a)) (getAddr host a)" "take (unat (getAddrLen b)) (getAddr host b)"]
  by (auto simp: address_less_def address_equal_def address_ok_mem)

text \<open>A Unix path, an IPv4 address and an IPv6 address, in their order on a little-endian machine.\<close>

theorem address_types_witness:
  "\<exists>a. UnixAddress_path ''/tmp'' = Inr a \<and> address_ok a \<and>
     address_less SYLAR_LITTLE_ENDIAN a (IPv6Address new_IPv6Address) = Some True"
proof -
  let ?h = SYLAR_LITTLE_ENDIAN
  define a where "a = UnixAddress \<lparr>sun_family = 1, sun_path = ''/tmp'' @ replicate 104 NUL\<rparr> 7"
  define b where "b = IPv4Address (new_IPv4Address ?h 0 0)"
  have a: "UnixAddress_path ''/tmp'' = Inr a"
    unfolding a_def by code_simp
  have "address_made ?h a" "address_made ?h b" "address_made ?h (IPv6Address new_IPv6Address)"
    using a by (auto simp: b_def intro: address_made.intros)
  note * = address_types [OF this]
  have f: "le_bytes 2 (1 :: u16) = [CHR 0x01, NUL]" "le_bytes 2 (2 :: u16) = [CHR 0x02, NUL]" "le_bytes 2 (10 :: u16) = [CHR 0x0A, NUL]"
    by code_simp+
  have "address_less ?h a b = Some True" "address_less ?h b (IPv6Address new_IPv6Address) = Some True"
    using f by (simp_all add: a_def b_def address_less_def addr_mem_def new_IPv4Address_def new_IPv6Address_def zeros_def
        AF_INET_def AF_INET6_def)
  with * a show ?thesis
    by blast
qed

section \<open>Networks\<close>

text \<open>The prefix length \<open>GetInterfaceAddresses\<close> counts in an IPv6 netmask.\<close>

lemma sum_bytes: "fold (\<lambda>i n. n + f i) [0..<k] (a :: u32) = a + (\<Sum>i<k. f i)"
  by (induction k) (simp_all add: algebra_simps)

lemma card_byte_mask: "k \<le> 8 \<Longrightarrow> card (bits_of (NOT (mask k) :: u8)) = 8 - k"
proof -
  have "bits_of (NOT (mask k) :: u8) = {k..<8}"
    by (auto simp: bits_of_def bit_not_iff bit_mask_iff)
  then show ?thesis
    by simp
qed

lemma CountBytes_byte: "CountBytes (0 :: u8) = 0" "CountBytes (- 1 :: u8) = 8"
  "k \<le> 8 \<Longrightarrow> CountBytes (NOT (mask k) :: u8) = of_nat (8 - k)"
  using card_byte_mask [of 0] by (simp_all add: CountBytes_card card_byte_mask) (simp add: bits_of_def)

lemma ipv6_netmask_prefix:
  assumes "p < 128" "IPv6Address_subnetMask p = Some sm"
  shows "netmask_prefix host AF_INET6 (Some (getAddr host (IPv6Address sm))) = Some p"
proof -
  let ?k = "unat p div 8"
  have k: "unat (p div 8) = ?k" "?k < 16"
    using prefix_byte [OF assms(1)] by auto
  have sm: "sin6_addr sm = fill 0 ?k (- 1) ((replicate 16 0)[?k := NOT (mask (8 - unat p mod 8))])"
    "length (sin6_addr sm) = 16"
    using assms(2) k by (auto simp: IPv6Address_subnetMask_def CreateMask8 Let_def ones_ff fill_nth)
  let ?f = "\<lambda>i. CountBytes (sin6_addr sm ! i)"
  have f: "?f i = (if i < ?k then 8 else if i = ?k then of_nat (unat p mod 8) else 0)" if "i < 16" for i
    using that k by (auto simp: sm(1) fill_nth CountBytes_byte nth_list_update)
  have "(\<Sum>i<16. ?f i) = (\<Sum>i<?k. ?f i) + ?f ?k + (\<Sum>i\<in>{?k<..<16}. ?f i)"
  proof -
    have "{..<16} = {..<?k} \<union> {?k} \<union> {?k<..<16}"
      using k by auto
    moreover have "{..<?k} \<inter> {?k<..<16} = {}"
      by auto
    ultimately show ?thesis
      by (simp add: sum.union_disjoint)
  qed
  also have "\<dots> = of_nat (8 * ?k) + of_nat (unat p mod 8)"
    using k f by simp
  also have "\<dots> = of_nat (8 * ?k + unat p mod 8)"
    by (simp only: of_nat_add)
  also have "\<dots> = p"
    unfolding mult_div_mod_eq by simp
  finally show ?thesis
    using sm(2) by (simp add: netmask_prefix_def AF_INET_def AF_INET6_def read_sockaddr_in6_def comp_def sum_bytes)
qed



section \<open>The text of an IPv6 address\<close>

text \<open>The text form of RFC 4291, section 2.2: groups in hexadecimal, and \<open>::\<close> for groups of zeros.\<close>

definition hex_char_value :: "char \<Rightarrow> nat" where
  "hex_char_value c = (if ord c < 58 then ord c - 48 else ord c - 87)"

definition hex_read :: "string \<Rightarrow> nat" where
  "hex_read s = foldl (\<lambda>n c. 16 * n + hex_char_value c) 0 s"

fun split_colons :: "string \<Rightarrow> string list" where
  "split_colons [] = [[]]"
| "split_colons (c # s) = (if c = CHR '':'' then [] # split_colons s else (c # hd (split_colons s)) # tl (split_colons s))"

fun find_double :: "string \<Rightarrow> nat option" where
  "find_double (a # b # s) = (if a = CHR '':'' \<and> b = CHR '':'' then Some 0 else map_option Suc (find_double (b # s)))"
| "find_double s = None"

definition read_groups :: "string \<Rightarrow> nat list" where
  "read_groups s = (if s = [] then [] else map hex_read (split_colons s))"

definition ipv6_read :: "string \<Rightarrow> nat list" where
  "ipv6_read s =
     (case find_double s of
        None \<Rightarrow> read_groups s
      | Some i \<Rightarrow>
          let l = read_groups (take i s); r = read_groups (drop (i + 2) s)
          in l @ replicate (8 - length l - length r) 0 @ r)"

definition ipv6_groups :: "u8 list \<Rightarrow> nat list" where
  "ipv6_groups a = map (\<lambda>i. 256 * unat (a ! (2 * i)) + unat (a ! (2 * i + 1))) [0..<8]"

lemma hex_digits: "n < 16 \<Longrightarrow> hex_char_value (hex_digit n) = n" "n < 16 \<Longrightarrow> hex_digit n \<noteq> CHR '':''"
proof -
  have "\<forall>n\<in>set [0..<16]. hex_char_value (hex_digit n) = n \<and> hex_digit n \<noteq> CHR '':''"
    by code_simp
  then show "n < 16 \<Longrightarrow> hex_char_value (hex_digit n) = n" "n < 16 \<Longrightarrow> hex_digit n \<noteq> CHR '':''"
    by auto
qed

lemma hex_str_read: "hex_read (hex_str n) = n" "hex_str n \<noteq> []" "CHR '':'' \<notin> set (hex_str n)"
  by (induction n rule: hex_str.induct; subst hex_str.simps; simp add: hex_read_def hex_digits(1) hex_digits(2) [symmetric])+

fun join_colons :: "string list \<Rightarrow> string" where
  "join_colons [] = []"
| "join_colons [w] = w"
| "join_colons (w # ws) = w @ CHR '':'' # join_colons ws"

abbreviation word_ok :: "string \<Rightarrow> bool" where
  "word_ok w \<equiv> w \<noteq> [] \<and> CHR '':'' \<notin> set w"

lemma join_snoc: "ws \<noteq> [] \<Longrightarrow> join_colons (ws @ [w]) = join_colons ws @ CHR '':'' # w"
  by (induction ws rule: join_colons.induct) auto

lemma join_nil: "\<forall>w\<in>set ws. word_ok w \<Longrightarrow> join_colons ws = [] \<longleftrightarrow> ws = []"
  by (induction ws rule: join_colons.induct) auto

lemma split_colons_word: "CHR '':'' \<notin> set w \<Longrightarrow> split_colons (w @ CHR '':'' # s) = w # split_colons s" "CHR '':'' \<notin> set w \<Longrightarrow> split_colons w = [w]"
  by (induction w) auto

lemma split_join: "ws \<noteq> [] \<Longrightarrow> \<forall>w\<in>set ws. word_ok w \<Longrightarrow> split_colons (join_colons ws) = ws"
  by (induction ws rule: join_colons.induct) (auto simp: split_colons_word)

lemma read_join: "read_groups (join_colons (map hex_str ns)) = ns"
proof -
  have "\<forall>w\<in>set (map hex_str ns). word_ok w"
    using hex_str_read by auto
  then show ?thesis
    by (cases "ns = []") (auto simp: read_groups_def join_nil split_join comp_def hex_str_read)
qed

abbreviation single :: "string \<Rightarrow> bool" where
  "single s \<equiv> successively (\<lambda>a b. a = CHR '':'' \<longrightarrow> b \<noteq> CHR '':'') s"

lemma find_double_none: "single s \<Longrightarrow> find_double s = None"
  by (induction s rule: find_double.induct) auto

lemma find_double_some: "single s \<Longrightarrow> s = [] \<or> last s \<noteq> CHR '':'' \<Longrightarrow> find_double (s @ ''::'' @ t) = Some (length s)"
  by (induction s rule: find_double.induct) (auto split: if_splits)

lemma single_word: "CHR '':'' \<notin> set w \<Longrightarrow> single w"
  by (induction w rule: find_double.induct) auto

lemma single_join: "\<forall>w\<in>set ws. word_ok w \<Longrightarrow> single (join_colons ws) \<and> (ws \<noteq> [] \<longrightarrow>
    hd (join_colons ws) \<noteq> CHR '':'' \<and> last (join_colons ws) \<noteq> CHR '':'')"
proof (induction ws rule: join_colons.induct)
  case (2 w)
  then show ?case
    by (auto simp: single_word dest: hd_in_set last_in_set)
next
  case (3 w v ws)
  then have "last w \<noteq> CHR '':''" "hd w \<noteq> CHR '':''" "join_colons (v # ws) \<noteq> []"
    using join_nil [of "v # ws"] by (auto dest: hd_in_set last_in_set)
  with 3 show ?case
    by (auto simp: single_word successively_append_iff successively_Cons)
qed simp

lemma insert_groups_nonzero:
  "\<forall>i<j. addr i \<noteq> 0 \<Longrightarrow> fold (insert_group host addr) [0..<j] (False, os) =
    (False, os @ join_colons (map (\<lambda>i. hex_str (unat (byteswapOnLittleEndian host 2 (addr i)))) [0..<j]))"
proof (induction j)
  case (Suc j)
  then have "addr j \<noteq> 0" "j \<noteq> 0 \<Longrightarrow> addr (j - 1) \<noteq> 0"
    by auto
  with Suc show ?case
    by (cases "j = 0") (auto simp: insert_group_def join_snoc)
qed simp

lemma insert_groups_zero:
  "\<forall>i. j \<le> i \<and> i < k \<longrightarrow> addr i = 0 \<Longrightarrow> fold (insert_group host addr) [j..<k] (False, os) = (False, os)"
proof (induction k)
  case (Suc k)
  then show ?case
    by (cases "j \<le> k") (auto simp: insert_group_def)
qed simp

lemma insert_groups_used:
  "0 < m \<Longrightarrow> fold (insert_group host addr) [m..<n] (True, os @ join_colons [w]) =
    (True, os @ join_colons (w # map (\<lambda>i. hex_str (unat (byteswapOnLittleEndian host 2 (addr i)))) [m..<n]))"
proof (induction n)
  case (Suc n)
  then show ?case
    by (cases "m \<le> n") (auto simp: insert_group_def join_snoc [of "w # _", simplified])
qed simp

text \<open>The groups before the first zero, and the groups behind the first run of zeros.\<close>

lemma upt_split: "i \<le> j \<Longrightarrow> j \<le> k \<Longrightarrow> [i..<k] = [i..<j] @ [j..<k]"
  using upt_add_eq_append [of i j "k - j"] by simp

lemma zero_run:
  fixes addr :: "nat \<Rightarrow> u16"
  assumes "\<exists>i<n. addr i = 0"
  obtains j k where "j < k" "k \<le> n" "\<forall>i<j. addr i \<noteq> 0" "\<forall>i. j \<le> i \<and> i < k \<longrightarrow> addr i = 0" "k = n \<or> addr k \<noteq> 0"
proof -
  define j where "j = (LEAST i. addr i = 0)"
  obtain i where i: "i < n" "addr i = 0"
    using assms by blast
  have j: "addr j = 0" "\<forall>i<j. addr i \<noteq> 0" "j < n"
  proof -
    show "addr j = 0"
      unfolding j_def using i(2) by (rule LeastI)
    show "\<forall>i<j. addr i \<noteq> 0"
      unfolding j_def by (blast dest: not_less_Least)
    have "j \<le> i"
      unfolding j_def using i(2) by (rule Least_le)
    with i(1) show "j < n"
      by simp
  qed
  define k where "k = (LEAST k. j < k \<and> (k = n \<or> addr k \<noteq> 0))"
  have ex: "j < n \<and> (n = n \<or> addr n \<noteq> 0)"
    using j by simp
  then have k: "j < k \<and> (k = n \<or> addr k \<noteq> 0)" "k \<le> n"
    unfolding k_def by (rule LeastI) (rule Least_le, rule ex)
  have "addr i = 0" if "j \<le> i" "i < k" for i
    using not_less_Least [of i "\<lambda>k. j < k \<and> (k = n \<or> addr k \<noteq> 0)"] that j(1) unfolding k_def [symmetric] by (cases "i = j") auto
  with j k show ?thesis
    by (intro that [of j k]) auto
qed

lemma hton_zero: "byteswapOnLittleEndian host 2 (0 :: u16) = 0"
proof -
  have "byteswap 2 (0 :: u16) = 0"
    by code_simp
  then show ?thesis
    by (simp add: byteswapOnLittleEndian_def)
qed

lemma insert_text:
  fixes addr :: "nat \<Rightarrow> u16" and host :: endian
  defines "gs \<equiv> map (\<lambda>i. unat (byteswapOnLittleEndian host 2 (addr i))) [0..<8]"
  obtains body where "(let (used_zeros, os) = fold (insert_group host addr) [0..<8] (False, ''['')
      in if \<not> used_zeros \<and> addr 7 = 0 then os @ ''::'' else os) = ''['' @ body" "ipv6_read body = gs"
proof (cases "\<exists>i<8. addr i = 0")
  case False
  let ?b = "join_colons (map hex_str gs)"
  have "ipv6_read ?b = gs"
    using single_join [of "map hex_str gs"] hex_str_read by (simp add: ipv6_read_def find_double_none read_join)
  moreover have "fold (insert_group host addr) [0..<8] (False, ''['') = (False, ''['' @ ?b)"
    using False insert_groups_nonzero [of 8 addr host "''[''"] by (simp add: gs_def comp_def del: upt_rec_numeral)
  ultimately show ?thesis
    using False by (intro that [of ?b]) simp_all
next
  case True
  then obtain j k where jk: "j < k" "k \<le> 8" "\<forall>i<j. addr i \<noteq> 0" "\<forall>i. j \<le> i \<and> i < k \<longrightarrow> addr i = 0" "k = 8 \<or> addr k \<noteq> 0"
    by (rule zero_run)
  let ?h = "\<lambda>i. unat (byteswapOnLittleEndian host 2 (addr i))"
  let ?l = "join_colons (map hex_str (map ?h [0..<j]))" and ?r = "join_colons (map hex_str (map ?h [k..<8]))"
  have upt: "[0..<8] = [0..<j] @ [j..<k] @ [k..<8]"
    using upt_split [of 0 j 8] upt_split [of j k 8] jk(1,2) by (simp only: le0 less_imp_le)
  have "map ?h [j..<k] = replicate (k - j) 0"
    using jk(4) by (intro nth_equalityI) (auto simp: hton_zero)
  then have gs: "gs = map ?h [0..<j] @ replicate (k - j) 0 @ map ?h [k..<8]"
    unfolding gs_def upt by simp
  have "find_double (?l @ ''::'' @ ?r) = Some (length ?l)"
    using single_join [of "map hex_str (map ?h [0..<j])"] hex_str_read by (intro find_double_some) auto
  then have "ipv6_read (?l @ ''::'' @ ?r) = gs"
    using jk(1,2) by (simp add: ipv6_read_def read_join gs del: map_map)
  moreover have "fold (insert_group host addr) ([0..<j] @ [j..<k]) (False, ''['') = (False, ''['' @ ?l)"
    using jk(3,4) by (simp add: insert_groups_nonzero insert_groups_zero comp_def)
  then have "(let (used_zeros, os) = fold (insert_group host addr) [0..<8] (False, ''['')
      in if \<not> used_zeros \<and> addr 7 = 0 then os @ ''::'' else os) = ''['' @ ?l @ ''::'' @ ?r"
  proof (cases "k = 8")
    case True
    then show ?thesis
      using jk(1,4) \<open>fold _ _ _ = _\<close> by (simp add: upt)
  next
    case False
    then have "[k..<8] = k # [Suc k..<8]" "addr k \<noteq> 0" "addr (k - 1) = 0"
      using jk by (auto simp: upt_conv_Cons)
    then show ?thesis
      using jk(1) \<open>fold _ _ _ = _\<close> insert_groups_used [of "Suc k" host addr 8 "''['' @ ?l @ ''::''" "hex_str (?h k)"]
      by (simp add: upt insert_group_def comp_def)
  qed
  ultimately show ?thesis
    by (rule that [rotated])
qed

lemma group_value: "unat (byteswapOnLittleEndian host 2 (addr_u16 host a i)) = 256 * unat (a ! (2 * i)) + unat (a ! (2 * i + 1))"
proof -
  let ?b = "byte_char (a ! (2 * i))" and ?c = "byte_char (a ! (2 * i + 1))"
  have "byteswapOnLittleEndian host 2 (addr_u16 host a i) = (le_value [?c, ?b] :: u16)"
    using le_bytes_value [of "[?b, ?c]", where 'a = 16]
    by (cases host) (simp_all add: byteswapOnLittleEndian_def addr_u16_def byteswap_def numeral_2_eq_2)
  moreover have "unat (le_value [?c, ?b] :: u16) = horner_sum of_char 256 [?c, ?b]"
    using horner_less [of "[?c, ?b]"] by (simp only: le_value_def unat_of_nat) simp
  moreover have "ord (byte_char b) = unat b" for b :: u8
    using unsigned_less [of b, where 'a = nat] by (simp add: byte_char_def)
  ultimately show ?thesis
    by simp
qed

text \<open>
  C29: The text of an IPv6 address is a text of RFC 4291 in brackets followed by the port, and reading the text between the
  brackets gives the eight groups of the address: one run of zeros, the first, is written as \<open>::\<close>.
\<close>

theorem ipv6_text:
  "\<exists>body. IPv6Address_insert host m = ''['' @ body @ '']:'' @ dec_str (unat (IPv6Address_getPort host m)) \<and>
    ipv6_read body = ipv6_groups (sin6_addr m)"
proof -
  let ?addr = "addr_u16 host (sin6_addr m)"
  obtain body where body: "(let (used_zeros, os) = fold (insert_group host ?addr) [0..<8] (False, ''['')
      in if \<not> used_zeros \<and> ?addr 7 = 0 then os @ ''::'' else os) = ''['' @ body"
    "ipv6_read body = map (\<lambda>i. unat (byteswapOnLittleEndian host 2 (?addr i))) [0..<8]"
    by (rule insert_text)
  have "unat (IPv6Address_getPort host m) = unat (byteswapOnLittleEndian host 2 (sin6_port m))"
    using unsigned_less [of "byteswapOnLittleEndian host 2 (sin6_port m)", where 'a = nat]
    by (simp add: IPv6Address_getPort_def unsigned_ucast_eq take_bit_nat_eq_self)
  then have "IPv6Address_insert host m = ''['' @ body @ '']:'' @ dec_str (unat (IPv6Address_getPort host m))"
    using body(1)
    by (cases "fold (insert_group host ?addr) [0..<8] (False, ''['')") (simp add: IPv6Address_insert_def Let_def del: upt_rec_numeral)
  with body(2) show ?thesis
    by (auto simp: ipv6_groups_def group_value)
qed

section \<open>Unix paths\<close>

lemma UnixAddress_path_eq:
  assumes "length path < 2 ^ 32 - 1"
  defines "n \<equiv> (if path \<noteq> [] \<and> hd path = NUL then length path else length path + 1)"
  shows "UnixAddress_path path =
    (if UNIX_PATH_MAX < n then Inl Path_too_long
     else Inr (UnixAddress \<lparr>sun_family = of_int AF_UNIX, sun_path = take n (path @ [NUL]) @ zeros (UNIX_PATH_MAX - n)\<rparr> (of_nat (n + sun_offset))))"
proof -
  have "unat (of_nat k :: u32) = k" if "k < 2 ^ 32" for k
    using that by (simp add: unat_of_nat)
  from this [of "length path"] this [of "length path + 1"] assms(1) show ?thesis
    by (auto simp: UnixAddress_path_def Let_def n_def zeros_def algebra_simps)
qed

text \<open>A path, or a name in the abstract name space, is found again in the address; a longer path is refused.\<close>

lemma unix_length: "k \<le> UNIX_PATH_MAX \<Longrightarrow> unat (of_nat (k + sun_offset) :: u32) = k + 2"
  by (simp only: unat_of_nat) (simp add: sun_offset_def UNIX_PATH_MAX_def)

lemma c_str_pad: "NUL \<notin> set s \<Longrightarrow> c_str (s @ NUL # t) = s" and c_str_id: "NUL \<notin> set s \<Longrightarrow> c_str s = s"
  by (induction s) (auto simp: c_str_def)

lemma unix_path_again:
  assumes "path \<noteq> []" "NUL \<notin> set path" "length path < UNIX_PATH_MAX"
  shows "\<exists>m n. UnixAddress_path path = Inr (UnixAddress m n) \<and> UnixAddress_getPath m n = Some path"
proof -
  let ?m = "\<lparr>sun_family = of_int AF_UNIX, sun_path = path @ zeros (UNIX_PATH_MAX - length path)\<rparr>"
  let ?n = "of_nat (length path + 1 + sun_offset) :: u32"
  have "hd path \<noteq> NUL"
    using assms(1,2) hd_in_set by metis
  with assms UnixAddress_path_eq [of path] have "UnixAddress_path path = Inr (UnixAddress ?m ?n)"
    by (auto simp: UNIX_PATH_MAX_def zeros_def Cons_replicate_eq)
  moreover have "zeros (UNIX_PATH_MAX - length path) = NUL # zeros (UNIX_PATH_MAX - length path - 1)"
    using assms(3) by (cases "UNIX_PATH_MAX - length path") (auto simp: zeros_def)
  then have "UnixAddress_getPath ?m ?n = Some path"
    using assms \<open>hd path \<noteq> NUL\<close> by (simp add: UnixAddress_getPath_def c_str_pad nth_append hd_conv_nth)
  ultimately show ?thesis
    by blast
qed

lemma unix_name_again:
  assumes "length name < UNIX_PATH_MAX"
  shows "\<exists>m n. UnixAddress_path (NUL # name) = Inr (UnixAddress m n) \<and> UnixAddress_getPath m n = Some ([CHR 0x5C, CHR ''0''] @ name)"
proof -
  let ?m = "\<lparr>sun_family = of_int AF_UNIX, sun_path = NUL # name @ zeros (UNIX_PATH_MAX - length (NUL # name))\<rparr>"
  let ?n = "of_nat (length (NUL # name) + sun_offset) :: u32"
  have n: "unat ?n = length name + 3"
    using unix_length [of "length (NUL # name)"] assms by simp
  moreover have "?n - of_nat sun_offset - 1 = of_nat (length name)"
    by simp
  moreover have "unat (of_nat (length name) :: u32) = length name"
    using assms by (simp add: unat_of_nat UNIX_PATH_MAX_def)
  ultimately have "UnixAddress_getPath ?m ?n = Some ([CHR 0x5C, CHR ''0''] @ name)"
    using assms by (simp add: UnixAddress_getPath_def zeros_def UNIX_PATH_MAX_def sun_offset_def)
  moreover have "UnixAddress_path (NUL # name) = Inr (UnixAddress ?m ?n)"
    using assms UnixAddress_path_eq [of "NUL # name"] by (simp add: UNIX_PATH_MAX_def)
  ultimately show ?thesis
    by blast
qed

lemma unix_path_too_long:
  "UNIX_PATH_MAX \<le> length path \<Longrightarrow> length path < 2 ^ 32 - 1 \<Longrightarrow> hd path \<noteq> NUL \<Longrightarrow> UnixAddress_path path = Inl Path_too_long"
  by (simp add: UnixAddress_path_eq)

section \<open>Look-ups of end points\<close>

lemma memchr_append: "c \<notin> set s \<Longrightarrow> memchr c (s @ c # t) = Some (length s)"
  by (induction s) auto

lemma memchr_none: "c \<notin> set s \<Longrightarrow> memchr c s = None"
  by (induction s) auto

lemma lookup_split_plain:
  assumes "CHR '':'' \<notin> set node" "node \<noteq> []" "hd node \<noteq> CHR ''[''"
  shows "lookup_split node = (node, None)"
    and "CHR '':'' \<notin> set service \<Longrightarrow> lookup_split (node @ CHR '':'' # service) = (node, Some service)"
  using assms by (auto simp: lookup_split_def lookup_bracket_def lookup_plain_def memchr_append memchr_none)

lemma lookup_split_bracket:
  assumes "CHR '']'' \<notin> set node" "node \<noteq> []"
  shows "lookup_split (''['' @ node @ '']'') = (node, None)"
    and "lookup_split (''['' @ node @ '']:'' @ service) = (node, Some service)"
  using assms by (auto simp: lookup_split_def lookup_bracket_def memchr_append cstr_at_def nth_append eval_nat_numeral)

text \<open>A bare IPv6 address is looked up with a part of its own text as the service.\<close>

lemma lookup_bare_ipv6: "lookup_split ''::1'' = (''::1'', Some ''::1'')" "lookup_split ''fe80::1'' = (''fe80::1'', Some ''::1'')"
  by code_simp+

lemma create_all_made:
  "\<forall>a\<in>set as. address_made bo a \<and> is_IPAddress (Some a) \<Longrightarrow> create_all bo (map (\<lambda>a. Some (getAddr bo a)) as) = Some (map Some as)"
  by (induction as) (auto simp: Create_getAddr address_made_ok)

text \<open>
  Looking up an end point. The form \<open>node:service\<close> whose node is a name or an IPv4 address, and the form \<open>[node]:service\<close>
  whose node is an IPv6 address, ask \<open>getaddrinfo\<close> for that node and that service; when it answers with IP addresses,
  \<open>Lookup\<close> gives exactly these in this order, \<open>LookupAnyIPAddress\<close> the first of them, and when it fails there is no address.
\<close>

theorem lookup_endpoint:
  assumes node: "node \<noteq> []" "NUL \<notin> set node" and service: "NUL \<notin> set service"
    and shape: "host = node @ CHR '':'' # service \<and> CHR '':'' \<notin> set (node @ service) \<and> hd node \<noteq> CHR ''['' \<or>
      host = ''['' @ node @ '']:'' @ service \<and> CHR '']'' \<notin> set node"
    and gai: "gai node (Some service) \<lparr>ai_flags = 0, ai_family = family, ai_socktype = type, ai_protocol = protocol\<rparr> = answer"
    and made: "\<forall>a\<in>set as. address_made bo a \<and> is_IPAddress (Some a)"
  shows "(answer = Inr (map (\<lambda>a. Some (getAddr bo a)) as) \<longrightarrow>
      Lookup bo gai host family type protocol result = Some (result @ map Some as \<noteq> [], result @ map Some as) \<and>
      LookupAnyIPAddress bo gai host family type protocol = Some (case as of [] \<Rightarrow> None | a # _ \<Rightarrow> Some a)) \<and>
    (\<forall>e. answer = Inl e \<longrightarrow> Lookup bo gai host family type protocol result = Some (False, result) \<and>
      LookupAnyIPAddress bo gai host family type protocol = Some None)"
proof -
  have "lookup_split host = (node, Some service)"
    using shape node(1) lookup_split_plain(2) [of node service] lookup_split_bracket(2) [of node service] by auto
  moreover have "first_ip (map Some as) = (case as of [] \<Rightarrow> None | a # _ \<Rightarrow> Some a)"
    using made by (cases as) auto
  ultimately show ?thesis
    using gai node(2) service create_all_made [OF made] by (auto simp: Lookup_def LookupAnyIPAddress_def c_str_id)
qed

text \<open>The look-up of \<open>localhost:80\<close> with a resolver that knows one address.\<close>

theorem lookup_endpoint_witness:
  "LookupAnyIPAddress SYLAR_BIG_ENDIAN
     (\<lambda>n s h. if n = ''localhost'' then Inr [Some (getAddr SYLAR_BIG_ENDIAN (IPv4Address (new_IPv4Address SYLAR_BIG_ENDIAN 0x7f000001 80)))]
             else Inl 1)
     ''localhost:80'' AF_INET 0 0 = Some (Some (IPv4Address (new_IPv4Address SYLAR_BIG_ENDIAN 0x7f000001 80)))"
  using lookup_endpoint [of "''localhost''" "''80''" "''localhost:80''"
      "\<lambda>n s h. if n = ''localhost'' then Inr [Some (getAddr SYLAR_BIG_ENDIAN (IPv4Address (new_IPv4Address SYLAR_BIG_ENDIAN 0x7f000001 80)))]
             else Inl 1" AF_INET 0 0
      "Inr [Some (getAddr SYLAR_BIG_ENDIAN (IPv4Address (new_IPv4Address SYLAR_BIG_ENDIAN 0x7f000001 80)))]"
      "[IPv4Address (new_IPv4Address SYLAR_BIG_ENDIAN 0x7f000001 80)]" SYLAR_BIG_ENDIAN] address_made.ipv4
  by simp

text \<open>An interface without an address, which \<open>getifaddrs\<close> may list, is followed as a null pointer.\<close>

lemma interface_without_address: "ifa_addr i = None \<Longrightarrow> GetInterfaceAddresses bo (Some (i # rest)) result family = None"
  by (simp add: GetInterfaceAddresses_def interface_entry_def)

end
