(* ===== verification/Uri.thy ===== *)
theory Uri
  imports Http_Url_Spec Addresses
begin

text \<open>
  \<open>uri.h\<close> and \<open>uri.cc\<close>: a URI and its parts, read by \<open>http_parser_parse_url\<close>.

  \<open>std::stoi\<close> is modelled for the decimal base: it skips white space, takes a sign and digits, and throws when
  there are none or when the number does not fit an \<open>int\<close>. A failed assertion of the URL parser is \<open>None\<close>.
\<close>

section \<open>Numbers\<close>

datatype stoi_error = Invalid_argument | Out_of_range

definition stoi_space :: "char \<Rightarrow> bool" where
  "stoi_space c \<longleftrightarrow> c = CHR '' '' \<or> (9 \<le> ord c \<and> ord c \<le> 13)"

definition stoi :: "string \<Rightarrow> stoi_error + int" where
  "stoi s =
     (let s = dropWhile stoi_space s;
          neg = (s \<noteq> [] \<and> hd s = CHR ''-'');
          s = (if s \<noteq> [] \<and> (hd s = CHR ''-'' \<or> hd s = CHR ''+'') then tl s else s);
          ds = takeWhile IS_NUM s;
          v = (if neg then - int (dec_num 0 ds) else int (dec_num 0 ds))
      in if ds = [] then Inl Invalid_argument
         else if v < - (2 ^ 31) \<or> v \<ge> 2 ^ 31 then Inl Out_of_range
         else Inr v)"

section \<open>URIs\<close>

record Uri =
  m_scheme :: string
  m_userinfo :: string
  m_host :: string
  m_path :: string
  m_query :: string
  m_fragment :: string
  m_port :: int

definition new_Uri :: Uri where
  "new_Uri = \<lparr>m_scheme = [], m_userinfo = [], m_host = [], m_path = [], m_query = [], m_fragment = [], m_port = 0\<rparr>"

text \<open>One \<open>if (parser.field_set & (1 << f))\<close> of \<open>Create\<close>.\<close>

definition take_field :: "http_parser_url_fields \<Rightarrow> (string \<Rightarrow> Uri \<Rightarrow> Uri) \<Rightarrow> string \<Rightarrow> http_parser_url \<Rightarrow> Uri \<Rightarrow> Uri" where
  "take_field f setter urlstr prs uri = (if has_field prs f then setter (field_str urlstr prs f) uri else uri)"

definition default_port :: "Uri \<Rightarrow> Uri" where
  "default_port uri =
     (if m_scheme uri = ''http'' \<or> m_scheme uri = ''ws'' then uri\<lparr>m_port := 80\<rparr>
      else if m_scheme uri = ''https'' then uri\<lparr>m_port := 443\<rparr>
      else uri)"

definition take_port :: "string \<Rightarrow> http_parser_url \<Rightarrow> Uri \<Rightarrow> stoi_error + Uri" where
  "take_port urlstr prs uri =
     (if has_field prs UF_PORT
      then (case stoi (field_str urlstr prs UF_PORT) of Inl e \<Rightarrow> Inl e | Inr v \<Rightarrow> Inr (uri\<lparr>m_port := v\<rparr>))
      else Inr (default_port uri))"

definition Uri_Create :: "string \<Rightarrow> (stoi_error + Uri option) option" where
  "Uri_Create urlstr =
     (case http_parser_parse_url urlstr False http_parser_url_init of
        None \<Rightarrow> None
      | Some (r, prs) \<Rightarrow>
          if r \<noteq> 0 then Some (Inr None)
          else
            let uri = take_field UF_SCHEMA (\<lambda>v u. u\<lparr>m_scheme := v\<rparr>) urlstr prs new_Uri;
                uri = take_field UF_USERINFO (\<lambda>v u. u\<lparr>m_userinfo := v\<rparr>) urlstr prs uri;
                uri = take_field UF_HOST (\<lambda>v u. u\<lparr>m_host := v\<rparr>) urlstr prs uri
            in case take_port urlstr prs uri of
                 Inl e \<Rightarrow> Some (Inl e)
               | Inr uri \<Rightarrow>
                   let uri = take_field UF_PATH (\<lambda>v u. u\<lparr>m_path := v\<rparr>) urlstr prs uri;
                       uri = take_field UF_QUERY (\<lambda>v u. u\<lparr>m_query := v\<rparr>) urlstr prs uri;
                       uri = take_field UF_FRAGMENT (\<lambda>v u. u\<lparr>m_fragment := v\<rparr>) urlstr prs uri
                   in Some (Inr (Some uri)))"

definition getPort :: "Uri \<Rightarrow> int" where
  "getPort uri =
     (if m_port uri \<noteq> 0 then m_port uri
      else if m_scheme uri = ''http'' \<or> m_scheme uri = ''ws'' then 80
      else if m_scheme uri = ''https'' \<or> m_scheme uri = ''wss'' then 443
      else m_port uri)"

definition getPath :: "Uri \<Rightarrow> string" where
  "getPath uri = (if m_path uri = [] then ''/'' else m_path uri)"

definition isDefaultPort :: "Uri \<Rightarrow> bool" where
  "isDefaultPort uri =
     (if m_scheme uri = ''http'' \<or> m_scheme uri = ''ws'' then m_port uri = 80
      else if m_scheme uri = ''https'' then m_port uri = 443
      else False)"

text \<open>\<open>std::to_string\<close> of an \<open>int\<close>.\<close>

definition int_to_string :: "int \<Rightarrow> string" where
  "int_to_string n = (if n < 0 then ''-'' @ dec_str (nat (- n)) else dec_str (nat n))"

definition Uri_toString :: "Uri \<Rightarrow> string" where
  "Uri_toString uri =
     m_scheme uri @ ''://'' @ m_userinfo uri @ (if m_userinfo uri = [] then [] else ''@'') @ m_host uri @
     (if isDefaultPort uri then [] else '':'' @ int_to_string (m_port uri)) @ getPath uri @
     (if m_query uri = [] then [] else ''?'') @ m_query uri @ (if m_fragment uri = [] then [] else ''#'') @ m_fragment uri"

text \<open>\<open>setPort\<close> takes the low 16 bits of the port.\<close>

definition createAddress :: "endian \<Rightarrow> getaddrinfo \<Rightarrow> Uri \<Rightarrow> Address option option" where
  "createAddress bo gai uri =
     map_option (map_option (IPAddress_setPort bo (of_int (getPort uri)))) (LookupAnyIPAddress bo gai (m_host uri) AF_INET 0 0)"

section \<open>Reading an absolute URL\<close>

lemma scheme_steps:
  "IS_ALPHA c \<Longrightarrow> parse_url_char s_req_spaces_before_url c = s_req_schema"
  "IS_ALPHA c \<Longrightarrow> parse_url_char s_req_schema c = s_req_schema"
  by (auto simp: parse_url_char_def IS_ALPHA_def)

lemma server_steps:
  assumes "IS_USERINFO_CHAR c"
  shows "parse_url_char s_req_server_start c = s_req_server" "parse_url_char s_req_server c = s_req_server"
    "parse_url_char s_req_server_with_at c = s_req_server"
proof -
  have "c \<notin> {CHR '' '', CR, LF, HT, FF, CHR ''/'', CHR ''?'', CHR ''@''}"
    using assms by (auto simp: IS_USERINFO_CHAR_def IS_ALPHANUM_def IS_ALPHA_def IS_NUM_def IS_MARK_def)
  with assms show "parse_url_char s_req_server_start c = s_req_server" "parse_url_char s_req_server c = s_req_server"
    "parse_url_char s_req_server_with_at c = s_req_server"
    by (simp_all add: parse_url_char_def parse_url_server_def)
qed

lemma host_char_userinfo: "IS_HOST_CHAR c \<Longrightarrow> IS_USERINFO_CHAR c"
  by (auto simp: IS_HOST_CHAR_def IS_USERINFO_CHAR_def IS_MARK_def)

lemma digit_userinfo: "IS_NUM c \<Longrightarrow> IS_USERINFO_CHAR c" "IS_USERINFO_CHAR (CHR '':'')"
  by (auto simp: IS_USERINFO_CHAR_def IS_ALPHANUM_def)

definition userinfo_part :: "string \<Rightarrow> string" where
  "userinfo_part ui = (if ui = [] then [] else ui @ ''@'')"

definition port_part :: "string \<Rightarrow> string" where
  "port_part ds = (if ds = [] then [] else CHR '':'' # ds)"

lemma scheme_loop:
  assumes "sch \<noteq> []" "\<forall>c\<in>set sch. IS_ALPHA c"
  shows "parse_url_loop 0 (sch @ ''://'' @ rest) s_req_spaces_before_url UF_MAX False u =
    parse_url_loop (length sch + 3) rest s_req_server_start UF_SCHEMA False (field_at UF_SCHEMA 0 (length sch) u)"
proof -
  obtain c cs where sch: "sch = c # cs" using assms(1) by (cases sch) auto
  have "parse_url_loop 0 (sch @ ''://'' @ rest) s_req_spaces_before_url UF_MAX False u =
      parse_url_loop (0 + Suc (length cs)) (''://'' @ rest) s_req_schema UF_SCHEMA False (field_at UF_SCHEMA 0 (Suc (length cs)) u)"
    unfolding sch using assms(2) by (intro parse_url_field) (auto simp: sch scheme_steps url_switch_def)
  moreover have "parse_url_loop q (''://'' @ rest) s_req_schema UF_SCHEMA False v =
      parse_url_loop (q + 3) rest s_req_server_start UF_SCHEMA False v" for q v
    by (simp add: parse_url_char_def IS_ALPHA_def url_switch_def Let_def numeral_3_eq_3)
  ultimately show ?thesis by (simp add: sch)
qed

lemma server_loop:
  assumes "host \<noteq> []" "\<forall>c\<in>set (host @ tail). IS_USERINFO_CHAR c" "\<forall>c\<in>set ui. IS_USERINFO_CHAR c" "old \<noteq> UF_HOST"
  shows "parse_url_loop p ((userinfo_part ui @ host @ tail) @ rest) s_req_server_start old False u =
    parse_url_loop (p + length (userinfo_part ui @ host @ tail)) rest s_req_server UF_HOST (ui \<noteq> [])
      (field_at UF_HOST p (length (userinfo_part ui @ host @ tail)) u)"
proof -
  obtain h hs where host: "host = h # hs" using assms(1) by (cases host) auto
  have keep: "\<forall>c\<in>set cs. parse_url_char s_req_server c = s_req_server" if "\<forall>c\<in>set cs. IS_USERINFO_CHAR c" for cs
    using that server_steps(2) by blast
  show ?thesis
  proof (cases ui)
    case Nil
    have "parse_url_loop p ((h # hs @ tail) @ rest) s_req_server_start old False u =
        parse_url_loop (p + Suc (length (hs @ tail))) rest s_req_server UF_HOST False (field_at UF_HOST p (Suc (length (hs @ tail))) u)"
      using assms host keep [of "hs @ tail"] by (intro parse_url_field) (auto simp: server_steps url_switch_def)
    then show ?thesis using Nil host by (simp add: userinfo_part_def)
  next
    case (Cons c cs)
    have "parse_url_loop p ((c # cs) @ ''@'' @ host @ tail @ rest) s_req_server_start old False u =
        parse_url_loop (p + Suc (length cs)) (''@'' @ host @ tail @ rest) s_req_server UF_HOST False (field_at UF_HOST p (Suc (length cs)) u)"
      using assms Cons keep [of cs] by (intro parse_url_field) (auto simp: server_steps url_switch_def)
    also have "\<dots> = parse_url_loop (p + length cs + 3) ((hs @ tail) @ rest) s_req_server UF_HOST True (field_at UF_HOST p (length cs + 3) u)"
    proof -
      have "parse_url_char s_req_server (CHR ''@'') = s_req_server_with_at"
        by (simp add: parse_url_char_def parse_url_server_def)
      moreover have "parse_url_char s_req_server_with_at h = s_req_server"
        using assms(2) host by (simp add: server_steps)
      ultimately show ?thesis
        by (simp add: host Let_def url_switch_def bump_field_at numeral_3_eq_3)
    qed
    also have "\<dots> = parse_url_loop (p + length cs + 3 + length (hs @ tail)) rest s_req_server UF_HOST True
        (field_at UF_HOST p (length cs + 3 + length (hs @ tail)) u)"
      using assms(2) host keep [of "hs @ tail"] by (intro parse_url_run) (auto simp: url_switch_def)
    finally show ?thesis
      using Cons host by (simp add: userinfo_part_def ac_simps numeral_3_eq_3)
  qed
qed

section \<open>Splitting the authority\<close>

lemma bump_iter:
  "has_field ((bump_len f ^^ n) u) g = has_field u g" "field_off ((bump_len f ^^ n) u) g = field_off u g"
  "field_len ((bump_len f ^^ n) u) g = (if g = f then field_len u f + of_nat n else field_len u g)"
  by (induction n) (auto simp: add.commute)

lemma host_run:
  assumes "(s, f) \<in> {(s_http_host, UF_HOST), (s_http_host_port, UF_PORT), (s_http_userinfo, UF_USERINFO)}"
  shows "\<forall>c\<in>set cs. http_parse_host_char s c = s \<Longrightarrow>
    parse_host_loop p (cs @ rest) s u = parse_host_loop (p + length cs) rest s ((bump_len f ^^ length cs) u)"
proof (induction cs arbitrary: p u)
  case (Cons c cs)
  have "host_update s s p u = bump_len f u" "s \<noteq> s_http_host_dead"
    using assms by (auto simp: host_update_def)
  with Cons show ?case
    by (simp add: funpow_Suc_right del: funpow.simps(2))
qed simp

lemma host_steps:
  "IS_HOST_CHAR c \<Longrightarrow> http_parse_host_char s_http_host_start c = s_http_host"
  "IS_HOST_CHAR c \<Longrightarrow> http_parse_host_char s_http_host c = s_http_host"
  "IS_NUM c \<Longrightarrow> http_parse_host_char s_http_host_port_start c = s_http_host_port"
  "IS_NUM c \<Longrightarrow> http_parse_host_char s_http_host_port c = s_http_host_port"
  "IS_USERINFO_CHAR c \<Longrightarrow> http_parse_host_char s_http_userinfo_start c = s_http_userinfo"
  "IS_USERINFO_CHAR c \<Longrightarrow> http_parse_host_char s_http_userinfo c = s_http_userinfo"
  by (auto simp: http_parse_host_char_def IS_HOST_CHAR_def IS_ALPHANUM_def IS_ALPHA_def IS_NUM_def IS_USERINFO_CHAR_def IS_MARK_def)

lemma host_part_loop:
  assumes "host \<noteq> []" "\<forall>c\<in>set host. IS_HOST_CHAR c"
  shows "parse_host_loop p (host @ rest) s_http_host_start u =
    parse_host_loop (p + length host) rest s_http_host ((bump_len UF_HOST ^^ length host) (set_off UF_HOST p u))"
proof -
  obtain h hs where host: "host = h # hs" using assms(1) by (cases host) auto
  have "parse_host_loop p (host @ rest) s_http_host_start u =
      parse_host_loop (Suc p) (hs @ rest) s_http_host (bump_len UF_HOST (set_off UF_HOST p u))"
    using assms(2) host by (simp add: host_steps host_update_def)
  also have "\<dots> = parse_host_loop (Suc p + length hs) rest s_http_host ((bump_len UF_HOST ^^ length hs) (bump_len UF_HOST (set_off UF_HOST p u)))"
    using assms(2) host by (intro host_run) (auto simp: host_steps)
  finally show ?thesis
    by (simp add: host funpow_swap1)
qed

lemma port_part_loop:
  assumes "ds \<noteq> []" "\<forall>c\<in>set ds. IS_NUM c"
  shows "parse_host_loop p (port_part ds) s_http_host u =
    (Some s_http_host_port, (bump_len UF_PORT ^^ length ds) (mark_field UF_PORT (put_field UF_PORT (of_nat (Suc p)) 0 u)))"
proof -
  obtain d es where ds: "ds = d # es" using assms(1) by (cases ds) auto
  let ?u = "mark_field UF_PORT (put_field UF_PORT (of_nat (Suc p)) 0 u)"
  have "http_parse_host_char s_http_host (CHR '':'') = s_http_host_port_start"
    by (simp add: http_parse_host_char_def IS_HOST_CHAR_def IS_ALPHANUM_def IS_ALPHA_def IS_NUM_def)
  then have "parse_host_loop p (port_part ds) s_http_host u =
      parse_host_loop (Suc (Suc p)) (es @ []) s_http_host_port (bump_len UF_PORT ?u)"
    using assms(2) ds by (simp add: port_part_def host_steps host_update_def)
  also have "\<dots> = parse_host_loop (Suc (Suc p) + length es) [] s_http_host_port ((bump_len UF_PORT ^^ length es) (bump_len UF_PORT ?u))"
    using assms(2) ds by (intro host_run) (auto simp: host_steps)
  finally show ?thesis by (simp add: ds funpow_swap1)
qed

lemma userinfo_part_loop:
  assumes "ui \<noteq> []" "\<forall>c\<in>set ui. IS_USERINFO_CHAR c"
  shows "parse_host_loop p (userinfo_part ui @ rest) s_http_userinfo_start u =
    parse_host_loop (p + length (userinfo_part ui)) rest s_http_host_start
      ((bump_len UF_USERINFO ^^ length ui) (mark_field UF_USERINFO (put_field UF_USERINFO (of_nat p) 0 u)))"
proof -
  obtain c cs where ui: "ui = c # cs" using assms(1) by (cases ui) auto
  let ?u = "mark_field UF_USERINFO (put_field UF_USERINFO (of_nat p) 0 u)"
  have at: "http_parse_host_char s_http_userinfo (CHR ''@'') = s_http_host_start"
    by (simp add: http_parse_host_char_def)
  have "parse_host_loop p (userinfo_part ui @ rest) s_http_userinfo_start u =
      parse_host_loop (Suc p) (cs @ ''@'' @ rest) s_http_userinfo (bump_len UF_USERINFO ?u)"
    using assms(2) ui by (simp add: userinfo_part_def host_steps host_update_def)
  also have "\<dots> = parse_host_loop (Suc p + length cs) (''@'' @ rest) s_http_userinfo ((bump_len UF_USERINFO ^^ length cs) (bump_len UF_USERINFO ?u))"
    using assms(2) ui by (intro host_run) (auto simp: host_steps)
  finally show ?thesis
    using at by (simp add: ui userinfo_part_def funpow_swap1 host_update_def)
qed

text \<open>The host, the port and the user information of an authority that is put together from them.\<close>

lemma authority_parts:
  assumes chars: "\<forall>c\<in>set ui. IS_USERINFO_CHAR c" "host \<noteq> []" "\<forall>c\<in>set host. IS_HOST_CHAR c" "\<forall>c\<in>set ds. IS_NUM c"
    and buf: "take n (drop p buf) = userinfo_part ui @ host @ port_part ds" "n = length (userinfo_part ui @ host @ port_part ds)"
      "length buf < 65536" "p + n \<le> length buf"
    and u: "has_field u UF_HOST" "field_off u UF_HOST = of_nat p" "field_len u UF_HOST = of_nat n"
      "\<not> has_field u UF_PORT" "\<not> has_field u UF_USERINFO"
  shows "\<exists>v. http_parse_host buf u (ui \<noteq> []) = Some (0, v) \<and> part_str buf v UF_HOST = host \<and> part_str buf v UF_USERINFO = ui \<and>
    part_str buf v UF_PORT = ds \<and> (has_field v UF_PORT \<longleftrightarrow> ds \<noteq> []) \<and>
    (has_field v UF_PORT \<longrightarrow> field_end v UF_PORT \<le> length buf) \<and>
    (\<forall>f. f \<notin> {UF_HOST, UF_PORT, UF_USERINFO} \<longrightarrow> has_field v f = has_field u f \<and> field_str buf v f = field_str buf u f)"
proof -
  define u0 where "u0 = put_field UF_HOST (field_off u UF_HOST) 0 u"
  define u1 where "u1 = (if ui = [] then u0
    else (bump_len UF_USERINFO ^^ length ui) (mark_field UF_USERINFO (put_field UF_USERINFO (of_nat p) 0 u0)))"
  define q where "q = p + length (userinfo_part ui)"
  define u2 where "u2 = (bump_len UF_HOST ^^ length host) (set_off UF_HOST q u1)"
  define r where "r = q + length host"
  define v where "v = (if ds = [] then u2
    else (bump_len UF_PORT ^^ length ds) (mark_field UF_PORT (put_field UF_PORT (of_nat (Suc r)) 0 u2)))"
  note defs = u0_def u1_def u2_def v_def bump_iter
  have small: "p < 65536" "q < 65536" "r < 65536" "length ui < 65536" "length host < 65536" "length ds < 65536"
    "ds \<noteq> [] \<Longrightarrow> Suc r + length ds \<le> length buf" "ds \<noteq> [] \<Longrightarrow> Suc r < 65536"
    using buf(2-4) by (auto simp: q_def r_def userinfo_part_def port_part_def split: if_splits)
  have "parse_host_loop p (userinfo_part ui @ host @ port_part ds) (if ui \<noteq> [] then s_http_userinfo_start else s_http_host_start) u0 =
      parse_host_loop q (host @ port_part ds) s_http_host_start u1"
    using userinfo_part_loop [of ui p "host @ port_part ds" u0] chars(1) by (simp add: u1_def q_def userinfo_part_def)
  also have "\<dots> = parse_host_loop r (port_part ds) s_http_host u2"
    using host_part_loop [OF chars(2,3)] by (simp add: u2_def r_def)
  also have "\<dots> = (Some (if ds = [] then s_http_host else s_http_host_port), v)"
    using port_part_loop [of ds r u2] chars(4) by (simp add: v_def port_part_def)
  finally have loop: "parse_host_loop p (userinfo_part ui @ host @ port_part ds)
      (if ui \<noteq> [] then s_http_userinfo_start else s_http_host_start) u0 = (Some (if ds = [] then s_http_host else s_http_host_port), v)" .
  have pn: "unat (field_off u UF_HOST) = p" "unat (field_len u UF_HOST) = n"
    using u(2,3) small(1) buf(3,4) by simp_all
  have "http_parse_host buf u (ui \<noteq> []) = Some (0, v)"
    using loop u(1) buf(1,4) by (simp add: http_parse_host_def pn u0_def [symmetric] host_end_bad_def)
  moreover obtain z where z: "drop p buf = userinfo_part ui @ host @ port_part ds @ z"
    using buf(1) by (metis append_assoc append_take_drop_id)
  have "drop q buf = drop (length (userinfo_part ui)) (drop p buf)"
    by (simp add: q_def add.commute)
  then have dq: "drop q buf = host @ port_part ds @ z"
    using z by simp
  have "drop (Suc r) buf = drop (Suc (length host)) (drop q buf)"
    by (simp add: r_def add.commute)
  then have dr: "ds \<noteq> [] \<Longrightarrow> drop (Suc r) buf = ds @ z"
    using dq by (simp add: port_part_def)
  have port_off: "ds \<noteq> [] \<Longrightarrow> unat (1 + word_of_nat r :: u16) = Suc r"
    using small(8) unat_of_nat_u16 [of "Suc r"] by simp
  have "part_str buf v UF_HOST = host"
    using u(1) small dq by (auto simp: part_str_def field_str_def defs)
  moreover have "part_str buf v UF_USERINFO = ui"
    using u(5) small z by (auto simp: part_str_def field_str_def defs userinfo_part_def)
  moreover have "part_str buf v UF_PORT = ds" "has_field v UF_PORT \<longleftrightarrow> ds \<noteq> []" "has_field v UF_PORT \<longrightarrow> field_end v UF_PORT \<le> length buf"
    using u(4) small dr port_off by (auto simp: part_str_def field_str_def field_end_def defs)
  moreover have "has_field v f = has_field u f \<and> field_str buf v f = field_str buf u f" if "f \<notin> {UF_HOST, UF_PORT, UF_USERINFO}" for f
    using that by (auto simp: field_str_def defs)
  ultimately show ?thesis by blast
qed

lemma parse_url_port_parts:
  assumes "\<forall>c\<in>set ds. IS_NUM c" "dec_num 0 ds \<le> 65535" "part_str buf v UF_PORT = ds" "has_field v UF_PORT \<longleftrightarrow> ds \<noteq> []"
    "has_field v UF_PORT \<longrightarrow> field_end v UF_PORT \<le> length buf"
  shows "\<exists>w. parse_url_port buf v = Some (0, w) \<and> (\<forall>f. has_field w f = has_field v f \<and> field_str buf w f = field_str buf v f)"
proof (cases "ds = []")
  case True
  with assms(4) show ?thesis by (simp add: parse_url_port_def)
next
  case False
  then have "field_str buf v UF_PORT = ds" "has_field v UF_PORT"
    using assms(3,4) by (simp_all add: part_str_def)
  moreover have "port_loop ds 0 = Some (of_nat (dec_num 0 ds))"
    using port_loop_value [OF assms(1), of 0] assms(2) by simp
  ultimately show ?thesis
    using assms(5) by (auto simp: parse_url_port_def field_end_def has_field_def field_str_def field_off_def field_len_def)
qed

text \<open>An absolute URL is split into the parts it was put together from.\<close>

lemma absolute_url_parts:
  assumes sch: "sch \<noteq> []" "\<forall>c\<in>set sch. IS_ALPHA c"
    and auth: "\<forall>c\<in>set ui. IS_USERINFO_CHAR c" "host \<noteq> []" "\<forall>c\<in>set host. IS_HOST_CHAR c" "\<forall>c\<in>set ds. IS_NUM c" "dec_num 0 ds \<le> 65535"
    and path: "\<forall>c\<in>set path. IS_URL_CHAR c" "\<forall>c\<in>set q. IS_URL_CHAR c \<or> c = CHR ''?''"
      "\<forall>c\<in>set fr. IS_URL_CHAR c \<or> c = CHR ''?'' \<or> c = CHR ''#''" "fr \<noteq> [] \<longrightarrow> hd fr \<noteq> CHR ''#''"
    and buf: "buf = sch @ ''://'' @ (userinfo_part ui @ host @ port_part ds) @ (CHR ''/'' # path) @ query_part q @ fragment_part fr"
      "length buf < 65536"
  shows "\<exists>w. http_parser_parse_url buf False u = Some (0, w) \<and> part_str buf w UF_SCHEMA = sch \<and> part_str buf w UF_USERINFO = ui \<and>
    part_str buf w UF_HOST = host \<and> part_str buf w UF_PORT = ds \<and> (has_field w UF_PORT \<longleftrightarrow> ds \<noteq> []) \<and>
    part_str buf w UF_PATH = CHR ''/'' # path \<and> part_str buf w UF_QUERY = q \<and> part_str buf w UF_FRAGMENT = fr"
proof -
  let ?u = "u\<lparr>port := 0, field_set := 0\<rparr>" let ?a = "userinfo_part ui @ host @ port_part ds"
  define p where "p = length sch + 3"
  define n where "n = length ?a"
  define m where "m = p + n"
  define u1 where "u1 = field_at UF_PATH m (Suc (length path)) (field_at UF_HOST p n (field_at UF_SCHEMA 0 (length sch) ?u))"
  define u2 where "u2 = (if q = [] then u1 else field_at UF_QUERY (Suc (m + Suc (length path))) (length q) u1)"
  define u3 where "u3 = (if fr = [] then u2
    else field_at UF_FRAGMENT (Suc (m + Suc (length path) + length (query_part q))) (length fr) u2)"
  have none: "\<not> has_field ?u f" for f by (simp add: has_field_def)
  have uchars: "\<forall>c\<in>set (host @ port_part ds). IS_USERINFO_CHAR c"
    using auth(3,4) by (auto simp: port_part_def host_char_userinfo digit_userinfo split: if_splits)
  have "parse_url_loop 0 buf s_req_spaces_before_url UF_MAX False ?u =
      parse_url_loop p (?a @ (CHR ''/'' # path) @ query_part q @ fragment_part fr) s_req_server_start UF_SCHEMA False (field_at UF_SCHEMA 0 (length sch) ?u)"
    unfolding buf(1) p_def by (rule scheme_loop [OF sch])
  also have "\<dots> = parse_url_loop m ((CHR ''/'' # path) @ query_part q @ fragment_part fr) s_req_server UF_HOST (ui \<noteq> [])
      (field_at UF_HOST p n (field_at UF_SCHEMA 0 (length sch) ?u))"
    unfolding m_def n_def by (rule server_loop [OF auth(2) uchars auth(1)]) simp
  also have "\<dots> = parse_url_loop (m + Suc (length path)) (query_part q @ fragment_part fr) s_req_path UF_PATH (ui \<noteq> []) u1"
    unfolding u1_def using path(1)
    by (intro parse_url_field) (auto simp: url_char_steps url_switch_def parse_url_char_def [of s_req_server] parse_url_server_def)
  also have "\<dots> = Some (0, ui \<noteq> [], u3)"
    using url_query_loop [OF _ path(2-4), of UF_PATH "m + Suc (length path)" "ui \<noteq> []" u1] by (simp add: Let_def u2_def u3_def)
  finally have loop: "parse_url_loop 0 buf s_req_spaces_before_url UF_MAX False ?u = Some (0, ui \<noteq> [], u3)" .
  have len: "m + Suc (length path) + length (query_part q) + length (fragment_part fr) = length buf" "p + n = m"
    by (simp_all add: buf(1) m_def n_def p_def)
  have small: "p < 65536" "n < 65536" "m < 65536" "length path < 65535" "length sch < 65536"
    using len buf(2) by (auto simp: p_def)
  have host: "has_field u3 UF_HOST" "field_off u3 UF_HOST = of_nat p" "field_len u3 UF_HOST = of_nat n"
    "\<not> has_field u3 UF_PORT" "\<not> has_field u3 UF_USERINFO"
    using none by (auto simp: u1_def u2_def u3_def field_at_def)
  have auth_buf: "take n (drop p buf) = ?a" by (simp add: buf(1) p_def n_def)
  have "p + n \<le> length buf" using len by simp
  from authority_parts [OF auth(1-4) auth_buf n_def buf(2) this host]
  obtain v where v: "http_parse_host buf u3 (ui \<noteq> []) = Some (0, v)" "part_str buf v UF_HOST = host" "part_str buf v UF_USERINFO = ui"
    "part_str buf v UF_PORT = ds" "has_field v UF_PORT \<longleftrightarrow> ds \<noteq> []" "has_field v UF_PORT \<longrightarrow> field_end v UF_PORT \<le> length buf"
    "\<forall>f. f \<notin> {UF_HOST, UF_PORT, UF_USERINFO} \<longrightarrow> has_field v f = has_field u3 f \<and> field_str buf v f = field_str buf u3 f"
    by blast
  obtain w where w: "parse_url_port buf v = Some (0, w)" "\<forall>f. has_field w f = has_field v f \<and> field_str buf w f = field_str buf v f"
    using parse_url_port_parts [OF auth(4,5) v(4-6)] by blast
  have part: "part_str buf w f = part_str buf v f" for f using w(2) by (simp add: part_str_def)
  have part3: "part_str buf v f = part_str buf u3 f" if "f \<notin> {UF_HOST, UF_PORT, UF_USERINFO}" for f
    using v(7) that by (simp add: part_str_def)
  have dm: "drop (m + k) buf = drop k ((CHR ''/'' # path) @ query_part q @ fragment_part fr)" for k
  proof -
    let ?pre = "sch @ ''://'' @ ?a"
    have "buf = ?pre @ (CHR ''/'' # path) @ query_part q @ fragment_part fr" "m = length ?pre"
      by (simp_all add: buf(1) m_def p_def n_def)
    then have "drop m buf = (CHR ''/'' # path) @ query_part q @ fragment_part fr"
      by (metis append_eq_conv_conj)
    then show ?thesis by (metis add.commute drop_drop)
  qed
  have "part_str buf u3 UF_SCHEMA = sch"
    using none small by (auto simp: part_str_def u1_def u2_def u3_def buf(1))
  moreover have "part_str buf u3 UF_PATH = CHR ''/'' # path"
    using none small dm [of 0] by (auto simp: part_str_def u1_def u2_def u3_def)
  moreover have "part_str buf u3 UF_QUERY = q"
    using none len buf(2) dm [of "Suc (Suc (length path))"]
    by (auto simp: part_str_def u1_def u2_def u3_def query_part_def)
  moreover have "part_str buf u3 UF_FRAGMENT = fr"
    using none len buf(2) dm [of "Suc (Suc (length path) + length (query_part q))"]
    by (auto simp: part_str_def u1_def u2_def u3_def fragment_part_def add.assoc)
  moreover have "http_parser_parse_url buf False u = Some (0, w)"
    using loop v(1) w(1) host(1) sch by (simp add: http_parser_parse_url_def parse_url_finish_def buf(1))
  ultimately show ?thesis
    using part part3 v w(2) by (intro exI [of _ w]) simp
qed

section \<open>Numbers read and printed\<close>

lemma dec_num_snoc: "dec_num a (cs @ [c]) = dec_num a cs * 10 + (ord c - 48)"
  by (induction cs arbitrary: a) simp_all

lemma dec_str_digits: "\<forall>c\<in>set (dec_str n). IS_NUM c"
proof (induction n rule: dec_str.induct)
  case (1 n)
  then show ?case
    by (subst dec_str.simps) (auto simp: IS_NUM_ord of_char_of)
qed

lemma dec_str_nonempty: "dec_str n \<noteq> []"
  by (subst dec_str.simps) simp

lemma dec_num_dec_str: "dec_num 0 (dec_str n) = n"
proof (induction n rule: dec_str.induct)
  case (1 n)
  then show ?case
    by (subst dec_str.simps) (auto simp: dec_num_snoc of_char_of)
qed

lemma stoi_digits:
  assumes "ds \<noteq> []" "\<forall>c\<in>set ds. IS_NUM c" "dec_num 0 ds < 2 ^ 31"
  shows "stoi ds = Inr (int (dec_num 0 ds))"
proof -
  have "IS_NUM (hd ds)" using assms by simp
  then have "\<not> stoi_space (hd ds)" "hd ds \<noteq> CHR ''-''" "hd ds \<noteq> CHR ''+''"
    by (auto simp: stoi_space_def IS_NUM_ord)
  moreover from this have "dropWhile stoi_space ds = ds"
    using assms(1) by (cases ds) auto
  moreover have tw: "takeWhile IS_NUM ds = ds" using assms(2) by (simp add: takeWhile_eq_all_conv)
  ultimately show ?thesis
    using assms by (simp add: stoi_def Let_def tw)
qed

section \<open>Round trip\<close>

text \<open>The parts of a URI as they may stand in a URL: a host name or an IPv4 address, and a path that is not empty.\<close>

definition uri_ok :: "Uri \<Rightarrow> bool" where
  "uri_ok u \<longleftrightarrow>
     m_scheme u \<noteq> [] \<and> (\<forall>c\<in>set (m_scheme u). IS_ALPHA c) \<and> (\<forall>c\<in>set (m_userinfo u). IS_USERINFO_CHAR c) \<and>
     m_host u \<noteq> [] \<and> (\<forall>c\<in>set (m_host u). IS_HOST_CHAR c) \<and>
     m_path u \<noteq> [] \<and> hd (m_path u) = CHR ''/'' \<and> (\<forall>c\<in>set (m_path u). IS_URL_CHAR c) \<and>
     (\<forall>c\<in>set (m_query u). IS_URL_CHAR c \<or> c = CHR ''?'') \<and>
     (\<forall>c\<in>set (m_fragment u). IS_URL_CHAR c \<or> c = CHR ''?'' \<or> c = CHR ''#'') \<and> (m_fragment u \<noteq> [] \<longrightarrow> hd (m_fragment u) \<noteq> CHR ''#'') \<and>
     0 \<le> m_port u \<and> m_port u \<le> 65535"

lemma take_fields:
  "m_scheme uri = [] \<Longrightarrow> take_field UF_SCHEMA (\<lambda>v u. u\<lparr>m_scheme := v\<rparr>) s prs uri = uri\<lparr>m_scheme := part_str s prs UF_SCHEMA\<rparr>"
  "m_userinfo uri = [] \<Longrightarrow> take_field UF_USERINFO (\<lambda>v u. u\<lparr>m_userinfo := v\<rparr>) s prs uri = uri\<lparr>m_userinfo := part_str s prs UF_USERINFO\<rparr>"
  "m_host uri = [] \<Longrightarrow> take_field UF_HOST (\<lambda>v u. u\<lparr>m_host := v\<rparr>) s prs uri = uri\<lparr>m_host := part_str s prs UF_HOST\<rparr>"
  "m_path uri = [] \<Longrightarrow> take_field UF_PATH (\<lambda>v u. u\<lparr>m_path := v\<rparr>) s prs uri = uri\<lparr>m_path := part_str s prs UF_PATH\<rparr>"
  "m_query uri = [] \<Longrightarrow> take_field UF_QUERY (\<lambda>v u. u\<lparr>m_query := v\<rparr>) s prs uri = uri\<lparr>m_query := part_str s prs UF_QUERY\<rparr>"
  "m_fragment uri = [] \<Longrightarrow> take_field UF_FRAGMENT (\<lambda>v u. u\<lparr>m_fragment := v\<rparr>) s prs uri = uri\<lparr>m_fragment := part_str s prs UF_FRAGMENT\<rparr>"
  by (cases uri; simp add: take_field_def part_str_def)+

lemma uri_printed_read:
  assumes "uri_ok u" "length (Uri_toString u) < 65536"
  shows "Uri_Create (Uri_toString u) = Some (Inr (Some u))"
proof -
  define ds where "ds = (if isDefaultPort u then [] else dec_str (nat (m_port u)))"
  obtain path where path: "m_path u = CHR ''/'' # path"
    using assms(1) by (cases "m_path u") (auto simp: uri_ok_def)
  have ds: "\<forall>c\<in>set ds. IS_NUM c" "dec_num 0 ds \<le> 65535" "ds \<noteq> [] \<longleftrightarrow> \<not> isDefaultPort u"
    "ds \<noteq> [] \<Longrightarrow> stoi ds = Inr (m_port u)"
    using assms(1) dec_str_digits dec_str_nonempty stoi_digits
    by (auto simp: ds_def uri_ok_def dec_num_dec_str split: if_splits)
  have str: "Uri_toString u = m_scheme u @ ''://'' @ (userinfo_part (m_userinfo u) @ m_host u @ port_part ds) @
      (CHR ''/'' # path) @ query_part (m_query u) @ fragment_part (m_fragment u)"
    using assms(1) dec_str_nonempty [of "nat (m_port u)"]
    by (auto simp: Uri_toString_def userinfo_part_def port_part_def query_part_def fragment_part_def ds_def getPath_def path
        int_to_string_def uri_ok_def)
  obtain w where w: "http_parser_parse_url (Uri_toString u) False http_parser_url_init = Some (0, w)"
    "part_str (Uri_toString u) w UF_SCHEMA = m_scheme u" "part_str (Uri_toString u) w UF_USERINFO = m_userinfo u"
    "part_str (Uri_toString u) w UF_HOST = m_host u" "part_str (Uri_toString u) w UF_PORT = ds" "has_field w UF_PORT \<longleftrightarrow> ds \<noteq> []"
    "part_str (Uri_toString u) w UF_PATH = m_path u" "part_str (Uri_toString u) w UF_QUERY = m_query u"
    "part_str (Uri_toString u) w UF_FRAGMENT = m_fragment u"
    using absolute_url_parts [OF _ _ _ _ _ ds(1,2) _ _ _ _ str assms(2), of http_parser_url_init] assms(1) path
    by (auto simp: uri_ok_def)
  let ?u = "\<lparr>m_scheme = m_scheme u, m_userinfo = m_userinfo u, m_host = m_host u, m_path = [], m_query = [], m_fragment = [], m_port = 0\<rparr>"
  have "take_port (Uri_toString u) w ?u = Inr (?u\<lparr>m_port := m_port u\<rparr>)"
    using ds(3,4) w(5,6) by (auto simp: take_port_def part_str_def default_port_def isDefaultPort_def split: if_splits)
  then show ?thesis
    using w(1) by (simp add: Uri_Create_def Let_def take_fields w(2-4,7-9) new_Uri_def)
qed

text \<open>
  C10: Printing a URI and reading it again gives the same URI: scheme, user information, host, port, path, query and
  fragment. The port is left out when it is the default one of the scheme.
\<close>

theorem uri_roundtrip:
  assumes "uri_ok u" "length (Uri_toString u) < 65536"
  shows "Uri_Create (Uri_toString u) = Some (Inr (Some u))"
  using assms by (rule uri_printed_read)

theorem uri_roundtrip_witness:
  "Uri_Create ''https://me:pw@sylar.top:81/a/b?x=1#y'' =
     Some (Inr (Some \<lparr>m_scheme = ''https'', m_userinfo = ''me:pw'', m_host = ''sylar.top'', m_path = ''/a/b'', m_query = ''x=1'',
       m_fragment = ''y'', m_port = 81\<rparr>))"
proof -
  let ?u = "\<lparr>m_scheme = ''https'', m_userinfo = ''me:pw'', m_host = ''sylar.top'', m_path = ''/a/b'', m_query = ''x=1'',
    m_fragment = ''y'', m_port = 81\<rparr>"
  have "uri_ok ?u" by code_simp
  moreover have s: "Uri_toString ?u = ''https://me:pw@sylar.top:81/a/b?x=1#y''" by code_simp
  ultimately show ?thesis
    using uri_roundtrip [of ?u] by simp
qed

text \<open>
  A host in brackets is stored without them, and printed without them: the result is not a URL of the same host.
  The default port of \<open>wss\<close> is known to \<open>getPort\<close> only: it is printed as 0.
\<close>

lemma ipv6_host_printed:
  "map_option (map_sum id (map_option Uri_toString)) (Uri_Create ''http://[fe80::1]:81/'') = Some (Inr (Some ''http://fe80::1:81/''))"
  "Uri_Create ''http://fe80::1:81/'' = Some (Inr None)"
  by code_simp+

lemma wss_port_printed:
  "map_option (map_sum id (map_option (\<lambda>u. (getPort u, Uri_toString u)))) (Uri_Create ''wss://sylar.top/'') =
     Some (Inr (Some (443, ''wss://sylar.top:0/'')))"
  by code_simp

section \<open>Addresses\<close>

lemma first_ip_kind: "first_ip as = Some a \<Longrightarrow> is_IPAddress (Some a)"
  by (induction as) (auto split: if_splits)

text \<open>The address of a URI has the port of the URI.\<close>

lemma createAddress_port:
  assumes "createAddress bo gai uri = Some (Some a)" "0 \<le> getPort uri" "getPort uri < 65536"
  shows "uint (IPAddress_getPort bo a) = getPort uri"
proof -
  obtain b where b: "LookupAnyIPAddress bo gai (m_host uri) AF_INET 0 0 = Some (Some b)"
    and a: "a = IPAddress_setPort bo (of_int (getPort uri)) b"
    using assms(1) by (auto simp: createAddress_def)
  have "is_IPAddress (Some b)"
    using b by (auto simp: LookupAnyIPAddress_def split: if_splits intro: first_ip_kind)
  moreover have "uint (ucast (of_int (getPort uri) :: u16) :: u32) = getPort uri"
    using assms(2,3) by (simp add: unsigned_ucast_eq uint_word_of_int_eq take_bit_int_eq_self)
  ultimately show ?thesis
    by (cases b) (simp_all add: a IPv4Address_setPort_def IPv4Address_getPort_def IPv6Address_setPort_def IPv6Address_getPort_def hton_twice)
qed

end
