(* ===== verification/Http_Client.thy ===== *)
theory Http_Client
  imports Http_Parsers Uri
begin

text \<open>
  The client side of \<open>http_connection.h\<close> and \<open>http_connection.cc\<close>: building and sending a request, and the pool of
  connections. \<open>recvResponse\<close> and \<open>sendRequest\<close> are in theory \<open>Http_Parsers\<close>.

  What a client meets is the record \<open>client_env\<close>: the resolver, the network (the socket that connecting to an
  address gives, or a failure), the last error, and the limits of the configuration. A time-out of a read is a
  failure of the network. A result \<open>None\<close> means that the code has undefined behaviour or does not return.
\<close>

section \<open>Results\<close>

datatype HttpResult_Error =
  OK | INVALID_URL | INVALID_HOST | CONNECT_FAIL | SEND_CLOSE_BY_PEER | SEND_SOCKET_ERROR | TIMEOUT |
  CREATE_SOCKET_ERROR | POOL_GET_CONNECTION | POOL_INVALID_CONNECTION

fun error_num :: "HttpResult_Error \<Rightarrow> int" where
  "error_num OK = 0"
| "error_num INVALID_URL = 1"
| "error_num INVALID_HOST = 2"
| "error_num CONNECT_FAIL = 3"
| "error_num SEND_CLOSE_BY_PEER = 4"
| "error_num SEND_SOCKET_ERROR = 5"
| "error_num TIMEOUT = 6"
| "error_num CREATE_SOCKET_ERROR = 7"
| "error_num POOL_GET_CONNECTION = 8"
| "error_num POOL_INVALID_CONNECTION = 9"

record HttpResult =
  hr_result :: int
  hr_response :: "HttpResponse option"
  hr_error :: string

definition failure :: "HttpResult_Error \<Rightarrow> string \<Rightarrow> HttpResult" where
  "failure e msg = \<lparr>hr_result = error_num e, hr_response = None, hr_error = msg\<rparr>"

definition HttpResult_toString :: "HttpResult \<Rightarrow> string" where
  "HttpResult_toString r =
     ''[HttpResult result='' @ int_to_string (hr_result r) @ '' error='' @ hr_error r @ '' response='' @
     (case hr_response r of Some rsp \<Rightarrow> rs_dump rsp | None \<Rightarrow> ''nullptr'') @ '']''"

record client_env =
  ce_order :: endian
  ce_gai :: getaddrinfo
  ce_dial :: "Address \<Rightarrow> Socket option"
  ce_peer :: "SocketStream \<Rightarrow> string"
  ce_errno :: int
  ce_strerror :: "int \<Rightarrow> string"
  ce_max_header :: u32
  ce_buff_size :: nat

definition address_text :: "client_env \<Rightarrow> Address \<Rightarrow> string" where
  "address_text E addr = (case address_toString (ce_order E) addr of Some t \<Rightarrow> t | None \<Rightarrow> [])"

section \<open>Requests\<close>

text \<open>The loop over the headers, which are in the order of a \<open>std::map\<close>.\<close>

fun add_headers :: "(string \<times> string) list \<Rightarrow> bool \<Rightarrow> HttpRequest \<Rightarrow> bool \<times> HttpRequest" where
  "add_headers [] has_host req = (has_host, req)"
| "add_headers ((k, v) # hs) has_host req =
     (if strcasecmp k ''connection'' = 0
      then add_headers hs has_host (if strcasecmp v ''keep-alive'' = 0 then req\<lparr>rq_close := False\<rparr> else req)
      else
        let has_host = (if \<not> has_host \<and> strcasecmp k ''host'' = 0 then v \<noteq> [] else has_host)
        in add_headers hs has_host (rq_setHeader k v req))"

definition finish_request :: "(string \<times> string) list \<Rightarrow> string \<Rightarrow> string \<Rightarrow> HttpRequest \<Rightarrow> HttpRequest" where
  "finish_request headers host body req =
     (case add_headers headers False req of (has_host, req) \<Rightarrow>
        let req = (if \<not> has_host then rq_setHeader ''Host'' host req else req)
        in req\<lparr>rq_body := body\<rparr>)"

definition connection_request :: "HttpMethod \<Rightarrow> Uri \<Rightarrow> (string \<times> string) list \<Rightarrow> string \<Rightarrow> HttpRequest" where
  "connection_request m uri headers body =
     finish_request headers (m_host uri) body
       ((new_HttpRequest 0x11 True)\<lparr>rq_path := getPath uri, rq_query := m_query uri, rq_fragment := m_fragment uri, rq_method := m\<rparr>)"

text \<open>What both \<open>DoRequest\<close> and \<open>doRequest\<close> do on a connection.\<close>

definition exchange :: "client_env \<Rightarrow> string \<Rightarrow> u64 \<Rightarrow> HttpRequest \<Rightarrow> SocketStream \<Rightarrow> (HttpResult \<times> SocketStream) option" where
  "exchange E peer timeout_ms req S =
     (case sendRequest req S of (rt, S) \<Rightarrow>
        if rt = 0 then Some (failure SEND_CLOSE_BY_PEER (''send request closed by peer: '' @ peer), S)
        else if rt < 0 then
          Some (failure SEND_SOCKET_ERROR (''send request socket error errno='' @ int_to_string (ce_errno E) @
            '' errstr='' @ ce_strerror E (ce_errno E)), S)
        else
          (case recvResponse (ce_max_header E) (ce_buff_size E) S of
             None \<Rightarrow> None
           | Some (None, S) \<Rightarrow>
               Some (failure TIMEOUT (''recv response timeout: '' @ peer @ '' timeout_ms:'' @ dec_str (unat timeout_ms)), S)
           | Some (Some rsp, S) \<Rightarrow> Some (\<lparr>hr_result = error_num OK, hr_response = Some rsp, hr_error = ''ok''\<rparr>, S)))"

text \<open>The connection is destroyed on return. \<open>CreateTCP\<close> never gives a null pointer, so its test has no branch here.\<close>

definition DoRequest_req :: "client_env \<Rightarrow> HttpRequest \<Rightarrow> Uri \<Rightarrow> u64 \<Rightarrow> (HttpResult \<times> SocketStream option) option" where
  "DoRequest_req E req uri timeout_ms =
     (case createAddress (ce_order E) (ce_gai E) uri of
        None \<Rightarrow> None
      | Some None \<Rightarrow> Some (failure INVALID_HOST (''invalid host: '' @ m_host uri), None)
      | Some (Some addr) \<Rightarrow>
          (case ce_dial E addr of
             None \<Rightarrow> Some (failure CONNECT_FAIL (''connect fail: '' @ address_text E addr), None)
           | Some sock \<Rightarrow>
               map_option (\<lambda>(res, S). (res, Some (ss_destroy S)))
                 (exchange E (address_text E addr) timeout_ms req \<lparr>m_socket = Some sock, m_owner = True\<rparr>)))"

definition DoRequest_uri :: "client_env \<Rightarrow> HttpMethod \<Rightarrow> Uri \<Rightarrow> u64 \<Rightarrow> (string \<times> string) list \<Rightarrow> string \<Rightarrow>
    (HttpResult \<times> SocketStream option) option" where
  "DoRequest_uri E m uri timeout_ms headers body = DoRequest_req E (connection_request m uri headers body) uri timeout_ms"

text \<open>An exception of \<open>Uri::Create\<close> is the left value.\<close>

definition DoRequest :: "client_env \<Rightarrow> HttpMethod \<Rightarrow> string \<Rightarrow> u64 \<Rightarrow> (string \<times> string) list \<Rightarrow> string \<Rightarrow>
    (stoi_error + HttpResult \<times> SocketStream option) option" where
  "DoRequest E m url timeout_ms headers body =
     (case Uri_Create url of
        None \<Rightarrow> None
      | Some (Inl e) \<Rightarrow> Some (Inl e)
      | Some (Inr None) \<Rightarrow> Some (Inr (failure INVALID_URL (''invalid url: '' @ url), None))
      | Some (Inr (Some uri)) \<Rightarrow> map_option Inr (DoRequest_uri E m uri timeout_ms headers body))"

definition DoGet :: "client_env \<Rightarrow> string \<Rightarrow> u64 \<Rightarrow> (string \<times> string) list \<Rightarrow> string \<Rightarrow>
    (stoi_error + HttpResult \<times> SocketStream option) option" where
  "DoGet E = DoRequest E (HttpMethod HTTP_GET)"

definition DoPost :: "client_env \<Rightarrow> string \<Rightarrow> u64 \<Rightarrow> (string \<times> string) list \<Rightarrow> string \<Rightarrow>
    (stoi_error + HttpResult \<times> SocketStream option) option" where
  "DoPost E = DoRequest E (HttpMethod HTTP_POST)"

definition DoGet_uri :: "client_env \<Rightarrow> Uri \<Rightarrow> u64 \<Rightarrow> (string \<times> string) list \<Rightarrow> string \<Rightarrow> (HttpResult \<times> SocketStream option) option" where
  "DoGet_uri E = DoRequest_uri E (HttpMethod HTTP_GET)"

definition DoPost_uri :: "client_env \<Rightarrow> Uri \<Rightarrow> u64 \<Rightarrow> (string \<times> string) list \<Rightarrow> string \<Rightarrow> (HttpResult \<times> SocketStream option) option" where
  "DoPost_uri E = DoRequest_uri E (HttpMethod HTTP_POST)"

section \<open>The pool of connections\<close>

record HttpConnection =
  hc_stream :: SocketStream
  m_createTime :: u64
  m_request :: u64

definition new_HttpConnection :: "Socket \<Rightarrow> HttpConnection" where
  "new_HttpConnection sock = \<lparr>hc_stream = \<lparr>m_socket = Some sock, m_owner = True\<rparr>, m_createTime = 0, m_request = 0\<rparr>"

record HttpConnectionPool =
  cp_host :: string
  cp_vhost :: string
  cp_port :: u32
  m_maxSize :: u32
  m_maxAliveTime :: u32
  m_maxRequest :: u32
  m_conns :: "HttpConnection list"
  m_total :: u32

definition new_HttpConnectionPool :: "string \<Rightarrow> string \<Rightarrow> u32 \<Rightarrow> u32 \<Rightarrow> u32 \<Rightarrow> u32 \<Rightarrow> HttpConnectionPool" where
  "new_HttpConnectionPool host vhost prt max_size max_alive_time max_request =
     \<lparr>cp_host = host, cp_vhost = vhost, cp_port = prt, m_maxSize = max_size, m_maxAliveTime = max_alive_time,
      m_maxRequest = max_request, m_conns = [], m_total = 0\<rparr>"

text \<open>The loop of \<open>getConnection\<close>: the invalid connections, the one taken, and the rest of the list.\<close>

fun take_conn :: "u64 \<Rightarrow> u32 \<Rightarrow> HttpConnection list \<Rightarrow> HttpConnection list \<times> HttpConnection option \<times> HttpConnection list" where
  "take_conn now_ms max_alive [] = ([], None, [])"
| "take_conn now_ms max_alive (conn # conns) =
     (if \<not> ss_isConnected (hc_stream conn) \<or> m_createTime conn + ucast max_alive > now_ms
      then (case take_conn now_ms max_alive conns of (invalid, ptr, rest) \<Rightarrow> (conn # invalid, ptr, rest))
      else ([], Some conn, conns))"

text \<open>The second component of the result is the connections that were deleted.\<close>

definition getConnection :: "client_env \<Rightarrow> u64 \<Rightarrow> HttpConnectionPool \<Rightarrow>
    (HttpConnection option \<times> SocketStream list \<times> HttpConnectionPool) option" where
  "getConnection E now_ms pool =
     (case take_conn now_ms (m_maxAliveTime pool) (m_conns pool) of (invalid, ptr, rest) \<Rightarrow>
        let pool = pool\<lparr>m_conns := rest, m_total := m_total pool - of_nat (length invalid)\<rparr>;
            deleted = map (ss_destroy \<circ> hc_stream) invalid
        in case ptr of
             Some conn \<Rightarrow> Some (Some conn, deleted, pool)
           | None \<Rightarrow>
               (case LookupAnyIPAddress (ce_order E) (ce_gai E) (cp_host pool) AF_INET 0 0 of
                  None \<Rightarrow> None
                | Some None \<Rightarrow> Some (None, deleted, pool)
                | Some (Some addr) \<Rightarrow>
                    (case ce_dial E (IPAddress_setPort (ce_order E) (ucast (cp_port pool)) addr) of
                       None \<Rightarrow> Some (None, deleted, pool)
                     | Some sock \<Rightarrow>
                         Some (Some (new_HttpConnection sock), deleted, pool\<lparr>m_total := m_total pool + 1\<rparr>))))"

definition ReleasePtr :: "u64 \<Rightarrow> HttpConnection \<Rightarrow> HttpConnectionPool \<Rightarrow> SocketStream list \<times> HttpConnectionPool" where
  "ReleasePtr now_ms ptr pool =
     (let ptr = ptr\<lparr>m_request := m_request ptr + 1\<rparr>
      in if \<not> ss_isConnected (hc_stream ptr) \<or> m_createTime ptr + ucast (m_maxAliveTime pool) \<ge> now_ms \<or>
            m_request ptr \<ge> ucast (m_maxRequest pool)
         then ([ss_destroy (hc_stream ptr)], pool\<lparr>m_total := m_total pool - 1\<rparr>)
         else ([], pool\<lparr>m_conns := m_conns pool @ [ptr]\<rparr>))"

definition pool_text :: "HttpConnectionPool \<Rightarrow> string" where
  "pool_text pool = ''pool host:'' @ cp_host pool @ '' port:'' @ dec_str (unat (cp_port pool))"

text \<open>\<open>now_ms\<close> and \<open>now_ms'\<close> are the clock when the connection is taken and when it is released, on return.\<close>

definition pool_doRequest_req :: "client_env \<Rightarrow> u64 \<Rightarrow> u64 \<Rightarrow> HttpRequest \<Rightarrow> u64 \<Rightarrow> HttpConnectionPool \<Rightarrow> (HttpResult \<times> HttpConnectionPool) option" where
  "pool_doRequest_req E now_ms now_ms' req timeout_ms pool =
     (case getConnection E now_ms pool of
        None \<Rightarrow> None
      | Some (None, _, pool) \<Rightarrow> Some (failure POOL_GET_CONNECTION (pool_text pool), pool)
      | Some (Some conn, _, pool) \<Rightarrow>
          (case m_socket (hc_stream conn) of
             None \<Rightarrow> Some (failure POOL_INVALID_CONNECTION (pool_text pool), snd (ReleasePtr now_ms' conn pool))
           | Some sock \<Rightarrow>
               (case exchange E (ce_peer E (hc_stream conn)) timeout_ms req (hc_stream conn) of
                  None \<Rightarrow> None
                | Some (res, S) \<Rightarrow> Some (res, snd (ReleasePtr now_ms' (conn\<lparr>hc_stream := S\<rparr>) pool)))))"

definition pool_request :: "HttpMethod \<Rightarrow> string \<Rightarrow> (string \<times> string) list \<Rightarrow> string \<Rightarrow> HttpConnectionPool \<Rightarrow> HttpRequest" where
  "pool_request m url headers body pool =
     finish_request headers (if cp_vhost pool = [] then cp_host pool else cp_vhost pool) body
       ((new_HttpRequest 0x11 True)\<lparr>rq_path := url, rq_method := m\<rparr>)"

definition pool_doRequest :: "client_env \<Rightarrow> u64 \<Rightarrow> u64 \<Rightarrow> HttpMethod \<Rightarrow> string \<Rightarrow> u64 \<Rightarrow> (string \<times> string) list \<Rightarrow> string \<Rightarrow>
    HttpConnectionPool \<Rightarrow> (HttpResult \<times> HttpConnectionPool) option" where
  "pool_doRequest E now_ms now_ms' m url timeout_ms headers body pool =
     pool_doRequest_req E now_ms now_ms' (pool_request m url headers body pool) timeout_ms pool"

definition uri_target :: "Uri \<Rightarrow> string" where
  "uri_target uri =
     getPath uri @ (if m_query uri = [] then [] else ''?'') @ m_query uri @ (if m_fragment uri = [] then [] else ''#'') @ m_fragment uri"

definition pool_doRequest_uri :: "client_env \<Rightarrow> u64 \<Rightarrow> u64 \<Rightarrow> HttpMethod \<Rightarrow> Uri \<Rightarrow> u64 \<Rightarrow> (string \<times> string) list \<Rightarrow> string \<Rightarrow>
    HttpConnectionPool \<Rightarrow> (HttpResult \<times> HttpConnectionPool) option" where
  "pool_doRequest_uri E now_ms now_ms' m uri = pool_doRequest E now_ms now_ms' m (uri_target uri)"

definition pool_doGet :: "client_env \<Rightarrow> u64 \<Rightarrow> u64 \<Rightarrow> string \<Rightarrow> u64 \<Rightarrow> (string \<times> string) list \<Rightarrow> string \<Rightarrow>
    HttpConnectionPool \<Rightarrow> (HttpResult \<times> HttpConnectionPool) option" where
  "pool_doGet E now_ms now_ms' = pool_doRequest E now_ms now_ms' (HttpMethod HTTP_GET)"

definition pool_doGet_uri :: "client_env \<Rightarrow> u64 \<Rightarrow> u64 \<Rightarrow> Uri \<Rightarrow> u64 \<Rightarrow> (string \<times> string) list \<Rightarrow> string \<Rightarrow>
    HttpConnectionPool \<Rightarrow> (HttpResult \<times> HttpConnectionPool) option" where
  "pool_doGet_uri E now_ms now_ms' uri = pool_doGet E now_ms now_ms' (uri_target uri)"

definition pool_doPost :: "client_env \<Rightarrow> u64 \<Rightarrow> u64 \<Rightarrow> string \<Rightarrow> u64 \<Rightarrow> (string \<times> string) list \<Rightarrow> string \<Rightarrow>
    HttpConnectionPool \<Rightarrow> (HttpResult \<times> HttpConnectionPool) option" where
  "pool_doPost E now_ms now_ms' = pool_doRequest E now_ms now_ms' (HttpMethod HTTP_POST)"

definition pool_doPost_uri :: "client_env \<Rightarrow> u64 \<Rightarrow> u64 \<Rightarrow> Uri \<Rightarrow> u64 \<Rightarrow> (string \<times> string) list \<Rightarrow> string \<Rightarrow>
    HttpConnectionPool \<Rightarrow> (HttpResult \<times> HttpConnectionPool) option" where
  "pool_doPost_uri E now_ms now_ms' uri = pool_doPost E now_ms now_ms' (uri_target uri)"

section \<open>Exchanges return\<close>

lemma ss_read_owner: "ss_read n S = (len, b, S') \<Longrightarrow> m_owner S' = m_owner S"
  by (auto simp: ss_read_def split: option.splits if_splits prod.splits)

lemma ss_write_owner: "ss_write b S = (len, S') \<Longrightarrow> m_owner S' = m_owner S"
  by (auto simp: ss_write_def split: option.splits if_splits prod.splits)

lemma write_loop_owner: "write_loop left b S = (r, S') \<Longrightarrow> m_owner S' = m_owner S"
proof (induction left b S rule: write_loop.induct)
  case (1 left b S)
  obtain len S1 where w: "ss_write (take (nat left) b) S = (len, S1)"
    by fastforce
  with 1 ss_write_owner [OF w] show ?case
    by (subst (asm) write_loop.simps) (auto split: if_splits)
qed

lemma ss_close_fields:
  "m_socket S = Some s \<Longrightarrow> \<exists>s'. m_socket (ss_close S) = Some s' \<and> sent s' = sent s \<and> (m_isConnected s \<longrightarrow> \<not> m_isConnected s')"
  "m_owner (ss_close S) = m_owner S"
  by (auto simp: ss_close_def Socket_close_def split: option.splits)

text \<open>\<open>recvResponse\<close> returns on every behaviour of the network; it leaves the connection open exactly if there is a response.\<close>

lemma recv_response_loop_returns:
  assumes "parser_inv mx P" and "open_stream S s" and "length kept < bs" and "bs < 2 ^ 31"
  shows "\<exists>r S' s'. recv_response_loop mx bs P kept S = Some (r, S') \<and> m_socket S' = Some s' \<and> sent s' = sent s \<and>
    m_owner S' = m_owner S \<and> (m_isConnected s' \<longleftrightarrow> r \<noteq> None)"
  using assms(1-3)
proof (induction "length (available (incoming s))" arbitrary: P S s kept rule: less_induct)
  case less
  let ?n = "bs - length kept"
  have "0 < ?n" "?n < 2 ^ 31"
    using less.prems(3) assms(4) by auto
  note read_open = ss_read_open [OF less.prems(2) this]
  obtain len b s1 S1 where rd: "ss_read ?n S = (len, b, S1)" "open_stream S1 s1" "sent s1 = sent s" "len \<le> int ?n"
    "if len \<le> 0 then len \<in> {- 1, 0} \<and> b = [] \<and> available (incoming s) = []
     else len = int (length b) \<and> available (incoming s) = b @ available (incoming s1)"
    using read_open by blast
  note step = recv_response_loop.simps [of mx bs P kept S] and owner = ss_read_owner [OF rd(1)]
  have s1: "m_socket S1 = Some s1" "m_isConnected s1"
    using rd(2) by (simp_all add: open_stream_def)
  obtain s2 where closed: "m_socket (ss_close S1) = Some s2" "sent s2 = sent s" "\<not> m_isConnected s2" "m_owner (ss_close S1) = m_owner S"
    using ss_close_fields(1) [of S1 s1] ss_close_fields(2) [of S1] s1 rd(3) owner by auto
  show ?case
  proof (cases "len \<le> 0")
    case True
    then show ?thesis
      using rd(1) closed by (simp add: step)
  next
    case False
    then have b: "b \<noteq> []" "length b \<le> ?n" "length (kept @ b) < 2 ^ 64" "available (incoming s) = b @ available (incoming s1)"
      using rd(4,5) less.prems(3) assms(4) by auto
    obtain n buf P1 where ex: "response_execute mx P (kept @ b) = Some (n, buf, P1)" "parser_inv mx P1" "length buf = length (kept @ b)"
      using response_execute_ok [OF less.prems(1) b(3)] by blast
    let ?offset = "length (kept @ b) - n"
    show ?thesis
    proof (cases "hasError P1 \<or> int ?offset = to_int (int bs)")
      case True
      then show ?thesis
        using rd(1) False ex(1) closed by (auto simp: step Let_def)
    next
      case ok: False
      have "to_int (int bs) = int bs"
        using assms(4) by (intro to_int_small) auto
      then have "?offset < bs"
        using ok b(2) less.prems(3) by auto
      then have shorter: "length (take ?offset buf) < bs"
        by simp
      have "length (available (incoming s1)) < length (available (incoming s))"
        using b(1,4) by simp
      note rec = less.hyps [OF this ex(2) rd(2) shorter]
      obtain r S' s' where "recv_response_loop mx bs P1 (take ?offset buf) S1 = Some (r, S')" "m_socket S' = Some s'"
        "sent s' = sent s1" "m_owner S' = m_owner S1" "m_isConnected s' \<longleftrightarrow> r \<noteq> None"
        using rec by blast
      then show ?thesis
        using rd(1,3) False ex(1) ok s1 owner by (cases "isFinished P1") (auto simp: step Let_def)
    qed
  qed
qed

lemma sendRequest_open:
  assumes "open_stream S s" "length (rq_dump req) < 2 ^ 31"
  obtains rt S' s' where "sendRequest req S = (rt, S')" "open_stream S' s'" "m_owner S' = m_owner S"
    "sent s' = sent s @ take (capacity (accepts s)) (rq_dump req)"
    "if length (rq_dump req) \<le> capacity (accepts s) then rt = int (length (rq_dump req)) else rt \<le> 0"
proof -
  let ?b = "rq_dump req"
  have n: "to_int64 (length ?b) = int (length ?b)" "to_int (int (length ?b)) = int (length ?b)" "to_int 0 = 0" "to_int (- 1) = - 1"
    using assms(2) by (auto intro: to_int64_small to_int_small)
  obtain r s' S' where w: "write_loop (int (length ?b)) ?b S = (r, S')" "open_stream S' s'"
    "sent s' = sent s @ take (capacity (accepts s)) ?b"
    "if length ?b \<le> capacity (accepts s) then r = None else \<exists>len\<in>{- 1, 0}. r = Some len"
    using write_loop_spec [OF assms(1), of "int (length ?b)" ?b] assms(2) by auto
  define rt where "rt = (case r of Some len \<Rightarrow> to_int len | None \<Rightarrow> int (length ?b))"
  have "sendRequest req S = (rt, S')"
    using w(1) n by (simp add: sendRequest_def writeFixSize_def rt_def split: option.splits)
  moreover have "if length ?b \<le> capacity (accepts s) then rt = int (length ?b) else rt \<le> 0"
    using w(4) n(3,4) by (auto simp: rt_def split: if_splits)
  ultimately show ?thesis
    using that [of rt S' s'] w(2,3) write_loop_owner [OF w(1)] by blast
qed

lemma rq_dump_nonempty: "rq_dump req \<noteq> []"
  by (simp add: rq_dump_def)

text \<open>What an exchange on an open connection does.\<close>

lemma exchange_open:
  assumes "open_stream S s" "length (rq_dump req) < 2 ^ 31" "0 < ce_buff_size E" "ce_buff_size E < 2 ^ 31"
  obtains res S' s' where "exchange E peer timeout_ms req S = Some (res, S')" "m_socket S' = Some s'" "m_owner S' = m_owner S"
    "sent s' = sent s @ take (capacity (accepts s)) (rq_dump req)"
    "hr_result res \<in> error_num ` {OK, SEND_CLOSE_BY_PEER, SEND_SOCKET_ERROR, TIMEOUT}"
    "hr_result res = error_num OK \<longleftrightarrow> hr_response res \<noteq> None"
    "hr_result res \<in> error_num ` {OK, TIMEOUT} \<longleftrightarrow> length (rq_dump req) \<le> capacity (accepts s)"
    "m_isConnected s' \<longleftrightarrow> hr_result res \<noteq> error_num TIMEOUT"
proof -
  obtain rt S1 s1 where snd: "sendRequest req S = (rt, S1)" "open_stream S1 s1" "m_owner S1 = m_owner S"
    "sent s1 = sent s @ take (capacity (accepts s)) (rq_dump req)"
    "if length (rq_dump req) \<le> capacity (accepts s) then rt = int (length (rq_dump req)) else rt \<le> 0"
    by (rule sendRequest_open [OF assms(1,2)])
  have s1: "m_socket S1 = Some s1" "m_isConnected s1"
    using snd(2) by (simp_all add: open_stream_def)
  show ?thesis
  proof (cases "length (rq_dump req) \<le> capacity (accepts s)")
    case False
    then show ?thesis
      using snd s1 by (cases "rt = 0") (auto simp: exchange_def failure_def intro!: that)
  next
    case True
    then have rt: "0 < rt"
      using snd(5) rq_dump_nonempty by auto
    obtain r S2 s2 where rc: "recvResponse (ce_max_header E) (ce_buff_size E) S1 = Some (r, S2)" "m_socket S2 = Some s2"
      "sent s2 = sent s1" "m_owner S2 = m_owner S1" "m_isConnected s2 \<longleftrightarrow> r \<noteq> None"
      using recv_response_loop_returns [OF new_parser_inv(2) snd(2), of "[]" "ce_buff_size E" "ce_max_header E"] assms(3,4)
      by (auto simp: recvResponse_def)
    then show ?thesis
      using True rt snd by (cases r) (auto simp: exchange_def failure_def intro!: that)
  qed
qed

lemma DoRequest_req_open:
  assumes "createAddress (ce_order E) (ce_gai E) uri = Some (Some addr)" "ce_dial E addr = Some s" "m_isConnected s"
    and "length (rq_dump req) < 2 ^ 31" "0 < ce_buff_size E" "ce_buff_size E < 2 ^ 31"
  shows "\<exists>res S s'. DoRequest_req E req uri timeout_ms = Some (res, Some S) \<and> m_socket S = Some s' \<and> \<not> m_isConnected s' \<and>
    sent s' = sent s @ take (capacity (accepts s)) (rq_dump req) \<and>
    (hr_result res = error_num OK \<longleftrightarrow> hr_response res \<noteq> None) \<and>
    (if length (rq_dump req) \<le> capacity (accepts s) then hr_result res \<in> {error_num OK, error_num TIMEOUT}
     else hr_result res \<in> {error_num SEND_CLOSE_BY_PEER, error_num SEND_SOCKET_ERROR})"
proof -
  let ?S = "\<lparr>m_socket = Some s, m_owner = True\<rparr>"
  have "open_stream ?S s"
    using assms(3) by (simp add: open_stream_def)
  then obtain res S s' where ex: "exchange E (address_text E addr) timeout_ms req ?S = Some (res, S)" "m_socket S = Some s'" "m_owner S = m_owner ?S"
    "sent s' = sent s @ take (capacity (accepts s)) (rq_dump req)"
    "hr_result res \<in> error_num ` {OK, SEND_CLOSE_BY_PEER, SEND_SOCKET_ERROR, TIMEOUT}"
    "hr_result res = error_num OK \<longleftrightarrow> hr_response res \<noteq> None"
    "hr_result res \<in> error_num ` {OK, TIMEOUT} \<longleftrightarrow> length (rq_dump req) \<le> capacity (accepts s)"
    "m_isConnected s' \<longleftrightarrow> hr_result res \<noteq> error_num TIMEOUT"
    by (rule exchange_open [OF _ assms(4-6)])
  have "\<exists>s2. m_socket (ss_destroy S) = Some s2 \<and> sent s2 = sent s' \<and> \<not> m_isConnected s2"
    using ex(2,3) by (auto simp: ss_destroy_def ss_close_def Socket_close_def)
  then obtain s2 where s2: "m_socket (ss_destroy S) = Some s2" "sent s2 = sent s'" "\<not> m_isConnected s2"
    by blast
  have "DoRequest_req E req uri timeout_ms = Some (res, Some (ss_destroy S))"
    using assms(1,2) ex(1) by (simp add: DoRequest_req_def)
  then show ?thesis
    using s2 ex(4-7) by (intro exI [of _ res] exI [of _ "ss_destroy S"] exI [of _ s2]) auto
qed

text \<open>
  C24: A request of \<open>DoRequest\<close> to an address that accepts the connection. The call returns on every behaviour of the
  network, and then the connection is closed. The peer got a prefix of the text of the request, in order and with nothing
  twice; the result is \<open>OK\<close> exactly if there is a response, the call gave up while it sent exactly if the peer took less
  than the whole request, and otherwise the result is \<open>TIMEOUT\<close>.
\<close>

theorem client_request_exact:
  assumes "createAddress (ce_order E) (ce_gai E) uri = Some (Some addr)" "ce_dial E addr = Some s" "m_isConnected s"
    and "length (rq_dump req) < 2 ^ 31" "0 < ce_buff_size E" "ce_buff_size E < 2 ^ 31"
  shows "\<exists>res S s'. DoRequest_req E req uri timeout_ms = Some (res, Some S) \<and> m_socket S = Some s' \<and> \<not> m_isConnected s' \<and>
    sent s' = sent s @ take (capacity (accepts s)) (rq_dump req) \<and>
    (hr_result res = error_num OK \<longleftrightarrow> hr_response res \<noteq> None) \<and>
    (if length (rq_dump req) \<le> capacity (accepts s) then hr_result res \<in> {error_num OK, error_num TIMEOUT}
     else hr_result res \<in> {error_num SEND_CLOSE_BY_PEER, error_num SEND_SOCKET_ERROR})"
  using assms by (rule DoRequest_req_open)

section \<open>The state of a pool\<close>

text \<open>A pool and the connections that are in use; a connection in use changes its stream and nothing else.\<close>

type_synonym pool_state = "HttpConnectionPool \<times> HttpConnection list"

inductive pool_step :: "pool_state \<Rightarrow> pool_state \<Rightarrow> bool" where
  get: "getConnection E now_ms pool = Some (Some conn, deleted, pool') \<Longrightarrow> (\<And>a s. ce_dial E a = Some s \<Longrightarrow> m_isConnected s) \<Longrightarrow>
    pool_step (pool, out) (pool', conn # out)"
| get_none: "getConnection E now_ms pool = Some (None, deleted, pool') \<Longrightarrow> pool_step (pool, out) (pool', out)"
| use_conn: "conn \<in> set out \<Longrightarrow> pool_step (pool, out) (pool, conn\<lparr>hc_stream := S\<rparr> # remove1 conn out)"
| release: "conn \<in> set out \<Longrightarrow> ReleasePtr now_ms conn pool = (deleted, pool') \<Longrightarrow> pool_step (pool, out) (pool', remove1 conn out)"

definition pool_init :: "pool_state \<Rightarrow> bool" where
  "pool_init st \<longleftrightarrow> (\<exists>host vhost prt max_size max_alive max_request.
     st = (new_HttpConnectionPool host vhost prt max_size max_alive max_request, []))"

definition fresh_enough :: "HttpConnectionPool \<Rightarrow> HttpConnection \<Rightarrow> bool" where
  "fresh_enough pool conn \<longleftrightarrow> m_createTime conn = 0 \<and> (m_request conn = 0 \<or> m_request conn < ucast (m_maxRequest pool))"

fun pool_inv :: "pool_state \<Rightarrow> bool" where
  "pool_inv (pool, out) \<longleftrightarrow>
     m_total pool = of_nat (length (m_conns pool) + length out) \<and>
     (\<forall>conn\<in>set (m_conns pool). ss_isConnected (hc_stream conn) \<and> fresh_enough pool conn) \<and>
     (\<forall>conn\<in>set out. fresh_enough pool conn)"

lemma take_conn_split:
  "take_conn now_ms max_alive conns = (invalid, ptr, rest) \<Longrightarrow>
    conns = invalid @ (case ptr of None \<Rightarrow> [] | Some conn \<Rightarrow> [conn]) @ rest \<and> (ptr = None \<longrightarrow> rest = []) \<and>
    (\<forall>conn. ptr = Some conn \<longrightarrow> ss_isConnected (hc_stream conn))"
  by (induction conns arbitrary: invalid) (auto split: if_splits prod.splits)

lemma getConnection_keeps:
  assumes "getConnection E now_ms pool = Some (c, deleted, pool')" "pool_inv (pool, out)"
  shows "pool_inv (pool', (case c of None \<Rightarrow> out | Some conn \<Rightarrow> conn # out))"
proof -
  obtain invalid ptr rest where tk: "take_conn now_ms (m_maxAliveTime pool) (m_conns pool) = (invalid, ptr, rest)"
    by (metis prod_cases3)
  have "m_total pool = of_nat (length (m_conns pool)) + of_nat (length out)"
    using assms(2) by simp
  then show ?thesis
    using assms tk take_conn_split [OF tk]
    by (auto simp: getConnection_def Let_def fresh_enough_def new_HttpConnection_def algebra_simps split: option.splits)
qed

lemma getConnection_connected:
  assumes "getConnection E now_ms pool = Some (Some conn, deleted, pool')" "\<And>a s. ce_dial E a = Some s \<Longrightarrow> m_isConnected s"
  shows "ss_isConnected (hc_stream conn)"
proof -
  obtain invalid ptr rest where tk: "take_conn now_ms (m_maxAliveTime pool) (m_conns pool) = (invalid, ptr, rest)"
    by (metis prod_cases3)
  then show ?thesis
    using assms take_conn_split [OF tk]
    by (auto simp: getConnection_def Let_def new_HttpConnection_def ss_isConnected_def split: option.splits)
qed

lemma ReleasePtr_inv:
  assumes "ReleasePtr now_ms conn pool = (deleted, pool')" "pool_inv (pool, out)" "conn \<in> set out"
  shows "pool_inv (pool', remove1 conn out)"
proof -
  have "0 < length out" "length (remove1 conn out) = length out - 1"
    using assms(3) by (auto simp: length_remove1)
  then have "length out = Suc (length (remove1 conn out))"
    by simp
  then have "of_nat (length out) = (of_nat (length (remove1 conn out)) + 1 :: u32)"
    by (simp only: of_nat_Suc add.commute)
  moreover have "set (remove1 conn out) \<subseteq> set out"
    by (rule set_remove1_subset)
  ultimately show ?thesis
    using assms by (auto simp: ReleasePtr_def Let_def fresh_enough_def not_le split: if_splits)
qed

lemma pool_step_inv: "pool_step st st' \<Longrightarrow> pool_inv st \<Longrightarrow> pool_inv st'"
proof (induction rule: pool_step.induct)
  case (get E now_ms pool conn deleted pool' out)
  then show ?case
    using getConnection_keeps [of E now_ms pool "Some conn" deleted pool' out] by simp
next
  case (get_none E now_ms pool deleted pool' out)
  then show ?case
    using getConnection_keeps [of E now_ms pool None deleted pool' out] by simp
next
  case (use_conn conn out pool S)
  then have "length out = Suc (length (remove1 conn out))"
    by (simp add: length_remove1) (metis Suc_pred length_pos_if_in_set)
  moreover have "set (remove1 conn out) \<subseteq> set out"
    by (rule set_remove1_subset)
  ultimately show ?case
    using use_conn by (auto simp: fresh_enough_def)
next
  case (release conn out now_ms pool deleted pool')
  then show ?case
    by (intro ReleasePtr_inv)
qed

lemma pool_init_inv: "pool_init st \<Longrightarrow> pool_inv st"
  by (auto simp: pool_init_def new_HttpConnectionPool_def)

interpretation pool_machine: step_invariant pool_init pool_step pool_inv
  by unfold_locales (auto intro: pool_init_inv pool_step_inv)

abbreviation pool_reach :: "pool_state \<Rightarrow> bool" where
  "pool_reach \<equiv> reachable pool_init pool_step"

text \<open>What the pool relies on: the resolver answers with addresses, and connecting gives a connected socket or fails.\<close>

definition env_ok :: "client_env \<Rightarrow> HttpConnectionPool \<Rightarrow> bool" where
  "env_ok E pool \<longleftrightarrow> 0 < ce_buff_size E \<and> ce_buff_size E < 2 ^ 31 \<and>
     LookupAnyIPAddress (ce_order E) (ce_gai E) (cp_host pool) AF_INET 0 0 \<noteq> None \<and>
     (\<forall>a s. ce_dial E a = Some s \<longrightarrow> m_isConnected s)"

lemma getConnection_returns: "env_ok E pool \<Longrightarrow> getConnection E now_ms pool \<noteq> None"
  by (auto simp: getConnection_def env_ok_def Let_def split: prod.splits option.splits)

lemma pool_doRequest_returns:
  assumes "pool_reach (pool, out)" "env_ok E pool" "length (rq_dump req) < 2 ^ 31"
  shows "\<exists>res pool'. pool_doRequest_req E now_ms now_ms' req timeout_ms pool = Some (res, pool') \<and> pool_reach (pool', out) \<and>
    (hr_result res = error_num OK \<longleftrightarrow> hr_response res \<noteq> None)"
proof -
  have E: "0 < ce_buff_size E" "ce_buff_size E < 2 ^ 31" "\<And>a s. ce_dial E a = Some s \<Longrightarrow> m_isConnected s"
    using assms(2) by (auto simp: env_ok_def)
  obtain c deleted pool1 where get: "getConnection E now_ms pool = Some (c, deleted, pool1)"
    using getConnection_returns [OF assms(2), of now_ms] by auto
  show ?thesis
  proof (cases c)
    case None
    then have "pool_reach (pool1, out)"
      using get assms(1) by (blast intro: reachable_step pool_step.get_none)
    then show ?thesis
      using get None by (simp add: pool_doRequest_req_def failure_def)
  next
    case (Some conn)
    have "ss_isConnected (hc_stream conn)"
      using get Some E(3) by (blast intro: getConnection_connected)
    then obtain s where s: "open_stream (hc_stream conn) s"
      by (auto simp: ss_isConnected_def open_stream_def split: option.splits)
    obtain res S s' where ex: "exchange E (ce_peer E (hc_stream conn)) timeout_ms req (hc_stream conn) = Some (res, S)"
      "hr_result res = error_num OK \<longleftrightarrow> hr_response res \<noteq> None"
      using exchange_open [OF s assms(3) E(1,2)] by metis
    let ?conn = "conn\<lparr>hc_stream := S\<rparr>"
    obtain deleted' pool2 where rel: "ReleasePtr now_ms' ?conn pool1 = (deleted', pool2)"
      by fastforce
    have "pool_reach (pool1, conn # out)"
      using assms(1) get Some E(3) by (blast intro: reachable_step pool_step.get)
    then have "pool_reach (pool1, ?conn # out)"
      using pool_step.use_conn [of conn "conn # out" pool1 S] reachable_step by fastforce
    then have "pool_reach (pool2, out)"
      using pool_step.release [OF _ rel, of "?conn # out"] reachable_step by fastforce
    then show ?thesis
      using get Some s ex rel by (auto simp: pool_doRequest_req_def open_stream_def)
  qed
qed

text \<open>A connection is never too old: \<open>m_createTime\<close> stays 0, and the sum is compared the wrong way round.\<close>

lemma age_never_applies:
  assumes "pool_inv (pool, out)" "m_conns pool = conn # conns" "ucast (m_maxAliveTime pool) \<le> now_ms"
  shows "getConnection E now_ms pool = Some (Some conn, [], pool\<lparr>m_conns := conns\<rparr>)"
  using assms by (auto simp: getConnection_def fresh_enough_def not_less)

text \<open>
  C26: The pool of connections. In every state that taking, using and releasing connections can lead to, \<open>m_total\<close> is the
  number of the connections in the pool and in use, a connection in the pool is connected and has served fewer requests than
  the limit, and a connection that \<open>getConnection\<close> gives is connected. \<open>doRequest\<close> returns on every behaviour of the network
  with a result that is \<open>OK\<close> exactly if there is a response, and leads to such a state again.
\<close>

theorem pool_accounting:
  assumes "pool_reach (pool, out)" "env_ok E pool" "length (rq_dump req) < 2 ^ 31"
  shows "m_total pool = of_nat (length (m_conns pool) + length out) \<and>
    (\<forall>conn\<in>set (m_conns pool). ss_isConnected (hc_stream conn) \<and> (m_request conn = 0 \<or> m_request conn < ucast (m_maxRequest pool))) \<and>
    (\<forall>conn deleted pool'. getConnection E now_ms pool = Some (Some conn, deleted, pool') \<longrightarrow> ss_isConnected (hc_stream conn)) \<and>
    (\<exists>res pool'. pool_doRequest_req E now_ms now_ms' req timeout_ms pool = Some (res, pool') \<and> pool_reach (pool', out) \<and>
       (hr_result res = error_num OK \<longleftrightarrow> hr_response res \<noteq> None))"
proof -
  have inv: "pool_inv (pool, out)"
    using assms(1) by (rule pool_machine.reachable_inv)
  have "ss_isConnected (hc_stream conn)" if "getConnection E now_ms pool = Some (Some conn, deleted, pool')" for conn deleted pool'
    using that assms(2) by (intro getConnection_connected) (auto simp: env_ok_def)
  then show ?thesis
    using inv pool_doRequest_returns [OF assms] by (auto simp: fresh_enough_def)
qed

section \<open>Examples\<close>

definition example_socket :: Socket where
  "example_socket = \<lparr>m_sock = 7, m_isConnected = True, incoming = [], accepts = [3, 0], sent = []\<rparr>"

definition example_address :: Address where
  "example_address = IPv4Address \<lparr>sin_family = 2, sin_port = 80, sin_addr = 1, sin_zero = zeros 8\<rparr>"

definition example_client :: client_env where
  "example_client = \<lparr>ce_order = SYLAR_BIG_ENDIAN, ce_gai = (\<lambda>n s h. Inr [Some (getAddr SYLAR_BIG_ENDIAN example_address)]),
     ce_dial = (\<lambda>a. Some example_socket), ce_peer = (\<lambda>S. []), ce_errno = 0, ce_strerror = (\<lambda>e. []), ce_max_header = 200,
     ce_buff_size = 64\<rparr>"

definition example_uri :: Uri where
  "example_uri = new_Uri\<lparr>m_scheme := ''http'', m_host := ''a'', m_port := 80\<rparr>"

definition example_request :: HttpRequest where
  "example_request = connection_request (HttpMethod HTTP_GET) example_uri [] []"

lemma example_lookup: "LookupAnyIPAddress SYLAR_BIG_ENDIAN (ce_gai example_client) h AF_INET 0 0 = Some (Some example_address)"
proof -
  have "Address_Create SYLAR_BIG_ENDIAN (Some (getAddr SYLAR_BIG_ENDIAN example_address)) = Some (Some example_address)"
    by (rule Create_getAddr) (simp_all add: example_address_def AF_INET_def zeros_def)
  then show ?thesis
    by (simp add: LookupAnyIPAddress_def Lookup_def example_client_def Let_def example_address_def split: prod.splits)
qed

lemma example_dump: "rq_dump example_request = ''GET / HTTP/1.1'' @ CRLF @ ''connection: close'' @ CRLF @ ''Host: a'' @ CRLF @ CRLF"
  by code_simp

theorem client_request_exact_witness:
  "\<exists>res S s'. DoRequest_req example_client example_request example_uri 1000 = Some (res, Some S) \<and> m_socket S = Some s' \<and>
     \<not> m_isConnected s' \<and> sent s' = ''GET'' \<and> hr_response res = None"
proof -
  obtain addr where addr: "createAddress (ce_order example_client) (ce_gai example_client) example_uri = Some (Some addr)"
    using example_lookup by (simp add: createAddress_def example_client_def)
  have "ce_dial example_client addr = Some example_socket" "m_isConnected example_socket"
    "length (rq_dump example_request) < 2 ^ 31" "0 < ce_buff_size example_client" "ce_buff_size example_client < 2 ^ 31"
    by (simp_all add: example_client_def example_socket_def example_dump)
  from client_request_exact [OF addr this, of 1000]
  obtain res S s' where "DoRequest_req example_client example_request example_uri 1000 = Some (res, Some S)" "m_socket S = Some s'"
    "\<not> m_isConnected s'" "sent s' = sent example_socket @ take (capacity (accepts example_socket)) (rq_dump example_request)"
    "hr_result res = error_num OK \<longleftrightarrow> hr_response res \<noteq> None"
    "if length (rq_dump example_request) \<le> capacity (accepts example_socket) then hr_result res \<in> {error_num OK, error_num TIMEOUT}
     else hr_result res \<in> {error_num SEND_CLOSE_BY_PEER, error_num SEND_SOCKET_ERROR}"
    by blast
  then show ?thesis
    by (auto simp: example_dump example_socket_def)
qed

lemma example_client_ok: "env_ok example_client pool"
  using example_lookup by (simp add: env_ok_def example_client_def example_socket_def)

theorem pool_accounting_witness:
  "\<exists>res pool. pool_doRequest_req example_client 100 200 example_request 1000 (new_HttpConnectionPool ''a'' [] 80 4 50 10) = Some (res, pool) \<and>
     pool_reach (pool, [])"
proof -
  have "pool_reach (new_HttpConnectionPool ''a'' [] 80 4 50 10, [])"
    by (rule reachable_init) (unfold pool_init_def, blast)
  moreover have "length (rq_dump example_request) < 2 ^ 31"
    by (simp add: example_dump)
  ultimately show ?thesis
    using pool_accounting [where pool = "new_HttpConnectionPool ''a'' [] 80 4 50 10" and out = "[]" and E = example_client
        and req = example_request and now_ms = 100 and now_ms' = 200 and timeout_ms = 1000] example_client_ok by blast
qed

text \<open>
  A connection on which only a part of a request was sent goes back to the pool: the next request is sent behind that part.
\<close>

lemma failed_send_reused:
  assumes "getConnection E now_ms pool = Some (Some conn, deleted, pool1)" "open_stream (hc_stream conn) s"
    and "capacity (accepts s) < length (rq_dump req)" "length (rq_dump req) < 2 ^ 31" "0 < ce_buff_size E" "ce_buff_size E < 2 ^ 31"
    and "m_createTime conn + ucast (m_maxAliveTime pool1) < now_ms'" "m_request conn + 1 < ucast (m_maxRequest pool1)"
  shows "\<exists>res conn' s'. pool_doRequest_req E now_ms now_ms' req timeout_ms pool = Some (res, pool1\<lparr>m_conns := m_conns pool1 @ [conn']\<rparr>) \<and>
    hr_response res = None \<and> m_socket (hc_stream conn') = Some s' \<and> m_isConnected s' \<and>
    sent s' = sent s @ take (capacity (accepts s)) (rq_dump req)"
proof -
  obtain res S s' where ex: "exchange E (ce_peer E (hc_stream conn)) timeout_ms req (hc_stream conn) = Some (res, S)"
    "m_socket S = Some s'" "sent s' = sent s @ take (capacity (accepts s)) (rq_dump req)"
    "hr_result res = error_num OK \<longleftrightarrow> hr_response res \<noteq> None"
    "hr_result res \<in> error_num ` {OK, TIMEOUT} \<longleftrightarrow> length (rq_dump req) \<le> capacity (accepts s)"
    "m_isConnected s' \<longleftrightarrow> hr_result res \<noteq> error_num TIMEOUT"
    by (rule exchange_open [OF assms(2,4-6)])
  let ?conn = "conn\<lparr>hc_stream := S, m_request := m_request conn + 1\<rparr>"
  have s': "m_isConnected s'" "hr_response res = None"
    using ex(4-6) assms(3) by auto
  then have "ReleasePtr now_ms' (conn\<lparr>hc_stream := S\<rparr>) pool1 = ([], pool1\<lparr>m_conns := m_conns pool1 @ [?conn]\<rparr>)"
    using ex(2) assms(7,8) by (auto simp: ReleasePtr_def Let_def ss_isConnected_def dest: leD)
  then have "pool_doRequest_req E now_ms now_ms' req timeout_ms pool = Some (res, pool1\<lparr>m_conns := m_conns pool1 @ [?conn]\<rparr>)"
    using assms(1,2) ex(1) by (simp add: pool_doRequest_req_def open_stream_def)
  then show ?thesis
    using s' ex(2,3) by (intro exI [of _ res] exI [of _ ?conn] exI [of _ s']) simp
qed

section \<open>The Host header\<close>

lemma add_headers_ok:
  "map_ok CaseInsensitiveLess (rq_headers req) \<Longrightarrow> add_headers hs has req = (has', req') \<Longrightarrow> map_ok CaseInsensitiveLess (rq_headers req')"
  by (induction hs has req rule: add_headers.induct)
    (auto simp: Let_def rq_setHeader_def header_map.map_ok_set split: if_splits)

lemma add_headers_no_host:
  "\<forall>h\<in>set hs. strcasecmp (fst h) ''host'' \<noteq> 0 \<Longrightarrow> add_headers hs has req = (has', req') \<Longrightarrow> has' = has"
  by (induction hs has req rule: add_headers.induct) (auto simp: Let_def split: if_splits)

text \<open>A request without a host among its headers names the host of the URI.\<close>

lemma connection_request_host:
  assumes "\<forall>h\<in>set headers. strcasecmp (fst h) ''host'' \<noteq> 0"
  shows "rq_getHeader (connection_request m uri headers body) ''host'' d = m_host uri"
proof -
  let ?r = "(new_HttpRequest 0x11 True)\<lparr>rq_path := getPath uri, rq_query := m_query uri, rq_fragment := m_fragment uri, rq_method := m\<rparr>"
  obtain has req where ah: "add_headers headers False ?r = (has, req)"
    by fastforce
  have "map_ok CaseInsensitiveLess (rq_headers req)"
    using add_headers_ok [OF _ ah] by (simp add: new_HttpRequest_def)
  moreover have "same_key CaseInsensitiveLess ''host'' ''Host''"
    by code_simp
  ultimately show ?thesis
    using add_headers_no_host [OF assms ah] ah
    by (simp add: connection_request_def finish_request_def rq_getHeader_def rq_setHeader_def header_map.find_set)
qed

lemma add_headers_target:
  "add_headers hs has req = (has', req') \<Longrightarrow>
    rq_path req' = rq_path req \<and> rq_query req' = rq_query req \<and> rq_fragment req' = rq_fragment req \<and> rq_method req' = rq_method req"
  by (induction hs has req rule: add_headers.induct) (auto simp: Let_def rq_setHeader_def split: if_splits)

lemma connection_request_target:
  "rq_path (connection_request m uri headers body) = getPath uri" "rq_query (connection_request m uri headers body) = m_query uri"
  "rq_fragment (connection_request m uri headers body) = m_fragment uri" "rq_method (connection_request m uri headers body) = m"
  "rq_body (connection_request m uri headers body) = body"
  by (auto simp: connection_request_def finish_request_def Let_def rq_setHeader_def dest!: add_headers_target split: prod.splits)

end
