(* ===== verification/Buffer_Streams.thy ===== *)
theory Buffer_Streams
  imports Byte_Array Streams
begin

text \<open>
  Streams over byte arrays: the overloads of \<open>Socket::send\<close> and \<open>Socket::recv\<close> for vectors of buffers (\<open>socket.cc\<close>), of
  \<open>SocketStream::read\<close> and \<open>SocketStream::write\<close> for a \<open>ByteArray\<close> (\<open>socket_stream.cc\<close>) and of the loops
  \<open>readFixSize\<close> and \<open>writeFixSize\<close> (\<open>stream.cc\<close>). The kernel reads and writes the memory of the blocks directly, through the buffers of
  \<open>getReadBuffers\<close> and \<open>getWriteBuffers\<close>; the position is moved afterwards.
\<close>

section \<open>Vectors of buffers\<close>

definition iov_size :: "iovec list \<Rightarrow> nat" where
  "iov_size iovs = sum_list (map (\<lambda>(i, q, l). l) iovs)"

text \<open>The bytes that \<open>sendmsg(2)\<close> takes from the buffers, and the blocks after \<open>recvmsg(2)\<close> has filled the buffers in order.\<close>

definition gather :: "iovec list \<Rightarrow> string list \<Rightarrow> string" where
  "gather iovs nodes = concat (map (\<lambda>(i, q, l). take l (drop q (nodes ! i))) iovs)"

fun scatter :: "iovec list \<Rightarrow> string \<Rightarrow> string list \<Rightarrow> string list" where
  "scatter [] buf nodes = nodes"
| "scatter ((i, q, l) # iovs) buf nodes =
     scatter iovs (drop l buf) (nodes[i := memcpy_to q (take l buf) (nodes ! i)])"

definition Socket_send_iov :: "iovec list \<Rightarrow> string list \<Rightarrow> Socket \<Rightarrow> int \<times> Socket" where
  "Socket_send_iov buffers nodes s =
     (if m_isConnected s then (case sys_send (gather buffers nodes) s of (r, s') \<Rightarrow> (to_int r, s')) else (- 1, s))"

definition Socket_recv_iov :: "iovec list \<Rightarrow> string list \<Rightarrow> Socket \<Rightarrow> int \<times> string list \<times> Socket" where
  "Socket_recv_iov buffers nodes s =
     (if m_isConnected s
      then (case sys_recv (iov_size buffers) s of (r, data, s') \<Rightarrow> (to_int r, scatter buffers data nodes, s'))
      else (- 1, nodes, s))"

section \<open>Reading and writing a byte array\<close>

text \<open>\<open>if(rt > 0) ba->setPosition(ba->getPosition() + rt); return rt;\<close>\<close>

definition advance :: "int \<Rightarrow> int ba" where
  "advance rt b =
     (if rt > 0 then ba_bind (setPosition (m_position b + nat rt)) (\<lambda>_. ba_return rt) b else ba_return rt b)"

definition ss_read_ba :: "nat \<Rightarrow> ByteArray \<Rightarrow> SocketStream \<Rightarrow> (ba_error + int) \<times> ByteArray \<times> SocketStream" where
  "ss_read_ba n b S =
     (case m_socket S of
        None \<Rightarrow> (Inr (- 1), b, S)
      | Some s \<Rightarrow>
          if \<not> ss_isConnected S then (Inr (- 1), b, S)
          else case getWriteBuffers n b of
                 (Inl e, b') \<Rightarrow> (Inl e, b', S)
               | (Inr (_, iovs), b') \<Rightarrow>
                   case Socket_recv_iov iovs (m_nodes b') s of
                     (rt, nodes, s') \<Rightarrow>
                       case advance rt (b'\<lparr>m_nodes := nodes\<rparr>) of (r, b'') \<Rightarrow> (r, b'', S\<lparr>m_socket := Some s'\<rparr>))"

definition ss_write_ba :: "nat \<Rightarrow> ByteArray \<Rightarrow> SocketStream \<Rightarrow> (ba_error + int) \<times> ByteArray \<times> SocketStream" where
  "ss_write_ba n b S =
     (case m_socket S of
        None \<Rightarrow> (Inr (- 1), b, S)
      | Some s \<Rightarrow>
          if \<not> ss_isConnected S then (Inr (- 1), b, S)
          else case getReadBuffers n b of
                 Inl e \<Rightarrow> (Inl e, b, S)
               | Inr (_, iovs) \<Rightarrow>
                   case Socket_send_iov iovs (m_nodes b) s of
                     (rt, s') \<Rightarrow> case advance rt b of (r, b') \<Rightarrow> (r, b', S\<lparr>m_socket := Some s'\<rparr>))"

section \<open>Fixed sizes\<close>

text \<open>The loops; \<open>Some len\<close> is the early return.\<close>

function read_loop_ba :: "int \<Rightarrow> ByteArray \<Rightarrow> SocketStream \<Rightarrow> (ba_error + int option) \<times> ByteArray \<times> SocketStream" where
  "read_loop_ba left b S =
     (if left > 0
      then case ss_read_ba (nat left) b S of
             (Inl e, b', S') \<Rightarrow> (Inl e, b', S')
           | (Inr len, b', S') \<Rightarrow> if len \<le> 0 then (Inr (Some len), b', S') else read_loop_ba (left - len) b' S'
      else (Inr None, b, S))"
  by pat_completeness auto
termination
  by (relation "measure (\<lambda>(left, b, S). nat left)") auto

function write_loop_ba :: "int \<Rightarrow> ByteArray \<Rightarrow> SocketStream \<Rightarrow> (ba_error + int option) \<times> ByteArray \<times> SocketStream" where
  "write_loop_ba left b S =
     (if left > 0
      then case ss_write_ba (nat left) b S of
             (Inl e, b', S') \<Rightarrow> (Inl e, b', S')
           | (Inr len, b', S') \<Rightarrow> if len \<le> 0 then (Inr (Some len), b', S') else write_loop_ba (left - len) b' S'
      else (Inr None, b, S))"
  by pat_completeness auto
termination
  by (relation "measure (\<lambda>(left, b, S). nat left)") auto

declare read_loop_ba.simps [simp del] write_loop_ba.simps [simp del]

definition fix_result :: "nat \<Rightarrow> int option \<Rightarrow> int" where
  "fix_result n r = to_int (case r of Some len \<Rightarrow> len | None \<Rightarrow> int n)"

definition readFixSize_ba :: "nat \<Rightarrow> ByteArray \<Rightarrow> SocketStream \<Rightarrow> (ba_error + int) \<times> ByteArray \<times> SocketStream" where
  "readFixSize_ba n b S = (case read_loop_ba (to_int64 n) b S of (r, b', S') \<Rightarrow> (map_sum id (fix_result n) r, b', S'))"

definition writeFixSize_ba :: "nat \<Rightarrow> ByteArray \<Rightarrow> SocketStream \<Rightarrow> (ba_error + int) \<times> ByteArray \<times> SocketStream" where
  "writeFixSize_ba n b S = (case write_loop_ba (to_int64 n) b S of (r, b', S') \<Rightarrow> (map_sum id (fix_result n) r, b', S'))"

section \<open>The memory that the buffers cover\<close>

text \<open>The buffers are, in order, the memory from position \<open>p\<close> to \<open>p + n\<close> and lie inside their blocks.\<close>

definition covers :: "nat \<Rightarrow> nat \<Rightarrow> iovec list \<Rightarrow> nat \<Rightarrow> nat \<Rightarrow> bool" where
  "covers base count iovs p n \<longleftrightarrow>
     concat (map (\<lambda>(i, q, l). [base * i + q..<base * i + q + l]) iovs) = [p..<p + n] \<and>
     (\<forall>(i, q, l)\<in>set iovs. i < count \<and> q + l \<le> base)"

lemma covers_size: "covers base count iovs p n \<Longrightarrow> iov_size iovs = n"
proof -
  have "length (concat (map (\<lambda>(i, q, l). [base * i + q..<base * i + q + l]) iovs)) = iov_size iovs"
    by (induction iovs) (auto simp: iov_size_def)
  then show "covers base count iovs p n \<Longrightarrow> iov_size iovs = n"
    by (simp add: covers_def)
qed

lemma covers_Nil: "covers base count [] p n \<Longrightarrow> n = 0"
  using covers_size [of base count "[]" p n] by (simp add: iov_size_def)

lemma covers_Cons:
  assumes "covers base count ((i, q, l) # iovs) p n"
  shows "i < count" "q + l \<le> base" "l \<le> n" "0 < l \<Longrightarrow> base * i + q = p" "covers base count iovs (p + l) (n - l)"
proof -
  have c: "[base * i + q..<base * i + q + l] @ concat (map (\<lambda>(i, q, l). [base * i + q..<base * i + q + l]) iovs) = [p..<p + n]"
    and "i < count" "q + l \<le> base" "\<forall>(i, q, l)\<in>set iovs. i < count \<and> q + l \<le> base"
    using assms by (auto simp: covers_def)
  then show "i < count" "q + l \<le> base"
    by simp_all
  have len: "l + length (concat (map (\<lambda>(i, q, l). [base * i + q..<base * i + q + l]) iovs)) = n"
    using arg_cong [OF c, of length] by simp
  then show "l \<le> n"
    by simp
  then show "base * i + q = p" if "0 < l"
    using arg_cong [OF c, of hd] that by (simp add: hd_append)
  have "concat (map (\<lambda>(i, q, l). [base * i + q..<base * i + q + l]) iovs) = drop l [p..<p + n]"
    using arg_cong [OF c, of "drop l"] by simp
  with \<open>l \<le> n\<close> \<open>\<forall>(i, q, l)\<in>set iovs. i < count \<and> q + l \<le> base\<close> show "covers base count iovs (p + l) (n - l)"
    by (simp add: covers_def)
qed

lemma gather_flat:
  assumes "nodes_ok base nodes" and "covers base (length nodes) iovs p n" and "p + n \<le> length (concat nodes)"
  shows "gather iovs nodes = take n (drop p (concat nodes))"
  using assms(2,3)
proof (induction iovs arbitrary: p n)
  case Nil
  then show ?case
    using covers_Nil by (fastforce simp: gather_def)
next
  case (Cons iov iovs)
  obtain i q l where iov: "iov = (i, q, l)"
    by (cases iov)
  note c = covers_Cons [OF Cons.prems(1) [unfolded iov]]
  have "take l (drop q (nodes ! i)) = take l (drop p (concat nodes))"
    using take_node [OF assms(1) c(1,2)] c(4) by (cases "l = 0") simp_all
  moreover have "gather iovs nodes = take (n - l) (drop (p + l) (concat nodes))"
    using Cons.IH [OF c(5)] Cons.prems(2) c(3) by simp
  ultimately show ?case
    using take_add [of l "n - l" "drop p (concat nodes)"] c(3) by (simp add: gather_def iov add.commute)
qed

lemma memcpy_Nil: "memcpy_to p [] xs = xs"
  by (simp add: memcpy_to_def)

lemma scatter_flat:
  assumes "nodes_ok base nodes" and "covers base (length nodes) iovs p n" and "p + n \<le> length (concat nodes)" and "length buf \<le> n"
  shows "concat (scatter iovs buf nodes) = memcpy_to p buf (concat nodes) \<and> nodes_ok base (scatter iovs buf nodes) \<and>
    length (scatter iovs buf nodes) = length nodes"
  using assms
proof (induction iovs buf nodes arbitrary: p n rule: scatter.induct)
  case (1 buf nodes)
  then show ?case
    using covers_Nil by (fastforce simp: memcpy_to_def)
next
  case (2 i q l iovs buf nodes)
  note c = covers_Cons [OF "2.prems"(2)]
  let ?nodes = "nodes[i := memcpy_to q (take l buf) (nodes ! i)]"
  have m: "nodes_ok base ?nodes" "concat ?nodes = memcpy_to p (take l buf) (concat nodes)"
    using memcpy_node [OF "2.prems"(1) c(1), of q "take l buf"] c(2,4) by (cases "l = 0"; simp add: memcpy_to_def)+
  have len: "length (concat ?nodes) = length (concat nodes)"
    using m(2) "2.prems"(3,4) by simp
  have "concat (scatter iovs (drop l buf) ?nodes) = memcpy_to (p + l) (drop l buf) (concat ?nodes) \<and>
      nodes_ok base (scatter iovs (drop l buf) ?nodes) \<and> length (scatter iovs (drop l buf) ?nodes) = length ?nodes"
    using "2.prems"(3,4) c(3,5) m(1) len by (intro "2.IH" [of "p + l" "n - l"]) auto
  moreover have "memcpy_to (p + l) (drop l buf) (memcpy_to p (take l buf) (concat nodes)) = memcpy_to p buf (concat nodes)"
    using memcpy_append [of p "take l buf" "drop l buf" "concat nodes"] "2.prems"(3,4)
    by (cases "l \<le> length buf") (auto simp: memcpy_Nil)
  ultimately show ?case
    using m(2) by simp
qed

section \<open>One call\<close>

lemma abs_ba_ok: "ba_ok b \<Longrightarrow> snd (abs_ba b) \<le> length (fst (abs_ba b))"
  by (simp add: abs_ba_def length_bytes) (simp add: ba_ok_def)

lemma buffer_write_Nil: "snd B \<le> length (fst B) \<Longrightarrow> buffer_write [] B = B"
  by (cases B) (simp add: overwrite_def)

lemma buffer_write_append:
  "snd B \<le> length (fst B) \<Longrightarrow> buffer_write y (buffer_write x B) = buffer_write (x @ y) B"
  by (cases B) (auto simp: overwrite_def ac_simps)

text \<open>Filling \<open>n\<close> covered bytes with \<open>buf\<close> and moving the position behind it is \<open>write\<close>.\<close>

lemma fill_advance:
  assumes "ba_ok b" and "covers (m_baseSize b) (length (m_nodes b)) iovs (m_position b) n" and "m_position b + n \<le> m_capacity b"
    and "length buf \<le> n" and "len = int (length buf) \<or> len \<le> 0 \<and> buf = []"
  shows "\<exists>b'. advance len (b\<lparr>m_nodes := scatter iovs buf (m_nodes b)\<rparr>) = (Inr len, b') \<and> ba_ok b' \<and>
    abs_ba b' = buffer_write buf (abs_ba b) \<and> m_baseSize b' = m_baseSize b"
proof -
  let ?b = "b\<lparr>m_nodes := scatter iovs buf (m_nodes b)\<rparr>" and ?p = "m_position b"
  have s: "flat ?b = memcpy_to ?p buf (flat b)" "ba_ok ?b"
    using scatter_flat [of "m_baseSize b" "m_nodes b" iovs ?p n buf] assms(1-4) length_flat [OF assms(1)]
    by (auto simp: ba_ok_def flat_def)
  show ?thesis
  proof (cases "buf = []")
    case True
    then have "len \<le> 0"
      using assms(5) by auto
    moreover have "flat ?b = flat b"
      using s(1) True by (simp add: memcpy_to_def)
    moreover have "overwrite ?p [] (bytes b) = bytes b"
      by (simp add: overwrite_def)
    ultimately show ?thesis
      using s(2) True by (simp add: advance_def ba_return_def abs_ba_def bytes_def)
  next
    case False
    then have len: "len = int (length buf)" "len > 0"
      using assms(5) by auto
    obtain b' where b': "setPosition (?p + length buf) ?b = (Inr (), b')" "ba_ok b'"
      "bytes b' = take (max (?p + length buf) (m_size b)) (flat ?b)" "m_position b' = ?p + length buf" "m_baseSize b' = m_baseSize b"
      using setPosition_ok [OF s(2), of "?p + length buf"] assms(3,4) by auto
    have "bytes b' = overwrite ?p buf (bytes b)"
      using take_memcpy [of ?p "m_size b" "flat b" buf "[]"] assms(1,3,4) length_flat [OF assms(1)] b'(3) s(1)
      by (simp add: bytes_def ba_ok_def max.commute)
    with b' len show ?thesis
      by (simp add: advance_def ba_bind_def ba_return_def abs_ba_def)
  qed
qed

lemma getWriteBuffers_room:
  assumes "ba_ok b" and "0 < n" and "getWriteBuffers n b = (r, b')"
  shows "m_baseSize b' = m_baseSize b" "m_position b + n \<le> m_capacity b'"
proof -
  obtain b1 where "addCapacity n b = (Inr (), b1)" "n \<le> getCapacity b1" "m_position b1 = m_position b" "m_baseSize b1 = m_baseSize b"
    using addCapacity_ok [OF assms(1), of n] by blast
  with assms(2,3) show "m_baseSize b' = m_baseSize b" "m_position b + n \<le> m_capacity b'"
    by (auto simp: getWriteBuffers_def ba_bind_def ba_return_def ba_throw_def getCapacity_def split: sum.splits)
qed

lemma ss_read_result:
  assumes "ss_read n S = (len, buf, S')" and "n < 2 ^ 31"
  shows "length buf \<le> n" "len = int (length buf) \<or> len \<le> 0 \<and> buf = []"
proof -
  have "to_int (int (min n (length d))) = int (min n (length d))" for d :: string
    using assms(2) by (intro to_int_small) auto
  then show "length buf \<le> n" "len = int (length buf) \<or> len \<le> 0 \<and> buf = []"
    using assms(1) by (auto simp: ss_read_def Socket_recv_def sys_recv_def to_int_small split: option.splits if_splits list.splits net_in.splits)
qed

text \<open>Reading into a byte array is reading into plain memory and writing what was read to the array.\<close>

lemma ss_read_ba_refines:
  assumes "ba_ok b" and "0 < n" and "n < 2 ^ 31" and "ss_read n S = (len, buf, S')"
  shows "\<exists>b'. ss_read_ba n b S = (Inr len, b', S') \<and> ba_ok b' \<and> abs_ba b' = buffer_write buf (abs_ba b)"
proof (cases "ss_isConnected S")
  case False
  then show ?thesis
    using assms(1,4) buffer_write_Nil [OF abs_ba_ok [OF assms(1)]]
    by (auto simp: ss_read_def ss_read_ba_def ss_isConnected_def split: option.splits)
next
  case True
  then obtain s where s: "m_socket S = Some s" "m_isConnected s"
    by (auto simp: ss_isConnected_def split: option.splits)
  obtain r s' where r: "sys_recv n s = (r, buf, s')" "len = to_int r" "S' = S\<lparr>m_socket := Some s'\<rparr>"
    using assms(4) s True by (auto simp: ss_read_def Socket_recv_def split: prod.splits)
  obtain iovs b1 where b1: "getWriteBuffers n b = (Inr (n, iovs), b1)" "ba_ok b1" "bytes b1 = bytes b"
    "m_position b1 = m_position b" "covers (m_baseSize b) (length (m_nodes b1)) iovs (m_position b) n"
    using getWriteBuffers_ok [OF assms(1,2)] unfolding covers_def by blast
  obtain b' where b': "advance len (b1\<lparr>m_nodes := scatter iovs buf (m_nodes b1)\<rparr>) = (Inr len, b')" "ba_ok b'"
    "abs_ba b' = buffer_write buf (abs_ba b1)"
    using fill_advance [OF b1(2), of iovs n buf len] b1(4,5) getWriteBuffers_room [OF assms(1,2) b1(1)] ss_read_result [OF assms(4,3)]
    by auto
  have "abs_ba b1 = abs_ba b"
    using b1(3,4) by (simp add: abs_ba_def)
  with b' r s b1(1) covers_size [OF b1(5)] True show ?thesis
    by (simp add: ss_read_ba_def Socket_recv_iov_def)
qed

text \<open>Writing a byte array is writing its unread bytes; the position moves behind those that were taken.\<close>

lemma getReadBuffers_gather:
  assumes "ba_ok b"
  shows "\<exists>k iovs. getReadBuffers n b = Inr (k, iovs) \<and> gather iovs (m_nodes b) = take n (unread b)"
proof (cases "min n (getReadSize b) = 0")
  case True
  then have "getReadBuffers n b = Inr (0, [])" "take n (unread b) = []"
    using length_unread [OF assms] by (auto simp: getReadBuffers_def min_def split: if_splits)
  then show ?thesis
    by (simp add: gather_def)
next
  case False
  let ?n = "min n (getReadSize b)"
  have room: "m_position b < m_capacity b" "m_position b + ?n \<le> m_capacity b" and cur: "m_cur b = m_position b div m_baseSize b"
    and nodes: "nodes_ok (m_baseSize b) (m_nodes b)" and sz: "m_position b + ?n \<le> m_size b"
    using assms False by (auto simp: ba_ok_def getReadSize_def)
  obtain iovs where iovs: "iovecs ?n (m_position b) (m_cur b) b = Inr iovs"
    "covers (m_baseSize b) (length (m_nodes b)) iovs (m_position b) ?n"
    using iovecs_ok [OF assms room] unfolding cur covers_def by blast
  have "gather iovs (m_nodes b) = take ?n (drop (m_position b) (flat b))"
    using gather_flat [OF nodes iovs(2)] room(2) length_flat [OF assms] by (simp add: flat_def)
  also have "\<dots> = take n (unread b)"
    using sz length_unread [OF assms] by (auto simp: unread_def bytes_def drop_take min_def getReadSize_def)
  finally show ?thesis
    using iovs(1) False by (auto simp: getReadBuffers_def Let_def min_def split: if_splits)
qed

lemma ss_write_result:
  assumes "ss_write buf S = (len, S')" and "length buf < 2 ^ 31"
  shows "len \<le> int (length buf)"
proof -
  have "to_int (min k (int (length buf))) = min k (int (length buf))" if "k > 0" for k
    using assms(2) that by (intro to_int_small) auto
  moreover have "to_int (max (- 1) k) = max (- 1) k" if "k \<le> 0" for k
    using that by (intro to_int_small) auto
  ultimately show ?thesis
    using assms(1)
    by (auto simp: ss_write_def Socket_send_def sys_send_def to_int_small split: option.splits if_splits list.splits)
qed

lemma ss_write_ba_refines:
  assumes "ba_ok b" and "n < 2 ^ 31" and "ss_write (take n (unread b)) S = (len, S')"
  shows "\<exists>b'. ss_write_ba n b S = (Inr len, b', S') \<and> ba_ok b' \<and> bytes b' = bytes b \<and> m_position b' = m_position b + nat len"
proof (cases "ss_isConnected S")
  case False
  then show ?thesis
    using assms(1,3) by (auto simp: ss_write_def ss_write_ba_def ss_isConnected_def split: option.splits)
next
  case True
  then obtain s where s: "m_socket S = Some s" "m_isConnected s"
    by (auto simp: ss_isConnected_def split: option.splits)
  obtain k iovs where io: "getReadBuffers n b = Inr (k, iovs)" "gather iovs (m_nodes b) = take n (unread b)"
    using getReadBuffers_gather [OF assms(1)] by blast
  have "len \<le> int (getReadSize b)"
    using ss_write_result [OF assms(3)] assms(2) length_unread [OF assms(1)] by (cases "getReadSize b \<le> n") auto
  then have "m_position b + nat len \<le> m_size b"
    using assms(1) by (auto simp: getReadSize_def ba_ok_def)
  then obtain b' where "advance len b = (Inr len, b')" "ba_ok b'" "bytes b' = bytes b" "m_position b' = m_position b + nat len"
    using setPosition_back [OF assms(1), of "m_position b + nat len"] assms(1)
    by (cases "len > 0") (auto simp: advance_def ba_bind_def ba_return_def)
  then show ?thesis
    using assms(3) s True io by (auto simp: ss_write_def ss_write_ba_def Socket_send_def Socket_send_iov_def split: prod.splits)
qed

section \<open>The loops\<close>

lemma read_loop_extends: "\<exists>r data S'. read_loop left buf S = (r, buf @ data, S')"
proof (induction left buf S rule: read_loop.induct)
  case (1 left buf S)
  show ?case
    using 1 by (subst read_loop.simps) (fastforce split: prod.splits)
qed

lemma read_loop_ba_refines:
  assumes "ba_ok b" and "left < 2 ^ 31" and "read_loop left buf S = (r, buf @ data, S')"
  shows "\<exists>b'. read_loop_ba left b S = (Inr r, b', S') \<and> ba_ok b' \<and> abs_ba b' = buffer_write data (abs_ba b)"
  using assms
proof (induction left buf S arbitrary: b data rule: read_loop.induct)
  case (1 left buf S)
  note nil = buffer_write_Nil [OF abs_ba_ok [OF "1.prems"(1)]]
  show ?case
  proof (cases "left > 0")
    case True
    obtain len d S1 where rd: "ss_read (nat left) S = (len, d, S1)"
      by (cases "ss_read (nat left) S")
    obtain b1 where b1: "ss_read_ba (nat left) b S = (Inr len, b1, S1)" "ba_ok b1" "abs_ba b1 = buffer_write d (abs_ba b)"
      using ss_read_ba_refines [OF "1.prems"(1) _ _ rd] True "1.prems"(2) by (auto simp: nat_less_iff)
    have eq: "read_loop left buf S = (if len \<le> 0 then (Some len, buf @ d, S1) else read_loop (left - len) (buf @ d) S1)"
      "read_loop_ba left b S = (if len \<le> 0 then (Inr (Some len), b1, S1) else read_loop_ba (left - len) b1 S1)"
      using True rd b1(1) by (simp_all add: read_loop.simps [of left] read_loop_ba.simps [of left])
    show ?thesis
    proof (cases "len \<le> 0")
      case True
      then show ?thesis
        using eq b1 "1.prems"(3) by auto
    next
      case False
      obtain data' where data: "data = d @ data'"
        using read_loop_extends [of "left - len" "buf @ d" S1] eq(1) False "1.prems"(3) by auto
      obtain b2 where "read_loop_ba (left - len) b1 S1 = (Inr r, b2, S')" "ba_ok b2" "abs_ba b2 = buffer_write data' (abs_ba b1)"
        using "1.IH" [OF True rd [symmetric] refl False b1(2), of data'] "1.prems"(2,3) eq(1) False data by auto
      then show ?thesis
        using eq(2) False b1(3) data buffer_write_append [OF abs_ba_ok [OF "1.prems"(1)]] by simp
    qed
  next
    case False
    then show ?thesis
      using "1.prems" nil by (simp add: read_loop.simps [of left] read_loop_ba.simps [of left])
  qed
qed

lemma ss_write_Nil:
  assumes "open_stream S s"
  shows "\<exists>len s' S'. ss_write [] S = (len, S') \<and> open_stream S' s' \<and> incoming s' = incoming s \<and> sent s' = sent s \<and> len \<in> {- 1, 0}"
  using assms
  by (cases "accepts s")
    (auto simp: ss_write_def open_stream_def ss_isConnected_def Socket_send_def sys_send_def to_int_small max_def)

lemma ss_write_any:
  assumes "open_stream S s" and "length d < 2 ^ 31"
  obtains len s' S' where "ss_write d S = (len, S')" "open_stream S' s'" "incoming s' = incoming s" "len \<le> int (length d)"
    "if len \<le> 0 then len \<in> {- 1, 0} \<and> (d = [] \<or> capacity (accepts s) = 0) \<and> sent s' = sent s
     else sent s' = sent s @ take (nat len) d \<and> nat len \<le> capacity (accepts s) \<and>
       (len = int (length d) \<or> capacity (accepts s) = nat len + capacity (accepts s'))"
proof (cases "d = []")
  case True
  obtain len s' S' where "ss_write d S = (len, S')" "open_stream S' s'" "incoming s' = incoming s" "sent s' = sent s" "len \<in> {- 1, 0}"
    using ss_write_Nil [OF assms(1)] True by blast
  with True show ?thesis
    by (intro that [of len S' s']) auto
next
  case False
  then have "0 < length d"
    by simp
  then obtain len s' S' where "ss_write d S = (len, S')" "open_stream S' s'" "incoming s' = incoming s" "len \<le> int (length d)"
    "if len \<le> 0 then len \<in> {- 1, 0} \<and> capacity (accepts s) = 0 \<and> sent s' = sent s
     else sent s' = sent s @ take (nat len) d \<and> nat len \<le> capacity (accepts s) \<and>
       (len = int (length d) \<or> capacity (accepts s) = nat len + capacity (accepts s'))"
    using ss_write_open [OF assms(1) _ assms(2)] by blast
  then show ?thesis
    by (intro that [of len S' s']) (auto split: if_splits)
qed

definition taken :: "int \<Rightarrow> ByteArray \<Rightarrow> Socket \<Rightarrow> nat" where
  "taken left b s = min (nat left) (min (capacity (accepts s)) (length (unread b)))"

lemma min_step:
  fixes l x c u c' :: nat
  assumes "l \<le> x" "l \<le> c" "l \<le> u" "l = min u x \<or> c = l + c'"
  shows "min x (min c u) = l + min (x - l) (min c' (u - l))"
  using assms by linarith

lemma write_loop_ba_spec:
  assumes "open_stream S s" and "ba_ok b" and "left < 2 ^ 31"
  shows "\<exists>r b' s' S'. write_loop_ba left b S = (Inr r, b', S') \<and> open_stream S' s' \<and> incoming s' = incoming s \<and>
    ba_ok b' \<and> bytes b' = bytes b \<and> m_position b' = m_position b + taken left b s \<and>
    sent s' = sent s @ take (taken left b s) (unread b) \<and>
    (if nat left \<le> taken left b s then r = None else \<exists>len\<in>{- 1, 0}. r = Some len)"
  using assms
proof (induction left b S arbitrary: s rule: write_loop_ba.induct)
  case (1 left b S)
  show ?case
  proof (cases "left > 0")
    case True
    let ?d = "take (nat left) (unread b)"
    have d: "length ?d < 2 ^ 31"
      using "1.prems"(3) True by (auto simp: min_less_iff_disj nat_less_iff)
    obtain len s1 S1 where wr: "ss_write ?d S = (len, S1)" "open_stream S1 s1" "incoming s1 = incoming s" "len \<le> int (length ?d)"
      "if len \<le> 0 then len \<in> {- 1, 0} \<and> (?d = [] \<or> capacity (accepts s) = 0) \<and> sent s1 = sent s
       else sent s1 = sent s @ take (nat len) ?d \<and> nat len \<le> capacity (accepts s) \<and>
         (len = int (length ?d) \<or> capacity (accepts s) = nat len + capacity (accepts s1))"
      using ss_write_any [OF "1.prems"(1), of ?d] d .
    obtain b1 where b1: "ss_write_ba (nat left) b S = (Inr len, b1, S1)" "ba_ok b1" "bytes b1 = bytes b"
      "m_position b1 = m_position b + nat len"
      using ss_write_ba_refines [OF "1.prems"(2) _ wr(1)] "1.prems"(3) True by (auto simp: nat_less_iff)
    have eq: "write_loop_ba left b S = (if len \<le> 0 then (Inr (Some len), b1, S1) else write_loop_ba (left - len) b1 S1)"
      using True b1(1) by (simp add: write_loop_ba.simps [of left])
    show ?thesis
    proof (cases "len \<le> 0")
      case True
      then have "taken left b s = 0"
        using wr(5) \<open>left > 0\<close> by (auto simp: taken_def)
      then show ?thesis
        using True eq b1 wr \<open>left > 0\<close> by auto
    next
      case False
      have un: "unread b1 = drop (nat len) (unread b)"
        using b1(3,4) by (simp add: unread_def add.commute)
      have len: "nat len \<le> nat left" "nat len \<le> length (unread b)" "len \<le> left"
        using wr(4) False by auto
      have "nat len \<le> capacity (accepts s)" "nat len = min (length (unread b)) (nat left) \<or> capacity (accepts s) = nat len + capacity (accepts s1)"
        using wr(5) False by auto
      from min_step [OF len(1) this(1) len(2) this(2)]
      have k: "taken left b s = nat len + taken (left - len) b1 s1"
        using un False len(3) by (simp add: taken_def nat_diff_distrib)
      obtain r b2 s2 S2 where IH: "write_loop_ba (left - len) b1 S1 = (Inr r, b2, S2)" "open_stream S2 s2" "incoming s2 = incoming s1"
        "ba_ok b2" "bytes b2 = bytes b1" "m_position b2 = m_position b1 + taken (left - len) b1 s1"
        "sent s2 = sent s1 @ take (taken (left - len) b1 s1) (unread b1)"
        "if nat (left - len) \<le> taken (left - len) b1 s1 then r = None else \<exists>len\<in>{- 1, 0}. r = Some len"
        using "1.IH" [OF True b1(1) [symmetric] refl refl False wr(2) b1(2)] "1.prems"(3) False by auto
      have "sent s1 = sent s @ take (nat len) (unread b)"
        using wr(5) False len(1) by (simp add: min_absorb1)
      then have "sent s2 = sent s @ take (taken left b s) (unread b)"
        using IH(7) un k by (simp add: take_add)
      moreover have "nat left \<le> taken left b s \<longleftrightarrow> nat (left - len) \<le> taken (left - len) b1 s1"
        using k len False by (auto simp: nat_diff_distrib)
      ultimately show ?thesis
        using eq False IH b1 wr(3) k by (intro exI [of _ r] exI [of _ b2] exI [of _ s2] exI [of _ S2]) simp
    qed
  next
    case False
    then show ?thesis
      using "1.prems" by (auto simp: write_loop_ba.simps [of left] taken_def)
  qed
qed

section \<open>Properties\<close>

lemma fix_result_small: "n < 2 ^ 31 \<Longrightarrow> fix_result n None = int n" "len \<in> {- 1, 0} \<Longrightarrow> fix_result n (Some len) = len"
  by (auto simp: fix_result_def to_int_small)

text \<open>
  C33: A byte array and a socket exchange exactly their bytes, for every block size of the array and on every behaviour of the
  network. \<open>readFixSize\<close> into an array does what \<open>write\<close> with the bytes that arrived (the first \<open>n\<close>, or all that came before a
  failure) does to the array, although the kernel fills its blocks piecewise, and returns \<open>n\<close> just when there were \<open>n\<close> of
  them. \<open>writeFixSize\<close> sends exactly the next unread bytes, as many as were asked for, are in the array and are taken by
  the peer, moves the position behind them and changes no byte, and returns \<open>n\<close> just when these were \<open>n\<close>.
\<close>

theorem buffer_streams_exact:
  assumes "ba_reach b" and "m_socket S = Some s" and "m_isConnected s" and "n < 2 ^ 31"
  shows "(\<exists>r b' s' S'. readFixSize_ba n b S = (Inr r, b', S') \<and> m_socket S' = Some s' \<and> sent s' = sent s \<and>
      abs_ba b' = buffer_write (take n (available (incoming s))) (abs_ba b) \<and>
      (if n \<le> length (available (incoming s)) then r = int n \<and> available (incoming s') = drop n (available (incoming s)) else r \<le> 0)) \<and>
    (\<exists>r b' s' S'. writeFixSize_ba n b S = (Inr r, b', S') \<and> m_socket S' = Some s' \<and> incoming s' = incoming s \<and>
      (let k = min n (min (capacity (accepts s)) (length (unread b))) in
        sent s' = sent s @ take k (unread b) \<and> abs_ba b' = buffer_seek (m_position b + k) (abs_ba b) \<and>
        (if n \<le> k then r = int n else r \<le> 0)))"
proof
  have S: "open_stream S s"
    using assms(2,3) by (simp add: open_stream_def)
  have n: "to_int64 n = int n" "int n < 2 ^ 31"
    using assms(4) by (simp_all add: to_int64_small)
  note ok = ba_reach_ok [OF assms(1)] and res = fix_result_small(1) [OF assms(4)] fix_result_small(2)
  obtain r data s' S' where rd: "read_loop (int n) [] S = (r, [] @ data, S')" "open_stream S' s'" "sent s' = sent s"
    "if int n \<le> int (length (available (incoming s)))
     then r = None \<and> data = take (nat (int n)) (available (incoming s)) \<and>
       available (incoming s') = drop (nat (int n)) (available (incoming s))
     else data = available (incoming s) \<and> (\<exists>len\<in>{- 1, 0}. r = Some len)"
    using read_loop_spec [OF S n(2), of "[]"] by blast
  obtain b' where b': "read_loop_ba (int n) b S = (Inr r, b', S')" "abs_ba b' = buffer_write data (abs_ba b)"
    using read_loop_ba_refines [OF ok n(2) rd(1)] by blast
  have "data = take n (available (incoming s))"
    "if n \<le> length (available (incoming s)) then fix_result n r = int n \<and> available (incoming s') = drop n (available (incoming s))
     else fix_result n r \<le> 0"
    using rd(4) res by (auto split: if_splits)
  then show "\<exists>r b' s' S'. readFixSize_ba n b S = (Inr r, b', S') \<and> m_socket S' = Some s' \<and> sent s' = sent s \<and>
      abs_ba b' = buffer_write (take n (available (incoming s))) (abs_ba b) \<and>
      (if n \<le> length (available (incoming s)) then r = int n \<and> available (incoming s') = drop n (available (incoming s)) else r \<le> 0)"
    using b' rd(2,3) n(1) by (simp add: readFixSize_ba_def open_stream_def)
  obtain r b' s' S' where w: "write_loop_ba (int n) b S = (Inr r, b', S')" "open_stream S' s'" "incoming s' = incoming s"
    "bytes b' = bytes b" "m_position b' = m_position b + taken (int n) b s" "sent s' = sent s @ take (taken (int n) b s) (unread b)"
    "if nat (int n) \<le> taken (int n) b s then r = None else \<exists>len\<in>{- 1, 0}. r = Some len"
    using write_loop_ba_spec [OF S ok n(2)] by blast
  have k: "taken (int n) b s = min n (min (capacity (accepts s)) (length (unread b)))"
    by (simp add: taken_def)
  have "if n \<le> taken (int n) b s then fix_result n r = int n else fix_result n r \<le> 0"
    using w(7) res by (auto split: if_splits)
  then show "\<exists>r b' s' S'. writeFixSize_ba n b S = (Inr r, b', S') \<and> m_socket S' = Some s' \<and> incoming s' = incoming s \<and>
      (let k = min n (min (capacity (accepts s)) (length (unread b))) in
        sent s' = sent s @ take k (unread b) \<and> abs_ba b' = buffer_seek (m_position b + k) (abs_ba b) \<and>
        (if n \<le> k then r = int n else r \<le> 0))"
    using w n(1) unfolding k Let_def by (simp add: writeFixSize_ba_def open_stream_def abs_ba_def)
qed

text \<open>The unread bytes \<open>ello\<close> of the example array, to a peer that takes two bytes and then one.\<close>

theorem buffer_streams_exact_witness:
  "\<exists>r b' s' S'. writeFixSize_ba 4 example_array \<lparr>m_socket = Some \<lparr>m_sock = 7, m_isConnected = True,
      incoming = [], accepts = [2, 1], sent = []\<rparr>, m_owner = True\<rparr> = (Inr r, b', S') \<and> r \<le> 0 \<and>
    m_socket S' = Some s' \<and> sent s' = ''ell'' \<and> snd (abs_ba b') = 4"
proof -
  let ?s = "\<lparr>m_sock = 7, m_isConnected = True, incoming = [], accepts = [2, 1], sent = []\<rparr> :: Socket"
  let ?S = "\<lparr>m_socket = Some ?s, m_owner = True\<rparr> :: SocketStream"
  obtain r b' s' S' where "writeFixSize_ba 4 example_array ?S = (Inr r, b', S')" "m_socket S' = Some s'"
    "let k = min 4 (min (capacity (accepts ?s)) (length (unread example_array))) in
      sent s' = sent ?s @ take k (unread example_array) \<and>
      abs_ba b' = buffer_seek (m_position example_array + k) (abs_ba example_array) \<and> (if 4 \<le> k then r = int 4 else r \<le> 0)"
    using conjunct2 [OF buffer_streams_exact [OF example_array_reach, of ?S ?s 4]] by auto
  then show ?thesis
    by (simp add: example_array_fields abs_ba_def)
qed

end
