(* ===== verification/Logging.thy ===== *)
theory Logging
  imports Prelude
begin

text \<open>
  \<open>log.h\<close> and \<open>log.cpp\<close>: levels, the formatter with its pattern language, the appenders, loggers and
  their manager, and the listener that applies a changed configuration.

  The clock and the time zone are the argument \<open>date\<close>, which gives what \<open>strftime\<close> puts into the
  buffer for a format and a time. A result \<open>None\<close> is undefined behaviour of the code: a character
  read beyond the terminator of a string, or the use of a null pointer. Conversion from and to YAML
  is left out.
\<close>

section \<open>Levels\<close>

datatype Level = FATAL | ALERT | CRIT | ERROR | WARN | NOTICE | INFO | DEBUG | NOTSET

fun level_value :: "Level \<Rightarrow> nat" where
  "level_value FATAL = 0"
| "level_value ALERT = 100"
| "level_value CRIT = 200"
| "level_value ERROR = 300"
| "level_value WARN = 400"
| "level_value NOTICE = 500"
| "level_value INFO = 600"
| "level_value DEBUG = 700"
| "level_value NOTSET = 800"

fun LogLevel_ToString :: "Level \<Rightarrow> string" where
  "LogLevel_ToString FATAL = ''FATAL''"
| "LogLevel_ToString ALERT = ''ALERT''"
| "LogLevel_ToString CRIT = ''CRIT''"
| "LogLevel_ToString ERROR = ''ERROR''"
| "LogLevel_ToString WARN = ''WARN''"
| "LogLevel_ToString NOTICE = ''NOTICE''"
| "LogLevel_ToString INFO = ''INFO''"
| "LogLevel_ToString DEBUG = ''DEBUG''"
| "LogLevel_ToString NOTSET = ''NOTSET''"

definition LogLevel_FromString :: "string \<Rightarrow> Level" where
  "LogLevel_FromString str =
     (if str = ''fatal'' then FATAL else if str = ''alert'' then ALERT else if str = ''crit'' then CRIT
      else if str = ''error'' then ERROR else if str = ''warn'' then WARN else if str = ''notice'' then NOTICE
      else if str = ''info'' then INFO else if str = ''debug'' then DEBUG
      else if str = ''FATAL'' then FATAL else if str = ''ALERT'' then ALERT else if str = ''CRIT'' then CRIT
      else if str = ''ERROR'' then ERROR else if str = ''WARN'' then WARN else if str = ''NOTICE'' then NOTICE
      else if str = ''INFO'' then INFO else if str = ''DEBUG'' then DEBUG else NOTSET)"

section \<open>Events and format items\<close>

record LogEvent =
  m_level :: Level
  m_ss :: string
  m_file :: string
  m_line :: int
  m_elapse :: int
  m_threadId :: u32
  m_fiberId :: u64
  m_time :: u64
  m_threadName :: string
  m_loggerName :: string

datatype FormatItem =
  MessageFormatItem | LevelFormatItem | ElapseFormatItem | LoggerNameFormatItem | ThreadIdFormatItem |
  FiberIdFormatItem | ThreadNameFormatItem | DateTimeFormatItem string | FileNameFormatItem | LineFormatItem |
  NewLineFormatItem | StringFormatItem string | TabFormatItem | PercentSignFormatItem

definition int_str :: "int \<Rightarrow> string" where
  "int_str n = (if n < 0 then ''-'' @ dec_str (nat (- n)) else dec_str (nat n))"

fun item_format :: "(string \<Rightarrow> u64 \<Rightarrow> string) \<Rightarrow> LogEvent \<Rightarrow> FormatItem \<Rightarrow> string" where
  "item_format date event MessageFormatItem = m_ss event"
| "item_format date event LevelFormatItem = LogLevel_ToString (m_level event)"
| "item_format date event ElapseFormatItem = int_str (m_elapse event)"
| "item_format date event LoggerNameFormatItem = m_loggerName event"
| "item_format date event ThreadIdFormatItem = dec_str (unat (m_threadId event))"
| "item_format date event FiberIdFormatItem = dec_str (unat (m_fiberId event))"
| "item_format date event ThreadNameFormatItem = m_threadName event"
| "item_format date event (DateTimeFormatItem fmt) = date fmt (m_time event)"
| "item_format date event FileNameFormatItem = m_file event"
| "item_format date event LineFormatItem = int_str (m_line event)"
| "item_format date event NewLineFormatItem = [LF]"
| "item_format date event (StringFormatItem str) = str"
| "item_format date event TabFormatItem = [HT]"
| "item_format date event PercentSignFormatItem = ''%''"

definition new_DateTimeFormatItem :: "string \<Rightarrow> FormatItem" where
  "new_DateTimeFormatItem fmt = DateTimeFormatItem (if fmt = [] then ''%Y-%m-%d %H:%M:%S'' else fmt)"

section \<open>The formatter\<close>

definition s_format_items :: "(string \<times> FormatItem) list" where
  "s_format_items =
     [(''m'', MessageFormatItem), (''p'', LevelFormatItem), (''c'', LoggerNameFormatItem), (''r'', ElapseFormatItem),
      (''f'', FileNameFormatItem), (''l'', LineFormatItem), (''t'', ThreadIdFormatItem), (''F'', FiberIdFormatItem),
      (''N'', ThreadNameFormatItem), (''%'', PercentSignFormatItem), (''T'', TabFormatItem), (''n'', NewLineFormatItem)]"

text \<open>The local variables of \<open>init\<close>: \<open>patterns\<close>, \<open>tmp\<close>, \<open>dateformat\<close> and \<open>parsing_string\<close>.\<close>

record init_state =
  patterns :: "(nat \<times> string) list"
  tmp :: string
  dateformat :: string
  parsing_string :: bool

text \<open>The loop over the characters between the braces, with the index it stops at.\<close>

function date_loop :: "string \<Rightarrow> nat \<Rightarrow> string \<Rightarrow> nat \<times> string" where
  "date_loop pattern i df =
     (if i < length pattern \<and> pattern ! i \<noteq> CHR ''}'' then date_loop pattern (i + 1) (df @ [pattern ! i]) else (i, df))"
  by pat_completeness auto
termination
  by (relation "measure (\<lambda>(pattern, i, df). length pattern - i)") auto

declare date_loop.simps [simp del]

lemma date_loop_ge: "i \<le> fst (date_loop pattern i df)"
proof (induction pattern i df rule: date_loop.induct)
  case (1 pattern i df)
  then show ?case
    by (subst date_loop.simps) auto
qed

lemma date_loop_advances [termination_simp]:
  "i < length pattern \<Longrightarrow> length pattern - Suc (fst (date_loop pattern (Suc (Suc i)) df)) < length pattern - i"
  using date_loop_ge [of "Suc (Suc i)" pattern df] by simp

text \<open>
  The main loop from index \<open>i\<close>; the boolean is \<open>error\<close>. The character at the index that is the length is
  the terminator, and there is none beyond it.
\<close>

function init_loop :: "string \<Rightarrow> nat \<Rightarrow> init_state \<Rightarrow> (bool \<times> init_state) option" where
  "init_loop pattern i s =
     (if i < length pattern then
        let c = pattern ! i in
        if c = CHR ''%'' then
          if parsing_string s then
            init_loop pattern (i + 1)
              (s\<lparr>patterns := patterns s @ (if tmp s \<noteq> [] then [(0, tmp s)] else []), tmp := [], parsing_string := False\<rparr>)
          else init_loop pattern (i + 1) (s\<lparr>patterns := patterns s @ [(1, [c])], parsing_string := True\<rparr>)
        else if parsing_string s then init_loop pattern (i + 1) (s\<lparr>tmp := tmp s @ [c]\<rparr>)
        else
          let s = s\<lparr>patterns := patterns s @ [(1, [c])], parsing_string := True\<rparr> in
          if c \<noteq> CHR ''d'' then init_loop pattern (i + 1) s
          else if i + 1 < length pattern \<and> pattern ! (i + 1) \<noteq> CHR ''{'' then init_loop pattern (i + 1) s
          else
            let j = fst (date_loop pattern (i + 2) (dateformat s));
                s = s\<lparr>dateformat := snd (date_loop pattern (i + 2) (dateformat s))\<rparr>
            in if j > length pattern then None
               else if cstr_at pattern j \<noteq> CHR ''}'' then Some (True, s)
               else init_loop pattern (j + 1) s
      else Some (False, s))"
  by pat_completeness auto
termination
  by (relation "measure (\<lambda>(pattern, i, s). length pattern - i)") (auto simp: termination_simp)

declare init_loop.simps [simp del]

definition make_item :: "string \<Rightarrow> nat \<times> string \<Rightarrow> FormatItem option" where
  "make_item df v =
     (if fst v = 0 then Some (StringFormatItem (snd v))
      else if snd v = ''d'' then Some (new_DateTimeFormatItem df)
      else map_of s_format_items (snd v))"

text \<open>The loop that makes the items; it stops at the first pattern that is not known.\<close>

fun make_items :: "string \<Rightarrow> (nat \<times> string) list \<Rightarrow> bool \<times> FormatItem list" where
  "make_items df [] = (False, [])"
| "make_items df (v # vs) =
     (case make_item df v of
        None \<Rightarrow> (True, [])
      | Some item \<Rightarrow> (case make_items df vs of (error, items) \<Rightarrow> (error, item # items)))"

record LogFormatter =
  m_pattern :: string
  m_items :: "FormatItem list"
  m_error :: bool

definition new_LogFormatter :: "string \<Rightarrow> LogFormatter option" where
  "new_LogFormatter pattern =
     (case init_loop pattern 0 \<lparr>patterns = [], tmp = [], dateformat = [], parsing_string = True\<rparr> of
        None \<Rightarrow> None
      | Some (True, s) \<Rightarrow> Some \<lparr>m_pattern = pattern, m_items = [], m_error = True\<rparr>
      | Some (False, s) \<Rightarrow>
          let ps = patterns s @ (if tmp s \<noteq> [] then [(0, tmp s)] else []) in
          case make_items (dateformat s) ps of
            (error, items) \<Rightarrow> Some \<lparr>m_pattern = pattern, m_items = items, m_error = error\<rparr>)"

definition LogFormatter_format :: "(string \<Rightarrow> u64 \<Rightarrow> string) \<Rightarrow> LogFormatter \<Rightarrow> LogEvent \<Rightarrow> string" where
  "LogFormatter_format date f event = concat (map (item_format date event) (m_items f))"

definition default_pattern :: string where
  "default_pattern = ''%d{%Y-%m-%d %H:%M:%S} [%rms]%T%t%T%N%T%F%T[%p]%T[%c]%T%f:%l%T%m%n''"

section \<open>Appenders\<close>

text \<open>
  An output stream: whether the file is open, whether the stream is in a failed state, and what has
  been written. What the system does is a script: whether the next \<open>open\<close> of the file and the next
  write succeed.
\<close>

record ofstream =
  fs_open :: bool
  fs_fail :: bool
  fs_written :: string
  fs_opens :: "bool list"
  fs_writes :: "bool list"

definition stream_close :: "ofstream \<Rightarrow> ofstream" where
  "stream_close f = (if fs_open f then f\<lparr>fs_open := False\<rparr> else f\<lparr>fs_fail := True\<rparr>)"

text \<open>\<open>open\<close> of a stream that has a file open fails; otherwise it clears the state if it succeeds.\<close>

definition stream_open :: "ofstream \<Rightarrow> ofstream" where
  "stream_open f =
     (if fs_open f then f\<lparr>fs_fail := True\<rparr>
      else case fs_opens f of
        [] \<Rightarrow> f\<lparr>fs_fail := True\<rparr>
      | k # ks \<Rightarrow> f\<lparr>fs_opens := ks, fs_open := k, fs_fail := \<not> k\<rparr>)"

definition stream_write :: "string \<Rightarrow> ofstream \<Rightarrow> ofstream" where
  "stream_write str f =
     (if fs_fail f \<or> \<not> fs_open f then f\<lparr>fs_fail := True\<rparr>
      else case fs_writes f of
        [] \<Rightarrow> f\<lparr>fs_fail := True\<rparr>
      | k # ks \<Rightarrow>
          if k then f\<lparr>fs_writes := ks, fs_written := fs_written f @ str\<rparr> else f\<lparr>fs_writes := ks, fs_fail := True\<rparr>)"

datatype appender_kind = Stdout | File

record LogAppender =
  ap_kind :: appender_kind
  m_formatter :: "LogFormatter option"
  m_defaultFormatter :: LogFormatter
  m_filename :: string
  m_filestream :: ofstream
  m_lastTime :: u64
  m_reopenError :: bool

definition setFormatter :: "LogFormatter option \<Rightarrow> LogAppender \<Rightarrow> LogAppender" where
  "setFormatter val a = a\<lparr>m_formatter := val\<rparr>"

definition getFormatter :: "LogAppender \<Rightarrow> LogFormatter" where
  "getFormatter a = (case m_formatter a of Some f \<Rightarrow> f | None \<Rightarrow> m_defaultFormatter a)"

definition reopen :: "LogAppender \<Rightarrow> bool \<times> LogAppender" where
  "reopen a =
     (let f = (if \<not> fs_fail (m_filestream a) then stream_close (m_filestream a) else m_filestream a);
          f = stream_open f
      in (\<not> fs_fail f, a\<lparr>m_filestream := f, m_reopenError := fs_fail f\<rparr>))"

text \<open>A new stream has no file open and is not in a failed state.\<close>

definition new_ofstream :: "bool list \<Rightarrow> bool list \<Rightarrow> ofstream" where
  "new_ofstream opens writes =
     \<lparr>fs_open = False, fs_fail = False, fs_written = [], fs_opens = opens, fs_writes = writes\<rparr>"

definition new_StdoutLogAppender :: "ofstream \<Rightarrow> LogAppender option" where
  "new_StdoutLogAppender cout =
     map_option (\<lambda>f. \<lparr>ap_kind = Stdout, m_formatter = None, m_defaultFormatter = f, m_filename = [],
       m_filestream = cout, m_lastTime = 0, m_reopenError = False\<rparr>) (new_LogFormatter default_pattern)"

definition new_FileLogAppender :: "bool list \<Rightarrow> bool list \<Rightarrow> string \<Rightarrow> LogAppender option" where
  "new_FileLogAppender opens writes file =
     map_option (\<lambda>f. snd (reopen
       \<lparr>ap_kind = File, m_formatter = None, m_defaultFormatter = f, m_filename = file,
        m_filestream = new_ofstream opens writes, m_lastTime = 0, m_reopenError = False\<rparr>)) (new_LogFormatter default_pattern)"

definition StdoutLogAppender_log :: "(string \<Rightarrow> u64 \<Rightarrow> string) \<Rightarrow> LogEvent \<Rightarrow> LogAppender \<Rightarrow> LogAppender" where
  "StdoutLogAppender_log date event a =
     a\<lparr>m_filestream := stream_write (LogFormatter_format date (getFormatter a) event) (m_filestream a)\<rparr>"

definition FileLogAppender_log :: "(string \<Rightarrow> u64 \<Rightarrow> string) \<Rightarrow> LogEvent \<Rightarrow> LogAppender \<Rightarrow> LogAppender" where
  "FileLogAppender_log date event a =
     (let now = m_time event;
          a = (if now \<ge> m_lastTime a + 3 then (snd (reopen a))\<lparr>m_lastTime := now\<rparr> else a)
      in if m_reopenError a then a
         else a\<lparr>m_filestream := stream_write (LogFormatter_format date (getFormatter a) event) (m_filestream a)\<rparr>)"

definition appender_log :: "(string \<Rightarrow> u64 \<Rightarrow> string) \<Rightarrow> LogEvent \<Rightarrow> LogAppender \<Rightarrow> LogAppender" where
  "appender_log date event a =
     (case ap_kind a of
        Stdout \<Rightarrow> StdoutLogAppender_log date event a
      | File \<Rightarrow> FileLogAppender_log date event a)"

section \<open>Loggers\<close>

record Logger =
  lg_name :: string
  lg_level :: Level
  m_appenders :: "LogAppender list"
  lg_createTime :: u64

definition new_Logger :: "u64 \<Rightarrow> string \<Rightarrow> Logger" where
  "new_Logger now name = \<lparr>lg_name = name, lg_level = INFO, m_appenders = [], lg_createTime = now\<rparr>"

definition setLevel :: "Level \<Rightarrow> Logger \<Rightarrow> Logger" where
  "setLevel level l = l\<lparr>lg_level := level\<rparr>"

definition addAppender :: "LogAppender \<Rightarrow> Logger \<Rightarrow> Logger" where
  "addAppender a l = l\<lparr>m_appenders := m_appenders l @ [a]\<rparr>"

text \<open>Appenders are compared as pointers; the argument is the index of the first that is the same.\<close>

definition delAppender :: "nat \<Rightarrow> Logger \<Rightarrow> Logger" where
  "delAppender i l = l\<lparr>m_appenders := take i (m_appenders l) @ drop (i + 1) (m_appenders l)\<rparr>"

definition clearAppenders :: "Logger \<Rightarrow> Logger" where
  "clearAppenders l = l\<lparr>m_appenders := []\<rparr>"

definition Logger_log :: "(string \<Rightarrow> u64 \<Rightarrow> string) \<Rightarrow> LogEvent \<Rightarrow> Logger \<Rightarrow> Logger" where
  "Logger_log date event l =
     (if level_value (m_level event) \<le> level_value (lg_level l)
      then l\<lparr>m_appenders := map (appender_log date event) (m_appenders l)\<rparr> else l)"

type_synonym LoggerManager = "string \<rightharpoonup> Logger"

definition new_LoggerManager :: "u64 \<Rightarrow> ofstream \<Rightarrow> LoggerManager option" where
  "new_LoggerManager now cout =
     map_option (\<lambda>a. [''root'' \<mapsto> addAppender a (new_Logger now ''root'')]) (new_StdoutLogAppender cout)"

definition getLogger :: "u64 \<Rightarrow> string \<Rightarrow> LoggerManager \<Rightarrow> Logger \<times> LoggerManager" where
  "getLogger now name m =
     (case m name of
        Some l \<Rightarrow> (l, m)
      | None \<Rightarrow> let l = new_Logger now name in (l, m(name \<mapsto> l)))"

section \<open>Configuration\<close>

record LogAppenderDefine =
  lad_type :: int
  lad_pattern :: string
  lad_file :: string

record LogDefine =
  ld_name :: string
  ld_level :: Level
  ld_appenders :: "LogAppenderDefine list"

text \<open>\<open>operator==\<close> compares \<open>appenders\<close> with itself.\<close>

definition LogDefine_eq :: "LogDefine \<Rightarrow> LogDefine \<Rightarrow> bool" where
  "LogDefine_eq d oth \<longleftrightarrow> ld_name d = ld_name oth \<and> ld_level d = ld_level oth \<and> ld_appenders d = ld_appenders d"

definition LogDefine_isValid :: "LogDefine \<Rightarrow> bool" where
  "LogDefine_isValid d \<longleftrightarrow> ld_name d \<noteq> []"

text \<open>\<open>std::set<LogDefine>::find\<close>: the order is that of the names.\<close>

definition define_find :: "LogDefine \<Rightarrow> LogDefine list \<Rightarrow> LogDefine option" where
  "define_find d ds = find (\<lambda>x. ld_name x = ld_name d) ds"

text \<open>The environment of the listener: whether the option \<open>d\<close> is set, and the files and the terminal.\<close>

record log_env =
  env_daemon :: bool
  env_opens :: "string \<Rightarrow> bool list"
  env_writes :: "string \<Rightarrow> bool list"
  env_cout :: ofstream

text \<open>One appender of a definition: nothing, one appender, or undefined behaviour (an unknown type).\<close>

definition define_appender :: "log_env \<Rightarrow> LogAppenderDefine \<Rightarrow> LogAppender list option" where
  "define_appender env d =
     (let finish = (\<lambda>ap. case new_LogFormatter (if lad_pattern d \<noteq> [] then lad_pattern d else default_pattern) of
            None \<Rightarrow> None | Some f \<Rightarrow> Some [setFormatter (Some f) ap])
      in if lad_type d = 1 then
           Option.bind (new_FileLogAppender (env_opens env (lad_file d)) (env_writes env (lad_file d)) (lad_file d)) finish
         else if lad_type d = 2 then
           if \<not> env_daemon env then Option.bind (new_StdoutLogAppender (env_cout env)) finish else Some []
         else None)"

fun define_appenders :: "log_env \<Rightarrow> LogAppenderDefine list \<Rightarrow> Logger \<Rightarrow> Logger option" where
  "define_appenders env [] l = Some l"
| "define_appenders env (d # ds) l =
     (case define_appender env d of
        None \<Rightarrow> None
      | Some aps \<Rightarrow> define_appenders env ds (foldl (\<lambda>l a. addAppender a l) l aps))"

text \<open>The first loop of the listener. For a changed logger the pointer is compared instead of assigned, stays
  null and is then used.\<close>

fun apply_defines :: "log_env \<Rightarrow> u64 \<Rightarrow> LogDefine list \<Rightarrow> LogDefine list \<Rightarrow> LoggerManager \<Rightarrow> LoggerManager option" where
  "apply_defines env now old [] m = Some m"
| "apply_defines env now old (d # ds) m =
     (case define_find d old of
        None \<Rightarrow>
          (case getLogger now (ld_name d) m of
             (l, m) \<Rightarrow>
               case define_appenders env (ld_appenders d) (clearAppenders (setLevel (ld_level d) l)) of
                 None \<Rightarrow> None
               | Some l \<Rightarrow> apply_defines env now old ds (m(ld_name d \<mapsto> l)))
      | Some it \<Rightarrow> if \<not> LogDefine_eq d it then None else apply_defines env now old ds m)"

definition remove_defines :: "u64 \<Rightarrow> LogDefine list \<Rightarrow> LogDefine list \<Rightarrow> LoggerManager \<Rightarrow> LoggerManager" where
  "remove_defines now old new m =
     foldl (\<lambda>m d. if define_find d new = None
       then case getLogger now (ld_name d) m of (l, m) \<Rightarrow> m(ld_name d \<mapsto> clearAppenders (setLevel NOTSET l))
       else m) m old"

definition on_log_config_changed ::
  "log_env \<Rightarrow> u64 \<Rightarrow> LogDefine list \<Rightarrow> LogDefine list \<Rightarrow> LoggerManager \<Rightarrow> LoggerManager option" where
  "on_log_config_changed env now old new m =
     map_option (remove_defines now old new) (apply_defines env now old new m)"

section \<open>The pattern language\<close>

text \<open>
  What a pattern is made of: text, a directive, a date with a format in braces, and a date without.
\<close>

datatype piece = Lit string | Directive char | Date string | Plain_Date

fun piece_text :: "piece \<Rightarrow> string" where
  "piece_text (Lit x) = x"
| "piece_text (Directive c) = [CHR ''%'', c]"
| "piece_text (Date f) = ''%d{'' @ f @ ''}''"
| "piece_text Plain_Date = ''%d''"

abbreviation pieces_text :: "piece list \<Rightarrow> string" where
  "pieces_text ps \<equiv> concat (map piece_text ps)"

definition known :: "char \<Rightarrow> bool" where
  "known c \<longleftrightarrow> map_of s_format_items [c] \<noteq> None"

text \<open>A pattern followed by \<open>post\<close>: a date without braces needs a character after it that is no brace.\<close>

fun wf_pieces :: "piece list \<Rightarrow> string \<Rightarrow> bool" where
  "wf_pieces [] post = True"
| "wf_pieces (Lit x # ps) post = (CHR ''%'' \<notin> set x \<and> wf_pieces ps post)"
| "wf_pieces (Directive c # ps) post = (c \<noteq> CHR ''d'' \<and> wf_pieces ps post)"
| "wf_pieces (Date f # ps) post = (CHR ''}'' \<notin> set f \<and> wf_pieces ps post)"
| "wf_pieces (Plain_Date # ps) post =
     (pieces_text ps @ post \<noteq> [] \<and> hd (pieces_text ps @ post) \<noteq> CHR ''{'' \<and> wf_pieces ps post)"

definition pieces_format :: "piece list \<Rightarrow> string" where
  "pieces_format ps = concat (map (\<lambda>p. case p of Date f \<Rightarrow> f | _ \<Rightarrow> []) ps)"

definition piece_item :: "string \<Rightarrow> piece \<Rightarrow> FormatItem" where
  "piece_item df p =
     (case p of
        Lit x \<Rightarrow> StringFormatItem x
      | Directive c \<Rightarrow> the (map_of s_format_items [c])
      | Date f \<Rightarrow> new_DateTimeFormatItem df
      | Plain_Date \<Rightarrow> new_DateTimeFormatItem df)"

text \<open>The effect of a piece on the variables of \<open>init\<close>.\<close>

definition flushed :: "init_state \<Rightarrow> (nat \<times> string) list" where
  "flushed s = patterns s @ (if tmp s \<noteq> [] then [(0, tmp s)] else [])"

fun run_piece :: "init_state \<Rightarrow> piece \<Rightarrow> init_state" where
  "run_piece s (Lit x) = s\<lparr>tmp := tmp s @ x\<rparr>"
| "run_piece s (Directive c) = s\<lparr>patterns := flushed s @ [(1, [c])], tmp := []\<rparr>"
| "run_piece s (Date f) = s\<lparr>patterns := flushed s @ [(1, ''d'')], tmp := [], dateformat := dateformat s @ f\<rparr>"
| "run_piece s Plain_Date = s\<lparr>patterns := flushed s @ [(1, ''d'')], tmp := []\<rparr>"

lemma run_piece_parsing [simp]: "parsing_string (run_piece s p) = parsing_string s"
  by (cases p) simp_all

lemma init_loop_percent:
  assumes "parsing_string s"
  shows "init_loop (pre @ CHR ''%'' # post) (length pre) s =
    init_loop (pre @ CHR ''%'' # post) (length pre + 1) (s\<lparr>patterns := flushed s, tmp := [], parsing_string := False\<rparr>)"
  using assms by (subst init_loop.simps) (simp add: flushed_def)

lemma init_loop_text:
  assumes "parsing_string s" and "CHR ''%'' \<notin> set x"
  shows "init_loop (pre @ x @ post) (length pre) s = init_loop (pre @ x @ post) (length (pre @ x)) (s\<lparr>tmp := tmp s @ x\<rparr>)"
  using assms
proof (induction x arbitrary: pre s)
  case (Cons c x)
  have "init_loop (pre @ (c # x) @ post) (length pre) s = init_loop (pre @ (c # x) @ post) (length pre + 1) (s\<lparr>tmp := tmp s @ [c]\<rparr>)"
    using Cons.prems by (subst init_loop.simps) auto
  with Cons.IH [of "s\<lparr>tmp := tmp s @ [c]\<rparr>" "pre @ [c]"] Cons.prems show ?case
    by simp
qed simp

lemma parsing_again:
  "parsing_string s \<Longrightarrow> s\<lparr>tmp := t, patterns := ps, parsing_string := True\<rparr> = s\<lparr>patterns := ps, tmp := t\<rparr>"
  by (cases s) simp

lemma init_loop_directive:
  assumes "parsing_string s" and "c \<noteq> CHR ''d''"
  shows "init_loop (pre @ CHR ''%'' # c # post) (length pre) s = init_loop (pre @ CHR ''%'' # c # post) (length pre + 2) (run_piece s (Directive c))"
proof -
  let ?s = "s\<lparr>patterns := flushed s, tmp := [], parsing_string := False\<rparr>"
  have nth: "(pre @ CHR ''%'' # c # post) ! Suc (length pre) = c"
    by (simp add: nth_append)
  have "init_loop (pre @ CHR ''%'' # c # post) (length pre + 1) ?s =
      init_loop (pre @ CHR ''%'' # c # post) (length pre + 2) (run_piece s (Directive c))"
    using assms nth by (subst init_loop.simps) (cases "c = CHR ''%''"; simp add: Let_def parsing_again)
  with init_loop_percent [OF assms(1)] show ?thesis
    by simp
qed

lemma date_loop_text:
  "CHR ''}'' \<notin> set f \<Longrightarrow> date_loop (pre @ f @ CHR ''}'' # post) (length pre) df = (length (pre @ f), df @ f)"
proof (induction f arbitrary: pre df)
  case Nil
  then show ?case
    by (subst date_loop.simps) simp
next
  case (Cons c f)
  have "date_loop (pre @ (c # f) @ CHR ''}'' # post) (length pre) df = date_loop (pre @ (c # f) @ CHR ''}'' # post) (length pre + 1) (df @ [c])"
    using Cons.prems by (subst date_loop.simps) auto
  with Cons.IH [of "pre @ [c]" "df @ [c]"] Cons.prems show ?case
    by simp
qed

lemma date_step:
  assumes "parsing_string s" and "pattern = pre @ CHR ''%'' # CHR ''d'' # post"
  shows "init_loop pattern (length pre) s =
    (if post \<noteq> [] \<and> hd post \<noteq> CHR ''{'' then init_loop pattern (length pre + 2) (run_piece s Plain_Date)
     else let (j, df) = date_loop pattern (length pre + 3) (dateformat s);
              s' = (run_piece s Plain_Date)\<lparr>dateformat := df\<rparr>
          in if j > length pattern then None
             else if cstr_at pattern j \<noteq> CHR ''}'' then Some (True, s')
             else init_loop pattern (j + 1) s')"
proof -
  let ?s = "s\<lparr>patterns := flushed s, tmp := [], parsing_string := False\<rparr>"
  have nth: "pattern ! Suc (length pre) = CHR ''d''" "post \<noteq> [] \<Longrightarrow> pattern ! Suc (Suc (length pre)) = hd post"
    by (simp_all add: assms(2) nth_append hd_conv_nth)
  have "init_loop pattern (length pre) s = init_loop pattern (Suc (length pre)) ?s"
    using init_loop_percent [OF assms(1), of pre "CHR ''d'' # post"] assms(2) by simp
  also have "\<dots> = (if post \<noteq> [] \<and> hd post \<noteq> CHR ''{'' then init_loop pattern (length pre + 2) (run_piece s Plain_Date)
     else let (j, df) = date_loop pattern (length pre + 3) (dateformat s);
              s' = (run_piece s Plain_Date)\<lparr>dateformat := df\<rparr>
          in if j > length pattern then None
             else if cstr_at pattern j \<noteq> CHR ''}'' then Some (True, s')
             else init_loop pattern (j + 1) s')"
    using nth assms(1)
    by (subst init_loop.simps) (cases post; simp add: Let_def split_def assms(2) parsing_again numeral_3_eq_3 numeral_2_eq_2)
  finally show ?thesis .
qed

lemma init_loop_date:
  assumes "parsing_string s" and "CHR ''}'' \<notin> set f"
  shows "init_loop (pre @ ''%d{'' @ f @ ''}'' @ post) (length pre) s =
    init_loop (pre @ ''%d{'' @ f @ ''}'' @ post) (length pre + length f + 4) (run_piece s (Date f))"
proof -
  let ?p = "pre @ ''%d{'' @ f @ ''}'' @ post"
  have "date_loop ?p (length pre + 3) (dateformat s) = (length pre + 3 + length f, dateformat s @ f)"
    using date_loop_text [OF assms(2), of "pre @ ''%d{''" post "dateformat s"] by (simp add: numeral_3_eq_3)
  moreover have "cstr_at ?p (length pre + 3 + length f) = CHR ''}''"
    by (simp add: cstr_at_def nth_append numeral_3_eq_3)
  ultimately show ?thesis
    using assms(1) by (subst date_step [of _ _ pre "CHR ''{'' # f @ ''}'' @ post"]) (simp_all add: numeral_eq_Suc)
qed

lemma init_loop_pieces:
  assumes "wf_pieces ps post" and "parsing_string s"
  shows "init_loop (pre @ pieces_text ps @ post) (length pre) s =
    init_loop (pre @ pieces_text ps @ post) (length (pre @ pieces_text ps)) (foldl run_piece s ps)"
  using assms
proof (induction ps arbitrary: pre s)
  case (Cons p ps)
  let ?q = "pieces_text ps @ post"
  have "init_loop (pre @ piece_text p @ ?q) (length pre) s = init_loop (pre @ piece_text p @ ?q) (length (pre @ piece_text p)) (run_piece s p)"
  proof (cases p)
    case (Lit x)
    then show ?thesis
      using init_loop_text [of s x pre ?q] Cons.prems by simp
  next
    case (Directive c)
    then show ?thesis
      using init_loop_directive [of s c pre ?q] Cons.prems by (simp add: numeral_2_eq_2)
  next
    case (Date f)
    then show ?thesis
      using init_loop_date [of s f pre ?q] Cons.prems by (simp add: numeral_eq_Suc)
  next
    case Plain_Date
    then show ?thesis
      using date_step [of s _ pre ?q] Cons.prems by (simp add: numeral_2_eq_2)
  qed
  with Cons.IH [of "run_piece s p" "pre @ piece_text p"] Cons.prems show ?case
    by (cases p) auto
qed simp

definition piece_known :: "piece \<Rightarrow> bool" where
  "piece_known p = (case p of Directive c \<Rightarrow> known c | _ \<Rightarrow> True)"

lemma make_items_ok:
  "\<forall>v\<in>set vs. make_item df v \<noteq> None \<Longrightarrow> make_items df vs = (False, map (\<lambda>v. the (make_item df v)) vs)"
  by (induction vs) auto

lemma run_pieces_dateformat: "dateformat (foldl run_piece s ps) = dateformat s @ pieces_format ps"
proof (induction ps arbitrary: s)
  case (Cons p ps)
  then show ?case
    by (cases p) (simp_all add: pieces_format_def)
qed (simp add: pieces_format_def)

lemma run_pieces_items:
  assumes "\<forall>p\<in>set ps. piece_known p" and "wf_pieces ps post" and "\<forall>v\<in>set (flushed s). make_item df v \<noteq> None"
  shows "(\<forall>v\<in>set (flushed (foldl run_piece s ps)). make_item df v \<noteq> None) \<and>
    concat (map (\<lambda>v. item_format date ev (the (make_item df v))) (flushed (foldl run_piece s ps))) =
    concat (map (\<lambda>v. item_format date ev (the (make_item df v))) (flushed s)) @ concat (map (item_format date ev \<circ> piece_item df) ps)"
  using assms
proof (induction ps arbitrary: s)
  case (Cons p ps)
  have "(\<forall>v\<in>set (flushed (run_piece s p)). make_item df v \<noteq> None) \<and>
    concat (map (\<lambda>v. item_format date ev (the (make_item df v))) (flushed (run_piece s p))) =
    concat (map (\<lambda>v. item_format date ev (the (make_item df v))) (flushed s)) @ item_format date ev (piece_item df p)"
    using Cons.prems by (cases p) (auto simp: flushed_def make_item_def piece_item_def piece_known_def known_def)
  moreover have "wf_pieces ps post"
    using Cons.prems(2) by (cases p) simp_all
  ultimately show ?case
    using Cons.IH [of "run_piece s p"] Cons.prems(1) by simp
qed simp

section \<open>Properties\<close>



text \<open>
  A pattern that ends in \<open>%d\<close> is not handled: \<open>init\<close> steps over a brace that is not there and reads
  beyond the terminator of the pattern.
\<close>

theorem formatter_trailing_date:
  assumes "wf_pieces ps ''%d''"
  shows "new_LogFormatter (pieces_text ps @ ''%d'') = None"
proof -
  let ?s = "\<lparr>patterns = [], tmp = [], dateformat = [], parsing_string = True\<rparr>"
  let ?t = "foldl run_piece ?s ps" and ?p = "pieces_text ps @ ''%d''"
  have "parsing_string ?t"
    by (induction ps rule: rev_induct) simp_all
  moreover have "date_loop ?p (length (pieces_text ps) + 3) df = (length (pieces_text ps) + 3, df)" for df
    by (subst date_loop.simps) simp
  ultimately have "init_loop ?p (length (pieces_text ps)) ?t = None"
    by (subst date_step [of _ _ "pieces_text ps" "[]"]) simp_all
  then have "init_loop ?p 0 ?s = None"
    using init_loop_pieces [OF assms, of ?s "[]"] by simp
  then show ?thesis
    by (simp add: new_LogFormatter_def)
qed

theorem formatter_trailing_date_witness: "new_LogFormatter ''[%p] %d'' = None"
  using formatter_trailing_date [of "[Lit ''['', Directive (CHR ''p''), Lit ''] '']"] by simp

text \<open>A file that is open and works, and the system lets \<open>n\<close> more opens and writes succeed.\<close>

definition file_fine :: "nat \<Rightarrow> LogAppender \<Rightarrow> bool" where
  "file_fine n a \<longleftrightarrow> fs_open (m_filestream a) \<and> \<not> fs_fail (m_filestream a) \<and> \<not> m_reopenError a \<and>
     n \<le> length (fs_opens (m_filestream a)) \<and> set (fs_opens (m_filestream a)) \<subseteq> {True} \<and>
     n \<le> length (fs_writes (m_filestream a)) \<and> set (fs_writes (m_filestream a)) \<subseteq> {True}"

abbreviation log_all :: "(string \<Rightarrow> u64 \<Rightarrow> string) \<Rightarrow> LogEvent list \<Rightarrow> LogAppender \<Rightarrow> LogAppender" where
  "log_all date events a \<equiv> foldl (\<lambda>a e. FileLogAppender_log date e a) a events"

lemma getFormatter_update [simp]:
  "getFormatter (a\<lparr>m_lastTime := t\<rparr>) = getFormatter a" "getFormatter (a\<lparr>m_filestream := f\<rparr>) = getFormatter a"
  by (simp_all add: getFormatter_def split: option.split)

lemma reopen_fine:
  "file_fine (Suc n) a \<Longrightarrow> file_fine n (snd (reopen a)) \<and> fs_written (m_filestream (snd (reopen a))) = fs_written (m_filestream a) \<and>
    fs_writes (m_filestream (snd (reopen a))) = fs_writes (m_filestream a) \<and> getFormatter (snd (reopen a)) = getFormatter a"
  by (cases "fs_opens (m_filestream a)")
    (auto simp: file_fine_def reopen_def stream_close_def stream_open_def getFormatter_def Let_def split: option.split)

lemma write_fine:
  assumes "file_fine n (a\<lparr>m_lastTime := t\<rparr>)" and "Suc n \<le> length (fs_writes (m_filestream a))"
  shows "file_fine n (a\<lparr>m_lastTime := t, m_filestream := stream_write str (m_filestream a)\<rparr>)"
    and "fs_written (stream_write str (m_filestream a)) = fs_written (m_filestream a) @ str"
  using assms by (cases "fs_writes (m_filestream a)"; auto simp: file_fine_def stream_write_def)+

lemma file_log_fine:
  assumes "file_fine (Suc n) a"
  shows "file_fine n (FileLogAppender_log date e a) \<and> getFormatter (FileLogAppender_log date e a) = getFormatter a \<and>
    fs_written (m_filestream (FileLogAppender_log date e a)) =
      fs_written (m_filestream a) @ LogFormatter_format date (getFormatter a) e"
proof -
  have a: "file_fine n a" "Suc n \<le> length (fs_writes (m_filestream a))" "\<not> m_reopenError a"
    using assms by (auto simp: file_fine_def)
  note r = reopen_fine [OF assms]
  have "\<not> m_reopenError (snd (reopen a))" "file_fine n ((snd (reopen a))\<lparr>m_lastTime := m_time e\<rparr>)"
    "file_fine n (a\<lparr>m_lastTime := m_lastTime a\<rparr>)"
    using r a by (auto simp: file_fine_def)
  with a r show ?thesis
    using write_fine [of n "m_lastTime a" a "LogFormatter_format date (getFormatter a) e"]
      write_fine [of n "m_time e" "snd (reopen a)" "LogFormatter_format date (getFormatter a) e"]
    by (simp add: FileLogAppender_log_def Let_def)
qed

lemma log_all_fine:
  "file_fine (length events) a \<Longrightarrow>
    fs_written (m_filestream (log_all date events a)) =
      fs_written (m_filestream a) @ concat (map (LogFormatter_format date (getFormatter a)) events)"
proof (induction events arbitrary: a)
  case (Cons e events)
  then show ?case
    using file_log_fine [of "length events" a date e] by simp
qed simp

text \<open>A stream that failed with its file open stays that way: \<open>reopen\<close> does not close a failed stream.\<close>

lemma file_log_stuck:
  assumes "fs_open (m_filestream a)" and "fs_fail (m_filestream a)"
  shows "fs_open (m_filestream (FileLogAppender_log date e a)) \<and> fs_fail (m_filestream (FileLogAppender_log date e a)) \<and>
    fs_written (m_filestream (FileLogAppender_log date e a)) = fs_written (m_filestream a)"
  using assms by (simp add: FileLogAppender_log_def reopen_def stream_open_def stream_write_def Let_def)

lemma log_all_stuck:
  "fs_open (m_filestream a) \<Longrightarrow> fs_fail (m_filestream a) \<Longrightarrow>
    fs_written (m_filestream (log_all date events a)) = fs_written (m_filestream a)"
proof (induction events arbitrary: a)
  case (Cons e events)
  then show ?case
    using file_log_stuck [of a date e] by simp
qed simp

text \<open>
  As long as the system lets it, a file appender writes every event, formatted, in order. After
  one failed write it never writes again, whatever the system does: \<open>reopen\<close> closes the file only if the
  stream has not failed, and a stream whose file is open cannot be opened.
\<close>

theorem file_appender_log:
  assumes "file_fine (length events) a"
  shows "fs_written (m_filestream (log_all date events a)) =
      fs_written (m_filestream a) @ concat (map (LogFormatter_format date (getFormatter a)) events) \<and>
    (\<forall>later writes. fs_written (m_filestream (log_all date later
        (a\<lparr>m_filestream := stream_write str ((m_filestream a)\<lparr>fs_writes := False # writes\<rparr>)\<rparr>))) =
      fs_written (m_filestream a))"
proof (intro conjI allI)
  show "fs_written (m_filestream (log_all date events a)) =
      fs_written (m_filestream a) @ concat (map (LogFormatter_format date (getFormatter a)) events)"
    by (rule log_all_fine [OF assms])
  fix later writes
  let ?a = "a\<lparr>m_filestream := stream_write str ((m_filestream a)\<lparr>fs_writes := False # writes\<rparr>)\<rparr>"
  have "fs_open (m_filestream ?a)" "fs_fail (m_filestream ?a)" "fs_written (m_filestream ?a) = fs_written (m_filestream a)"
    using assms by (simp_all add: file_fine_def stream_write_def)
  then show "fs_written (m_filestream (log_all date later ?a)) = fs_written (m_filestream a)"
    using log_all_stuck [of ?a] by simp
qed

section \<open>Configuration changes\<close>

text \<open>What the first loop does to the logger of a definition that is new.\<close>

definition defined_logger :: "log_env \<Rightarrow> u64 \<Rightarrow> LogDefine \<Rightarrow> LoggerManager \<Rightarrow> Logger option" where
  "defined_logger env now d m =
     define_appenders env (ld_appenders d) (clearAppenders (setLevel (ld_level d) (fst (getLogger now (ld_name d) m))))"

lemma getLogger_other: "n \<noteq> name \<Longrightarrow> snd (getLogger now name m) n = m n"
  by (auto simp: getLogger_def Let_def split: option.split)

lemma define_find_name: "define_find d old = Some it \<Longrightarrow> ld_name it = ld_name d \<and> it \<in> set old"
  by (auto simp: define_find_def find_Some_iff)

lemma define_find_None: "define_find d old = None \<longleftrightarrow> ld_name d \<notin> ld_name ` set old"
  unfolding define_find_def find_None_iff by (metis (mono_tags, lifting) imageE imageI)

lemma defined_logger_cong: "m (ld_name d) = m' (ld_name d) \<Longrightarrow> defined_logger env now d m = defined_logger env now d m'"
  by (simp add: defined_logger_def getLogger_def Let_def split: option.split)

lemma apply_defines_new:
  assumes "apply_defines env now old ds m = Some m'" and "distinct (map ld_name ds)"
  shows "(\<forall>n. n \<notin> ld_name ` {d \<in> set ds. define_find d old = None} \<longrightarrow> m' n = m n) \<and>
    (\<forall>d\<in>set ds. define_find d old = None \<longrightarrow> (\<exists>l. defined_logger env now d m = Some l \<and> m' (ld_name d) = Some l))"
  using assms
proof (induction ds arbitrary: m)
  case (Cons d ds)
  have ne: "ld_name d' \<noteq> ld_name d" if "d' \<in> set ds" for d'
    using Cons.prems(2) that by (metis distinct.simps(2) image_eqI list.simps(9) list.set_map)
  show ?case
  proof (cases "define_find d old")
    case None
    obtain l M where l: "defined_logger env now d m = Some l" "apply_defines env now old ds M = Some m'"
      and M: "M = (snd (getLogger now (ld_name d) m))(ld_name d \<mapsto> l)"
      using Cons.prems None by (auto simp: defined_logger_def split: prod.splits option.splits)
    have other: "M n = m n" if "n \<noteq> ld_name d" for n
      using that by (simp add: M getLogger_other)
    have "M (ld_name d) = Some l"
      by (simp add: M)
    moreover have "defined_logger env now d' M = defined_logger env now d' m" if "d' \<in> set ds" for d'
      using ne [OF that] by (intro defined_logger_cong other)
    moreover have "ld_name d \<notin> ld_name ` {d \<in> set ds. define_find d old = None}"
      using ne by fastforce
    moreover have "ld_name ` {e \<in> set (d # ds). define_find e old = None} =
        insert (ld_name d) (ld_name ` {e \<in> set ds. define_find e old = None})"
      using None by auto
    ultimately show ?thesis
      using Cons.IH [OF l(2)] Cons.prems(2) l(1) other by simp
  next
    case (Some it)
    then have "{e \<in> set (d # ds). define_find e old = None} = {e \<in> set ds. define_find e old = None}"
      by auto
    with Some show ?thesis
      using Cons by (simp split: if_splits)
  qed
qed simp

lemma apply_defines_changed:
  assumes "d \<in> set ds" and "define_find d old = Some it" and "ld_level it \<noteq> ld_level d"
  shows "apply_defines env now old ds m = None"
  using assms(1)
proof (induction ds arbitrary: m)
  case (Cons e ds)
  show ?case
  proof (cases "e = d")
    case True
    then show ?thesis
      using assms(2,3) by (auto simp: LogDefine_eq_def)
  next
    case False
    then show ?thesis
      using Cons by (auto split: option.splits prod.splits)
  qed
qed simp

lemma remove_defines_eq:
  assumes "distinct (map ld_name old)"
  shows "remove_defines now old new m n =
    (if n \<in> ld_name ` {d \<in> set old. define_find d new = None}
     then Some (clearAppenders (setLevel NOTSET (fst (getLogger now n m)))) else m n)"
  using assms
proof (induction old rule: rev_induct)
  case (snoc d old)
  let ?m = "remove_defines now old new m"
  have IH: "remove_defines now old new m n =
      (if n \<in> ld_name ` {d \<in> set old. define_find d new = None}
       then Some (clearAppenders (setLevel NOTSET (fst (getLogger now n m)))) else m n)"
    using snoc by simp
  have "remove_defines now (old @ [d]) new m =
      (if define_find d new = None
       then (snd (getLogger now (ld_name d) ?m))(ld_name d \<mapsto> clearAppenders (setLevel NOTSET (fst (getLogger now (ld_name d) ?m))))
       else ?m)"
    by (simp add: remove_defines_def split_def)
  moreover have "ld_name d \<notin> ld_name ` set old"
    using snoc.prems by simp
  ultimately show ?case
    using IH by (auto simp: getLogger_other) (auto simp: getLogger_def Let_def split: option.splits)
qed (simp add: remove_defines_def)

lemma apply_defines_returns:
  assumes "\<forall>d\<in>set ds. case define_find d old of
      None \<Rightarrow> \<forall>l. define_appenders env (ld_appenders d) l \<noteq> None | Some it \<Rightarrow> ld_level it = ld_level d"
  shows "apply_defines env now old ds m \<noteq> None"
  using assms
proof (induction ds arbitrary: m)
  case (Cons d ds)
  show ?case
  proof (cases "define_find d old")
    case None
    then obtain l where "defined_logger env now d m = Some l"
      using Cons.prems by (fastforce simp: defined_logger_def)
    then show ?thesis
      using Cons None by (simp add: defined_logger_def split_def)
  next
    case (Some it)
    then show ?thesis
      using Cons define_find_name [OF Some] by (simp add: LogDefine_eq_def)
  qed
qed simp

lemma define_find_in:
  "distinct (map ld_name ds) \<Longrightarrow> it \<in> set ds \<Longrightarrow> ld_name it = ld_name d \<Longrightarrow> define_find d ds = Some it"
  by (induction ds) (auto simp: define_find_def image_iff)

text \<open>
  When the configuration changes, the listener gives every logger that is new in it the level and
  the appenders it says, and takes them from every logger that is no longer in it. It leaves alone
  every logger that was there before, even if its appenders changed, and crashes if the level of one
  changed.
\<close>

theorem log_config_change:
  assumes "distinct (map ld_name old)" and "distinct (map ld_name new)"
  shows "((\<exists>d\<in>set new. \<exists>it\<in>set old. ld_name it = ld_name d \<and> ld_level it \<noteq> ld_level d) \<longrightarrow>
      on_log_config_changed env now old new m = None) \<and>
    ((\<forall>d\<in>set new. \<forall>it\<in>set old. ld_name it = ld_name d \<longrightarrow> ld_level it = ld_level d) \<longrightarrow>
     (\<forall>d\<in>set new. \<forall>l. define_appenders env (ld_appenders d) l \<noteq> None) \<longrightarrow>
      (\<exists>m'. on_log_config_changed env now old new m = Some m' \<and>
        (\<forall>d\<in>set new. ld_name d \<notin> ld_name ` set old \<longrightarrow> m' (ld_name d) = defined_logger env now d m) \<and>
        (\<forall>d\<in>set new. ld_name d \<in> ld_name ` set old \<longrightarrow> m' (ld_name d) = m (ld_name d)) \<and>
        (\<forall>d\<in>set old. ld_name d \<notin> ld_name ` set new \<longrightarrow>
          m' (ld_name d) = Some (clearAppenders (setLevel NOTSET (fst (getLogger now (ld_name d) m)))))))"
proof (intro conjI impI)
  assume "\<exists>d\<in>set new. \<exists>it\<in>set old. ld_name it = ld_name d \<and> ld_level it \<noteq> ld_level d"
  then show "on_log_config_changed env now old new m = None"
    using apply_defines_changed define_find_in [OF assms(1)] by (fastforce simp: on_log_config_changed_def)
next
  assume lev: "\<forall>d\<in>set new. \<forall>it\<in>set old. ld_name it = ld_name d \<longrightarrow> ld_level it = ld_level d"
    and aps: "\<forall>d\<in>set new. \<forall>l. define_appenders env (ld_appenders d) l \<noteq> None"
  have "apply_defines env now old new m \<noteq> None"
    using lev aps define_find_name by (intro apply_defines_returns) (fastforce split: option.split)
  then obtain m1 where m1: "apply_defines env now old new m = Some m1"
    by blast
  note r = apply_defines_new [OF m1 assms(2)]
  note rem = remove_defines_eq [OF assms(1), of now new m1]
  have notnew: "n \<notin> ld_name ` {d \<in> set old. define_find d new = None}" if "n \<in> ld_name ` set new" for n
    using that by (metis (mono_tags, lifting) define_find_None imageE mem_Collect_eq)
  have "m1 n = m n" if "n \<in> ld_name ` set old" for n
  proof -
    have "n \<notin> ld_name ` {d \<in> set new. define_find d old = None}"
      using that by (metis (mono_tags, lifting) define_find_None imageE mem_Collect_eq)
    with r show ?thesis
      by blast
  qed
  then have old: "m1 n = m n \<and> fst (getLogger now n m1) = fst (getLogger now n m)" if "n \<in> ld_name ` set old" for n
    using that by (simp add: getLogger_def Let_def split: option.split)
  have "remove_defines now old new m1 (ld_name d) = defined_logger env now d m"
    if "d \<in> set new" "ld_name d \<notin> ld_name ` set old" for d
    using r that notnew [of "ld_name d"] by (auto simp: rem define_find_None)
  moreover have "remove_defines now old new m1 (ld_name d) = m (ld_name d)"
    if "d \<in> set new" "ld_name d \<in> ld_name ` set old" for d
    using old [OF that(2)] notnew [of "ld_name d"] that(1) by (simp add: rem)
  moreover have "remove_defines now old new m1 (ld_name d) = Some (clearAppenders (setLevel NOTSET (fst (getLogger now (ld_name d) m))))"
    if "d \<in> set old" "ld_name d \<notin> ld_name ` set new" for d
  proof -
    have "ld_name d \<in> ld_name ` {d \<in> set old. define_find d new = None}"
      using that by (auto simp: define_find_None)
    with old [of "ld_name d"] that(1) show ?thesis
      by (simp add: rem)
  qed
  ultimately show "\<exists>m'. on_log_config_changed env now old new m = Some m' \<and>
        (\<forall>d\<in>set new. ld_name d \<notin> ld_name ` set old \<longrightarrow> m' (ld_name d) = defined_logger env now d m) \<and>
        (\<forall>d\<in>set new. ld_name d \<in> ld_name ` set old \<longrightarrow> m' (ld_name d) = m (ld_name d)) \<and>
        (\<forall>d\<in>set old. ld_name d \<notin> ld_name ` set new \<longrightarrow>
          m' (ld_name d) = Some (clearAppenders (setLevel NOTSET (fst (getLogger now (ld_name d) m)))))"
    using m1 by (simp add: on_log_config_changed_def)
qed

definition example_appender :: LogAppender where
  "example_appender = the (new_FileLogAppender (replicate 3 True) (replicate 2 True) ''a.log'')"

definition example_event :: LogEvent where
  "example_event = \<lparr>m_level = WARN, m_ss = ''x'', m_file = ''f'', m_line = 1, m_elapse = 2, m_threadId = 3, m_fiberId = 4,
     m_time = 1, m_threadName = ''t'', m_loggerName = ''n''\<rparr>"

lemma example_appender_fine: "file_fine 2 example_appender" "fs_written (m_filestream example_appender) = []"
  by (code_simp, code_simp)

theorem file_appender_log_witness:
  "fs_written (m_filestream (log_all (\<lambda>fmt t. []) [example_event, example_event] example_appender)) =
    concat (replicate 2 (LogFormatter_format (\<lambda>fmt t. []) (getFormatter example_appender) example_event))"
  using file_appender_log [of "[example_event, example_event]" example_appender "\<lambda>fmt t. []"] example_appender_fine
  by (simp add: numeral_2_eq_2)

definition example_define :: "Level \<Rightarrow> LogDefine" where
  "example_define l = \<lparr>ld_name = ''system'', ld_level = l, ld_appenders = []\<rparr>"

definition example_env :: log_env where
  "example_env = \<lparr>env_daemon = False, env_opens = (\<lambda>_. []), env_writes = (\<lambda>_. []), env_cout = new_ofstream [] []\<rparr>"

theorem log_config_change_witness:
  "on_log_config_changed example_env 0 [example_define INFO] [example_define WARN] Map.empty = None \<and>
    (\<exists>m'. on_log_config_changed example_env 0 [] [example_define WARN] Map.empty = Some m' \<and>
      m' ''system'' = defined_logger example_env 0 (example_define WARN) Map.empty)"
  using log_config_change [of "[example_define INFO]" "[example_define WARN]" example_env 0 Map.empty]
    log_config_change [of "[]" "[example_define WARN]" example_env 0 Map.empty]
  by (auto simp: example_define_def)

end
