(* ===== verification/Scheduling.thy ===== *)
theory Scheduling
  imports Prelude "HOL-Library.Multiset"
begin

text \<open>
  \<open>fiber.h\<close>, \<open>fiber.cc\<close>, \<open>scheduler.h\<close> and \<open>scheduler.cc\<close>: the state of a fiber, its switches, and the task
  queue of the scheduler with the loop \<open>run\<close> that several threads execute.

  A thread is its number (\<open>GetThreadId\<close>). A fiber is named by the thread whose scheduling fiber it is, or, for the
  fibers that \<open>new Fiber(cb)\<close> makes, by a number of its own. An assertion that fails is the result \<open>None\<close>. The
  parts of \<open>run\<close> that a lock, a context switch or an atomic counter separates are the steps of a transition
  system, so that a property of its reachable states holds for every interleaving of the threads.
\<close>

section \<open>Fibers\<close>

text \<open>The enumerators; \<open>FIBER_TERM\<close> is the state \<open>TERM\<close> of the source.\<close>

datatype State = READY | RUNNING | FIBER_TERM

datatype fid = Sched int | Task nat

record 'c Fiber =
  m_state :: State
  m_stack :: bool
  m_cb :: "'c option"
  m_runInScheduler :: bool

definition new_main_Fiber :: "'c Fiber" where
  "new_main_Fiber = \<lparr>m_state = RUNNING, m_stack = False, m_cb = None, m_runInScheduler = False\<rparr>"

definition new_Fiber :: "'c \<Rightarrow> bool \<Rightarrow> 'c Fiber" where
  "new_Fiber cb run_in_scheduler =
     \<lparr>m_state = READY, m_stack = True, m_cb = Some cb, m_runInScheduler = run_in_scheduler\<rparr>"

text \<open>The assertions of the destructor.\<close>

definition delete_Fiber :: "'c Fiber \<Rightarrow> unit option" where
  "delete_Fiber f =
     (if m_stack f then (if m_state f = FIBER_TERM then Some () else None)
      else if m_cb f = None \<and> m_state f = RUNNING then Some () else None)"

definition Fiber_reset :: "'c \<Rightarrow> 'c Fiber \<Rightarrow> 'c Fiber option" where
  "Fiber_reset cb f =
     (if m_stack f \<and> m_state f = FIBER_TERM then Some (f\<lparr>m_cb := Some cb, m_state := READY\<rparr>) else None)"

text \<open>
  The thread-local variables of a thread, and the fiber on whose stack its code executes. The saved contexts
  \<open>m_ctx\<close> of all fibers are one table: \<open>Some g\<close> is a context that continues the code on the stack of \<open>g\<close>, and
  \<open>None\<close> one that is not valid any more, because its code has been continued and not been saved since.
\<close>

record thread_locals =
  t_fiber :: fid
  t_thread_fiber :: fid
  t_scheduler_fiber :: fid
  executing :: fid

type_synonym contexts = "fid \<rightharpoonup> fid"

text \<open>\<open>swapcontext(&from, &to)\<close>: the executing code is saved in \<open>from\<close>, and the code saved in \<open>to\<close> goes on.\<close>

definition swapcontext :: "fid \<Rightarrow> fid \<Rightarrow> thread_locals \<Rightarrow> contexts \<Rightarrow> (thread_locals \<times> contexts) option" where
  "swapcontext from to t ctx =
     (case ctx to of
        None \<Rightarrow> None
      | Some code \<Rightarrow> Some (t\<lparr>executing := code\<rparr>, ctx(from \<mapsto> executing t, to := None)))"

definition switch_partner :: "'c Fiber \<Rightarrow> thread_locals \<Rightarrow> fid" where
  "switch_partner f t = (if m_runInScheduler f then t_scheduler_fiber t else t_thread_fiber t)"

text \<open>\<open>resume\<close> and \<open>yield\<close> up to the switch, and the switch.\<close>

definition resume_mark :: "fid \<Rightarrow> 'c Fiber \<Rightarrow> thread_locals \<Rightarrow> ('c Fiber \<times> thread_locals) option" where
  "resume_mark this f t =
     (if m_state f \<noteq> FIBER_TERM \<and> m_state f \<noteq> RUNNING then Some (f\<lparr>m_state := RUNNING\<rparr>, t\<lparr>t_fiber := this\<rparr>) else None)"

definition resume_switch :: "fid \<Rightarrow> 'c Fiber \<Rightarrow> thread_locals \<Rightarrow> contexts \<Rightarrow> (thread_locals \<times> contexts) option" where
  "resume_switch this f t ctx = swapcontext (switch_partner f t) this t ctx"

definition yield_mark :: "'c Fiber \<Rightarrow> thread_locals \<Rightarrow> ('c Fiber \<times> thread_locals) option" where
  "yield_mark f t =
     (if m_state f = RUNNING \<or> m_state f = FIBER_TERM
      then Some (if m_state f \<noteq> FIBER_TERM then f\<lparr>m_state := READY\<rparr> else f, t\<lparr>t_fiber := t_thread_fiber t\<rparr>)
      else None)"

definition yield_switch :: "fid \<Rightarrow> 'c Fiber \<Rightarrow> thread_locals \<Rightarrow> contexts \<Rightarrow> (thread_locals \<times> contexts) option" where
  "yield_switch this f t ctx = swapcontext this (switch_partner f t) t ctx"

text \<open>The end of \<open>MainFunc\<close>, after the callback has returned, up to the switch of its \<open>yield\<close>.\<close>

definition MainFunc_end :: "'c Fiber \<Rightarrow> thread_locals \<Rightarrow> ('c Fiber \<times> thread_locals) option" where
  "MainFunc_end f t = yield_mark (f\<lparr>m_cb := None, m_state := FIBER_TERM\<rparr>) t"

section \<open>The task queue\<close>

record 'c ScheduleTask =
  tk_fiber :: "nat option"
  tk_cb :: "'c option"
  tk_thread :: int

record 'c Scheduler =
  m_tasks :: "'c ScheduleTask list"
  m_activeThreadCount :: nat
  m_idleThreadCount :: nat
  m_stopping :: bool
  m_useCaller :: bool
  m_threadCount :: nat
  m_rootThread :: int
  tickled :: nat

definition new_Scheduler :: "nat \<Rightarrow> bool \<Rightarrow> int \<Rightarrow> 'c Scheduler option" where
  "new_Scheduler threads use_caller tid =
     (if threads > 0 then
        Some \<lparr>m_tasks = [], m_activeThreadCount = 0, m_idleThreadCount = 0, m_stopping = False, m_useCaller = use_caller,
          m_threadCount = (if use_caller then threads - 1 else threads), m_rootThread = (if use_caller then tid else - 1),
          tickled = 0\<rparr>
      else None)"

text \<open>The base class only logs; \<open>tickled\<close> counts the calls of this virtual function.\<close>

definition tickle :: "'c Scheduler \<Rightarrow> 'c Scheduler" where
  "tickle s = s\<lparr>tickled := tickled s + 1\<rparr>"

definition scheduleNoLock :: "'c ScheduleTask \<Rightarrow> 'c Scheduler \<Rightarrow> bool \<times> 'c Scheduler" where
  "scheduleNoLock task s =
     (m_tasks s = [],
      if tk_fiber task \<noteq> None \<or> tk_cb task \<noteq> None then s\<lparr>m_tasks := m_tasks s @ [task]\<rparr> else s)"

definition schedule :: "'c ScheduleTask \<Rightarrow> 'c Scheduler \<Rightarrow> 'c Scheduler" where
  "schedule task s = (case scheduleNoLock task s of (need_tickle, s) \<Rightarrow> if need_tickle then tickle s else s)"

definition Scheduler_stopping :: "'c Scheduler \<Rightarrow> bool" where
  "Scheduler_stopping s \<longleftrightarrow> m_stopping s \<and> m_tasks s = [] \<and> m_activeThreadCount s = 0"

text \<open>
  The part of \<open>stop\<close> before it runs the root fiber and waits for the threads; \<open>here\<close> is \<open>GetThis() == this\<close>. The
  root fiber exists just when the caller is used.
\<close>

definition Scheduler_stop :: "bool \<Rightarrow> 'c Scheduler \<Rightarrow> 'c Scheduler option" where
  "Scheduler_stop here s =
     (if Scheduler_stopping s then Some s
      else if m_useCaller s \<noteq> here then None
      else let s = s\<lparr>m_stopping := True\<rparr>
           in Some ((tickle ^^ (m_threadCount s + (if m_useCaller s then 1 else 0))) s))"

text \<open>
  The search of \<open>run\<close> through the queue on thread \<open>tid\<close>, from an iterator on: the task it takes, what is left of the
  queue, and \<open>tickle_me\<close>. \<open>None\<close> is the assertion that a task has a fiber or a callback.
\<close>

fun take_task ::
  "int \<Rightarrow> (nat \<Rightarrow> bool) \<Rightarrow> 'c ScheduleTask list \<Rightarrow> ('c ScheduleTask option \<times> 'c ScheduleTask list \<times> bool) option" where
  "take_task tid running [] = Some (None, [], False)"
| "take_task tid running (it # its) =
     (if tk_thread it \<noteq> - 1 \<and> tk_thread it \<noteq> tid then
        (case take_task tid running its of
           None \<Rightarrow> None | Some (r, left, tickle_me) \<Rightarrow> Some (r, it # left, True))
      else if tk_fiber it = None \<and> tk_cb it = None then None
      else if (case tk_fiber it of None \<Rightarrow> False | Some f \<Rightarrow> running f) then
        (case take_task tid running its of
           None \<Rightarrow> None | Some (r, left, tickle_me) \<Rightarrow> Some (r, it # left, tickle_me))
      else Some (Some it, its, its \<noteq> []))"

text \<open>The locked part of one round of the loop, and the \<open>tickle\<close> after it.\<close>

definition run_take :: "int \<Rightarrow> (nat \<Rightarrow> bool) \<Rightarrow> 'c Scheduler \<Rightarrow> ('c ScheduleTask option \<times> 'c Scheduler) option" where
  "run_take tid running s =
     (case take_task tid running (m_tasks s) of
        None \<Rightarrow> None
      | Some (r, left, tickle_me) \<Rightarrow>
          let s = s\<lparr>m_tasks := left, m_activeThreadCount := m_activeThreadCount s + (if r \<noteq> None then 1 else 0)\<rparr>
          in Some (r, if tickle_me then tickle s else s))"

section \<open>The threads\<close>

text \<open>
  Where a thread is in \<open>run\<close>: at the start of a round; with a task it has taken; with the fiber of the task marked
  as running, before the switch to it; on the stack of that fiber; there, with the fiber marked as ready or ended,
  before the switch back; back from \<open>resume\<close>; in its idle fiber; out of the loop.
\<close>

datatype 'c phase =
    Round
  | Taken "'c ScheduleTask"
  | Switching "'c ScheduleTask" nat
  | Executing "'c ScheduleTask" nat
  | Leaving "'c ScheduleTask" nat
  | Returned "'c ScheduleTask"
  | Idle
  | Exited

text \<open>
  The program: the scheduler, the fibers made so far, their contexts, and for each thread its variables, its place
  in \<open>run\<close> and whether its idle fiber has ended. \<open>submitted\<close> and \<open>finished\<close> record the tasks that entered the queue
  and those whose round is over.
\<close>

record 'c world =
  sch :: "'c Scheduler"
  fib :: "nat \<rightharpoonup> 'c Fiber"
  ctx :: contexts
  thr :: "int \<Rightarrow> thread_locals"
  ph :: "int \<Rightarrow> 'c phase"
  idle_term :: "int \<Rightarrow> bool"
  submitted :: "'c ScheduleTask multiset"
  finished :: "'c ScheduleTask multiset"

definition is_running :: "'c world \<Rightarrow> nat \<Rightarrow> bool" where
  "is_running w f = (case fib w f of None \<Rightarrow> False | Some fb \<Rightarrow> m_state fb = RUNNING)"

text \<open>A fiber that is queued, or that a thread has taken and not resumed yet.\<close>

definition pending :: "int set \<Rightarrow> 'c world \<Rightarrow> nat \<Rightarrow> bool" where
  "pending W w f \<longleftrightarrow>
     (\<exists>task\<in>set (m_tasks (sch w)). tk_fiber task = Some f) \<or> (\<exists>tid\<in>W. \<exists>task. ph w tid = Taken task \<and> tk_fiber task = Some f)"

text \<open>
  What the callers of \<open>schedule\<close> keep to. A fiber is not scheduled while it is pending, nor after its end. If
  \<open>early\<close> holds it may be scheduled while it still runs, as the hooks do when they register an event before they
  yield; otherwise only while it is suspended with its context saved.
\<close>

definition may_schedule :: "bool \<Rightarrow> int set \<Rightarrow> 'c world \<Rightarrow> 'c ScheduleTask \<Rightarrow> bool" where
  "may_schedule early W w task \<longleftrightarrow>
     (case tk_fiber task of
        None \<Rightarrow> True
      | Some f \<Rightarrow> \<not> pending W w f \<and>
          (case fib w f of
             None \<Rightarrow> False
           | Some fb \<Rightarrow> if early then m_state fb \<noteq> FIBER_TERM else m_state fb = READY \<and> ctx w (Task f) = Some (Task f)))"

definition submit :: "'c ScheduleTask \<Rightarrow> 'c world \<Rightarrow> 'c world" where
  "submit task w =
     w\<lparr>sch := schedule task (sch w),
       submitted := submitted w + mset (drop (length (m_tasks (sch w))) (m_tasks (schedule task (sch w))))\<rparr>"

definition make_fiber :: "nat \<Rightarrow> 'c \<Rightarrow> 'c world \<Rightarrow> 'c world" where
  "make_fiber f cb w = w\<lparr>fib := (fib w)(f \<mapsto> new_Fiber cb True), ctx := (ctx w)(Task f \<mapsto> Task f)\<rparr>"

text \<open>One step of thread \<open>tid\<close> in \<open>run\<close>; \<open>new\<close> is the name of the fiber made for a callback.\<close>

definition step_round :: "int \<Rightarrow> 'c world \<Rightarrow> 'c world option" where
  "step_round tid w =
     (case run_take tid (is_running w) (sch w) of
        None \<Rightarrow> None
      | Some (Some task, s) \<Rightarrow> Some (w\<lparr>sch := s, ph := (ph w)(tid := Taken task)\<rparr>)
      | Some (None, s) \<Rightarrow>
          if idle_term w tid then Some (w\<lparr>sch := s, ph := (ph w)(tid := Exited)\<rparr>)
          else Some (w\<lparr>sch := s\<lparr>m_idleThreadCount := m_idleThreadCount s + 1\<rparr>, ph := (ph w)(tid := Idle)\<rparr>))"

definition start_fiber :: "int \<Rightarrow> 'c ScheduleTask \<Rightarrow> nat \<Rightarrow> 'c world \<Rightarrow> 'c world option" where
  "start_fiber tid task f w =
     (case fib w f of
        None \<Rightarrow> None
      | Some fb \<Rightarrow> (case resume_mark (Task f) fb (thr w tid) of
          None \<Rightarrow> None
        | Some (fb, t) \<Rightarrow>
            Some (w\<lparr>fib := (fib w)(f \<mapsto> fb), thr := (thr w)(tid := t), ph := (ph w)(tid := Switching task f)\<rparr>)))"

definition step_taken :: "int \<Rightarrow> nat \<Rightarrow> 'c ScheduleTask \<Rightarrow> 'c world \<Rightarrow> 'c world option" where
  "step_taken tid new task w =
     (case tk_fiber task of
        Some f \<Rightarrow> start_fiber tid task f w
      | None \<Rightarrow> (case tk_cb task of
          Some cb \<Rightarrow> start_fiber tid task new (make_fiber new cb w)
        | None \<Rightarrow> None))"

definition step_switching :: "int \<Rightarrow> 'c ScheduleTask \<Rightarrow> nat \<Rightarrow> 'c world \<Rightarrow> 'c world option" where
  "step_switching tid task f w =
     (case fib w f of
        None \<Rightarrow> None
      | Some fb \<Rightarrow> (case resume_switch (Task f) fb (thr w tid) (ctx w) of
          None \<Rightarrow> None
        | Some (t, c) \<Rightarrow> Some (w\<lparr>ctx := c, thr := (thr w)(tid := t), ph := (ph w)(tid := Executing task f)\<rparr>)))"

text \<open>The executing fiber yields, or its callback returns.\<close>

definition step_leave ::
  "('c Fiber \<Rightarrow> thread_locals \<Rightarrow> ('c Fiber \<times> thread_locals) option) \<Rightarrow> int \<Rightarrow> 'c ScheduleTask \<Rightarrow> nat \<Rightarrow> 'c world \<Rightarrow> 'c world option" where
  "step_leave leave tid task f w =
     (case fib w f of
        None \<Rightarrow> None
      | Some fb \<Rightarrow> (case leave fb (thr w tid) of
          None \<Rightarrow> None
        | Some (fb, t) \<Rightarrow>
            Some (w\<lparr>fib := (fib w)(f \<mapsto> fb), thr := (thr w)(tid := t), ph := (ph w)(tid := Leaving task f)\<rparr>)))"

definition step_leaving :: "int \<Rightarrow> 'c ScheduleTask \<Rightarrow> nat \<Rightarrow> 'c world \<Rightarrow> 'c world option" where
  "step_leaving tid task f w =
     (case fib w f of
        None \<Rightarrow> None
      | Some fb \<Rightarrow> (case yield_switch (Task f) fb (thr w tid) (ctx w) of
          None \<Rightarrow> None
        | Some (t, c) \<Rightarrow> Some (w\<lparr>ctx := c, thr := (thr w)(tid := t), ph := (ph w)(tid := Returned task)\<rparr>)))"

definition step_returned :: "int \<Rightarrow> 'c ScheduleTask \<Rightarrow> 'c world \<Rightarrow> 'c world" where
  "step_returned tid task w =
     w\<lparr>sch := (sch w)\<lparr>m_activeThreadCount := m_activeThreadCount (sch w) - 1\<rparr>, ph := (ph w)(tid := Round),
       finished := add_mset task (finished w)\<rparr>"

text \<open>The idle fiber tests \<open>stopping\<close> and yields or ends, and the thread starts its next round.\<close>

definition step_idle :: "int \<Rightarrow> 'c world \<Rightarrow> 'c world" where
  "step_idle tid w =
     w\<lparr>sch := (sch w)\<lparr>m_idleThreadCount := m_idleThreadCount (sch w) - 1\<rparr>, ph := (ph w)(tid := Round),
       idle_term := (idle_term w)(tid := Scheduler_stopping (sch w))\<rparr>"

text \<open>The steps of the program, of the threads \<open>W\<close> that execute \<open>run\<close> and of the callers of the scheduler.\<close>

inductive sched_step :: "bool \<Rightarrow> int set \<Rightarrow> 'c world \<Rightarrow> 'c world \<Rightarrow> bool" for early W where
  do_submit: "may_schedule early W w task \<Longrightarrow> sched_step early W w (submit task w)"
| do_make: "fib w f = None \<Longrightarrow> sched_step early W w (make_fiber f cb w)"
| do_stop: "Scheduler_stop here (sch w) = Some s \<Longrightarrow> sched_step early W w (w\<lparr>sch := s\<rparr>)"
| do_round: "tid \<in> W \<Longrightarrow> ph w tid = Round \<Longrightarrow> step_round tid w = Some w' \<Longrightarrow> sched_step early W w w'"
| do_resume: "tid \<in> W \<Longrightarrow> ph w tid = Taken task \<Longrightarrow> fib w new = None \<Longrightarrow> step_taken tid new task w = Some w' \<Longrightarrow>
    sched_step early W w w'"
| do_switch: "tid \<in> W \<Longrightarrow> ph w tid = Switching task f \<Longrightarrow> step_switching tid task f w = Some w' \<Longrightarrow> sched_step early W w w'"
| do_yield: "tid \<in> W \<Longrightarrow> ph w tid = Executing task f \<Longrightarrow> step_leave yield_mark tid task f w = Some w' \<Longrightarrow>
    sched_step early W w w'"
| do_end: "tid \<in> W \<Longrightarrow> ph w tid = Executing task f \<Longrightarrow> \<not> pending W w f \<Longrightarrow> step_leave MainFunc_end tid task f w = Some w' \<Longrightarrow>
    sched_step early W w w'"
| do_switch_back: "tid \<in> W \<Longrightarrow> ph w tid = Leaving task f \<Longrightarrow> step_leaving tid task f w = Some w' \<Longrightarrow> sched_step early W w w'"
| do_return: "tid \<in> W \<Longrightarrow> ph w tid = Returned task \<Longrightarrow> sched_step early W w (step_returned tid task w)"
| do_idle: "tid \<in> W \<Longrightarrow> ph w tid = Idle \<Longrightarrow> sched_step early W w (step_idle tid w)"

definition sched_init :: "int set \<Rightarrow> 'c world \<Rightarrow> bool" where
  "sched_init W w \<longleftrightarrow>
     finite W \<and> (\<exists>n uc tid. new_Scheduler n uc tid = Some (sch w)) \<and> fib w = Map.empty \<and> ctx w = Map.empty \<and>
     (\<forall>tid. t_scheduler_fiber (thr w tid) = Sched tid \<and> executing (thr w tid) = Sched tid) \<and>
     (\<forall>tid. ph w tid = Round) \<and> (\<forall>tid. \<not> idle_term w tid) \<and> submitted w = {#} \<and> finished w = {#}"

abbreviation sched_reach :: "bool \<Rightarrow> int set \<Rightarrow> 'c world \<Rightarrow> bool" where
  "sched_reach early W \<equiv> reachable (sched_init W) (sched_step early W)"

section \<open>Taking a task\<close>

definition eligible :: "int \<Rightarrow> (nat \<Rightarrow> bool) \<Rightarrow> 'c ScheduleTask \<Rightarrow> bool" where
  "eligible tid running task \<longleftrightarrow>
     (tk_thread task = - 1 \<or> tk_thread task = tid) \<and> (\<forall>f. tk_fiber task = Some f \<longrightarrow> \<not> running f)"

definition has_work :: "'c ScheduleTask \<Rightarrow> bool" where
  "has_work task \<longleftrightarrow> tk_fiber task \<noteq> None \<or> tk_cb task \<noteq> None"

lemma take_task_cases:
  assumes "take_task tid running q = Some (r, left, b)"
  shows "case r of
      None \<Rightarrow> left = q \<and> (\<forall>task\<in>set q. \<not> eligible tid running task)
    | Some task \<Rightarrow> eligible tid running task \<and> has_work task \<and>
        (\<exists>pre post. q = pre @ task # post \<and> left = pre @ post \<and> (\<forall>x\<in>set pre. \<not> eligible tid running x))"
  using assms
proof (induction q arbitrary: r left b)
  case (Cons it its)
  show ?case
  proof (cases "eligible tid running it")
    case True
    then have "r = Some it" "left = its" "has_work it"
      using Cons.prems by (auto simp: eligible_def has_work_def split: if_splits option.splits)
    with True show ?thesis
      by (simp, intro exI [of _ "[]"] exI [of _ its]) simp
  next
    case False
    then obtain left' b' where rest: "take_task tid running its = Some (r, left', b')" and left: "left = it # left'"
      using Cons.prems by (auto simp: eligible_def split: if_splits option.splits prod.splits)
    show ?thesis
    proof (cases r)
      case None
      with Cons.IH [OF rest] False left show ?thesis by simp
    next
      case (Some task)
      with Cons.IH [OF rest] obtain pre post where
        "eligible tid running task" "has_work task" "its = pre @ task # post" "left' = pre @ post"
        "\<forall>x\<in>set pre. \<not> eligible tid running x"
        by auto
      with Some False left show ?thesis
        by (simp, intro exI [of _ "it # pre"] exI [of _ post]) simp
    qed
  qed
qed simp

lemma take_task_total: "\<forall>task\<in>set q. has_work task \<Longrightarrow> take_task tid running q \<noteq> None"
  by (induction q) (auto simp: has_work_def split: option.splits)

lemma tickle_simps [simp]:
  "m_tasks (tickle s) = m_tasks s" "m_activeThreadCount (tickle s) = m_activeThreadCount s"
  "m_idleThreadCount (tickle s) = m_idleThreadCount s" "m_stopping (tickle s) = m_stopping s"
  "m_threadCount (tickle s) = m_threadCount s" "m_useCaller (tickle s) = m_useCaller s"
  by (simp_all add: tickle_def)

lemma tickle_n [simp]:
  "m_tasks ((tickle ^^ n) s) = m_tasks s" "m_activeThreadCount ((tickle ^^ n) s) = m_activeThreadCount s"
  "m_idleThreadCount ((tickle ^^ n) s) = m_idleThreadCount s" "m_stopping ((tickle ^^ n) s) = m_stopping s"
  by (induction n) simp_all

lemma schedule_simps [simp]:
  "m_tasks (schedule task s) = (if has_work task then m_tasks s @ [task] else m_tasks s)"
  "m_activeThreadCount (schedule task s) = m_activeThreadCount s"
  "m_idleThreadCount (schedule task s) = m_idleThreadCount s"
  by (simp_all add: schedule_def scheduleNoLock_def has_work_def)

lemma Scheduler_stop_keeps:
  assumes "Scheduler_stop here s = Some s'"
  shows "m_tasks s' = m_tasks s" "m_activeThreadCount s' = m_activeThreadCount s" "m_idleThreadCount s' = m_idleThreadCount s"
  using assms by (auto simp: Scheduler_stop_def Let_def split: if_splits)

lemma run_take_cases:
  assumes "run_take tid running s = Some (r, s')"
  shows "m_idleThreadCount s' = m_idleThreadCount s \<and> (case r of
      None \<Rightarrow> m_tasks s' = m_tasks s \<and> m_activeThreadCount s' = m_activeThreadCount s \<and>
        (\<forall>task\<in>set (m_tasks s). \<not> eligible tid running task)
    | Some task \<Rightarrow> m_activeThreadCount s' = Suc (m_activeThreadCount s) \<and> eligible tid running task \<and> has_work task \<and>
        (\<exists>pre post. m_tasks s = pre @ task # post \<and> m_tasks s' = pre @ post \<and> (\<forall>x\<in>set pre. \<not> eligible tid running x)))"
proof -
  obtain left b where t: "take_task tid running (m_tasks s) = Some (r, left, b)"
    and s': "s' = (let s = s\<lparr>m_tasks := left, m_activeThreadCount := m_activeThreadCount s + (if r \<noteq> None then 1 else 0)\<rparr>
      in if b then tickle s else s)"
    using assms by (auto simp: run_take_def Let_def split: option.splits prod.splits)
  show ?thesis
    using take_task_cases [OF t] s' by (cases r) (auto simp: Let_def)
qed

lemma new_Scheduler_empty:
  assumes "new_Scheduler n uc tid = Some s"
  shows "m_tasks s = []" "m_activeThreadCount s = 0" "m_idleThreadCount s = 0"
  using assms by (auto simp: new_Scheduler_def split: if_splits)

section \<open>No task is lost\<close>

fun held :: "'c phase \<Rightarrow> 'c ScheduleTask multiset" where
  "held (Taken task) = {#task#}"
| "held (Switching task f) = {#task#}"
| "held (Executing task f) = {#task#}"
| "held (Leaving task f) = {#task#}"
| "held (Returned task) = {#task#}"
| "held Round = {#}"
| "held Idle = {#}"
| "held Exited = {#}"

definition in_hand :: "int set \<Rightarrow> 'c world \<Rightarrow> 'c ScheduleTask multiset" where
  "in_hand W w = (\<Sum>tid\<in>W. held (ph w tid))"

definition idle_threads :: "int set \<Rightarrow> 'c world \<Rightarrow> nat" where
  "idle_threads W w = (\<Sum>tid\<in>W. if ph w tid = Idle then 1 else 0)"

definition acct_inv :: "int set \<Rightarrow> 'c world \<Rightarrow> bool" where
  "acct_inv W w \<longleftrightarrow>
     finite W \<and>
     submitted w = mset (m_tasks (sch w)) + in_hand W w + finished w \<and>
     m_activeThreadCount (sch w) = size (in_hand W w) \<and>
     m_idleThreadCount (sch w) = idle_threads W w \<and>
     (\<forall>task\<in>set (m_tasks (sch w)). has_work task) \<and>
     (\<forall>tid\<in>W. \<forall>task\<in>#held (ph w tid). has_work task \<and> (tk_thread task = - 1 \<or> tk_thread task = tid))"

lemma sum_upd:
  assumes "finite W" "tid \<in> W"
  shows "\<exists>R. (\<Sum>t\<in>W. g (h t)) = g (h tid) + R \<and> (\<Sum>t\<in>W. g ((h(tid := p)) t)) = (g p + R :: 'a::comm_monoid_add)"
proof -
  have "(\<Sum>t\<in>W - {tid}. g ((h(tid := p)) t)) = (\<Sum>t\<in>W - {tid}. g (h t))"
    by (rule sum.cong) auto
  then show ?thesis
    using sum.remove [OF assms, of "\<lambda>t. g (h t)"] sum.remove [OF assms, of "\<lambda>t. g ((h(tid := p)) t)"]
    by (metis fun_upd_same)
qed

lemma acct_move:
  assumes inv: "acct_inv W w" and tid: "tid \<in> W"
    and w': "ph w' = (ph w)(tid := p)" "submitted w' = submitted w"
    and tasks: "mset (m_tasks (sch w')) + held p + finished w' = mset (m_tasks (sch w)) + held (ph w tid) + finished w"
    and sub: "set (m_tasks (sch w')) \<subseteq> set (m_tasks (sch w))"
    and active: "m_activeThreadCount (sch w') + size (held (ph w tid)) = m_activeThreadCount (sch w) + size (held p)"
    and idle: "m_idleThreadCount (sch w') + (if ph w tid = Idle then 1 else 0) =
      m_idleThreadCount (sch w) + (if p = Idle then 1 else 0)"
    and ok: "\<forall>task\<in>#held p. has_work task \<and> (tk_thread task = - 1 \<or> tk_thread task = tid)"
  shows "acct_inv W w'"
proof -
  have fin: "finite W" using inv by (simp add: acct_inv_def)
  obtain R where R: "in_hand W w = held (ph w tid) + R" "in_hand W w' = held p + R"
    using sum_upd [OF fin tid, of held "ph w" p] w' by (auto simp: in_hand_def)
  obtain N where N: "idle_threads W w = (if ph w tid = Idle then 1 else 0) + N"
      "idle_threads W w' = (if p = Idle then 1 else 0) + N"
    using sum_upd [OF fin tid, of "\<lambda>x. if x = Idle then 1 else 0 :: nat" "ph w" p] w' by (auto simp: idle_threads_def)
  have "submitted w' = (mset (m_tasks (sch w)) + held (ph w tid) + finished w) + R"
    using inv R w' by (simp add: acct_inv_def)
  also have "\<dots> = mset (m_tasks (sch w')) + in_hand W w' + finished w'"
    using tasks R by (metis add.commute add.left_commute)
  finally have "submitted w' = mset (m_tasks (sch w')) + in_hand W w' + finished w'" .
  moreover have "m_activeThreadCount (sch w') = size (in_hand W w')"
    using inv R active by (simp add: acct_inv_def)
  moreover have "m_idleThreadCount (sch w') = idle_threads W w'"
    using inv N idle by (simp add: acct_inv_def)
  ultimately show ?thesis
    using inv w' sub ok fin by (auto simp: acct_inv_def)
qed

text \<open>The world after a step of a thread, in one piece.\<close>

lemmas thread_steps =
  step_taken_def start_fiber_def step_switching_def step_leave_def step_leaving_def make_fiber_def

lemma step_taken_keeps:
  assumes "step_taken tid new task w = Some w'"
  shows "sch w' = sch w" "ph w' = (ph w)(tid := Switching task (case tk_fiber task of None \<Rightarrow> new | Some f \<Rightarrow> f))"
    "submitted w' = submitted w" "finished w' = finished w"
  using assms by (auto simp: thread_steps split: option.splits prod.splits)

lemma step_switching_keeps:
  assumes "step_switching tid task f w = Some w'"
  shows "sch w' = sch w" "ph w' = (ph w)(tid := Executing task f)" "submitted w' = submitted w" "finished w' = finished w"
  using assms by (auto simp: thread_steps split: option.splits prod.splits)

lemma step_leave_keeps:
  assumes "step_leave leave tid task f w = Some w'"
  shows "sch w' = sch w" "ph w' = (ph w)(tid := Leaving task f)" "submitted w' = submitted w" "finished w' = finished w"
  using assms by (auto simp: thread_steps split: option.splits prod.splits)

lemma step_leaving_keeps:
  assumes "step_leaving tid task f w = Some w'"
  shows "sch w' = sch w" "ph w' = (ph w)(tid := Returned task)" "submitted w' = submitted w" "finished w' = finished w"
  using assms by (auto simp: thread_steps split: option.splits prod.splits)

lemma acct_thread_step:
  assumes "acct_inv W w" "tid \<in> W" "held (ph w tid) = {#task#}" "held p = {#task#}"
    and "sch w' = sch w" "ph w' = (ph w)(tid := p)" "submitted w' = submitted w" "finished w' = finished w"
  shows "acct_inv W w'"
proof (rule acct_move [OF assms(1,2)])
  show "\<forall>task\<in>#held p. has_work task \<and> (tk_thread task = - 1 \<or> tk_thread task = tid)"
    using assms by (auto simp: acct_inv_def)
  show "m_idleThreadCount (sch w') + (if ph w tid = Idle then 1 else 0) = m_idleThreadCount (sch w) + (if p = Idle then 1 else 0)"
    using assms(3,4,5) by auto
qed (use assms in auto)

lemma acct_round:
  assumes inv: "acct_inv W w" and tid: "tid \<in> W" "ph w tid = Round" and step: "step_round tid w = Some w'"
  shows "acct_inv W w'"
proof -
  obtain r s where t: "run_take tid (is_running w) (sch w) = Some (r, s)"
    using step by (auto simp: step_round_def split: option.splits)
  note c = run_take_cases [OF t]
  show ?thesis
  proof (cases r)
    case None
    then show ?thesis
      using step c t tid
      by (intro acct_move [OF inv tid(1), where p = "if idle_term w tid then Exited else Idle"])
        (auto simp: step_round_def split: if_splits)
  next
    case (Some task)
    with step t have w': "w' = w\<lparr>sch := s, ph := (ph w)(tid := Taken task)\<rparr>"
      by (simp add: step_round_def)
    with c Some tid show ?thesis
      by (intro acct_move [OF inv tid(1)]) (auto simp: eligible_def)
  qed
qed

lemma acct_step: "sched_step early W w w' \<Longrightarrow> acct_inv W w \<Longrightarrow> acct_inv W w'"
proof (induction rule: sched_step.induct)
  case (do_submit w task)
  then show ?case
    by (auto simp: acct_inv_def submit_def in_hand_def idle_threads_def)
next
  case (do_make w f cb)
  then show ?case
    by (simp add: acct_inv_def make_fiber_def in_hand_def idle_threads_def)
next
  case (do_stop here w s)
  then show ?case
    by (simp add: acct_inv_def in_hand_def idle_threads_def Scheduler_stop_keeps [OF do_stop.hyps])
next
  case (do_round tid w w')
  then show ?case by (blast intro: acct_round)
next
  case (do_resume tid w task new w')
  show ?case
    by (rule acct_thread_step [OF do_resume.prems do_resume.hyps(1) _ _ step_taken_keeps [OF do_resume.hyps(4)]]) (simp_all add: do_resume.hyps(2))
next
  case (do_switch tid w task f w')
  show ?case
    by (rule acct_thread_step [OF do_switch.prems do_switch.hyps(1) _ _ step_switching_keeps [OF do_switch.hyps(3)]]) (simp_all add: do_switch.hyps(2))
next
  case (do_yield tid w task f w')
  show ?case
    by (rule acct_thread_step [OF do_yield.prems do_yield.hyps(1) _ _ step_leave_keeps [OF do_yield.hyps(3)]]) (simp_all add: do_yield.hyps(2))
next
  case (do_end tid w task f w')
  show ?case
    by (rule acct_thread_step [OF do_end.prems do_end.hyps(1) _ _ step_leave_keeps [OF do_end.hyps(4)]]) (simp_all add: do_end.hyps(2))
next
  case (do_switch_back tid w task f w')
  show ?case
    by (rule acct_thread_step [OF do_switch_back.prems do_switch_back.hyps(1) _ _ step_leaving_keeps [OF do_switch_back.hyps(3)]]) (simp_all add: do_switch_back.hyps(2))
next
  case (do_return tid w task)
  then have "0 < m_activeThreadCount (sch w)"
    by (auto simp: acct_inv_def in_hand_def sum.remove)
  with do_return show ?case
    by (intro acct_move [OF do_return.prems do_return.hyps(1)]) (auto simp: step_returned_def)
next
  case (do_idle tid w)
  then have "0 < m_idleThreadCount (sch w)"
    by (auto simp: acct_inv_def idle_threads_def sum.remove)
  with do_idle show ?case
    by (intro acct_move [OF do_idle.prems do_idle.hyps(1)]) (auto simp: step_idle_def)
qed

lemma acct_init: "sched_init W w \<Longrightarrow> acct_inv W w"
  by (auto simp: sched_init_def acct_inv_def in_hand_def idle_threads_def dest: new_Scheduler_empty)

interpretation sched_acct: step_invariant "sched_init W" "sched_step early W" "acct_inv W" for W early
  by unfold_locales (blast intro: acct_init, blast intro: acct_step)

section \<open>Fibers on threads\<close>

fun taken_fiber :: "'c phase \<Rightarrow> nat option" where
  "taken_fiber (Taken task) = tk_fiber task"
| "taken_fiber _ = None"

fun running_fiber :: "'c phase \<Rightarrow> nat option" where
  "running_fiber (Switching task f) = Some f"
| "running_fiber (Executing task f) = Some f"
| "running_fiber _ = None"

fun switching_fiber :: "'c phase \<Rightarrow> nat option" where
  "switching_fiber (Switching task f) = Some f"
| "switching_fiber _ = None"

fun stack_fiber :: "'c phase \<Rightarrow> nat option" where
  "stack_fiber (Executing task f) = Some f"
| "stack_fiber (Leaving task f) = Some f"
| "stack_fiber _ = None"

text \<open>At most one of the threads has the fiber.\<close>

definition single :: "int set \<Rightarrow> (int \<Rightarrow> nat option) \<Rightarrow> bool" where
  "single W g \<longleftrightarrow> (\<forall>t1\<in>W. \<forall>t2\<in>W. g t1 \<noteq> None \<longrightarrow> g t1 = g t2 \<longrightarrow> t1 = t2)"

lemma single_None [intro]: "single W g \<Longrightarrow> single W (g(t := None))"
  by (auto simp: single_def)

lemma single_Some: "single W g \<Longrightarrow> (\<And>t'. t' \<in> W \<Longrightarrow> t' \<noteq> t \<Longrightarrow> g t' \<noteq> Some f) \<Longrightarrow> single W (g(t := Some f))"
  unfolding single_def by (metis fun_upd_apply)

lemma singleD: "single W g \<Longrightarrow> t1 \<in> W \<Longrightarrow> t2 \<in> W \<Longrightarrow> g t1 = Some f \<Longrightarrow> g t2 = Some f \<Longrightarrow> t1 = t2"
  by (simp add: single_def)

lemma single_no_fiber [intro]: "single W (\<lambda>t. None)"
  by (simp add: single_def)

lemma single_upd: "single W g \<Longrightarrow> (\<And>f t'. x = Some f \<Longrightarrow> t' \<in> W \<Longrightarrow> t' \<noteq> t \<Longrightarrow> g t' \<noteq> Some f) \<Longrightarrow> single W (g(t := x))"
  by (cases x) (auto intro: single_Some)

abbreviation "takenf w \<equiv> \<lambda>t. taken_fiber (ph w t)"
abbreviation "runningf w \<equiv> \<lambda>t. running_fiber (ph w t)"
abbreviation "switchingf w \<equiv> \<lambda>t. switching_fiber (ph w t)"
abbreviation "stackf w \<equiv> \<lambda>t. stack_fiber (ph w t)"

lemma view_upd: "(\<lambda>t. g ((h(tid := p)) t)) = (\<lambda>t. g (h t))(tid := g p)"
  by auto

definition st :: "'c world \<Rightarrow> nat \<rightharpoonup> State" where
  "st w f = map_option m_state (fib w f)"

lemma st_upd: "fib w' = (fib w)(f \<mapsto> fb) \<Longrightarrow> st w' = (st w)(f \<mapsto> m_state fb)"
  by (auto simp: st_def)

lemma st_cong: "fib w' = fib w \<Longrightarrow> st w' = st w"
  by (auto simp: st_def)

definition queued :: "'c world \<Rightarrow> nat list" where
  "queued w = List.map_filter tk_fiber (m_tasks (sch w))"

text \<open>The contexts: what is saved for a fiber continues that fiber, and a thread knows where it returns to.\<close>

definition ctx_inv :: "int set \<Rightarrow> 'c world \<Rightarrow> bool" where
  "ctx_inv W w \<longleftrightarrow>
     finite (dom (fib w)) \<and> (\<forall>f fb. fib w f = Some fb \<longrightarrow> m_runInScheduler fb) \<and>
     (\<forall>tid. t_scheduler_fiber (thr w tid) = Sched tid) \<and>
     (\<forall>x y. ctx w x = Some y \<longrightarrow> y = x) \<and>
     (\<forall>tid\<in>W. case stack_fiber (ph w tid) of
        None \<Rightarrow> executing (thr w tid) = Sched tid
      | Some f \<Rightarrow> executing (thr w tid) = Task f \<and> ctx w (Sched tid) = Some (Sched tid) \<and> f \<in> dom (fib w))"

text \<open>The states: a fiber is pending once, is ready when it is taken, and runs on one thread.\<close>

definition state_inv :: "int set \<Rightarrow> 'c world \<Rightarrow> bool" where
  "state_inv W w \<longleftrightarrow>
     distinct (queued w) \<and>
     (\<forall>f\<in>set (queued w). st w f = Some READY \<or> st w f = Some RUNNING) \<and>
     (\<forall>tid\<in>W. \<forall>f. takenf w tid = Some f \<longrightarrow> f \<notin> set (queued w) \<and> st w f = Some READY) \<and>
     single W (takenf w) \<and>
     (\<forall>tid\<in>W. \<forall>f. runningf w tid = Some f \<longrightarrow> st w f = Some RUNNING) \<and>
     single W (runningf w)"

lemma state_invD:
  assumes "state_inv W w" "t \<in> W"
  shows "takenf w t = Some f \<Longrightarrow> f \<notin> set (queued w) \<and> st w f = Some READY"
    and "runningf w t = Some f \<Longrightarrow> st w f = Some RUNNING"
    and "takenf w t = Some f \<Longrightarrow> t' \<in> W \<Longrightarrow> takenf w t' = Some f \<Longrightarrow> t' = t"
    and "runningf w t = Some f \<Longrightarrow> t' \<in> W \<Longrightarrow> runningf w t' = Some f \<Longrightarrow> t' = t"
  using assms by (auto simp: state_inv_def dest: singleD)

text \<open>If only suspended fibers are scheduled: the context of a fiber that will be resumed is saved.\<close>

definition saved_inv :: "int set \<Rightarrow> 'c world \<Rightarrow> bool" where
  "saved_inv W w \<longleftrightarrow>
     (\<forall>f\<in>set (queued w). st w f = Some READY \<and> ctx w (Task f) \<noteq> None) \<and>
     (\<forall>tid\<in>W. \<forall>f. takenf w tid = Some f \<longrightarrow> ctx w (Task f) \<noteq> None) \<and>
     (\<forall>tid\<in>W. \<forall>f. switchingf w tid = Some f \<longrightarrow> ctx w (Task f) \<noteq> None) \<and>
     (\<forall>tid\<in>W. \<forall>f. stackf w tid = Some f \<longrightarrow> ctx w (Task f) = None) \<and>
     single W (stackf w)"

lemma map_filter_append [simp]: "List.map_filter f (xs @ ys) = List.map_filter f xs @ List.map_filter f ys"
  by (simp add: List.map_filter_def)

lemma in_map_filter: "y \<in> set (List.map_filter f xs) \<longleftrightarrow> (\<exists>x\<in>set xs. f x = Some y)"
  by (force simp: List.map_filter_def)

lemma queued_submit:
  "m_tasks (sch w') = m_tasks (sch w) @ [task] \<Longrightarrow>
     queued w' = queued w @ (case tk_fiber task of None \<Rightarrow> [] | Some f \<Rightarrow> [f])"
  by (simp add: queued_def map_filter_simps List.map_filter_def split: option.splits)

lemma queued_cong: "m_tasks (sch w') = m_tasks (sch w) \<Longrightarrow> queued w' = queued w"
  by (simp add: queued_def)

lemma pending_iff: "pending W w f \<longleftrightarrow> f \<in> set (queued w) \<or> (\<exists>tid\<in>W. taken_fiber (ph w tid) = Some f)"
proof -
  have "(\<exists>task. p = Taken task \<and> tk_fiber task = Some f) \<longleftrightarrow> taken_fiber p = Some f" for p :: "'c phase"
    by (cases p) auto
  then show ?thesis
    unfolding pending_def queued_def in_map_filter by blast
qed

lemma queued_split:
  assumes "m_tasks (sch w) = pre @ task # post" "m_tasks (sch w') = pre @ post"
  shows "set (queued w) = set (queued w') \<union> set_option (tk_fiber task)"
    and "distinct (queued w) \<Longrightarrow> distinct (queued w') \<and> (\<forall>f. tk_fiber task = Some f \<longrightarrow> f \<notin> set (queued w'))"
  using assms by (auto simp: queued_def map_filter_simps split: option.splits)

text \<open>What each step does to fibers, contexts and threads.\<close>

lemma step_taken_shape:
  assumes "step_taken tid new task w = Some w'" "fib w new = None"
  obtains f fb c where "w' = w\<lparr>fib := (fib w)(f \<mapsto> fb\<lparr>m_state := RUNNING\<rparr>), ctx := c,
      thr := (thr w)(tid := (thr w tid)\<lparr>t_fiber := Task f\<rparr>), ph := (ph w)(tid := Switching task f)\<rparr>"
    and "tk_fiber task = Some f \<and> fib w f = Some fb \<and> c = ctx w \<or>
      tk_fiber task = None \<and> fib w f = None \<and> (\<exists>cb. fb = new_Fiber cb True) \<and> c = (ctx w)(Task f \<mapsto> Task f)"
proof (cases "tk_fiber task")
  case None
  then obtain cb where "tk_cb task = Some cb" and
    "start_fiber tid task new (make_fiber new cb w) = Some w'"
    using assms by (auto simp: step_taken_def split: option.splits)
  with None assms(2) show thesis
    by (intro that [where f = new and fb = "new_Fiber cb True" and c = "(ctx w)(Task new \<mapsto> Task new)"])
      (auto simp: start_fiber_def make_fiber_def resume_mark_def new_Fiber_def)
next
  case (Some f)
  with assms obtain fb where "fib w f = Some fb"
    by (auto simp: step_taken_def start_fiber_def split: option.splits)
  with Some assms show thesis
    by (intro that [where f = f and fb = fb and c = "ctx w"]) (auto simp: step_taken_def start_fiber_def resume_mark_def split: if_splits)
qed

lemma step_switching_shape:
  assumes "step_switching tid task f w = Some w'" "ctx_inv W w" "tid \<in> W" "ph w tid = Switching task f"
  shows "w' = w\<lparr>ctx := (ctx w)(Sched tid \<mapsto> Sched tid, Task f := None),
      thr := (thr w)(tid := (thr w tid)\<lparr>executing := Task f\<rparr>), ph := (ph w)(tid := Executing task f)\<rparr>"
    and "ctx w (Task f) = Some (Task f)" and "f \<in> dom (fib w)"
proof -
  obtain fb g where fb: "fib w f = Some fb" and g: "ctx w (Task f) = Some g"
    using assms(1) by (auto simp: step_switching_def resume_switch_def swapcontext_def split: option.splits)
  have inv: "m_runInScheduler fb" "t_scheduler_fiber (thr w tid) = Sched tid" "g = Task f" "executing (thr w tid) = Sched tid"
    using assms(2-4) fb g by (fastforce simp: ctx_inv_def)+
  then show "w' = w\<lparr>ctx := (ctx w)(Sched tid \<mapsto> Sched tid, Task f := None),
      thr := (thr w)(tid := (thr w tid)\<lparr>executing := Task f\<rparr>), ph := (ph w)(tid := Executing task f)\<rparr>"
    using assms(1) fb g by (simp add: step_switching_def resume_switch_def swapcontext_def switch_partner_def)
  show "ctx w (Task f) = Some (Task f)" "f \<in> dom (fib w)"
    using g inv fb by auto
qed

lemma step_leaving_shape:
  assumes "step_leaving tid task f w = Some w'" "ctx_inv W w" "tid \<in> W" "ph w tid = Leaving task f"
  shows "w' = w\<lparr>ctx := (ctx w)(Task f \<mapsto> Task f, Sched tid := None),
      thr := (thr w)(tid := (thr w tid)\<lparr>executing := Sched tid\<rparr>), ph := (ph w)(tid := Returned task)\<rparr>"
proof -
  obtain fb where fb: "fib w f = Some fb"
    using assms(1) by (auto simp: step_leaving_def split: option.splits)
  have "m_runInScheduler fb" "t_scheduler_fiber (thr w tid) = Sched tid" "executing (thr w tid) = Task f"
    "ctx w (Sched tid) = Some (Sched tid)"
    using assms(2-4) fb by (fastforce simp: ctx_inv_def)+
  then show ?thesis
    using assms(1) fb by (simp add: step_leaving_def yield_switch_def swapcontext_def switch_partner_def)
qed

lemma step_leave_shape:
  assumes "step_leave leave tid task f w = Some w'" "fib w f = Some fb" "m_state fb = RUNNING"
    and "leave = yield_mark \<and> to = READY \<or> leave = MainFunc_end \<and> to = FIBER_TERM"
  obtains fb' where "m_state fb' = to" "m_runInScheduler fb' = m_runInScheduler fb"
    and "w' = w\<lparr>fib := (fib w)(f \<mapsto> fb'), thr := (thr w)(tid := (thr w tid)\<lparr>t_fiber := t_thread_fiber (thr w tid)\<rparr>),
      ph := (ph w)(tid := Leaving task f)\<rparr>"
proof (cases "leave = yield_mark \<and> to = READY")
  case True
  then show thesis
    using assms(1-3) by (intro that [of "fb\<lparr>m_state := READY\<rparr>"]) (auto simp: step_leave_def yield_mark_def)
next
  case False
  with assms(4) have "leave = MainFunc_end \<and> to = FIBER_TERM" by blast
  then show thesis
    using assms(1-3)
    by (intro that [of "fb\<lparr>m_cb := None, m_state := FIBER_TERM\<rparr>"]) (auto simp: step_leave_def MainFunc_end_def yield_mark_def)
qed

lemma step_round_shape:
  assumes "step_round tid w = Some w'"
  obtains s p where "w' = w\<lparr>sch := s, ph := (ph w)(tid := p)\<rparr>"
    and "m_tasks s = m_tasks (sch w) \<and> p \<in> {Idle, Exited} \<or>
      (\<exists>task pre post. p = Taken task \<and> m_tasks (sch w) = pre @ task # post \<and> m_tasks s = pre @ post \<and>
        eligible tid (is_running w) task)"
proof -
  obtain r s where t: "run_take tid (is_running w) (sch w) = Some (r, s)"
    using assms by (auto simp: step_round_def split: option.splits)
  note c = run_take_cases [OF t]
  show thesis
  proof (cases r)
    case None
    then show thesis
      using assms t c that by (fastforce simp: step_round_def split: if_splits)
  next
    case (Some task)
    then show thesis
      using assms t c that [where s = s and p = "Taken task"] by (auto simp: step_round_def)
  qed
qed

definition fiber_inv :: "bool \<Rightarrow> int set \<Rightarrow> 'c world \<Rightarrow> bool" where
  "fiber_inv early W w \<longleftrightarrow> ctx_inv W w \<and> state_inv W w \<and> (\<not> early \<longrightarrow> saved_inv W w)"

lemma fiber_init: "sched_init W w \<Longrightarrow> fiber_inv early W w"
  by (auto simp: sched_init_def fiber_inv_def ctx_inv_def state_inv_def saved_inv_def queued_def List.map_filter_def
      dest!: new_Scheduler_empty(1))

lemma fiber_inv_cong:
  assumes "queued w' = queued w" "fib w' = fib w" "ctx w' = ctx w" "thr w' = thr w"
    "takenf w' = takenf w" "runningf w' = runningf w" "switchingf w' = switchingf w" "stackf w' = stackf w"
  shows "fiber_inv early W w' = fiber_inv early W w"
proof -
  have v: "stack_fiber (ph w' t) = stack_fiber (ph w t)" "taken_fiber (ph w' t) = taken_fiber (ph w t)"
    "running_fiber (ph w' t) = running_fiber (ph w t)" "switching_fiber (ph w' t) = switching_fiber (ph w t)" for t
    using assms(5-8) by meson+
  show ?thesis
    by (simp only: fiber_inv_def ctx_inv_def state_inv_def saved_inv_def assms(1-4) v st_cong [OF assms(2)])
qed

lemma fiber_submit:
  assumes "fiber_inv early W w" "may_schedule early W w task"
  shows "fiber_inv early W (submit task w)"
proof -
  have keep: "fib (submit task w) = fib w" "ctx (submit task w) = ctx w" "thr (submit task w) = thr w"
    "ph (submit task w) = ph w"
    by (simp_all add: submit_def)
  show ?thesis
  proof (cases "has_work task \<and> tk_fiber task \<noteq> None")
    case True
    then obtain f where f: "tk_fiber task = Some f" by auto
    have q: "queued (submit task w) = queued w @ [f]"
      using True f queued_submit [of "submit task w" w task] by (simp add: submit_def)
    show ?thesis
      using assms f
      unfolding fiber_inv_def ctx_inv_def state_inv_def saved_inv_def keep q st_cong [OF keep(1)] may_schedule_def pending_iff
      by (cases "fib w f"; cases early) (auto simp: st_def intro: State.exhaust)
  next
    case False
    then have "queued (submit task w) = queued w"
      using queued_submit [of "submit task w" w task] by (cases "has_work task") (simp_all add: submit_def queued_def)
    with assms(1) show ?thesis
      by (subst fiber_inv_cong [where w = w]) (simp_all add: keep)
  qed
qed

lemma fiber_make:
  assumes inv: "fiber_inv early W w" and new: "fib w f = None"
  shows "fiber_inv early W (make_fiber f cb w)"
proof -
  let ?w = "make_fiber f cb w"
  have w': "fib ?w = (fib w)(f \<mapsto> new_Fiber cb True)" "ctx ?w = (ctx w)(Task f \<mapsto> Task f)" "thr ?w = thr w" "ph ?w = ph w"
    by (simp_all add: make_fiber_def)
  have q: "queued ?w = queued w"
    by (intro queued_cong) (simp add: make_fiber_def)
  have no: "f \<notin> set (queued w)" "st w f = None" "\<And>tid. tid \<in> W \<Longrightarrow> takenf w tid \<noteq> Some f"
    "\<And>tid. tid \<in> W \<Longrightarrow> runningf w tid \<noteq> Some f" "\<And>tid. tid \<in> W \<Longrightarrow> stackf w tid \<noteq> Some f"
    using inv new by (auto simp: fiber_inv_def ctx_inv_def state_inv_def st_def split: option.splits)
  have "ctx_inv W ?w"
    using inv by (auto simp: fiber_inv_def ctx_inv_def w' new_Fiber_def split: option.splits)
  moreover have "state_inv W ?w"
    unfolding state_inv_def w' q st_upd [OF w'(1)] using inv no by (auto simp: fiber_inv_def state_inv_def)
  moreover have "\<not> early \<Longrightarrow> saved_inv W ?w"
    unfolding saved_inv_def w' q st_upd [OF w'(1)] using inv no by (auto simp: fiber_inv_def saved_inv_def)
  ultimately show ?thesis
    by (simp add: fiber_inv_def)
qed

lemma fiber_round:
  assumes inv: "fiber_inv early W w" and tid: "tid \<in> W" "ph w tid = Round" and step: "step_round tid w = Some w'"
  shows "fiber_inv early W w'"
  using step
proof (cases rule: step_round_shape)
  case (1 s p)
  show ?thesis
  proof (cases "p \<in> {Idle, Exited}")
    case True
    with 1 have "queued w' = queued w"
      by (intro queued_cong) auto
    with True inv tid 1(1) show ?thesis
      by (subst fiber_inv_cong [where w = w]) auto
  next
    case False
    with 1 obtain task pre post where p: "p = Taken task" and el: "eligible tid (is_running w) task"
      and q: "m_tasks (sch w) = pre @ task # post" "m_tasks (sch w') = pre @ post"
      by auto
    have w': "ph w' = (ph w)(tid := Taken task)" "fib w' = fib w" "ctx w' = ctx w" "thr w' = thr w"
      using 1(1) p by simp_all
    note qs = queued_split [OF q]
    have "\<And>f. tk_fiber task = Some f \<Longrightarrow> st w f \<noteq> Some RUNNING"
      using el by (auto simp: eligible_def is_running_def st_def split: option.splits)
    then have "state_inv W w'"
      unfolding state_inv_def w' view_upd st_cong [OF w'(2)]
      using inv qs by (auto simp: fiber_inv_def state_inv_def intro!: single_upd)
    moreover have "ctx_inv W w'"
      unfolding ctx_inv_def w' using inv tid by (auto simp: fiber_inv_def ctx_inv_def)
    moreover have "\<not> early \<Longrightarrow> saved_inv W w'"
      unfolding saved_inv_def w' view_upd st_cong [OF w'(2)]
      using inv tid qs(1) by (auto simp: fiber_inv_def saved_inv_def)
    ultimately show ?thesis
      by (simp add: fiber_inv_def)
  qed
qed

lemma fiber_resume:
  assumes inv: "fiber_inv early W w" and tid: "tid \<in> W" "ph w tid = Taken task" and new: "fib w new = None"
    and step: "step_taken tid new task w = Some w'"
  shows "fiber_inv early W w'"
  using step new
proof (cases rule: step_taken_shape)
  case (1 f fb c)
  have w': "ph w' = (ph w)(tid := Switching task f)" "fib w' = (fib w)(f \<mapsto> fb\<lparr>m_state := RUNNING\<rparr>)" "ctx w' = c"
    "thr w' = (thr w)(tid := (thr w tid)\<lparr>t_fiber := Task f\<rparr>)"
    using 1(1) by simp_all
  have q: "queued w' = queued w"
    using 1(1) by (intro queued_cong) simp
  have st': "st w' = (st w)(f \<mapsto> RUNNING)"
    using st_upd [OF w'(2)] by simp
  have f: "f \<notin> set (queued w) \<and> (\<forall>t\<in>W. t \<noteq> tid \<longrightarrow> takenf w t \<noteq> Some f) \<and> (\<forall>t\<in>W. runningf w t \<noteq> Some f)"
  proof (cases "tk_fiber task")
    case None
    with 1 have "st w f = None" by (auto simp: st_def)
    with inv show ?thesis by (fastforce simp: fiber_inv_def state_inv_def)
  next
    case (Some g)
    with 1 tid have "takenf w tid = Some f" by auto
    moreover have si: "state_inv W w" using inv by (simp add: fiber_inv_def)
    ultimately show ?thesis
      using state_invD [OF si] tid(1) by (metis State.distinct(1) option.inject)
  qed
  have "state_inv W w'"
    unfolding state_inv_def w' view_upd q st'
    using inv f by (auto simp: fiber_inv_def state_inv_def intro!: single_upd)
  moreover have "ctx_inv W w'"
    unfolding ctx_inv_def w' using inv tid 1(2)
    by (auto simp: fiber_inv_def ctx_inv_def new_Fiber_def split: option.splits if_splits)
  moreover have "\<not> early \<Longrightarrow> saved_inv W w'"
  proof -
    assume e: "\<not> early"
    have "tk_fiber task = None \<Longrightarrow> stackf w t \<noteq> Some f" if "t \<in> W" for t
      using inv 1(2) that by (auto simp: fiber_inv_def ctx_inv_def split: option.splits)
    then show "saved_inv W w'"
      unfolding saved_inv_def w' view_upd q st'
      using e inv f 1(2) tid by (auto simp: fiber_inv_def saved_inv_def)
  qed
  ultimately show ?thesis
    by (simp add: fiber_inv_def)
qed

lemma fiber_switch:
  assumes inv: "fiber_inv early W w" and tid: "tid \<in> W" "ph w tid = Switching task f"
    and step: "step_switching tid task f w = Some w'"
  shows "fiber_inv early W w'"
proof -
  have ci: "ctx_inv W w" using inv by (simp add: fiber_inv_def)
  note sh = step_switching_shape [OF step ci tid]
  have w': "ph w' = (ph w)(tid := Executing task f)" "fib w' = fib w"
    "ctx w' = (ctx w)(Sched tid \<mapsto> Sched tid, Task f := None)"
    "thr w' = (thr w)(tid := (thr w tid)\<lparr>executing := Task f\<rparr>)"
    using sh(1) by simp_all
  have q: "queued w' = queued w"
    using sh(1) by (intro queued_cong) simp
  have "running_fiber (ph w' t) = running_fiber (ph w t)" "taken_fiber (ph w' t) = taken_fiber (ph w t)" for t
    using tid by (auto simp: w')
  then have "state_inv W w'"
    unfolding state_inv_def q st_cong [OF w'(2)] using inv by (simp add: fiber_inv_def state_inv_def)
  moreover have "ctx_inv W w'"
    unfolding ctx_inv_def w' using ci sh(3) by (auto simp: ctx_inv_def split: option.splits)
  moreover have "\<not> early \<Longrightarrow> saved_inv W w'"
  proof -
    assume e: "\<not> early"
    have run: "runningf w tid = Some f" using tid by simp
    have no: "f \<notin> set (queued w)" "\<forall>t\<in>W. takenf w t \<noteq> Some f" "\<forall>t\<in>W. stackf w t \<noteq> Some f"
      using e inv tid(1) run sh(2) by (auto simp: fiber_inv_def state_inv_def saved_inv_def)
    have sw: "switchingf w t = Some f \<Longrightarrow> t = tid" if "t \<in> W" for t
      using inv tid run that by (cases "ph w t") (auto simp: fiber_inv_def state_inv_def single_def)
    show "saved_inv W w'"
      unfolding saved_inv_def w' view_upd q st_cong [OF w'(2)]
      using e inv no sw by (auto simp: fiber_inv_def saved_inv_def intro!: single_upd)
  qed
  ultimately show ?thesis
    by (simp add: fiber_inv_def)
qed

lemma fiber_leave:
  assumes inv: "fiber_inv early W w" and tid: "tid \<in> W" "ph w tid = Executing task f"
    and leave: "leave = yield_mark \<and> to = READY \<or> leave = MainFunc_end \<and> to = FIBER_TERM \<and> \<not> pending W w f"
    and step: "step_leave leave tid task f w = Some w'"
  shows "fiber_inv early W w'"
proof -
  have run: "runningf w tid = Some f" "stackf w tid = Some f" using tid by simp_all
  then obtain fb where fb: "fib w f = Some fb" "m_state fb = RUNNING"
    using inv tid(1) by (fastforce simp: fiber_inv_def state_inv_def st_def)
  from leave have l: "leave = yield_mark \<and> to = READY \<or> leave = MainFunc_end \<and> to = FIBER_TERM" by blast
  obtain fb' where fb': "m_state fb' = to" "m_runInScheduler fb' = m_runInScheduler fb"
    and weq: "w' = w\<lparr>fib := (fib w)(f \<mapsto> fb'), thr := (thr w)(tid := (thr w tid)\<lparr>t_fiber := t_thread_fiber (thr w tid)\<rparr>),
      ph := (ph w)(tid := Leaving task f)\<rparr>"
    using step_leave_shape [OF step fb l] by blast
  have w': "ph w' = (ph w)(tid := Leaving task f)" "fib w' = (fib w)(f \<mapsto> fb')" "ctx w' = ctx w"
    "thr w' = (thr w)(tid := (thr w tid)\<lparr>t_fiber := t_thread_fiber (thr w tid)\<rparr>)"
    using weq by simp_all
  have q: "queued w' = queued w"
    using weq by (intro queued_cong) simp
  have st': "st w' = (st w)(f \<mapsto> to)"
    using st_upd [OF w'(2)] fb' by simp
  have others: "\<forall>t\<in>W. takenf w t \<noteq> Some f" "\<forall>t\<in>W. t \<noteq> tid \<longrightarrow> runningf w t \<noteq> Some f"
  proof -
    have si: "state_inv W w" using inv by (simp add: fiber_inv_def)
    show "\<forall>t\<in>W. takenf w t \<noteq> Some f" "\<forall>t\<in>W. t \<noteq> tid \<longrightarrow> runningf w t \<noteq> Some f"
      using state_invD [OF si] tid(1) run(1) by (metis State.distinct(1) option.inject)+
  qed
  have "state_inv W w'"
    unfolding state_inv_def w' view_upd q st'
    using inv others leave by (auto simp: fiber_inv_def state_inv_def pending_iff)
  moreover have "ctx_inv W w'"
    unfolding ctx_inv_def w' using inv tid run fb fb' by (auto simp: fiber_inv_def ctx_inv_def split: option.splits)
  moreover have "\<not> early \<Longrightarrow> saved_inv W w'"
  proof -
    assume e: "\<not> early"
    then have "f \<notin> set (queued w)" "\<forall>t\<in>W. switchingf w t \<noteq> Some f"
      using inv tid(1) run(2) by (auto simp: fiber_inv_def saved_inv_def)
    moreover have "stack_fiber (ph w' t) = stack_fiber (ph w t)" for t
      using tid by (simp add: w')
    ultimately show "saved_inv W w'"
      using e inv unfolding saved_inv_def w'(3) q st' by (auto simp: fiber_inv_def saved_inv_def w')
  qed
  ultimately show ?thesis
    by (simp add: fiber_inv_def)
qed

lemma fiber_switch_back:
  assumes inv: "fiber_inv early W w" and tid: "tid \<in> W" "ph w tid = Leaving task f"
    and step: "step_leaving tid task f w = Some w'"
  shows "fiber_inv early W w'"
proof -
  have ci: "ctx_inv W w" using inv by (simp add: fiber_inv_def)
  note sh = step_leaving_shape [OF step ci tid]
  have w': "ph w' = (ph w)(tid := Returned task)" "fib w' = fib w" "ctx w' = (ctx w)(Task f \<mapsto> Task f, Sched tid := None)"
    "thr w' = (thr w)(tid := (thr w tid)\<lparr>executing := Sched tid\<rparr>)"
    using sh by simp_all
  have q: "queued w' = queued w"
    using sh by (intro queued_cong) simp
  have "running_fiber (ph w' t) = running_fiber (ph w t)" "taken_fiber (ph w' t) = taken_fiber (ph w t)" for t
    using tid by (auto simp: w')
  then have "state_inv W w'"
    unfolding state_inv_def q st_cong [OF w'(2)] using inv by (simp add: fiber_inv_def state_inv_def)
  moreover have "ctx_inv W w'"
    unfolding ctx_inv_def w' using ci by (auto simp: ctx_inv_def split: option.splits)
  moreover have "\<not> early \<Longrightarrow> saved_inv W w'"
  proof -
    assume e: "\<not> early"
    have "stackf w tid = Some f" using tid by simp
    then have "\<forall>t\<in>W. t \<noteq> tid \<longrightarrow> stackf w t \<noteq> Some f"
      using e inv tid(1) by (auto simp: fiber_inv_def saved_inv_def single_def)
    then show "saved_inv W w'"
      unfolding saved_inv_def w' view_upd q st_cong [OF w'(2)]
      using e inv by (auto simp: fiber_inv_def saved_inv_def)
  qed
  ultimately show ?thesis
    by (simp add: fiber_inv_def)
qed

lemma fiber_step: "sched_step early W w w' \<Longrightarrow> fiber_inv early W w \<Longrightarrow> fiber_inv early W w'"
proof (induction rule: sched_step.induct)
  case (do_stop here w s)
  then show ?case
    by (subst fiber_inv_cong [where w = w]) (auto simp: queued_def Scheduler_stop_keeps)
next
  case (do_end tid w task f w')
  then show ?case by (blast intro: fiber_leave)
next
  case (do_yield tid w task f w')
  then show ?case by (blast intro: fiber_leave)
next
  case (do_return tid w task)
  then show ?case
    by (subst fiber_inv_cong [where w = w]) (auto simp: step_returned_def queued_def)
next
  case (do_idle tid w)
  then show ?case
    by (subst fiber_inv_cong [where w = w]) (auto simp: step_idle_def queued_def)
qed (blast intro: fiber_submit fiber_make fiber_round fiber_resume fiber_switch fiber_switch_back)+

interpretation sched_fiber: step_invariant "sched_init W" "sched_step early W" "fiber_inv early W" for W early
  by unfold_locales (blast intro: fiber_init, blast intro: fiber_step)

section \<open>Properties of the scheduler\<close>

text \<open>
  C13: In every interleaving, a task that entered the queue is still in it, or in the hands of exactly one thread, or
  its round is over; the counters count the threads that hold a task and the idle ones; a thread only takes tasks
  that may run on it; and \<open>stopping\<close> answers true only when every task is over.
\<close>

theorem scheduler_no_task_lost:
  assumes "sched_reach early W w"
  shows "submitted w = mset (m_tasks (sch w)) + in_hand W w + finished w \<and>
    m_activeThreadCount (sch w) = size (in_hand W w) \<and> m_idleThreadCount (sch w) = idle_threads W w \<and>
    (\<forall>tid\<in>W. \<forall>task\<in>#held (ph w tid). tk_thread task = - 1 \<or> tk_thread task = tid) \<and>
    (Scheduler_stopping (sch w) \<longrightarrow> finished w = submitted w)"
  using sched_acct.reachable_inv [OF assms] by (auto simp: acct_inv_def Scheduler_stopping_def)

lemma reach_invs:
  assumes "sched_reach early W w"
  shows "acct_inv W w" "ctx_inv W w" "state_inv W w" "\<not> early \<Longrightarrow> saved_inv W w"
  using sched_acct.reachable_inv [OF assms] sched_fiber.reachable_inv [OF assms] by (simp_all add: fiber_inv_def)

lemma round_total: "sched_reach early W w \<Longrightarrow> step_round tid w \<noteq> None"
  using reach_invs(1) [where w = w and W = W and early = early] take_task_total [of "m_tasks (sch w)" tid "is_running w"]
  by (auto simp: acct_inv_def step_round_def run_take_def Let_def split: option.splits)

lemma taken_total:
  assumes "sched_reach early W w" "tid \<in> W" and p: "ph w tid = Taken task"
  shows "step_taken tid new task w \<noteq> None"
proof (cases "tk_fiber task")
  case None
  moreover have "has_work task"
    using reach_invs(1) [OF assms(1)] assms(2) p by (auto simp: acct_inv_def)
  ultimately obtain cb where "tk_cb task = Some cb" by (auto simp: has_work_def)
  with None show ?thesis
    by (simp add: step_taken_def start_fiber_def make_fiber_def new_Fiber_def resume_mark_def)
next
  case (Some f)
  with p state_invD(1) [OF reach_invs(3) [OF assms(1)] assms(2), of f] obtain fb
    where "fib w f = Some fb" "m_state fb = READY"
    by (auto simp: st_def)
  with Some show ?thesis
    by (simp add: step_taken_def start_fiber_def resume_mark_def)
qed

lemma leave_total:
  assumes "sched_reach early W w" "tid \<in> W" "ph w tid = Executing task f"
  shows "step_leave yield_mark tid task f w \<noteq> None" "step_leave MainFunc_end tid task f w \<noteq> None"
  using state_invD(2) [OF reach_invs(3) [OF assms(1)] assms(2), of f] assms(3)
  by (auto simp: st_def step_leave_def yield_mark_def MainFunc_end_def)

lemma leaving_total:
  assumes "sched_reach early W w" "tid \<in> W" "ph w tid = Leaving task f"
  shows "step_leaving tid task f w \<noteq> None"
  using reach_invs(2) [OF assms(1)] assms(2,3)
  by (fastforce simp: ctx_inv_def step_leaving_def yield_switch_def swapcontext_def switch_partner_def)

lemma switching_total:
  assumes "sched_reach early W w" "\<not> early" "tid \<in> W" "ph w tid = Switching task f"
  shows "step_switching tid task f w \<noteq> None"
proof -
  have "ctx w (Task f) \<noteq> None"
    using reach_invs(4) [OF assms(1,2)] assms(3,4) by (force simp: saved_inv_def)
  moreover have "fib w f \<noteq> None"
    using state_invD(2) [OF reach_invs(3) [OF assms(1)] assms(3), of f] assms(4) by (auto simp: st_def)
  ultimately show ?thesis
    by (auto simp: step_switching_def resume_switch_def swapcontext_def)
qed


lemma sched_reach_init: "sched_init W w \<Longrightarrow> sched_reach early W w"
  by (rule reachable_init)

lemma sched_reach_step: "sched_reach early W w \<Longrightarrow> sched_step early W w w' \<Longrightarrow> sched_reach early W w'"
  by (rule reachable_step)

text \<open>A scheduler with two threads, before anything is scheduled, and the fiber task number 0.\<close>

definition world0 :: "unit world" where
  "world0 =
     \<lparr>sch = \<lparr>m_tasks = [], m_activeThreadCount = 0, m_idleThreadCount = 0, m_stopping = False, m_useCaller = False,
         m_threadCount = 2, m_rootThread = - 1, tickled = 0\<rparr>,
       fib = Map.empty, ctx = Map.empty,
       thr = (\<lambda>tid. \<lparr>t_fiber = Sched tid, t_thread_fiber = Sched tid, t_scheduler_fiber = Sched tid, executing = Sched tid\<rparr>),
       ph = (\<lambda>tid. Round), idle_term = (\<lambda>tid. False), submitted = {#}, finished = {#}\<rparr>"

definition task0 :: "unit ScheduleTask" where
  "task0 = \<lparr>tk_fiber = Some 0, tk_cb = None, tk_thread = - 1\<rparr>"

lemma world0_init: "finite W \<Longrightarrow> sched_init W world0"
  by (auto simp: sched_init_def world0_def new_Scheduler_def intro!: exI [of _ 2] exI [of _ False])

lemmas run_defs =
  step_round_def run_take_def thread_steps resume_mark_def resume_switch_def swapcontext_def switch_partner_def
  yield_mark_def MainFunc_end_def yield_switch_def is_running_def Let_def

text \<open>The thread 1 has the fiber 0 on its stack.\<close>

definition world1 :: "unit world" where
  "world1 = (let w = submit task0 (make_fiber 0 () world0);
     w = the (step_round 1 w); w = the (step_taken 1 1 task0 w) in the (step_switching 1 task0 0 w))"

lemma world1_reach:
  assumes "finite W" "1 \<in> W"
  shows "sched_reach early W world1" "ph world1 = (\<lambda>tid. Round)(1 := Executing task0 0)" "m_tasks (sch world1) = []"
proof -
  let ?a = "make_fiber 0 () world0" let ?b = "submit task0 ?a"
  have a: "sched_reach early W ?a"
    by (rule sched_reach_step [OF sched_reach_init [OF world0_init [OF assms(1)]] do_make]) (simp add: world0_def)
  have b: "sched_reach early W ?b"
    by (rule sched_reach_step [OF a do_submit])
      (simp add: may_schedule_def pending_def task0_def make_fiber_def world0_def new_Fiber_def)
  note e = submit_def schedule_def scheduleNoLock_def tickle_def world0_def task0_def new_Fiber_def
  obtain c where c: "step_round 1 ?b = Some c" "ph c = (\<lambda>tid. Round)(1 := Taken task0)" "fib c = fib ?b"
      "m_tasks (sch c) = []" "thr c = thr ?b" "ctx c = ctx ?b"
    by (simp add: run_defs e)
  have c': "sched_reach early W c"
    by (rule sched_reach_step [OF b do_round [OF assms(2) _ c(1)]]) (simp add: submit_def make_fiber_def world0_def)
  obtain d where d: "step_taken 1 1 task0 c = Some d" "ph d = (\<lambda>tid. Round)(1 := Switching task0 0)"
      "fib d = [0 \<mapsto> (new_Fiber () True)\<lparr>m_state := RUNNING\<rparr>]" "m_tasks (sch d) = []"
      "t_scheduler_fiber (thr d 1) = Sched 1" "ctx d = [Task 0 \<mapsto> Task 0]"
    using c by (auto simp: run_defs e)
  have d': "sched_reach early W d"
    by (rule sched_reach_step [OF c' do_resume [OF assms(2) _ _ d(1)]]) (simp_all add: c submit_def make_fiber_def world0_def)
  obtain x where x: "step_switching 1 task0 0 d = Some x" "ph x = (\<lambda>tid. Round)(1 := Executing task0 0)" "m_tasks (sch x) = []"
    using d by (auto simp: step_switching_def resume_switch_def swapcontext_def switch_partner_def new_Fiber_def)
  have "world1 = x"
    using c(1) d(1) x(1) by (simp add: world1_def)
  with x sched_reach_step [OF d' do_switch [OF assms(2) _ x(1)]] d(2)
  show "sched_reach early W world1" "ph world1 = (\<lambda>tid. Round)(1 := Executing task0 0)" "m_tasks (sch world1) = []"
    by simp_all
qed

text \<open>
  C40: The hooks register an event before they yield, so that a fiber may be scheduled while it still runs. As
  \<open>yield\<close> marks the fiber as ready before \<open>swapcontext\<close> saves its context, a second thread can then take it and
  switch to a context that is not saved, while the first still executes on the stack of the fiber.
\<close>

theorem yield_race:
  "\<exists>w. sched_reach True {1, 2} w \<and> ph w 1 = Leaving task0 0 \<and> executing (thr w 1) = Task 0 \<and>
     ph w 2 = Switching task0 0 \<and> step_switching 2 task0 0 w = None"
proof -
  let ?W = "{1, 2} :: int set" let ?b = "submit task0 world1"
  have fin: "finite ?W" "1 \<in> ?W" "2 \<in> ?W" by simp_all
  note r1 = world1_reach [OF fin(1,2)]
  have "stack_fiber (ph world1 1) = Some 0" "running_fiber (ph world1 1) = Some 0" using r1(2) by simp_all
  then have i: "executing (thr world1 1) = Task 0" "ctx world1 (Task 0) = None" "st world1 0 = Some RUNNING"
    using reach_invs(2,3) [OF r1(1)] reach_invs(4) [OF r1(1), of False] fin
    by (force simp: ctx_inv_def saved_inv_def state_inv_def)+
  then obtain fb where fb: "fib world1 0 = Some fb" "m_state fb = RUNNING" by (auto simp: st_def)
  have b: "sched_reach True ?W ?b"
    by (rule sched_reach_step [OF r1(1) do_submit])
      (simp add: may_schedule_def task0_def fb pending_def r1(2,3))
  have bq: "m_tasks (sch ?b) = [task0]" "ph ?b = ph world1" "fib ?b = fib world1" "ctx ?b = ctx world1" "thr ?b = thr world1"
    using r1(3) by (simp_all add: submit_def has_work_def task0_def)
  obtain c where c: "step_leave yield_mark 1 task0 0 ?b = Some c" "ph c = (ph ?b)(1 := Leaving task0 0)"
      "fib c 0 = Some (fb\<lparr>m_state := READY\<rparr>)" "ctx c = ctx world1" "executing (thr c 1) = Task 0" "m_tasks (sch c) = [task0]"
    using fb i bq by (auto simp: step_leave_def yield_mark_def)
  have c': "sched_reach True ?W c"
    by (rule sched_reach_step [OF b do_yield [OF fin(2) _ c(1)]]) (simp add: bq r1)
  obtain d where d: "step_round 2 c = Some d" "ph d = (ph c)(2 := Taken task0)" "fib d = fib c" "ctx d = ctx c" "thr d = thr c"
    using c by (auto simp: step_round_def run_take_def is_running_def task0_def Let_def)
  have d': "sched_reach True ?W d"
    by (rule sched_reach_step [OF c' do_round [OF fin(3) _ d(1)]]) (simp add: c bq r1)
  obtain new where new: "fib d new = None"
    using reach_invs(2) [OF d'] by (metis UNIV_I ctx_inv_def domIff ex_new_if_finite infinite_UNIV_nat)
  obtain x where x: "step_taken 2 new task0 d = Some x" "ph x = (ph d)(2 := Switching task0 0)" "ctx x = ctx d"
      "executing (thr x 1) = Task 0" "fib x 0 \<noteq> None"
    using d c by (auto simp: step_taken_def task0_def start_fiber_def resume_mark_def)
  have "sched_reach True ?W x"
    by (rule sched_reach_step [OF d' do_resume [OF fin(3) _ new x(1)]]) (simp add: d)
  then show ?thesis
    using x d c i by (intro exI [of _ x]) (auto simp: step_switching_def resume_switch_def swapcontext_def)
qed

text \<open>One task, from the start of a round of a thread to the start of the next, if its fiber runs to its end.\<close>

lemma head_taken:
  assumes reach: "sched_reach False W w" and q: "m_tasks (sch w) = task # rest"
    and here: "tk_thread task = - 1 \<or> tk_thread task = tid"
  obtains w' where "step_round tid w = Some w'" "ph w' = (ph w)(tid := Taken task)" "m_tasks (sch w') = rest"
    "m_stopping (sch w') = m_stopping (sch w)" "finished w' = finished w" "submitted w' = submitted w" "idle_term w' = idle_term w"
proof -
  have "has_work task"
    using reach_invs(1) [OF reach] q by (simp add: acct_inv_def)
  moreover have "\<not> is_running w f" if "tk_fiber task = Some f" for f
  proof -
    have "st w f = Some READY"
      using reach_invs(4) [OF reach] q that by (auto simp: saved_inv_def queued_def in_map_filter)
    then show ?thesis by (auto simp: is_running_def st_def)
  qed
  ultimately have "take_task tid (is_running w) (m_tasks (sch w)) = Some (Some task, rest, rest \<noteq> [])"
    using q here by (auto simp: has_work_def split: option.splits)
  then show thesis
    by (intro that [of "w\<lparr>sch := (let s = (sch w)\<lparr>m_tasks := rest, m_activeThreadCount := m_activeThreadCount (sch w) + 1\<rparr>
        in if rest \<noteq> [] then tickle s else s), ph := (ph w)(tid := Taken task)\<rparr>"])
      (simp_all add: step_round_def run_take_def Let_def)
qed

lemma fresh_fiber: "sched_reach early W w \<Longrightarrow> \<exists>new. fib w new = None"
  using reach_invs(2) by (metis UNIV_I ctx_inv_def domIff ex_new_if_finite infinite_UNIV_nat)

definition later :: "int set \<Rightarrow> int \<Rightarrow> 'c world \<Rightarrow> 'c world \<Rightarrow> bool" where
  "later W tid w w' \<longleftrightarrow> (sched_step False W)\<^sup>*\<^sup>* w w' \<and> sched_reach False W w' \<and> (\<forall>t. t \<noteq> tid \<longrightarrow> ph w' t = ph w t) \<and>
     m_stopping (sch w') = m_stopping (sch w) \<and> idle_term w' = idle_term w \<and> submitted w' = submitted w"

lemma later_refl: "sched_reach False W w \<Longrightarrow> later W tid w w"
  by (simp add: later_def)

lemma later_step:
  "later W tid w w1 \<Longrightarrow> sched_step False W w1 w2 \<Longrightarrow> (\<And>t. t \<noteq> tid \<Longrightarrow> ph w2 t = ph w1 t) \<Longrightarrow>
     m_stopping (sch w2) = m_stopping (sch w1) \<Longrightarrow> idle_term w2 = idle_term w1 \<Longrightarrow> submitted w2 = submitted w1 \<Longrightarrow> later W tid w w2"
  unfolding later_def by (metis rtranclp.rtrancl_into_rtrancl sched_reach_step)

lemma later_trans: "later W tid w w1 \<Longrightarrow> later W tid w1 w2 \<Longrightarrow> later W tid w w2"
  unfolding later_def by (metis rtranclp_trans)

lemma idle_term_keeps:
  "step_taken tid new task w = Some w' \<Longrightarrow> idle_term w' = idle_term w"
  "step_switching tid task f w = Some w' \<Longrightarrow> idle_term w' = idle_term w"
  "step_leave leave tid task f w = Some w' \<Longrightarrow> idle_term w' = idle_term w"
  "step_leaving tid task f w = Some w' \<Longrightarrow> idle_term w' = idle_term w"
  by (auto simp: thread_steps split: option.splits prod.splits)

lemma run_one:
  assumes reach: "sched_reach False W w" and tid: "tid \<in> W" "ph w tid = Round" and q: "m_tasks (sch w) = task # rest"
    and here: "tk_thread task = - 1 \<or> tk_thread task = tid"
  shows "\<exists>w'. later W tid w w' \<and> ph w' tid = Round \<and> m_tasks (sch w') = rest \<and> finished w' = add_mset task (finished w)"
proof -
  obtain a where a: "step_round tid w = Some a" "ph a = (ph w)(tid := Taken task)" "m_tasks (sch a) = rest"
    "m_stopping (sch a) = m_stopping (sch w)" "finished a = finished w" "submitted a = submitted w" "idle_term a = idle_term w"
    using head_taken [OF reach q here] by blast
  have la: "later W tid w a"
    by (rule later_step [OF later_refl [OF reach] do_round [OF tid a(1)]]) (simp_all add: a)
  then have ra: "sched_reach False W a" by (simp add: later_def)
  obtain new where new: "fib a new = None" using fresh_fiber [OF ra] by blast
  have pa: "ph a tid = Taken task" by (simp add: a)
  obtain b where b: "step_taken tid new task a = Some b" using taken_total [OF ra tid(1) pa] by blast
  note kb = step_taken_keeps [OF b] idle_term_keeps(1) [OF b]
  obtain f where f: "ph b = (ph a)(tid := Switching task f)" using kb by blast
  have lb: "later W tid w b"
    by (rule later_step [OF la do_resume [OF tid(1) pa new b]]) (simp_all add: kb)
  then have rb: "sched_reach False W b" by (simp add: later_def)
  have pb: "ph b tid = Switching task f" by (simp add: f)
  obtain c where c: "step_switching tid task f b = Some c" using switching_total [OF rb _ tid(1) pb] by blast
  note kc = step_switching_keeps [OF c] idle_term_keeps(2) [OF c]
  have lc: "later W tid w c"
    by (rule later_step [OF lb do_switch [OF tid(1) pb c]]) (simp_all add: kc)
  then have rc: "sched_reach False W c" by (simp add: later_def)
  have pc: "ph c tid = Executing task f" by (simp add: kc)
  have np: "\<not> pending W c f"
  proof -
    have "ctx c (Task f) = None" using reach_invs(4) [OF rc] tid(1) pc by (force simp: saved_inv_def)
    then show ?thesis using reach_invs(4) [OF rc] by (auto simp: saved_inv_def pending_iff)
  qed
  obtain d where d: "step_leave MainFunc_end tid task f c = Some d" using leave_total(2) [OF rc tid(1) pc] by blast
  note kd = step_leave_keeps [OF d] idle_term_keeps(3) [OF d]
  have ld: "later W tid w d"
    by (rule later_step [OF lc do_end [OF tid(1) pc np d]]) (simp_all add: kd)
  then have rd: "sched_reach False W d" by (simp add: later_def)
  have pd: "ph d tid = Leaving task f" by (simp add: kd)
  obtain x where x: "step_leaving tid task f d = Some x" using leaving_total [OF rd tid(1) pd] by blast
  note kx = step_leaving_keeps [OF x] idle_term_keeps(4) [OF x]
  have lx: "later W tid w x"
    by (rule later_step [OF ld do_switch_back [OF tid(1) pd x]]) (simp_all add: kx)
  have px: "ph x tid = Returned task" by (simp add: kx)
  have "later W tid w (step_returned tid task x)"
    by (rule later_step [OF lx do_return [OF tid(1) px]]) (simp_all add: step_returned_def)
  then show ?thesis
    using a kb kc kd kx by (intro exI [of _ "step_returned tid task x"]) (simp add: step_returned_def)
qed

lemma run_all:
  assumes "sched_reach False W w" "tid \<in> W" "ph w tid = Round"
    and "\<forall>task\<in>set (m_tasks (sch w)). tk_thread task = - 1 \<or> tk_thread task = tid"
  shows "\<exists>w'. later W tid w w' \<and> ph w' tid = Round \<and> m_tasks (sch w') = [] \<and>
    finished w' = finished w + mset (m_tasks (sch w))"
  using assms
proof (induction "m_tasks (sch w)" arbitrary: w)
  case Nil
  then show ?case by (intro exI [of _ w]) (auto intro: later_refl)
next
  case (Cons task rest)
  obtain w1 where w1: "later W tid w w1" "ph w1 tid = Round" "m_tasks (sch w1) = rest" "finished w1 = add_mset task (finished w)"
    using run_one [OF Cons.prems(1-3) Cons.hyps(2) [symmetric]] Cons.prems(4) Cons.hyps(2) [symmetric] by auto
  have "sched_reach False W w1" using w1(1) by (simp add: later_def)
  then obtain w2 where "later W tid w1 w2" "ph w2 tid = Round" "m_tasks (sch w2) = []" "finished w2 = finished w1 + mset rest"
    using Cons.hyps(1) [of w1] Cons.prems(2,4) Cons.hyps(2) [symmetric] w1 by auto
  with w1 Cons.hyps(2) [symmetric] show ?case
    by (intro exI [of _ w2]) (auto intro: later_trans)
qed

text \<open>A thread with nothing to do leaves the loop once \<open>stopping\<close> answers true.\<close>

lemma round_empty:
  "m_tasks (sch w) = [] \<Longrightarrow> step_round tid w = Some (if idle_term w tid then w\<lparr>ph := (ph w)(tid := Exited)\<rparr>
     else w\<lparr>sch := (sch w)\<lparr>m_idleThreadCount := m_idleThreadCount (sch w) + 1\<rparr>, ph := (ph w)(tid := Idle)\<rparr>)"
  by (simp add: step_round_def run_take_def Let_def)

lemma stop_exits:
  assumes tid: "tid \<in> W" "ph w tid = Round" and stop: "Scheduler_stopping (sch w)"
  shows "\<exists>w'. (sched_step early W)\<^sup>*\<^sup>* w w' \<and> ph w' tid = Exited \<and> finished w' = finished w \<and> submitted w' = submitted w"
proof (cases "idle_term w tid")
  case True
  have "sched_step early W w (w\<lparr>ph := (ph w)(tid := Exited)\<rparr>)"
    using True stop by (intro do_round [OF tid]) (simp add: round_empty Scheduler_stopping_def)
  then show ?thesis
    by (intro exI conjI, rule r_into_rtranclp) auto
next
  case False
  define a where "a = w\<lparr>sch := (sch w)\<lparr>m_idleThreadCount := m_idleThreadCount (sch w) + 1\<rparr>, ph := (ph w)(tid := Idle)\<rparr>"
  have sa: "sched_step early W w a"
    using False stop by (intro do_round [OF tid]) (simp add: a_def round_empty Scheduler_stopping_def)
  have sb: "sched_step early W a (step_idle tid a)"
    by (rule do_idle [OF tid(1)]) (simp add: a_def)
  let ?b = "step_idle tid a"
  have b: "ph ?b tid = Round" "idle_term ?b tid" "m_tasks (sch ?b) = []"
    using stop by (simp_all add: step_idle_def a_def Scheduler_stopping_def)
  have "sched_step early W ?b (?b\<lparr>ph := (ph ?b)(tid := Exited)\<rparr>)"
    using b by (intro do_round [OF tid(1)]) (simp_all add: round_empty)
  with sa sb show ?thesis
    by (intro exI [of _ "?b\<lparr>ph := (ph ?b)(tid := Exited)\<rparr>"])
      (auto simp: step_idle_def a_def intro: rtranclp.rtrancl_into_rtrancl)
qed


section \<open>The hypotheses can hold\<close>

text \<open>A callback is scheduled and the scheduler is stopped.\<close>

definition world_stop :: "unit world" where
  "world_stop = (let w = submit \<lparr>tk_fiber = None, tk_cb = Some (), tk_thread = - 1\<rparr> world0
     in w\<lparr>sch := the (Scheduler_stop False (sch w))\<rparr>)"

lemma world_stop_reach: "finite W \<Longrightarrow> sched_reach early W world_stop"
proof -
  assume fin: "finite W"
  let ?t = "\<lparr>tk_fiber = None, tk_cb = Some (), tk_thread = - 1\<rparr>"
  have r: "sched_reach early W (submit ?t world0)"
    by (rule sched_reach_step [OF sched_reach_init [OF world0_init [OF fin]] do_submit]) (simp add: may_schedule_def)
  have "Scheduler_stop False (sch (submit ?t world0)) = Some (sch world_stop)"
    by (simp add: world_stop_def Scheduler_stop_def Scheduler_stopping_def submit_def has_work_def schedule_def
        scheduleNoLock_def tickle_def world0_def Let_def)
  from sched_reach_step [OF r do_stop [OF this]] show ?thesis
    by (simp add: world_stop_def Let_def)
qed

theorem scheduler_no_task_lost_witness:
  "submitted world1 = mset (m_tasks (sch world1)) + in_hand {1} world1 + finished world1"
  using scheduler_no_task_lost [OF world1_reach(1) [of "{1}" False]] by simp



end
