(* ===== verification/Timers.thy ===== *)
theory Timers
  imports Std_Map
begin

text \<open>
  \<open>timer.h\<close> and \<open>timer.cc\<close>: timers and their manager.

  A timer is an object on the heap that the set \<open>m_timers\<close> refers to by pointer; the set is
  ordered by the time a timer is due, then by its address, so that the order depends on the
  heap. The record of the manager holds this heap (\<open>tm_heap\<close>), the addresses of the timers it
  has made (\<open>tm_made\<close>) and the number of calls of the virtual function
  \<open>onTimerInsertedAtFront\<close> (\<open>tm_notified\<close>). The address 0 is the null pointer. The clock
  (\<open>GetElapsedMS\<close>) and the address of a new object are arguments. Every function holds the lock
  of the manager while it runs, except for the clock it reads before it takes it.
\<close>

section \<open>Timers and their order\<close>

text \<open>A callback is a plain function, or one bound to \<open>OnTimer\<close> with a weak pointer.\<close>

datatype ('w, 'c) callback = Fun 'c | OnTimer 'w 'c

fun run_callback_if :: "('w \<Rightarrow> bool) \<Rightarrow> ('w, 'c) callback \<Rightarrow> 'c option" where
  "run_callback_if alive (Fun cb) = Some cb"
| "run_callback_if alive (OnTimer weak_cond cb) = (if alive weak_cond then Some cb else None)"

record 'b Timer =
  m_recurring :: bool
  m_ms :: u64
  m_next :: u64
  m_cb :: "'b option"

type_synonym 'b heap = "nat \<Rightarrow> 'b Timer"

definition Comparator :: "'b heap \<Rightarrow> nat \<Rightarrow> nat \<Rightarrow> bool" where
  "Comparator h lhs rhs \<longleftrightarrow>
     (if lhs = 0 \<and> rhs = 0 then False
      else if lhs = 0 then True
      else if rhs = 0 then False
      else if m_next (h lhs) < m_next (h rhs) then True
      else if m_next (h rhs) < m_next (h lhs) then False
      else lhs < rhs)"

definition new_Timer :: "u64 \<Rightarrow> u64 \<Rightarrow> 'b option \<Rightarrow> bool \<Rightarrow> 'b Timer" where
  "new_Timer now ms cb recurring = \<lparr>m_recurring = recurring, m_ms = ms, m_next = now + ms, m_cb = cb\<rparr>"

definition Timer_at :: "u64 \<Rightarrow> 'b Timer" where
  "Timer_at nxt = \<lparr>m_recurring = False, m_ms = 0, m_next = nxt, m_cb = None\<rparr>"

section \<open>The manager\<close>

record 'b TimerManager =
  tm_heap :: "'b heap"
  tm_made :: "nat list"
  m_timers :: "(nat, unit) std_map"
  m_tickled :: bool
  m_previouseTime :: u64
  tm_notified :: nat

definition new_TimerManager :: "u64 \<Rightarrow> 'b TimerManager" where
  "new_TimerManager now =
     \<lparr>tm_heap = (\<lambda>_. Timer_at 0), tm_made = [], m_timers = [], m_tickled = False, m_previouseTime = now,
      tm_notified = 0\<rparr>"

definition upd_timer :: "nat \<Rightarrow> ('b Timer \<Rightarrow> 'b Timer) \<Rightarrow> 'b TimerManager \<Rightarrow> 'b TimerManager" where
  "upd_timer t f M = M\<lparr>tm_heap := (tm_heap M)(t := f (tm_heap M t))\<rparr>"

definition set_find :: "nat \<Rightarrow> 'b TimerManager \<Rightarrow> bool" where
  "set_find t M \<longleftrightarrow> map_find (Comparator (tm_heap M)) t (m_timers M) \<noteq> None"

definition set_erase :: "nat \<Rightarrow> 'b TimerManager \<Rightarrow> 'b TimerManager" where
  "set_erase t M = M\<lparr>m_timers := map_erase (Comparator (tm_heap M)) t (m_timers M)\<rparr>"

definition set_insert :: "nat \<Rightarrow> 'b TimerManager \<Rightarrow> 'b TimerManager" where
  "set_insert t M = M\<lparr>m_timers := map_insert (Comparator (tm_heap M)) t () (m_timers M)\<rparr>"

text \<open>The protected \<open>addTimer(val, lock)\<close>.\<close>

definition addTimer_locked :: "nat \<Rightarrow> 'b TimerManager \<Rightarrow> 'b TimerManager" where
  "addTimer_locked t M =
     (let M = set_insert t M;
          at_front = (m_timers M \<noteq> [] \<and> fst (hd (m_timers M)) = t \<and> \<not> m_tickled M)
      in if at_front then M\<lparr>m_tickled := True, tm_notified := tm_notified M + 1\<rparr> else M)"

definition addTimer :: "u64 \<Rightarrow> nat \<Rightarrow> u64 \<Rightarrow> 'b option \<Rightarrow> bool \<Rightarrow> 'b TimerManager \<Rightarrow> 'b TimerManager" where
  "addTimer now t ms cb recurring M =
     addTimer_locked t (M\<lparr>tm_heap := (tm_heap M)(t := new_Timer now ms cb recurring), tm_made := t # tm_made M\<rparr>)"

definition addConditionTimer ::
  "u64 \<Rightarrow> nat \<Rightarrow> u64 \<Rightarrow> 'c \<Rightarrow> 'w \<Rightarrow> bool \<Rightarrow> ('w, 'c) callback TimerManager \<Rightarrow> ('w, 'c) callback TimerManager" where
  "addConditionTimer now t ms cb weak_cond recurring M = addTimer now t ms (Some (OnTimer weak_cond cb)) recurring M"

text \<open>\<open>Timer::cancel\<close>; \<open>None\<close> is \<open>erase(end())\<close>, which is undefined.\<close>

definition cancel :: "nat \<Rightarrow> 'b TimerManager \<Rightarrow> (bool \<times> 'b TimerManager) option" where
  "cancel t M =
     (if m_cb (tm_heap M t) \<noteq> None
      then let M = upd_timer t (\<lambda>x. x\<lparr>m_cb := None\<rparr>) M
           in if set_find t M then Some (True, set_erase t M) else None
      else Some (False, M))"

definition refresh :: "u64 \<Rightarrow> nat \<Rightarrow> 'b TimerManager \<Rightarrow> bool \<times> 'b TimerManager" where
  "refresh now t M =
     (if m_cb (tm_heap M t) = None then (False, M)
      else if \<not> set_find t M then (False, M)
      else let M = set_erase t M;
               M = upd_timer t (\<lambda>x. x\<lparr>m_next := now + m_ms x\<rparr>) M
           in (True, set_insert t M))"

definition reset :: "u64 \<Rightarrow> u64 \<Rightarrow> bool \<Rightarrow> nat \<Rightarrow> 'b TimerManager \<Rightarrow> bool \<times> 'b TimerManager" where
  "reset now ms from_now t M =
     (if ms = m_ms (tm_heap M t) \<and> \<not> from_now then (True, M)
      else if m_cb (tm_heap M t) = None then (False, M)
      else if \<not> set_find t M then (False, M)
      else let M = set_erase t M;
               start = (if from_now then now else m_next (tm_heap M t) - m_ms (tm_heap M t));
               M = upd_timer t (\<lambda>x. x\<lparr>m_ms := ms, m_next := start + ms\<rparr>) M
           in (True, addTimer_locked t M))"

definition getNextTimer :: "u64 \<Rightarrow> 'b TimerManager \<Rightarrow> u64 \<times> 'b TimerManager" where
  "getNextTimer now_ms M =
     (let M = M\<lparr>m_tickled := False\<rparr> in
      case m_timers M of
        [] \<Rightarrow> (- 1, M)
      | (t, _) # _ \<Rightarrow>
          let nxt = m_next (tm_heap M t) in (if now_ms \<ge> nxt then 0 else nxt - now_ms, M))"

definition detectClockRollover :: "u64 \<Rightarrow> 'b TimerManager \<Rightarrow> bool \<times> 'b TimerManager" where
  "detectClockRollover now_ms M =
     (now_ms < m_previouseTime M \<and> now_ms < m_previouseTime M - 60 * 60 * 1000,
      M\<lparr>m_previouseTime := now_ms\<rparr>)"

text \<open>The body of the loop over the expired timers, with the callbacks collected so far.\<close>

definition expire :: "u64 \<Rightarrow> 'b option list \<times> 'b TimerManager \<Rightarrow> nat \<Rightarrow> 'b option list \<times> 'b TimerManager" where
  "expire now_ms = (\<lambda>(cbs, M) t.
     (cbs @ [m_cb (tm_heap M t)],
      if m_recurring (tm_heap M t)
      then set_insert t (upd_timer t (\<lambda>x. x\<lparr>m_next := now_ms + m_ms x\<rparr>) M)
      else upd_timer t (\<lambda>x. x\<lparr>m_cb := None\<rparr>) M))"

text \<open>The iterator \<open>it\<close> as the entries before it: \<open>lower_bound(now_timer)\<close>, the timer \<open>now_timer\<close>
  being at the address \<open>a\<close>, and then the \<open>while\<close> loop.\<close>

definition expired_range :: "u64 \<Rightarrow> nat \<Rightarrow> 'b TimerManager \<Rightarrow> nat list" where
  "expired_range now_ms a M =
     (let ts = map fst (m_timers M);
          before = takeWhile (\<lambda>t. Comparator ((tm_heap M)(a := Timer_at now_ms)) t a) ts
      in before @ takeWhile (\<lambda>t. m_next (tm_heap M t) = now_ms) (drop (length before) ts))"

definition listExpiredCb :: "u64 \<Rightarrow> nat \<Rightarrow> 'b TimerManager \<Rightarrow> 'b option list \<times> 'b TimerManager" where
  "listExpiredCb now_ms a M =
     (if m_timers M = [] then ([], M)
      else case detectClockRollover now_ms M of
        (rollover, M) \<Rightarrow>
          if \<not> rollover \<and> m_next (tm_heap M (fst (hd (m_timers M)))) > now_ms then ([], M)
          else
            let expired = (if rollover then map fst (m_timers M) else expired_range now_ms a M);
                M = M\<lparr>m_timers := drop (length expired) (m_timers M)\<rparr>
            in foldl (expire now_ms) ([], M) expired)"

definition hasTimer :: "'b TimerManager \<Rightarrow> bool" where
  "hasTimer M \<longleftrightarrow> m_timers M \<noteq> []"

section \<open>The order\<close>

interpretation timer_order: std_compare "Comparator h" for h :: "'b heap"
  by unfold_locales (auto simp: Comparator_def split: if_splits)

lemma same_timer: "same_key (Comparator h) a b \<longleftrightarrow> a = b"
  by (auto simp: same_key_def Comparator_def split: if_splits)

lemma find_timer: "map_find (Comparator h) t m \<noteq> None \<longleftrightarrow> t \<in> fst ` set m"
  by (induction m) (auto simp: same_timer)

abbreviation timers :: "'b TimerManager \<Rightarrow> nat set" where
  "timers M \<equiv> fst ` set (m_timers M)"

lemma Comparator_cong:
  "m_next (h a) = m_next (h' a) \<Longrightarrow> m_next (h b) = m_next (h' b) \<Longrightarrow> Comparator h a b = Comparator h' a b"
  by (simp add: Comparator_def)

lemma timer_map_ok_cong:
  assumes "\<And>t. t \<in> fst ` set m \<Longrightarrow> m_next (h t) = m_next (h' t)"
  shows "map_ok (Comparator h) m \<longleftrightarrow> map_ok (Comparator h') m"
  using assms
proof (induction m)
  case (Cons e m)
  moreover have "Comparator h (fst e) (fst e') = Comparator h' (fst e) (fst e')" if "e' \<in> set m" for e'
    using Cons.prems [of "fst e"] Cons.prems [of "fst e'"] that by (intro Comparator_cong) auto
  ultimately show ?case
    by auto
qed simp

lemma timer_insert_set: "fst ` set (map_insert (Comparator h) t () m) = insert t (fst ` set m)"
proof (induction m)
  case (Cons e m)
  have "\<not> Comparator h t (fst e) \<Longrightarrow> \<not> Comparator h (fst e) t \<Longrightarrow> fst e = t"
    using same_timer [of h t "fst e"] by (simp add: same_key_def)
  with Cons show ?case
    by (cases e) auto
qed simp

lemma timer_erase_set: "map_ok (Comparator h) m \<Longrightarrow> fst ` set (map_erase (Comparator h) t m) = fst ` set m - {t}"
proof (induction m)
  case (Cons e m)
  have "fst e \<notin> fst ` set m"
    using Cons.prems timer_order.irrefl [of h] by (auto dest!: bspec)
  with Cons show ?case
    by (cases e) (auto simp: same_timer)
qed simp

lemma set_find_iff: "set_find t M \<longleftrightarrow> t \<in> timers M"
  unfolding set_find_def by (rule find_timer)

section \<open>The invariant\<close>

definition timers_ok :: "'b TimerManager \<Rightarrow> bool" where
  "timers_ok M \<longleftrightarrow> map_ok (Comparator (tm_heap M)) (m_timers M) \<and> 0 \<notin> set (tm_made M) \<and>
     timers M \<subseteq> set (tm_made M) \<and>
     (\<forall>t\<in>set (tm_made M). m_cb (tm_heap M t) \<noteq> None \<longrightarrow> t \<in> timers M)"

lemma timers_ok_insert:
  assumes "timers_ok (M\<lparr>m_timers := m_timers M\<rparr>)" and "t \<in> set (tm_made M)"
  shows "timers_ok (set_insert t M)"
  using assms by (auto simp: timers_ok_def set_insert_def timer_insert_set timer_order.map_ok_insert)

text \<open>Taking a timer out of the set, changing it and putting it back.\<close>

lemma timers_ok_update:
  assumes "timers_ok M" and "t \<in> set (tm_made M)"
  shows "timers_ok (set_insert t (upd_timer t f (set_erase t M)))"
proof -
  let ?m = "map_erase (Comparator (tm_heap M)) t (m_timers M)" and ?h = "(tm_heap M)(t := f (tm_heap M t))"
  have "fst ` set ?m = timers M - {t}"
    using assms by (simp add: timers_ok_def timer_erase_set)
  moreover have "map_ok (Comparator ?h) ?m"
    using assms calculation timer_map_ok_cong [of ?m ?h "tm_heap M"]
    by (auto simp: timers_ok_def timer_order.map_ok_erase)
  ultimately show ?thesis
    using assms
    by (auto simp: timers_ok_def set_insert_def upd_timer_def set_erase_def timer_insert_set timer_order.map_ok_insert)
qed

lemma addTimer_locked_ok:
  "timers_ok (set_insert t M) \<Longrightarrow> timers_ok (addTimer_locked t M)"
  by (auto simp: addTimer_locked_def timers_ok_def Let_def)

lemma addTimer_ok:
  assumes "timers_ok M" and "t \<noteq> 0" and "t \<notin> set (tm_made M)"
  shows "timers_ok (addTimer now t ms cb recurring M)"
proof -
  let ?h = "(tm_heap M)(t := new_Timer now ms cb recurring)"
  have "map_ok (Comparator ?h) (m_timers M)"
    using assms timer_map_ok_cong [of "m_timers M" ?h "tm_heap M"] by (fastforce simp: timers_ok_def)
  then show ?thesis
    unfolding addTimer_def using assms
    by (intro addTimer_locked_ok)
      (auto simp: timers_ok_def set_insert_def timer_insert_set timer_order.map_ok_insert)
qed

lemma cancel_ok:
  assumes "timers_ok M" and "t \<in> set (tm_made M)"
  shows "\<exists>b M'. cancel t M = Some (b, M') \<and> timers_ok M' \<and> t \<notin> timers M' \<or> cancel t M = Some (False, M)"
proof (cases "m_cb (tm_heap M t)")
  case (Some cb)
  let ?M = "upd_timer t (\<lambda>x. x\<lparr>m_cb := None\<rparr>) M"
  have "map_ok (Comparator (tm_heap ?M)) (m_timers M)"
    using assms timer_map_ok_cong [of "m_timers M" "tm_heap ?M" "tm_heap M"]
    by (auto simp: timers_ok_def upd_timer_def)
  moreover from this have "timers (set_erase t ?M) = timers M - {t}"
    by (simp add: set_erase_def upd_timer_def timer_erase_set)
  moreover have "set_find t ?M"
    using assms Some by (auto simp: set_find_iff timers_ok_def upd_timer_def)
  ultimately have "timers_ok (set_erase t ?M)" and "t \<notin> timers (set_erase t ?M)" and "cancel t M = Some (True, set_erase t ?M)"
    using assms Some
    by (auto simp: timers_ok_def set_erase_def upd_timer_def timer_order.map_ok_erase cancel_def split: if_splits)
  then show ?thesis
    by blast
qed (simp add: cancel_def)

lemma refresh_ok: "timers_ok M \<Longrightarrow> t \<in> set (tm_made M) \<Longrightarrow> timers_ok (snd (refresh now t M))"
  by (simp add: refresh_def timers_ok_update Let_def)

lemma reset_ok: "timers_ok M \<Longrightarrow> t \<in> set (tm_made M) \<Longrightarrow> timers_ok (snd (reset now ms from_now t M))"
  by (simp add: reset_def timers_ok_update addTimer_locked_ok Let_def)

section \<open>Expiry\<close>

lemma timer_order_next: "Comparator h a b \<Longrightarrow> a \<noteq> 0 \<Longrightarrow> m_next (h a) \<le> m_next (h b)"
  by (auto simp: Comparator_def split: if_splits)

lemma takeWhile_two:
  assumes "sorted_wrt (\<lambda>x y. k x \<le> k y) xs"
    and "\<And>x. x \<in> set xs \<Longrightarrow> P x \<Longrightarrow> k x \<le> n" and "\<And>x. x \<in> set xs \<Longrightarrow> \<not> P x \<Longrightarrow> n \<le> (k x :: 'k::linorder)"
  shows "takeWhile P xs @ takeWhile (\<lambda>x. k x = n) (drop (length (takeWhile P xs)) xs) = filter (\<lambda>x. k x \<le> n) xs"
  using assms
proof (induction xs)
  case (Cons x xs)
  have all: "takeWhile (\<lambda>x. k x = n) ys = filter (\<lambda>x. k x \<le> n) ys"
    if "sorted_wrt (\<lambda>x y. k x \<le> k y) ys" "\<forall>y\<in>set ys. n \<le> k y" for ys
    using that
  proof (induction ys)
    case (Cons y ys)
    have "k y \<noteq> n \<Longrightarrow> filter (\<lambda>x. k x \<le> n) ys = []"
      using Cons.prems by (fastforce simp: filter_empty_conv)
    with Cons show ?case
      by auto
  qed simp
  show ?case
  proof (cases "P x")
    case True
    with Cons show ?thesis by simp
  next
    case False
    then have "n \<le> k x"
      using Cons.prems(3) [of x] by simp
    then have "\<forall>y\<in>set (x # xs). n \<le> k y"
      using Cons.prems(1) by auto
    with False all [OF Cons.prems(1)] show ?thesis
      by simp
  qed
qed simp

lemma map_ok_sorted:
  assumes "map_ok (Comparator h) m" and "0 \<notin> fst ` set m"
  shows "sorted_wrt (\<lambda>x y. m_next (h x) \<le> m_next (h y)) (map fst m)" and "distinct (map fst m)"
proof -
  have "sorted_wrt (\<lambda>x y. m_next (h x) \<le> m_next (h y)) (map fst m) \<and> distinct (map fst m)"
    using assms
  proof (induction m)
    case (Cons e m)
    have "fst e \<notin> fst ` set m"
      using Cons.prems timer_order.irrefl [of h] by (auto dest!: bspec)
    with Cons show ?case
      by (auto intro: timer_order_next)
  qed simp
  then show "sorted_wrt (\<lambda>x y. m_next (h x) \<le> m_next (h y)) (map fst m)" and "distinct (map fst m)"
    by auto
qed

text \<open>The timers that are due, in the order of the set.\<close>

definition due :: "u64 \<Rightarrow> 'b TimerManager \<Rightarrow> nat list" where
  "due now M = filter (\<lambda>t. m_next (tm_heap M t) \<le> now) (map fst (m_timers M))"

lemma expired_range_due:
  assumes "timers_ok M" and "a \<noteq> 0" and "a \<notin> timers M"
  shows "expired_range now a M = due now M"
proof -
  have z: "0 \<notin> timers M"
    using assms(1) by (auto simp: timers_ok_def)
  let ?P = "\<lambda>t. Comparator ((tm_heap M)(a := Timer_at now)) t a" and ?k = "\<lambda>t. m_next (tm_heap M t)"
  have P: "t \<in> timers M \<Longrightarrow> ?P t \<longleftrightarrow> ?k t < now \<or> ?k t = now \<and> t < a" for t
    using assms(2,3) z by (auto simp: Comparator_def Timer_at_def)
  have "sorted_wrt (\<lambda>x y. ?k x \<le> ?k y) (map fst (m_timers M))"
    using map_ok_sorted(1) [of "tm_heap M" "m_timers M"] assms(1) z by (simp add: timers_ok_def)
  then have "takeWhile ?P (map fst (m_timers M)) @
      takeWhile (\<lambda>t. ?k t = now) (drop (length (takeWhile ?P (map fst (m_timers M)))) (map fst (m_timers M))) =
    filter (\<lambda>t. ?k t \<le> now) (map fst (m_timers M))"
    by (rule takeWhile_two) (use P in \<open>auto simp: not_less\<close>)
  then show ?thesis
    by (simp add: expired_range_def due_def Let_def)
qed

text \<open>What happens to a timer that has fired.\<close>

definition fired :: "u64 \<Rightarrow> 'b Timer \<Rightarrow> 'b Timer" where
  "fired now x = (if m_recurring x then x\<lparr>m_next := now + m_ms x\<rparr> else x\<lparr>m_cb := None\<rparr>)"

text \<open>The invariant while the timers \<open>ts\<close> are out of the set.\<close>

definition timers_ok_but :: "nat set \<Rightarrow> 'b TimerManager \<Rightarrow> bool" where
  "timers_ok_but ts M \<longleftrightarrow> map_ok (Comparator (tm_heap M)) (m_timers M) \<and> 0 \<notin> set (tm_made M) \<and>
     timers M \<subseteq> set (tm_made M) \<and> ts \<subseteq> set (tm_made M) \<and> ts \<inter> timers M = {} \<and>
     (\<forall>t\<in>set (tm_made M) - ts. m_cb (tm_heap M t) \<noteq> None \<longrightarrow> t \<in> timers M)"

lemma timers_ok_but_empty: "timers_ok_but {} M \<longleftrightarrow> timers_ok M"
  by (auto simp: timers_ok_but_def timers_ok_def)

lemma expire_step:
  assumes "timers_ok_but (insert t ts) M" and "t \<notin> ts"
  shows "\<exists>M'. expire now (cbs, M) t = (cbs @ [m_cb (tm_heap M t)], M') \<and> timers_ok_but ts M' \<and>
    tm_heap M' = (tm_heap M)(t := fired now (tm_heap M t)) \<and>
    timers M' = (if m_recurring (tm_heap M t) then insert t (timers M) else timers M)"
proof -
  let ?h = "(tm_heap M)(t := fired now (tm_heap M t))"
  have "map_ok (Comparator ?h) (m_timers M)"
    using assms timer_map_ok_cong [of "m_timers M" ?h "tm_heap M"] by (fastforce simp: timers_ok_but_def)
  then show ?thesis
    using assms
    by (auto simp: expire_def set_insert_def upd_timer_def fired_def timers_ok_but_def timer_insert_set
        timer_order.map_ok_insert)
qed

lemma expire_all:
  assumes "timers_ok_but (set ts) M" and "distinct ts"
  shows "\<exists>M'. foldl (expire now) (cbs, M) ts = (cbs @ map (\<lambda>t. m_cb (tm_heap M t)) ts, M') \<and> timers_ok M' \<and>
    tm_heap M' = (\<lambda>t. if t \<in> set ts then fired now (tm_heap M t) else tm_heap M t) \<and>
    timers M' = timers M \<union> {t \<in> set ts. m_recurring (tm_heap M t)}"
  using assms
proof (induction ts arbitrary: cbs M)
  case Nil
  then show ?case
    by (simp add: timers_ok_but_empty)
next
  case (Cons t ts)
  obtain M1 where M1: "expire now (cbs, M) t = (cbs @ [m_cb (tm_heap M t)], M1)" "timers_ok_but (set ts) M1"
    "tm_heap M1 = (tm_heap M)(t := fired now (tm_heap M t))"
    "timers M1 = (if m_recurring (tm_heap M t) then insert t (timers M) else timers M)"
    using expire_step [of t "set ts" M now cbs] Cons.prems by auto
  obtain M' where M': "foldl (expire now) (cbs @ [m_cb (tm_heap M t)], M1) ts =
      (cbs @ [m_cb (tm_heap M t)] @ map (\<lambda>t. m_cb (tm_heap M1 t)) ts, M')" "timers_ok M'"
    "tm_heap M' = (\<lambda>t. if t \<in> set ts then fired now (tm_heap M1 t) else tm_heap M1 t)"
    "timers M' = timers M1 \<union> {t \<in> set ts. m_recurring (tm_heap M1 t)}"
    using Cons.IH [OF M1(2), of "cbs @ [m_cb (tm_heap M t)]"] Cons.prems(2) by auto
  have same: "u \<in> set ts \<Longrightarrow> tm_heap M1 u = tm_heap M u" for u
    using Cons.prems(2) M1(3) by auto
  then have "map (\<lambda>t. m_cb (tm_heap M1 t)) ts = map (\<lambda>t. m_cb (tm_heap M t)) ts"
    by simp
  moreover have "timers M' = timers M \<union> {u \<in> set (t # ts). m_recurring (tm_heap M u)}"
    using M'(4) M1(4) same by (auto split: if_splits)
  moreover have "tm_heap M' = (\<lambda>u. if u \<in> set (t # ts) then fired now (tm_heap M u) else tm_heap M u)"
    unfolding M'(3) using M1(3) Cons.prems(2) by (auto simp: fun_eq_iff)
  ultimately show ?case
    using M1(1) M'(1,2) by simp
qed

lemma sorted_filter_takeWhile:
  "sorted_wrt (\<lambda>x y. k x \<le> k y) xs \<Longrightarrow> filter (\<lambda>x. k x \<le> n) xs = takeWhile (\<lambda>x. k x \<le> (n :: 'k::linorder)) xs"
proof (induction xs)
  case (Cons x xs)
  have "\<not> k x \<le> n \<Longrightarrow> filter (\<lambda>x. k x \<le> n) xs = []"
    using Cons.prems by (fastforce simp: filter_empty_conv)
  with Cons show ?case
    by auto
qed simp

lemma due_prefix:
  assumes "timers_ok M"
  shows "fst ` set (drop (length (due now M)) (m_timers M)) = timers M - set (due now M)" "distinct (due now M)"
proof -
  let ?ts = "map fst (m_timers M)" and ?P = "\<lambda>t. m_next (tm_heap M t) \<le> now"
  have z: "0 \<notin> timers M"
    using assms by (auto simp: timers_ok_def)
  note srt = map_ok_sorted [of "tm_heap M" "m_timers M"]
  have d: "due now M = takeWhile ?P ?ts" and dist: "distinct ?ts"
    using srt assms z by (simp_all add: due_def timers_ok_def sorted_filter_takeWhile)
  have "drop (length (due now M)) ?ts = dropWhile ?P ?ts"
    by (simp add: d dropWhile_eq_drop)
  moreover have "set ?ts = set (takeWhile ?P ?ts) \<union> set (dropWhile ?P ?ts)"
    by (metis set_append takeWhile_dropWhile_id)
  moreover have "set (takeWhile ?P ?ts) \<inter> set (dropWhile ?P ?ts) = {}"
    by (metis dist distinct_append takeWhile_dropWhile_id)
  ultimately have "set (drop (length (due now M)) ?ts) = set ?ts - set (due now M)"
    unfolding d by auto
  then show "fst ` set (drop (length (due now M)) (m_timers M)) = timers M - set (due now M)"
    by (simp add: drop_map flip: set_map)
  show "distinct (due now M)"
    using dist by (simp add: due_def)
qed

definition expiring :: "u64 \<Rightarrow> 'b TimerManager \<Rightarrow> nat list" where
  "expiring now M =
     (if now < m_previouseTime M \<and> now < m_previouseTime M - 3600000 then map fst (m_timers M) else due now M)"

lemma listExpiredCb_ok:
  assumes "timers_ok M" and "a \<noteq> 0" and "a \<notin> timers M"
  shows "\<exists>M'. listExpiredCb now a M = (map (\<lambda>t. m_cb (tm_heap M t)) (expiring now M), M') \<and> timers_ok M' \<and>
    tm_heap M' = (\<lambda>t. if t \<in> set (expiring now M) then fired now (tm_heap M t) else tm_heap M t) \<and>
    timers M' = (timers M - set (expiring now M)) \<union> {t \<in> set (expiring now M). m_recurring (tm_heap M t)}"
proof (cases "m_timers M = []")
  case True
  then show ?thesis
    using assms by (simp add: listExpiredCb_def expiring_def due_def)
next
  case False
  let ?roll = "now < m_previouseTime M \<and> now < m_previouseTime M - 3600000"
  let ?M = "M\<lparr>m_previouseTime := now, m_timers := drop (length (expiring now M)) (m_timers M)\<rparr>"
  have z: "0 \<notin> timers M"
    using assms by (auto simp: timers_ok_def)
  have roll: "detectClockRollover now M = (?roll, M\<lparr>m_previouseTime := now\<rparr>)"
    by (simp add: detectClockRollover_def)
  have range: "expired_range now a (M\<lparr>m_previouseTime := now\<rparr>) = due now M"
    using expired_range_due [OF assms, of now] by (simp add: expired_range_def)
  show ?thesis
  proof (cases "\<not> ?roll \<and> m_next (tm_heap M (fst (hd (m_timers M)))) > now")
    case True
    then have "expiring now M = []"
      using map_ok_sorted(1) [of "tm_heap M" "m_timers M"] assms(1) z False
      by (cases "m_timers M") (auto simp: expiring_def due_def timers_ok_def filter_empty_conv)
    then show ?thesis
      using True False assms(1) by (simp add: listExpiredCb_def roll timers_ok_def)
  next
    case go: False
    have set: "fst ` set (drop (length (expiring now M)) (m_timers M)) = timers M - set (expiring now M)"
      and dist: "distinct (expiring now M)" and sub: "set (expiring now M) \<subseteq> timers M"
      using due_prefix [OF assms(1), of now] map_ok_sorted(2) [of "tm_heap M" "m_timers M"] assms(1) z
      by (auto simp: expiring_def timers_ok_def due_def)
    have "map_ok (Comparator (tm_heap M)) (drop (length (expiring now M)) (m_timers M))"
      using assms(1) by (simp add: timers_ok_def map_ok_def sorted_wrt_drop)
    then have but: "timers_ok_but (set (expiring now M)) ?M"
      using assms(1) set sub by (auto simp: timers_ok_but_def timers_ok_def)
    have "tm_heap ?M = tm_heap M" and "timers ?M = timers M - set (expiring now M)"
      using set by simp_all
    moreover have "listExpiredCb now a M = foldl (expire now) ([], ?M) (expiring now M)"
      using go False by (auto simp: listExpiredCb_def roll range expiring_def Let_def)
    moreover obtain M' where "foldl (expire now) ([], ?M) (expiring now M) =
        ([] @ map (\<lambda>t. m_cb (tm_heap ?M t)) (expiring now M), M')" "timers_ok M'"
      "tm_heap M' = (\<lambda>t. if t \<in> set (expiring now M) then fired now (tm_heap ?M t) else tm_heap ?M t)"
      "timers M' = timers ?M \<union> {t \<in> set (expiring now M). m_recurring (tm_heap ?M t)}"
      using expire_all [OF but dist, of now "[]"] by blast
    ultimately show ?thesis
      by (intro exI [of _ M']) (simp only: append_Nil simp_thms)
  qed
qed

section \<open>Properties\<close>

text \<open>One call of a function of the manager or of one of its timers; a new object has an address
  that is not in use.\<close>

inductive timer_step :: "'b TimerManager \<Rightarrow> 'b TimerManager \<Rightarrow> bool" where
  add: "t \<noteq> 0 \<Longrightarrow> t \<notin> set (tm_made M) \<Longrightarrow> timer_step M (addTimer now t ms cb recurring M)"
| cancel: "t \<in> set (tm_made M) \<Longrightarrow> cancel t M = Some (b, M') \<Longrightarrow> timer_step M M'"
| refresh: "t \<in> set (tm_made M) \<Longrightarrow> timer_step M (snd (refresh now t M))"
| reset: "t \<in> set (tm_made M) \<Longrightarrow> timer_step M (snd (reset now ms from_now t M))"
| get_next: "timer_step M (snd (getNextTimer now M))"
| expired: "a \<noteq> 0 \<Longrightarrow> a \<notin> set (tm_made M) \<Longrightarrow> timer_step M (snd (listExpiredCb now a M))"

lemma getNextTimer_state: "snd (getNextTimer now M) = M\<lparr>m_tickled := False\<rparr>"
  by (simp add: getNextTimer_def Let_def split: list.split)

lemma timer_step_ok: "timer_step M M' \<Longrightarrow> timers_ok M \<Longrightarrow> timers_ok M'"
proof (induction rule: timer_step.induct)
  case (cancel t M b M')
  then show ?case
    using cancel_ok [of M t] by auto
next
  case (get_next M now)
  then show ?case
    by (simp add: getNextTimer_state timers_ok_def)
next
  case (expired a M now)
  then have "a \<notin> timers M"
    by (auto simp: timers_ok_def)
  with expired show ?case
    using listExpiredCb_ok [of M a now] by auto
qed (auto intro: addTimer_ok refresh_ok reset_ok)

abbreviation timer_reach :: "'b TimerManager \<Rightarrow> bool" where
  "timer_reach \<equiv> reachable (\<lambda>M. \<exists>now. M = new_TimerManager now) timer_step"

interpretation timer_machine: step_invariant "\<lambda>M. \<exists>now. M = new_TimerManager now" timer_step timers_ok
  by unfold_locales (auto simp: timer_step_ok, simp add: timers_ok_def new_TimerManager_def)

lemmas timer_reach_ok = timer_machine.reachable_inv

text \<open>
  C35: after any sequence of calls, the set of timers is in the order of its comparator although
  the timers in it change, and \<open>cancel\<close> on a timer of the manager never erases the end of the set:
  it succeeds exactly if the timer has a callback, the timer is then out of the set, and the other
  timers stay.
\<close>

theorem timer_cancel_safe:
  assumes "timer_reach M" and "t \<in> set (tm_made M)"
  shows "map_ok (Comparator (tm_heap M)) (m_timers M) \<and>
    (\<exists>M'. cancel t M = Some (m_cb (tm_heap M t) \<noteq> None, M') \<and>
      timers M' = (if m_cb (tm_heap M t) \<noteq> None then timers M - {t} else timers M) \<and> m_cb (tm_heap M' t) = None)"
proof -
  have ok: "timers_ok M"
    by (rule timer_reach_ok [OF assms(1)])
  let ?M = "upd_timer t (\<lambda>x. x\<lparr>m_cb := None\<rparr>) M"
  have "map_ok (Comparator (tm_heap ?M)) (m_timers M)"
    using ok timer_map_ok_cong [of "m_timers M" "tm_heap ?M" "tm_heap M"]
    by (auto simp: timers_ok_def upd_timer_def)
  then have "timers (set_erase t ?M) = timers M - {t}"
    by (simp add: set_erase_def upd_timer_def timer_erase_set)
  moreover have "m_cb (tm_heap M t) \<noteq> None \<Longrightarrow> set_find t ?M"
    using ok assms(2) by (auto simp: set_find_iff timers_ok_def upd_timer_def)
  moreover have "m_cb (tm_heap (set_erase t ?M) t) = None"
    by (simp add: set_erase_def upd_timer_def)
  ultimately show ?thesis
    using ok by (auto simp: cancel_def timers_ok_def)
qed


definition example_timers :: "nat TimerManager" where
  "example_timers = addTimer 5 8 20 (Some 1) True (addTimer 5 4 10 (Some 0) False (new_TimerManager 5))"

lemma example_timers_reach: "timer_reach example_timers"
proof -
  let ?M = "new_TimerManager 5 :: nat TimerManager"
  have "timer_step ?M (addTimer 5 4 10 (Some 0) False ?M)"
    by (rule timer_step.add) (simp_all add: new_TimerManager_def)
  moreover have "timer_step (addTimer 5 4 10 (Some 0) False ?M) example_timers"
    unfolding example_timers_def
    by (rule timer_step.add) (simp_all add: addTimer_def addTimer_locked_def set_insert_def new_TimerManager_def Let_def)
  moreover have "timer_reach ?M"
    by (rule reachable_init) blast
  ultimately show ?thesis
    by (blast intro: reachable_step)
qed

lemma example_timers_fields:
  "4 \<in> set (tm_made example_timers)" "2 \<notin> set (tm_made example_timers)" "m_previouseTime example_timers = 5"
  "m_cb (tm_heap example_timers 4) = Some 0" "due 15 example_timers = [4]"
  by (simp_all add: example_timers_def addTimer_def addTimer_locked_def set_insert_def new_TimerManager_def Let_def
      new_Timer_def due_def Comparator_def)

theorem timer_cancel_safe_witness:
  "\<exists>M'. cancel 4 example_timers = Some (True, M') \<and> 4 \<notin> timers M'"
  using timer_cancel_safe [OF example_timers_reach example_timers_fields(1)] example_timers_fields(4) by auto


text \<open>
  \<open>getNextTimer\<close> returns how long it is until the first timer is due: the largest number if
  there is no timer, 0 if one is due, otherwise the least distance from now to the time of a timer.
\<close>

theorem getNextTimer_exact:
  assumes "timer_reach M"
  shows "fst (getNextTimer now M) =
    (if timers M = {} then - 1
     else if \<exists>t\<in>timers M. m_next (tm_heap M t) \<le> now then 0
     else Min ((\<lambda>t. m_next (tm_heap M t) - now) ` timers M))"
proof (cases "m_timers M")
  case Nil
  then show ?thesis
    by (simp add: getNextTimer_def)
next
  case (Cons e m)
  let ?n = "\<lambda>t. m_next (tm_heap M t)"
  have ok: "timers_ok M"
    by (rule timer_reach_ok [OF assms])
  then have "0 \<notin> timers M"
    by (auto simp: timers_ok_def)
  then have first: "\<forall>t\<in>timers M. ?n (fst e) \<le> ?n t"
    using map_ok_sorted(1) [of "tm_heap M" "m_timers M"] ok Cons by (auto simp: timers_ok_def)
  have "Min ((\<lambda>t. ?n t - now) ` timers M) = ?n (fst e) - now" if "\<forall>t\<in>timers M. now < ?n t"
  proof (rule Min_eqI)
    show "?n (fst e) - now \<le> y" if y: "y \<in> (\<lambda>t. ?n t - now) ` timers M" for y
    proof -
      obtain t where t: "t \<in> timers M" "y = ?n t - now"
        using y by blast
      then have "now \<le> ?n (fst e)" "?n (fst e) \<le> ?n t"
        using \<open>\<forall>t\<in>timers M. now < ?n t\<close> first Cons by auto
      then show ?thesis
        using t(2) by (simp add: word_le_minus_mono_left)
    qed
  qed (use Cons in auto)
  with Cons first show ?thesis
    by (cases e) (auto simp: getNextTimer_def Let_def not_le)
qed

theorem getNextTimer_exact_witness: "fst (getNextTimer 7 example_timers) = 8"
proof -
  have "timers example_timers = {4, 8}" "m_next (tm_heap example_timers 4) = 15" "m_next (tm_heap example_timers 8) = 25"
    by (auto simp: example_timers_def addTimer_def addTimer_locked_def set_insert_def new_TimerManager_def Let_def
      new_Timer_def Comparator_def)
  then show ?thesis
    using getNextTimer_exact [OF example_timers_reach, of 7] by simp
qed

text \<open>
  In the first hour of the clock every step back, however small, counts as a roll-over and makes
  every timer expire: \<open>m_previouseTime - 60 * 60 * 1000\<close> wraps around. The clock is read before the
  lock is taken, so that two threads are enough for a step back.
\<close>

theorem rollover_in_first_hour:
  assumes "timer_reach M" and "a \<noteq> 0" and "a \<notin> set (tm_made M)"
    and "now < m_previouseTime M" and "m_previouseTime M < 60 * 60 * 1000"
  shows "fst (listExpiredCb now a M) = map (\<lambda>(t, _). m_cb (tm_heap M t)) (m_timers M)"
proof -
  have ok: "timers_ok M"
    by (rule timer_reach_ok [OF assms(1)])
  then have a: "a \<notin> timers M"
    using assms(3) by (auto simp: timers_ok_def)
  have "now < m_previouseTime M - 3600000"
  proof -
    have "unat (m_previouseTime M) < 3600000" "unat now < unat (m_previouseTime M)"
      using assms(4,5) by (simp_all add: word_less_nat_alt)
    moreover have "unat (m_previouseTime M - 3600000) = unat (m_previouseTime M) + 2 ^ 64 - 3600000"
      using calculation by (subst unat_sub_if') simp
    ultimately show ?thesis
      by (simp add: word_less_nat_alt)
  qed
  then have "expiring now M = map fst (m_timers M)"
    using assms(4) by (simp add: expiring_def)
  with listExpiredCb_ok [OF ok assms(2) a, of now] show ?thesis
    by (auto simp: split_def comp_def)
qed

theorem rollover_in_first_hour_witness: "fst (listExpiredCb 4 2 example_timers) = [Some 0, Some 1]"
proof -
  have "map (\<lambda>(t, _). m_cb (tm_heap example_timers t)) (m_timers example_timers) = [Some 0, Some 1]"
    by (simp add: example_timers_def addTimer_def addTimer_locked_def set_insert_def new_TimerManager_def Let_def
      new_Timer_def Comparator_def)
  then show ?thesis
    using rollover_in_first_hour [OF example_timers_reach _ example_timers_fields(2), of 4]
    by (simp add: example_timers_fields)
qed

end
