(* ===== verification/Io_Manager.thy ===== *)
theory Io_Manager
  imports Scheduling Timers
begin

text \<open>
  \<open>iomanager.h\<close> and \<open>iomanager.cc\<close>: the scheduler that waits for events of file descriptors and for timers.

  A scheduler is named by a number, the null pointer is \<open>None\<close>; the record of the manager holds the schedulers that
  events may be delivered to, and \<open>self\<close> is the one that the manager extends. The table \<open>m_epoll\<close> is the interest list
  that the kernel keeps for \<open>m_epfd\<close>: \<open>epoll_ctl\<close> changes it as documented and fails when a descriptor is added
  twice, is changed or removed without being there, or when the kernel refuses the call (\<open>refuse\<close>). The private
  pointer of an entry is the context of its descriptor.
\<close>

section \<open>Events and their contexts\<close>

abbreviation READ :: u32 where "READ \<equiv> 0x1"
abbreviation WRITE :: u32 where "WRITE \<equiv> 0x4"

abbreviation EPOLLIN :: u32 where "EPOLLIN \<equiv> 0x1"
abbreviation EPOLLOUT :: u32 where "EPOLLOUT \<equiv> 0x4"
abbreviation EPOLLERR :: u32 where "EPOLLERR \<equiv> 0x8"
abbreviation EPOLLHUP :: u32 where "EPOLLHUP \<equiv> 0x10"
abbreviation EPOLLET :: u32 where "EPOLLET \<equiv> 0x80000000"

datatype io_error = Assert_failed | Bad_index | Null_scheduler

record 'c EventContext =
  scheduler :: "nat option"
  ev_fiber :: "nat option"
  ev_cb :: "'c option"

record 'c FdContext =
  read_ctx :: "'c EventContext"
  write_ctx :: "'c EventContext"
  fd_no :: int
  events :: u32

definition no_context :: "'c EventContext" where
  "no_context = \<lparr>scheduler = None, ev_fiber = None, ev_cb = None\<rparr>"

definition new_FdContext :: "nat \<Rightarrow> 'c FdContext" where
  "new_FdContext i = \<lparr>read_ctx = no_context, write_ctx = no_context, fd_no = int i, events = 0\<rparr>"

definition getEventContext :: "u32 \<Rightarrow> 'c FdContext \<Rightarrow> io_error + 'c EventContext" where
  "getEventContext event c =
     (if event = READ then Inr (read_ctx c) else if event = WRITE then Inr (write_ctx c) else Inl Assert_failed)"

text \<open>Writing through the reference that \<open>getEventContext\<close> returns.\<close>

definition putEventContext :: "u32 \<Rightarrow> 'c EventContext \<Rightarrow> 'c FdContext \<Rightarrow> 'c FdContext" where
  "putEventContext event x c = (if event = READ then c\<lparr>read_ctx := x\<rparr> else c\<lparr>write_ctx := x\<rparr>)"

definition resetEventContext :: "'c EventContext \<Rightarrow> 'c EventContext" where
  "resetEventContext x = x\<lparr>scheduler := None, ev_fiber := None, ev_cb := None\<rparr>"

definition event_task :: "'c EventContext \<Rightarrow> 'c ScheduleTask" where
  "event_task x =
     (if ev_cb x \<noteq> None then \<lparr>tk_fiber = None, tk_cb = ev_cb x, tk_thread = - 1\<rparr>
      else \<lparr>tk_fiber = ev_fiber x, tk_cb = None, tk_thread = - 1\<rparr>)"

definition triggerEvent ::
  "u32 \<Rightarrow> 'c FdContext \<Rightarrow> (nat \<Rightarrow> 'c Scheduler) \<Rightarrow> io_error + ('c FdContext \<times> (nat \<Rightarrow> 'c Scheduler))" where
  "triggerEvent event c ss =
     (if events c AND event = 0 then Inl Assert_failed
      else let c = c\<lparr>events := events c AND NOT event\<rparr> in
      case getEventContext event c of
        Inl e \<Rightarrow> Inl e
      | Inr x \<Rightarrow> (case scheduler x of
          None \<Rightarrow> Inl Null_scheduler
        | Some i \<Rightarrow> Inr (putEventContext event (resetEventContext x) c, ss(i := schedule (event_task x) (ss i)))))"

section \<open>The manager\<close>

record 'c IOManager =
  m_fdContexts :: "'c FdContext list"
  m_pendingEventCount :: u64
  m_epoll :: "int \<rightharpoonup> u32"
  schedulers :: "nat \<Rightarrow> 'c Scheduler"
  self :: nat
  timer_manager :: "'c TimerManager"

datatype epoll_op = EPOLL_CTL_ADD | EPOLL_CTL_MOD | EPOLL_CTL_DEL

definition epoll_ctl :: "bool \<Rightarrow> epoll_op \<Rightarrow> int \<Rightarrow> u32 \<Rightarrow> (int \<rightharpoonup> u32) \<Rightarrow> (int \<rightharpoonup> u32) option" where
  "epoll_ctl refuse op fd ev tab =
     (if refuse then None
      else case op of
        EPOLL_CTL_ADD \<Rightarrow> if tab fd = None then Some (tab(fd \<mapsto> ev)) else None
      | EPOLL_CTL_MOD \<Rightarrow> if tab fd = None then None else Some (tab(fd \<mapsto> ev))
      | EPOLL_CTL_DEL \<Rightarrow> if tab fd = None then None else Some (tab(fd := None)))"

definition contextResize :: "nat \<Rightarrow> 'c FdContext list \<Rightarrow> 'c FdContext list" where
  "contextResize n cs = take n cs @ map new_FdContext [length cs..<n]"

definition new_IOManager :: "nat \<Rightarrow> (nat \<Rightarrow> 'c Scheduler) \<Rightarrow> u64 \<Rightarrow> 'c IOManager" where
  "new_IOManager i ss now =
     \<lparr>m_fdContexts = contextResize 32 [], m_pendingEventCount = 0, m_epoll = Map.empty, schedulers = ss, self = i,
       timer_manager = new_TimerManager now\<rparr>"

text \<open>\<open>m_fdContexts[fd]\<close>: outside of the vector the access is undefined.\<close>

definition fd_ctx :: "int \<Rightarrow> 'c IOManager \<Rightarrow> io_error + 'c FdContext" where
  "fd_ctx fd M = (if 0 \<le> fd \<and> nat fd < length (m_fdContexts M) then Inr (m_fdContexts M ! nat fd) else Inl Bad_index)"

definition put_fd_ctx :: "int \<Rightarrow> 'c FdContext \<Rightarrow> 'c IOManager \<Rightarrow> 'c IOManager" where
  "put_fd_ctx fd c M = M\<lparr>m_fdContexts := (m_fdContexts M)[nat fd := c]\<rparr>"

text \<open>
  \<open>addEvent\<close>. The size of the vector is tested under the read lock, the vector is enlarged under the write lock:
  \<open>fits\<close> is the result of the test. \<open>cur\<close> is \<open>Scheduler::GetThis()\<close> and \<open>me\<close> the current fiber, with its state.
\<close>

definition addEvent_locked ::
  "bool \<Rightarrow> bool \<Rightarrow> nat option \<Rightarrow> nat \<times> State \<Rightarrow> int \<Rightarrow> u32 \<Rightarrow> 'c option \<Rightarrow> 'c IOManager \<Rightarrow> io_error + (int \<times> 'c IOManager)" where
  "addEvent_locked fits refuse cur me fd event cb M =
     (let M = (if fits then M else M\<lparr>m_fdContexts := contextResize (nat (fd * 3 div 2)) (m_fdContexts M)\<rparr>) in
      case fd_ctx fd M of
        Inl e \<Rightarrow> Inl e
      | Inr c \<Rightarrow>
          if events c AND event \<noteq> 0 then Inl Assert_failed
          else let op = (if events c \<noteq> 0 then EPOLL_CTL_MOD else EPOLL_CTL_ADD) in
          case epoll_ctl refuse op fd (EPOLLET OR events c OR event) (m_epoll M) of
            None \<Rightarrow> Inr (- 1, M)
          | Some tab \<Rightarrow>
              let M = M\<lparr>m_epoll := tab, m_pendingEventCount := m_pendingEventCount M + 1\<rparr>;
                  c = c\<lparr>events := events c OR event\<rparr>
              in case getEventContext event c of
                   Inl e \<Rightarrow> Inl e
                 | Inr x \<Rightarrow>
                     if scheduler x \<noteq> None \<or> ev_fiber x \<noteq> None \<or> ev_cb x \<noteq> None then Inl Assert_failed
                     else if cb \<noteq> None then Inr (0, put_fd_ctx fd (putEventContext event (x\<lparr>scheduler := cur, ev_cb := cb\<rparr>) c) M)
                     else if snd me \<noteq> RUNNING then Inl Assert_failed
                     else Inr (0, put_fd_ctx fd (putEventContext event (x\<lparr>scheduler := cur, ev_fiber := Some (fst me)\<rparr>) c) M))"

definition addEvent ::
  "bool \<Rightarrow> nat option \<Rightarrow> nat \<times> State \<Rightarrow> int \<Rightarrow> u32 \<Rightarrow> 'c option \<Rightarrow> 'c IOManager \<Rightarrow> io_error + (int \<times> 'c IOManager)" where
  "addEvent refuse cur me fd event cb M =
     addEvent_locked (int (length (m_fdContexts M)) > fd) refuse cur me fd event cb M"

definition delEvent :: "bool \<Rightarrow> int \<Rightarrow> u32 \<Rightarrow> 'c IOManager \<Rightarrow> io_error + (bool \<times> 'c IOManager)" where
  "delEvent refuse fd event M =
     (if int (length (m_fdContexts M)) \<le> fd then Inr (False, M)
      else case fd_ctx fd M of
        Inl e \<Rightarrow> Inl e
      | Inr c \<Rightarrow>
          if events c AND event = 0 then Inr (False, M)
          else let new_events = events c AND NOT event;
                   op = (if new_events \<noteq> 0 then EPOLL_CTL_MOD else EPOLL_CTL_DEL)
               in case epoll_ctl refuse op fd (EPOLLET OR new_events) (m_epoll M) of
                    None \<Rightarrow> Inr (False, M)
                  | Some tab \<Rightarrow>
                      let M = M\<lparr>m_epoll := tab, m_pendingEventCount := m_pendingEventCount M - 1\<rparr>;
                          c = c\<lparr>events := new_events\<rparr>
                      in case getEventContext event c of
                           Inl e \<Rightarrow> Inl e
                         | Inr x \<Rightarrow> Inr (True, put_fd_ctx fd (putEventContext event (resetEventContext x) c) M))"

text \<open>\<open>triggerEvent\<close> on the context of a descriptor, and \<open>--m_pendingEventCount\<close>.\<close>

definition trigger :: "int \<Rightarrow> u32 \<Rightarrow> 'c IOManager \<Rightarrow> io_error + 'c IOManager" where
  "trigger fd event M =
     (case fd_ctx fd M of
        Inl e \<Rightarrow> Inl e
      | Inr c \<Rightarrow> (case triggerEvent event c (schedulers M) of
          Inl e \<Rightarrow> Inl e
        | Inr (c, ss) \<Rightarrow>
            Inr (put_fd_ctx fd c M\<lparr>schedulers := ss, m_pendingEventCount := m_pendingEventCount M - 1\<rparr>)))"

definition trigger_if :: "bool \<Rightarrow> int \<Rightarrow> u32 \<Rightarrow> io_error + 'c IOManager \<Rightarrow> io_error + 'c IOManager" where
  "trigger_if b fd event r = (case r of Inl e \<Rightarrow> Inl e | Inr M \<Rightarrow> if b then trigger fd event M else Inr M)"

text \<open>The same under the test \<open>fd_ctx->events & event\<close>.\<close>

definition trigger_registered :: "int \<Rightarrow> u32 \<Rightarrow> io_error + 'c IOManager \<Rightarrow> io_error + 'c IOManager" where
  "trigger_registered fd event r =
     (case r of
        Inl e \<Rightarrow> Inl e
      | Inr M \<Rightarrow> (case fd_ctx fd M of
          Inl e \<Rightarrow> Inl e
        | Inr c \<Rightarrow> trigger_if (events c AND event \<noteq> 0) fd event (Inr M)))"

definition cancelEvent :: "bool \<Rightarrow> int \<Rightarrow> u32 \<Rightarrow> 'c IOManager \<Rightarrow> io_error + (bool \<times> 'c IOManager)" where
  "cancelEvent refuse fd event M =
     (if int (length (m_fdContexts M)) \<le> fd then Inr (False, M)
      else case fd_ctx fd M of
        Inl e \<Rightarrow> Inl e
      | Inr c \<Rightarrow>
          if events c AND event = 0 then Inr (False, M)
          else let new_events = events c AND NOT event;
                   op = (if new_events \<noteq> 0 then EPOLL_CTL_MOD else EPOLL_CTL_DEL)
               in case epoll_ctl refuse op fd (EPOLLET OR new_events) (m_epoll M) of
                    None \<Rightarrow> Inr (False, M)
                  | Some tab \<Rightarrow> (case trigger fd event (M\<lparr>m_epoll := tab\<rparr>) of
                      Inl e \<Rightarrow> Inl e | Inr M \<Rightarrow> Inr (True, M)))"

definition cancelAll :: "bool \<Rightarrow> int \<Rightarrow> 'c IOManager \<Rightarrow> io_error + (bool \<times> 'c IOManager)" where
  "cancelAll refuse fd M =
     (if int (length (m_fdContexts M)) \<le> fd then Inr (False, M)
      else case fd_ctx fd M of
        Inl e \<Rightarrow> Inl e
      | Inr c \<Rightarrow>
          if events c = 0 then Inr (False, M)
          else case epoll_ctl refuse EPOLL_CTL_DEL fd 0 (m_epoll M) of
            None \<Rightarrow> Inr (False, M)
          | Some tab \<Rightarrow>
              (case trigger_registered fd WRITE (trigger_registered fd READ (Inr (M\<lparr>m_epoll := tab\<rparr>))) of
                 Inl e \<Rightarrow> Inl e
               | Inr M \<Rightarrow> (case fd_ctx fd M of
                   Inl e \<Rightarrow> Inl e | Inr c \<Rightarrow> if events c = 0 then Inr (True, M) else Inl Assert_failed)))"

section \<open>Waiting\<close>

definition IOManager_stopping :: "u64 \<Rightarrow> 'c IOManager \<Rightarrow> u64 \<times> bool \<times> 'c IOManager" where
  "IOManager_stopping now M =
     (case getNextTimer now (timer_manager M) of
        (timeout, T) \<Rightarrow>
          (timeout, timeout = - 1 \<and> m_pendingEventCount M = 0 \<and> Scheduler_stopping (schedulers M (self M)), M\<lparr>timer_manager := T\<rparr>))"

text \<open>The timeout that \<open>idle\<close> passes to \<open>epoll_wait\<close>, as the \<open>int\<close> that it is.\<close>

definition epoll_timeout :: "u64 \<Rightarrow> int" where
  "epoll_timeout next_timeout =
     (let next_timeout = (if next_timeout \<noteq> - 1 then min (sint (ucast next_timeout :: u32)) 5000 else 5000)
      in sint (ucast (word_of_int next_timeout :: u64) :: u32))"

text \<open>One event that \<open>epoll_wait\<close> reported for the descriptor \<open>fd\<close>.\<close>

definition handle_event :: "bool \<Rightarrow> int \<Rightarrow> u32 \<Rightarrow> 'c IOManager \<Rightarrow> io_error + 'c IOManager" where
  "handle_event refuse fd ev M =
     (case fd_ctx fd M of
        Inl e \<Rightarrow> Inl e
      | Inr c \<Rightarrow>
          let ev = (if ev AND (EPOLLERR OR EPOLLHUP) \<noteq> 0 then ev OR ((EPOLLIN OR EPOLLOUT) AND events c) else ev);
              real_events = (if ev AND EPOLLIN \<noteq> 0 then READ else 0) OR (if ev AND EPOLLOUT \<noteq> 0 then WRITE else 0)
          in if events c AND real_events = 0 then Inr M
             else let left_events = events c AND NOT real_events;
                      op = (if left_events \<noteq> 0 then EPOLL_CTL_MOD else EPOLL_CTL_DEL)
                  in case epoll_ctl refuse op (fd_no c) (EPOLLET OR left_events) (m_epoll M) of
                       None \<Rightarrow> Inr M
                     | Some tab \<Rightarrow>
                         trigger_if (real_events AND WRITE \<noteq> 0) fd WRITE
                           (trigger_if (real_events AND READ \<noteq> 0) fd READ (Inr (M\<lparr>m_epoll := tab\<rparr>))))"

text \<open>An entry of the array \<open>events\<close>: the pipe of \<open>tickle\<close>, or a descriptor; with the answer of the kernel to \<open>epoll_ctl\<close>.\<close>

datatype report = Tickle_fd | Ready int u32 bool

fun handle_events :: "report list \<Rightarrow> 'c IOManager \<Rightarrow> io_error + 'c IOManager" where
  "handle_events [] M = Inr M"
| "handle_events (Tickle_fd # rs) M = handle_events rs M"
| "handle_events (Ready fd ev refuse # rs) M =
     (case handle_event refuse fd ev M of Inl e \<Rightarrow> Inl e | Inr M \<Rightarrow> handle_events rs M)"

definition schedule_self :: "'c IOManager \<Rightarrow> 'c option \<Rightarrow> 'c IOManager" where
  "schedule_self M cb =
     M\<lparr>schedulers := (schedulers M)(self M :=
       schedule \<lparr>tk_fiber = None, tk_cb = cb, tk_thread = - 1\<rparr> (schedulers M (self M)))\<rparr>"

text \<open>One round of \<open>idle\<close> up to its \<open>yield\<close>: \<open>None\<close> is the exit from the loop, \<open>Some t\<close> the timeout it waited with.\<close>

definition idle_round ::
  "u64 \<Rightarrow> u64 \<Rightarrow> nat \<Rightarrow> report list \<Rightarrow> 'c IOManager \<Rightarrow> io_error + (int option \<times> 'c IOManager)" where
  "idle_round now1 now2 a reports M =
     (case IOManager_stopping now1 M of
        (next_timeout, stop, M) \<Rightarrow>
          if stop then Inr (None, M)
          else case listExpiredCb now2 a (timer_manager M) of
            (cbs, T) \<Rightarrow>
              (case handle_events reports (foldl schedule_self (M\<lparr>timer_manager := T\<rparr>) cbs) of
                 Inl e \<Rightarrow> Inl e
               | Inr M \<Rightarrow> Inr (Some (epoll_timeout next_timeout), M)))"

section \<open>The invariant\<close>

abbreviation Events :: "u32 set" where
  "Events \<equiv> {0, 1, 4, 5}"

definition in_use :: "'c EventContext \<Rightarrow> bool" where
  "in_use x \<longleftrightarrow> scheduler x \<noteq> None \<and> (ev_fiber x = None) \<noteq> (ev_cb x = None)"

definition fd_ok :: "nat \<Rightarrow> 'c FdContext \<Rightarrow> bool" where
  "fd_ok i c \<longleftrightarrow> fd_no c = int i \<and> events c \<in> Events \<and>
     (if events c AND READ \<noteq> 0 then in_use (read_ctx c) else read_ctx c = no_context) \<and>
     (if events c AND WRITE \<noteq> 0 then in_use (write_ctx c) else write_ctx c = no_context)"

definition event_count :: "'c FdContext \<Rightarrow> nat" where
  "event_count c = (if events c AND READ \<noteq> 0 then 1 else 0) + (if events c AND WRITE \<noteq> 0 then 1 else 0)"

definition interest :: "'c FdContext list \<Rightarrow> int \<rightharpoonup> u32" where
  "interest cs fd =
     (if 0 \<le> fd \<and> nat fd < length cs \<and> events (cs ! nat fd) \<noteq> 0 then Some (EPOLLET OR events (cs ! nat fd)) else None)"

text \<open>Without the interest list, which is changed before the contexts are.\<close>

definition core_inv :: "'c IOManager \<Rightarrow> bool" where
  "core_inv M \<longleftrightarrow>
     32 \<le> length (m_fdContexts M) \<and> length (m_fdContexts M) \<le> 2 ^ 32 \<and>
     (\<forall>i < length (m_fdContexts M). fd_ok i (m_fdContexts M ! i)) \<and>
     m_pendingEventCount M = of_nat (sum_list (map event_count (m_fdContexts M)))"

definition io_inv :: "'c IOManager \<Rightarrow> bool" where
  "io_inv M \<longleftrightarrow> core_inv M \<and> m_epoll M = interest (m_fdContexts M)"

text \<open>
  The specification: the registered events, each with the scheduler and the task it is delivered as.
\<close>

type_synonym 'c registrations = "int \<times> u32 \<rightharpoonup> nat \<times> 'c ScheduleTask"

definition reg :: "u32 \<Rightarrow> 'c FdContext \<Rightarrow> (nat \<times> 'c ScheduleTask) option" where
  "reg ev c =
     (if events c AND ev \<noteq> 0
      then let x = (if ev = READ then read_ctx c else write_ctx c) in Some (the (scheduler x), event_task x) else None)"

definition regs :: "'c IOManager \<Rightarrow> 'c registrations" where
  "regs M = (\<lambda>(fd, ev).
     if 0 \<le> fd \<and> nat fd < length (m_fdContexts M) \<and> (ev = READ \<or> ev = WRITE) then reg ev (m_fdContexts M ! nat fd) else None)"

definition deliver :: "(nat \<times> 'c ScheduleTask) option \<Rightarrow> (nat \<Rightarrow> 'c Scheduler) \<Rightarrow> nat \<Rightarrow> 'c Scheduler" where
  "deliver r ss = (case r of None \<Rightarrow> ss | Some (i, task) \<Rightarrow> ss(i := schedule task (ss i)))"

lemma Events_ops:
  assumes "e \<in> Events" "b = READ \<or> b = WRITE"
  shows "e AND NOT b \<in> Events" "e OR b \<in> Events" "(e AND NOT b) AND b = 0" "(e OR b) AND b \<noteq> 0" "e OR b \<noteq> 0"
  using assms by auto

lemma Events_bits:
  assumes "e \<in> Events"
  shows "(e AND NOT READ) AND WRITE = e AND WRITE" "(e AND NOT WRITE) AND READ = e AND READ"
    "(e OR READ) AND WRITE = e AND WRITE" "(e OR WRITE) AND READ = e AND READ"
    "e = 0 \<longleftrightarrow> e AND READ = 0 \<and> e AND WRITE = 0"
  using assms by auto

lemma interest_put:
  "0 \<le> fd \<Longrightarrow> nat fd < length cs \<Longrightarrow>
     interest (cs[nat fd := c]) = (interest cs)(fd := if events c \<noteq> 0 then Some (EPOLLET OR events c) else None)"
  by (auto simp: interest_def fun_eq_iff nth_list_update nat_eq_iff2)

lemma regs_put:
  assumes "0 \<le> fd" "nat fd < length (m_fdContexts M)" "m_fdContexts M' = (m_fdContexts M)[nat fd := c]"
  shows "regs M' = (regs M)((fd, READ) := reg READ c, (fd, WRITE) := reg WRITE c)"
  using assms by (auto simp: regs_def fun_eq_iff nth_list_update nat_eq_iff2)

lemma regs_cong: "m_fdContexts M' = m_fdContexts M \<Longrightarrow> regs M' = regs M"
  by (simp only: regs_def)

lemma core_put:
  assumes "core_inv M" "0 \<le> fd" "nat fd < length (m_fdContexts M)" "fd_ok (nat fd) c"
    and "m_fdContexts M' = (m_fdContexts M)[nat fd := c]"
    and "m_pendingEventCount M' + of_nat (event_count (m_fdContexts M ! nat fd)) = m_pendingEventCount M + of_nat (event_count c)"
  shows "core_inv M'"
proof -
  let ?cs = "m_fdContexts M" let ?f = "\<lambda>cs. sum_list (map event_count cs)"
  have "?f (?cs[nat fd := c]) + event_count (?cs ! nat fd) = ?f ?cs + event_count c"
    using assms(3) by (simp add: map_update sum_list_update elem_le_sum_list)
      (metis add.commute elem_le_sum_list le_add_diff_inverse2 length_map nth_map trans_le_add1)
  then have "of_nat (?f (?cs[nat fd := c])) + of_nat (event_count (?cs ! nat fd)) =
      (of_nat (?f ?cs) + of_nat (event_count c) :: u64)"
    by (metis of_nat_add)
  with assms(1,6) have "m_pendingEventCount M' = of_nat (?f (?cs[nat fd := c]))"
    by (simp add: core_inv_def) (metis add_right_cancel)
  with assms show ?thesis
    by (auto simp: core_inv_def nth_list_update)
qed

definition cleared :: "u32 \<Rightarrow> 'c FdContext \<Rightarrow> 'c FdContext" where
  "cleared event c = putEventContext event no_context (c\<lparr>events := events c AND NOT event\<rparr>)"

lemma cleared_events [simp]: "events (cleared event c) = events c AND NOT event"
  by (simp add: cleared_def putEventContext_def)

lemma cleared_ok:
  assumes "fd_ok i c" "event = READ \<or> event = WRITE" "events c AND event \<noteq> 0"
  shows "fd_ok i (cleared event c)" "event_count c = Suc (event_count (cleared event c))"
    "reg event (cleared event c) = None" "ev \<in> {READ, WRITE} \<Longrightarrow> ev \<noteq> event \<Longrightarrow> reg ev (cleared event c) = reg ev c"
  using assms by (auto simp: fd_ok_def event_count_def reg_def cleared_def putEventContext_def)

lemma reset_is_none: "resetEventContext x = no_context"
  by (simp add: resetEventContext_def no_context_def)

lemma triggerEvent_exact:
  assumes "fd_ok i c" "event = READ \<or> event = WRITE" "events c AND event \<noteq> 0"
  shows "triggerEvent event c ss = Inr (cleared event c, deliver (reg event c) ss)"
proof -
  obtain x j where x: "getEventContext event c = Inr x" "x = (if event = READ then read_ctx c else write_ctx c)" "scheduler x = Some j"
    using assms by (auto simp: fd_ok_def getEventContext_def in_use_def split: if_splits)
  then have "getEventContext event (c\<lparr>events := events c AND NOT event\<rparr>) = Inr x"
    using assms(2) by (auto simp: getEventContext_def)
  with x assms(3) show ?thesis
    by (simp add: triggerEvent_def deliver_def reg_def cleared_def reset_is_none Let_def)
qed

lemma trigger_exact:
  assumes "core_inv M" "0 \<le> fd" "nat fd < length (m_fdContexts M)" "event = READ \<or> event = WRITE"
    and "events (m_fdContexts M ! nat fd) AND event \<noteq> 0"
  obtains M' where "trigger fd event M = Inr M'" "core_inv M'"
    "m_fdContexts M' = (m_fdContexts M)[nat fd := cleared event (m_fdContexts M ! nat fd)]" "m_epoll M' = m_epoll M"
    "regs M' = (regs M)((fd, event) := None)" "schedulers M' = deliver (regs M (fd, event)) (schedulers M)"
    "self M' = self M" "timer_manager M' = timer_manager M"
proof -
  let ?c = "m_fdContexts M ! nat fd"
  have ok: "fd_ok (nat fd) ?c" using assms(1,3) by (simp add: core_inv_def)
  note cl = cleared_ok [OF ok assms(4,5)]
  define M' where "M' = put_fd_ctx fd (cleared event ?c)
    (M\<lparr>schedulers := deliver (reg event ?c) (schedulers M), m_pendingEventCount := m_pendingEventCount M - 1\<rparr>)"
  have t: "trigger fd event M = Inr M'"
    using assms(2,3) by (simp add: trigger_def fd_ctx_def triggerEvent_exact [OF ok assms(4,5)] M'_def put_fd_ctx_def)
  have cs: "m_fdContexts M' = (m_fdContexts M)[nat fd := cleared event ?c]"
    by (simp add: M'_def put_fd_ctx_def)
  have core: "core_inv M'"
    by (rule core_put [OF assms(1-3) cl(1) cs]) (simp add: cl(2) M'_def put_fd_ctx_def)
  have rg: "regs M (fd, ev) = reg ev ?c" if "ev \<in> {READ, WRITE}" for ev
    using assms(2,3) that by (auto simp: regs_def)
  have "regs M' = (regs M)((fd, event) := None)"
    using regs_put [OF assms(2,3) cs] cl(3,4) assms(4) rg by (auto simp: fun_eq_iff)
  moreover have "schedulers M' = deliver (regs M (fd, event)) (schedulers M)"
    using rg assms(4) by (auto simp: M'_def put_fd_ctx_def)
  ultimately show thesis
    by (intro that [OF t core cs]) (simp_all add: M'_def put_fd_ctx_def)
qed

lemma trigger_if_simps [simp]: "trigger_if False fd event r = r" "trigger_if True fd event (Inr M) = trigger fd event M"
  by (cases r) (simp_all add: trigger_if_def)

lemma deliver_None [simp]: "deliver None ss = ss"
  by (simp add: deliver_def)

lemma trigger_if_exact:
  assumes "core_inv M" "0 \<le> fd" "nat fd < length (m_fdContexts M)" "event = READ \<or> event = WRITE"
    and "b \<Longrightarrow> regs M (fd, event) \<noteq> None"
  obtains M' where "trigger_if b fd event (Inr M) = Inr M'" "core_inv M'" "m_epoll M' = m_epoll M"
    "\<exists>c. m_fdContexts M' = (m_fdContexts M)[nat fd := c] \<and>
       events c = events (m_fdContexts M ! nat fd) AND NOT (if b then event else 0)"
    "regs M' = (if b then (regs M)((fd, event) := None) else regs M)"
    "schedulers M' = deliver (if b then regs M (fd, event) else None) (schedulers M)"
    "self M' = self M" "timer_manager M' = timer_manager M"
proof (cases b)
  case True
  then have "events (m_fdContexts M ! nat fd) AND event \<noteq> 0"
    using assms by (auto simp: regs_def reg_def split: if_splits)
  from trigger_exact [OF assms(1-4) this] obtain M' where M': "trigger fd event M = Inr M'" "core_inv M'"
    "m_fdContexts M' = (m_fdContexts M)[nat fd := cleared event (m_fdContexts M ! nat fd)]" "m_epoll M' = m_epoll M"
    "regs M' = (regs M)((fd, event) := None)" "schedulers M' = deliver (regs M (fd, event)) (schedulers M)"
    "self M' = self M" "timer_manager M' = timer_manager M"
    by blast
  show thesis
    by (rule that [of M']) (use True M' in \<open>auto simp: trigger_if_def\<close>)
next
  case False
  then show thesis
    by (intro that [of M] exI [of _ "m_fdContexts M ! nat fd"]) (simp_all add: trigger_if_def assms deliver_def)
qed

text \<open>Both events of a descriptor, after its interest has been changed to what will be left.\<close>

lemma trigger_both:
  assumes inv: "io_inv M" and fd: "0 \<le> fd" "nat fd < length (m_fdContexts M)"
    and rd: "r \<Longrightarrow> regs M (fd, READ) \<noteq> None" and wr: "w \<Longrightarrow> regs M (fd, WRITE) \<noteq> None"
    and lft: "lft = events (m_fdContexts M ! nat fd) AND NOT ((if r then READ else 0) OR (if w then WRITE else 0))"
  obtains M' where
    "trigger_if w fd WRITE (trigger_if r fd READ
       (Inr (M\<lparr>m_epoll := (m_epoll M)(fd := if lft \<noteq> 0 then Some (EPOLLET OR lft) else None)\<rparr>))) = Inr M'"
    "io_inv M'" "events (m_fdContexts M' ! nat fd) = lft" "length (m_fdContexts M') = length (m_fdContexts M)"
    "regs M' = (\<lambda>x. if r \<and> x = (fd, READ) \<or> w \<and> x = (fd, WRITE) then None else regs M x)"
    "schedulers M' = deliver (if w then regs M (fd, WRITE) else None) (deliver (if r then regs M (fd, READ) else None) (schedulers M))"
proof -
  let ?c = "m_fdContexts M ! nat fd"
  define N where "N = M\<lparr>m_epoll := (m_epoll M)(fd := if lft \<noteq> 0 then Some (EPOLLET OR lft) else None)\<rparr>"
  have rN: "regs N = regs M" by (rule regs_cong) (simp add: N_def)
  have N: "core_inv N" "m_fdContexts N = m_fdContexts M" "regs N = regs M" "schedulers N = schedulers M"
    using inv rN by (simp_all add: io_inv_def core_inv_def) (simp_all add: N_def)
  have ev: "events ?c \<in> Events"
    using inv fd by (simp add: io_inv_def core_inv_def fd_ok_def)
  have fdN: "nat fd < length (m_fdContexts N)" and rdN: "r \<Longrightarrow> regs N (fd, READ) \<noteq> None"
    using fd rd N by simp_all
  from trigger_if_exact [OF N(1) fd(1) fdN disjI1 [OF refl] rdN] obtain N1 c1 where
    N1: "trigger_if r fd READ (Inr N) = Inr N1" "core_inv N1" "m_epoll N1 = m_epoll N"
    "m_fdContexts N1 = (m_fdContexts N)[nat fd := c1]"
    "events c1 = events (m_fdContexts N ! nat fd) AND NOT (if r then READ else 0)"
    "regs N1 = (if r then (regs N)((fd, READ) := None) else regs N)"
    "schedulers N1 = deliver (if r then regs N (fd, READ) else None) (schedulers N)"
    by blast
  have fdN1: "nat fd < length (m_fdContexts N1)" and wrN: "w \<Longrightarrow> regs N1 (fd, WRITE) \<noteq> None"
    using fd wr N N1(4,6) by simp_all
  from trigger_if_exact [OF N1(2) fd(1) fdN1 disjI2 [OF refl] wrN] obtain N2 c2 where
    N2: "trigger_if w fd WRITE (Inr N1) = Inr N2" "core_inv N2" "m_epoll N2 = m_epoll N1"
    "m_fdContexts N2 = (m_fdContexts N1)[nat fd := c2]"
    "events c2 = events (m_fdContexts N1 ! nat fd) AND NOT (if w then WRITE else 0)"
    "regs N2 = (if w then (regs N1)((fd, WRITE) := None) else regs N1)"
    "schedulers N2 = deliver (if w then regs N1 (fd, WRITE) else None) (schedulers N1)"
    by blast
  have cs: "m_fdContexts N2 = (m_fdContexts M)[nat fd := c2]"
    using N2(4) N1(4) N(2) by simp
  have "m_fdContexts N1 ! nat fd = c1" using N1(4) fdN by simp
  then have "events c2 = (events ?c AND NOT (if r then READ else 0)) AND NOT (if w then WRITE else 0)"
    using N2(5) N1(5) N(2) by simp
  then have left: "events c2 = lft"
    using ev by (simp add: lft and.assoc)
  have "m_epoll N2 = interest (m_fdContexts N2)"
    using inv N1(3) N2(3) interest_put [OF fd, of c2] left cs by (simp add: N_def io_inv_def)
  then have inv2: "io_inv N2"
    using N2(2) by (simp add: io_inv_def)
  have r2: "regs N2 = (\<lambda>x. if r \<and> x = (fd, READ) \<or> w \<and> x = (fd, WRITE) then None else regs M x)"
    using N2(6) N1(6) N(3) by (auto simp: fun_eq_iff)
  have "regs N1 (fd, WRITE) = regs M (fd, WRITE)"
    using N1(6) N(3) by simp
  then have s2: "schedulers N2 = deliver (if w then regs M (fd, WRITE) else None) (deliver (if r then regs M (fd, READ) else None) (schedulers M))"
    using N2(7) N1(7) N(3,4) by simp
  have t2: "trigger_if w fd WRITE (trigger_if r fd READ (Inr N)) = Inr N2"
    using N1(1) N2(1) by simp
  show thesis
    by (rule that [OF t2 [unfolded N_def] inv2 _ _ r2 s2]) (use left cs fd in simp_all)
qed

section \<open>The operations implement the specification\<close>

lemma epoll_ctl_left:
  "tab fd \<noteq> None \<Longrightarrow> epoll_ctl refuse (if l \<noteq> 0 then EPOLL_CTL_MOD else EPOLL_CTL_DEL) fd (EPOLLET OR l) tab =
     (if refuse then None else Some (tab(fd := if l \<noteq> 0 then Some (EPOLLET OR l) else None)))"
  by (auto simp: epoll_ctl_def)

lemma regs_at:
  "0 \<le> fd \<Longrightarrow> nat fd < length (m_fdContexts M) \<Longrightarrow> event = READ \<or> event = WRITE \<Longrightarrow>
     regs M (fd, event) = reg event (m_fdContexts M ! nat fd)"
  by (simp add: regs_def)

lemma reg_None: "reg ev c = None \<longleftrightarrow> events c AND ev = 0"
  by (simp add: reg_def Let_def)

lemma regs_outside: "\<not> (0 \<le> fd \<and> nat fd < length (m_fdContexts M)) \<Longrightarrow> regs M (fd, event) = None"
  by (auto simp: regs_def)

lemma epoll_registered:
  assumes "io_inv M" "regs M (fd, event) \<noteq> None"
  shows "m_epoll M fd \<noteq> None" "0 \<le> fd" "nat fd < length (m_fdContexts M)" "event = READ \<or> event = WRITE"
    "fd_ctx fd M = Inr (m_fdContexts M ! nat fd)" "events (m_fdContexts M ! nat fd) AND event \<noteq> 0"
    "\<not> int (length (m_fdContexts M)) \<le> fd"
proof -
  show in_list: "0 \<le> fd" "nat fd < length (m_fdContexts M)" "event = READ \<or> event = WRITE"
    using assms(2) by (auto simp: regs_def split: if_splits)
  then show "fd_ctx fd M = Inr (m_fdContexts M ! nat fd)" "\<not> int (length (m_fdContexts M)) \<le> fd"
    by (auto simp: fd_ctx_def)
  show ev: "events (m_fdContexts M ! nat fd) AND event \<noteq> 0"
    using assms(2) regs_at [OF in_list] by (simp add: reg_None)
  then show "m_epoll M fd \<noteq> None"
    using assms(1) in_list by (auto simp: io_inv_def interest_def)
qed

lemma unregistered:
  assumes "regs M (fd, event) = None" "0 \<le> fd" "event = READ \<or> event = WRITE"
  obtains "int (length (m_fdContexts M)) \<le> fd"
    | c where "\<not> int (length (m_fdContexts M)) \<le> fd" "fd_ctx fd M = Inr c" "events c AND event = 0"
      "nat fd < length (m_fdContexts M)" "c = m_fdContexts M ! nat fd"
proof (cases "int (length (m_fdContexts M)) \<le> fd")
  case False
  with assms(2) have "nat fd < length (m_fdContexts M)" by (simp add: nat_less_iff)
  with assms False show thesis
    using regs_at [OF assms(2) _ assms(3), of M] that(2) by (simp add: fd_ctx_def reg_None)
qed (rule that(1))

lemma io_put:
  assumes "io_inv M" "0 \<le> fd" "nat fd < length (m_fdContexts M)" "fd_ok (nat fd) c"
    and "m_fdContexts M' = (m_fdContexts M)[nat fd := c]"
    and "m_epoll M' = (m_epoll M)(fd := if events c \<noteq> 0 then Some (EPOLLET OR events c) else None)"
    and "m_pendingEventCount M' + of_nat (event_count (m_fdContexts M ! nat fd)) = m_pendingEventCount M + of_nat (event_count c)"
  shows "io_inv M'"
  using assms core_put [of M fd c M'] interest_put [OF assms(2,3), of c] by (simp add: io_inv_def)

lemma delEvent_spec:
  assumes inv: "io_inv M" and fd: "0 \<le> fd" and event: "event = READ \<or> event = WRITE"
  shows "\<exists>b M'. delEvent refuse fd event M = Inr (b, M') \<and> b = (\<not> refuse \<and> regs M (fd, event) \<noteq> None) \<and> io_inv M' \<and>
    regs M' = (if b then (regs M)((fd, event) := None) else regs M) \<and> schedulers M' = schedulers M"
proof (cases "regs M (fd, event) = None")
  case True
  then have "delEvent refuse fd event M = Inr (False, M)"
    using fd event by (cases rule: unregistered) (simp_all add: delEvent_def)
  with True inv show ?thesis by (intro exI [of _ False] exI [of _ M]) simp
next
  case False
  note e = epoll_registered [OF inv False]
  let ?c = "m_fdContexts M ! nat fd" let ?n = "events ?c AND NOT event"
  have ok: "fd_ok (nat fd) ?c" using inv e(3) by (simp add: io_inv_def core_inv_def)
  note cl = cleared_ok [OF ok event e(6)]
  define M' where "M' = put_fd_ctx fd (cleared event ?c)
    (M\<lparr>m_epoll := (m_epoll M)(fd := if ?n \<noteq> 0 then Some (EPOLLET OR ?n) else None), m_pendingEventCount := m_pendingEventCount M - 1\<rparr>)"
  have d: "delEvent refuse fd event M = (if refuse then Inr (False, M) else Inr (True, M'))"
    using e event
    by (simp add: delEvent_def Let_def epoll_ctl_left reset_is_none M'_def cleared_def getEventContext_def) blast
  have cs: "m_fdContexts M' = (m_fdContexts M)[nat fd := cleared event ?c]"
    by (simp add: M'_def put_fd_ctx_def)
  have "io_inv M'"
    by (rule io_put [OF inv e(2,3) cl(1) cs]) (simp_all add: cl(2) M'_def put_fd_ctx_def)
  moreover have "regs M' = (regs M)((fd, event) := None)"
    using regs_put [OF e(2,3) cs] cl(3,4) event regs_at [OF e(2,3)] by (auto simp: fun_eq_iff)
  moreover have "schedulers M' = schedulers M"
    by (simp add: M'_def put_fd_ctx_def)
  ultimately show ?thesis
    using d inv False by (cases refuse) auto
qed

lemma trigger_one:
  assumes inv: "io_inv M" and r: "regs M (fd, event) \<noteq> None" and lft: "l = events (m_fdContexts M ! nat fd) AND NOT event"
  obtains M' where "trigger fd event (M\<lparr>m_epoll := (m_epoll M)(fd := if l \<noteq> 0 then Some (EPOLLET OR l) else None)\<rparr>) = Inr M'"
    "io_inv M'" "regs M' = (regs M)((fd, event) := None)" "schedulers M' = deliver (regs M (fd, event)) (schedulers M)"
proof -
  note e = epoll_registered [OF inv r]
  obtain M' where "trigger_if (event = WRITE) fd WRITE (trigger_if (event = READ) fd READ
       (Inr (M\<lparr>m_epoll := (m_epoll M)(fd := if l \<noteq> 0 then Some (EPOLLET OR l) else None)\<rparr>))) = Inr M'"
    "io_inv M'" "regs M' = (\<lambda>x. if event = READ \<and> x = (fd, READ) \<or> event = WRITE \<and> x = (fd, WRITE) then None else regs M x)"
    "schedulers M' = deliver (if event = WRITE then regs M (fd, WRITE) else None)
      (deliver (if event = READ then regs M (fd, READ) else None) (schedulers M))"
  proof -
    have "event = READ \<Longrightarrow> regs M (fd, READ) \<noteq> None" "event = WRITE \<Longrightarrow> regs M (fd, WRITE) \<noteq> None"
      "l = events (m_fdContexts M ! nat fd) AND NOT ((if event = READ then READ else 0) OR (if event = WRITE then WRITE else 0))"
      using e(4) r lft by auto
    from trigger_both [OF inv e(2,3) this] that show thesis by blast
  qed
  note M' = this
  from e(4) show thesis
  proof
    assume "event = READ"
    with M' show thesis by (intro that [of M']) (simp_all add: fun_upd_def)
  next
    assume "event = WRITE"
    with M' show thesis by (intro that [of M']) (simp_all add: fun_upd_def)
  qed
qed

lemma cancelEvent_spec:
  assumes inv: "io_inv M" and fd: "0 \<le> fd" and event: "event = READ \<or> event = WRITE"
  shows "\<exists>b M'. cancelEvent refuse fd event M = Inr (b, M') \<and> b = (\<not> refuse \<and> regs M (fd, event) \<noteq> None) \<and> io_inv M' \<and>
    regs M' = (if b then (regs M)((fd, event) := None) else regs M) \<and>
    schedulers M' = (if b then deliver (regs M (fd, event)) (schedulers M) else schedulers M)"
proof (cases "regs M (fd, event) = None")
  case True
  then have "cancelEvent refuse fd event M = Inr (False, M)"
    using fd event by (cases rule: unregistered) (simp_all add: cancelEvent_def)
  with True inv show ?thesis by (intro exI [of _ False] exI [of _ M]) simp
next
  case False
  note e = epoll_registered [OF inv False]
  let ?n = "events (m_fdContexts M ! nat fd) AND NOT event"
  obtain M' where M': "trigger fd event (M\<lparr>m_epoll := (m_epoll M)(fd := if ?n \<noteq> 0 then Some (EPOLLET OR ?n) else None)\<rparr>) = Inr M'"
    "io_inv M'" "regs M' = (regs M)((fd, event) := None)" "schedulers M' = deliver (regs M (fd, event)) (schedulers M)"
    using trigger_one [OF inv False refl] by blast
  have "cancelEvent refuse fd event M = (if refuse then Inr (False, M) else Inr (True, M'))"
    using e M'(1) by (simp add: cancelEvent_def Let_def epoll_ctl_left)
  with M' False inv show ?thesis by (cases refuse) auto
qed

lemma trigger_registered_both:
  assumes "core_inv N" "0 \<le> fd" "nat fd < length (m_fdContexts N)"
  shows "trigger_registered fd WRITE (trigger_registered fd READ (Inr N)) =
    trigger_if (events (m_fdContexts N ! nat fd) AND WRITE \<noteq> 0) fd WRITE
      (trigger_if (events (m_fdContexts N ! nat fd) AND READ \<noteq> 0) fd READ (Inr N))"
proof -
  let ?c = "m_fdContexts N ! nat fd" let ?r = "events ?c AND READ \<noteq> 0"
  have ev: "events ?c \<in> Events" using assms by (simp add: core_inv_def fd_ok_def)
  have "?r \<Longrightarrow> regs N (fd, READ) \<noteq> None"
    using regs_at [OF assms(2,3), of READ] by (simp add: reg_None)
  from trigger_if_exact [OF assms disjI1 [OF refl] this] obtain N1 c where
    N1: "trigger_if ?r fd READ (Inr N) = Inr N1" "m_fdContexts N1 = (m_fdContexts N)[nat fd := c]"
      "events c = events ?c AND NOT (if ?r then READ else 0)"
    by blast
  have "trigger_registered fd READ (Inr N) = Inr N1"
    using N1(1) assms(2,3) by (simp add: trigger_registered_def fd_ctx_def)
  moreover have "fd_ctx fd N1 = Inr c"
    using N1(2) assms(2,3) by (simp add: fd_ctx_def)
  moreover have "events c AND WRITE = events ?c AND WRITE"
    using N1(3) ev by auto
  ultimately show ?thesis
    using N1(1) by (simp add: trigger_registered_def)
qed

lemma cancelAll_spec:
  assumes inv: "io_inv M" and fd: "0 \<le> fd"
  shows "\<exists>b M'. cancelAll refuse fd M = Inr (b, M') \<and>
    b = (\<not> refuse \<and> (regs M (fd, READ) \<noteq> None \<or> regs M (fd, WRITE) \<noteq> None)) \<and> io_inv M' \<and>
    regs M' = (if b then (regs M)((fd, READ) := None, (fd, WRITE) := None) else regs M) \<and>
    schedulers M' = (if b then deliver (regs M (fd, WRITE)) (deliver (regs M (fd, READ)) (schedulers M)) else schedulers M)"
proof (cases "int (length (m_fdContexts M)) \<le> fd")
  case True
  then have "cancelAll refuse fd M = Inr (False, M)" "regs M (fd, READ) = None" "regs M (fd, WRITE) = None"
    by (auto simp: cancelAll_def intro!: regs_outside)
  with inv show ?thesis by (intro exI [of _ False] exI [of _ M]) simp
next
  case False
  with fd have len: "nat fd < length (m_fdContexts M)" by (simp add: nat_less_iff)
  let ?c = "m_fdContexts M ! nat fd"
  have ctx: "fd_ctx fd M = Inr ?c" using fd len by (simp add: fd_ctx_def)
  have ev: "events ?c \<in> Events" using inv len by (simp add: io_inv_def core_inv_def fd_ok_def)
  have rg: "regs M (fd, READ) = reg READ ?c" "regs M (fd, WRITE) = reg WRITE ?c"
    using regs_at [OF fd len] by simp_all
  show ?thesis
  proof (cases "events ?c = 0")
    case True
    then have "cancelAll refuse fd M = Inr (False, M)" "regs M (fd, READ) = None" "regs M (fd, WRITE) = None"
      using False ctx rg by (simp_all add: cancelAll_def reg_None)
    with inv show ?thesis by (intro exI [of _ False] exI [of _ M]) simp
  next
    case nz: False
    let ?r = "events ?c AND READ \<noteq> 0" let ?w = "events ?c AND WRITE \<noteq> 0"
    have some: "?r \<or> ?w" using nz ev by (metis Events_bits(5))
    have "m_epoll M fd \<noteq> None" using inv fd len nz by (simp add: io_inv_def interest_def)
    then have ep: "epoll_ctl refuse EPOLL_CTL_DEL fd 0 (m_epoll M) = (if refuse then None else Some ((m_epoll M)(fd := None)))"
      by (auto simp: epoll_ctl_def)
    have "?r \<Longrightarrow> regs M (fd, READ) \<noteq> None" "?w \<Longrightarrow> regs M (fd, WRITE) \<noteq> None"
      "0 = events ?c AND NOT ((if ?r then READ else 0) OR (if ?w then WRITE else 0))"
      using rg ev by (auto simp: reg_None)
    from trigger_both [OF inv fd len this] obtain M' where
      M': "trigger_if ?w fd WRITE (trigger_if ?r fd READ (Inr (M\<lparr>m_epoll := (m_epoll M)(fd := None)\<rparr>))) = Inr M'"
      "io_inv M'" "events (m_fdContexts M' ! nat fd) = 0" "length (m_fdContexts M') = length (m_fdContexts M)"
      "regs M' = (\<lambda>x. if ?r \<and> x = (fd, READ) \<or> ?w \<and> x = (fd, WRITE) then None else regs M x)"
      "schedulers M' = deliver (if ?w then regs M (fd, WRITE) else None) (deliver (if ?r then regs M (fd, READ) else None) (schedulers M))"
      by auto
    have "core_inv (M\<lparr>m_epoll := (m_epoll M)(fd := None)\<rparr>)"
      using inv by (simp add: io_inv_def core_inv_def)
    from trigger_registered_both [OF this fd] M'(1) len
    have "trigger_registered fd WRITE (trigger_registered fd READ (Inr (M\<lparr>m_epoll := (m_epoll M)(fd := None)\<rparr>))) = Inr M'"
      by simp
    moreover have "fd_ctx fd M' = Inr (m_fdContexts M' ! nat fd)"
      using fd len M'(4) by (simp add: fd_ctx_def)
    ultimately have eq: "cancelAll refuse fd M = (if refuse then Inr (False, M) else Inr (True, M'))"
      using False ctx nz ep M'(3) by (simp add: cancelAll_def)
    have "regs M' = (regs M)((fd, READ) := None, (fd, WRITE) := None)"
      using M'(5) rg by (auto simp: fun_eq_iff reg_None)
    moreover have "(if ?w then regs M (fd, WRITE) else None) = regs M (fd, WRITE)" "(if ?r then regs M (fd, READ) else None) = regs M (fd, READ)"
      using rg by (simp_all add: reg_def)
    moreover have "regs M (fd, READ) \<noteq> None \<or> regs M (fd, WRITE) \<noteq> None"
      using some rg by (simp add: reg_None)
    ultimately show ?thesis
      using eq M'(2,6) inv by (cases refuse) (simp_all, blast+)
  qed
qed

text \<open>
  The events of a report that are registered and ready, errors and hang-ups making both ready.
\<close>

definition ready :: "u32 \<Rightarrow> int \<Rightarrow> u32 \<Rightarrow> 'c IOManager \<Rightarrow> bool" where
  "ready ev fd event M \<longleftrightarrow> regs M (fd, event) \<noteq> None \<and> (ev AND event \<noteq> 0 \<or> ev AND (EPOLLERR OR EPOLLHUP) \<noteq> 0)"

lemma handle_event_spec:
  assumes inv: "io_inv M" and fd: "0 \<le> fd" "nat fd < length (m_fdContexts M)"
    and rep: "\<And>event. event = READ \<or> event = WRITE \<Longrightarrow> ev AND event \<noteq> 0 \<Longrightarrow> regs M (fd, event) \<noteq> None"
  shows "\<exists>M'. handle_event refuse fd ev M = Inr M' \<and> io_inv M' \<and> length (m_fdContexts M') = length (m_fdContexts M) \<and>
    regs M' = (if refuse then regs M else (\<lambda>(f, e). if f = fd \<and> ready ev fd e M then None else regs M (f, e))) \<and>
    schedulers M' = (if refuse then schedulers M
      else deliver (if ready ev fd WRITE M then regs M (fd, WRITE) else None)
        (deliver (if ready ev fd READ M then regs M (fd, READ) else None) (schedulers M)))"
proof -
  let ?c = "m_fdContexts M ! nat fd" let ?r = "ready ev fd READ M" let ?w = "ready ev fd WRITE M"
  have ctx: "fd_ctx fd M = Inr ?c" using fd by (simp add: fd_ctx_def)
  have ok: "fd_ok (nat fd) ?c" using inv fd by (simp add: io_inv_def core_inv_def)
  then have ev: "events ?c \<in> Events" and no: "fd_no ?c = fd" using fd by (simp_all add: fd_ok_def)
  have rg: "regs M (fd, READ) = reg READ ?c" "regs M (fd, WRITE) = reg WRITE ?c"
    using regs_at [OF fd] by simp_all
  define ev' where "ev' = (if ev AND (EPOLLERR OR EPOLLHUP) \<noteq> 0 then ev OR ((EPOLLIN OR EPOLLOUT) AND events ?c) else ev)"
  have bits: "ev' AND EPOLLIN \<noteq> 0 \<longleftrightarrow> ?r" "ev' AND EPOLLOUT \<noteq> 0 \<longleftrightarrow> ?w"
    using rep [of READ] rep [of WRITE] rg ev
    by (auto simp: ready_def reg_None ev'_def bit.conj_disj_distrib2 or_eq_0_iff)
  have real: "events ?c AND ((if ?r then READ else 0) OR (if ?w then WRITE else 0)) = 0 \<longleftrightarrow> \<not> ?r \<and> \<not> ?w"
    using rg ev by (auto simp: ready_def reg_None)
  let ?real = "(if ?r then READ else 0) OR (if ?w then WRITE else 0)"
  have real_bits: "?real AND READ \<noteq> 0 \<longleftrightarrow> ?r" "?real AND WRITE \<noteq> 0 \<longleftrightarrow> ?w"
    by auto
  define l where "l = events ?c AND NOT ?real"
  have h: "handle_event refuse fd ev M =
    (if \<not> ?r \<and> \<not> ?w then Inr M
     else case epoll_ctl refuse (if l \<noteq> 0 then EPOLL_CTL_MOD else EPOLL_CTL_DEL) fd (EPOLLET OR l) (m_epoll M) of
       None \<Rightarrow> Inr M
     | Some tab \<Rightarrow> trigger_if ?w fd WRITE (trigger_if ?r fd READ (Inr (M\<lparr>m_epoll := tab\<rparr>))))"
    unfolding handle_event_def ctx sum.case Let_def ev'_def [symmetric] bits real real_bits l_def no ..
  show ?thesis
  proof (cases "?r \<or> ?w")
    case True
    then have "m_epoll M fd \<noteq> None"
      using epoll_registered(1) [OF inv] unfolding ready_def by blast
    note ep = epoll_ctl_left [where tab = "m_epoll M" and fd = fd and refuse = refuse and l = l, OF this]
    have "?r \<Longrightarrow> regs M (fd, READ) \<noteq> None" "?w \<Longrightarrow> regs M (fd, WRITE) \<noteq> None"
      by (simp_all add: ready_def)
    from trigger_both [OF inv fd this l_def] obtain M' where M':
      "trigger_if ?w fd WRITE (trigger_if ?r fd READ
         (Inr (M\<lparr>m_epoll := (m_epoll M)(fd := if l \<noteq> 0 then Some (EPOLLET OR l) else None)\<rparr>))) = Inr M'"
      "io_inv M'" "regs M' = (\<lambda>x. if ?r \<and> x = (fd, READ) \<or> ?w \<and> x = (fd, WRITE) then None else regs M x)"
      "schedulers M' = deliver (if ?w then regs M (fd, WRITE) else None) (deliver (if ?r then regs M (fd, READ) else None) (schedulers M))"
      "length (m_fdContexts M') = length (m_fdContexts M)"
      by blast
    have "handle_event refuse fd ev M = (if refuse then Inr M else Inr M')"
      unfolding h ep using True M'(1) by auto
    moreover have "regs M' = (\<lambda>(f, e). if f = fd \<and> ready ev fd e M then None else regs M (f, e))"
      unfolding M'(3) by (auto simp: fun_eq_iff ready_def regs_def split: if_splits)
    ultimately show ?thesis
      using M'(2,4,5) inv by (cases refuse) auto
  next
    case False
    then have "handle_event refuse fd ev M = Inr M" unfolding h by simp
    moreover have "regs M = (\<lambda>(f, e). if f = fd \<and> ready ev fd e M then None else regs M (f, e))"
      using False by (auto simp: fun_eq_iff ready_def regs_def split: if_splits)
    ultimately show ?thesis
      using False inv by (auto simp: deliver_def)
  qed
qed

lemma contextResize_grow:
  assumes "length cs \<le> n"
  shows "length (contextResize n cs) = n" "i < length cs \<Longrightarrow> contextResize n cs ! i = cs ! i"
    "length cs \<le> i \<Longrightarrow> i < n \<Longrightarrow> contextResize n cs ! i = new_FdContext i"
    "sum_list (map event_count (contextResize n cs)) = sum_list (map event_count cs)"
    "interest (contextResize n cs) = interest cs"
proof -
  show len: "length (contextResize n cs) = n" and old: "\<And>i. i < length cs \<Longrightarrow> contextResize n cs ! i = cs ! i"
    and new: "\<And>i. length cs \<le> i \<Longrightarrow> i < n \<Longrightarrow> contextResize n cs ! i = new_FdContext i"
    using assms by (simp_all add: contextResize_def nth_append)
  have "sum_list (map (event_count \<circ> new_FdContext) [length cs..<n]) = 0"
    by (simp add: sum_list_eq_0_iff event_count_def new_FdContext_def)
  then show "sum_list (map event_count (contextResize n cs)) = sum_list (map event_count cs)"
    using assms by (simp add: contextResize_def)
  show "interest (contextResize n cs) = interest cs"
  proof
    fix fd
    show "interest (contextResize n cs) fd = interest cs fd"
      using len old [of "nat fd"] new [of "nat fd"] assms
      by (cases "nat fd < length cs") (auto simp: interest_def new_FdContext_def)
  qed
qed

lemma resize_spec:
  assumes inv: "io_inv M" and n: "length (m_fdContexts M) \<le> n" "n \<le> 2 ^ 32"
  shows "io_inv (M\<lparr>m_fdContexts := contextResize n (m_fdContexts M)\<rparr>)"
    and "regs (M\<lparr>m_fdContexts := contextResize n (m_fdContexts M)\<rparr>) = regs M"
proof -
  note g = contextResize_grow [OF n(1)]
  have new: "fd_ok i (new_FdContext i)" "reg e (new_FdContext i) = None" for i e
    by (simp_all add: fd_ok_def new_FdContext_def no_context_def reg_def)
  have "fd_ok i (contextResize n (m_fdContexts M) ! i)" if "i < n" for i
    using inv g(2,3) [of i] that new(1) by (cases "i < length (m_fdContexts M)") (auto simp: io_inv_def core_inv_def)
  then show "io_inv (M\<lparr>m_fdContexts := contextResize n (m_fdContexts M)\<rparr>)"
    using inv n g by (simp add: io_inv_def core_inv_def)
  have "regs (M\<lparr>m_fdContexts := contextResize n (m_fdContexts M)\<rparr>) (fd, e) = regs M (fd, e)" for fd e
    using g(1) g(2,3) [of "nat fd"] n(1) new(2)
    by (cases "nat fd < length (m_fdContexts M)") (auto simp: regs_def)
  then show "regs (M\<lparr>m_fdContexts := contextResize n (m_fdContexts M)\<rparr>) = regs M"
    by (auto simp: fun_eq_iff)
qed

text \<open>The task that an event is delivered as: its callback, or the fiber that registered it.\<close>

definition new_task :: "nat \<times> State \<Rightarrow> 'c option \<Rightarrow> 'c ScheduleTask" where
  "new_task me cb = \<lparr>tk_fiber = (if cb = None then Some (fst me) else None), tk_cb = cb, tk_thread = - 1\<rparr>"

lemma added_ok:
  assumes "fd_ok i c" "event = READ \<or> event = WRITE" "events c AND event = 0" "in_use x"
    and c': "c' = putEventContext event x (c\<lparr>events := events c OR event\<rparr>)"
  shows "fd_ok i c'" "event_count c' = Suc (event_count c)" "reg event c' = Some (the (scheduler x), event_task x)"
    "ev \<in> {READ, WRITE} \<Longrightarrow> ev \<noteq> event \<Longrightarrow> reg ev c' = reg ev c"
  using assms by (auto simp: fd_ok_def event_count_def reg_def putEventContext_def Let_def)

lemma addEvent_in:
  assumes inv: "io_inv M" and fd: "0 \<le> fd" "nat fd < length (m_fdContexts M)" and event: "event = READ \<or> event = WRITE"
    and free: "regs M (fd, event) = None" and me: "cb = None \<Longrightarrow> snd me = RUNNING"
  shows "\<exists>M'. addEvent_locked True refuse (Some i) me fd event cb M = Inr (if refuse then - 1 else 0, M') \<and> io_inv M' \<and>
    regs M' = (if refuse then regs M else (regs M)((fd, event) \<mapsto> (i, new_task me cb))) \<and> schedulers M' = schedulers M"
proof -
  let ?c = "m_fdContexts M ! nat fd" let ?n = "events ?c OR event"
  have ctx: "fd_ctx fd M = Inr ?c" using fd by (simp add: fd_ctx_def)
  have ok: "fd_ok (nat fd) ?c" using inv fd by (simp add: io_inv_def core_inv_def)
  have ev: "events ?c \<in> Events" using ok by (simp add: fd_ok_def)
  have no: "events ?c AND event = 0" using free regs_at [OF fd event] by (simp add: reg_None)
  have "epoll_ctl refuse (if events ?c \<noteq> 0 then EPOLL_CTL_MOD else EPOLL_CTL_ADD) fd (EPOLLET OR events ?c OR event) (m_epoll M) =
      (if refuse then None else Some ((m_epoll M)(fd \<mapsto> EPOLLET OR ?n)))"
    using inv fd by (auto simp: epoll_ctl_def io_inv_def interest_def or.assoc)
  note ep = this
  define x where "x = no_context\<lparr>scheduler := Some i, ev_fiber := (if cb = None then Some (fst me) else None), ev_cb := cb\<rparr>"
  have x: "in_use x" "event_task x = new_task me cb" "scheduler x = Some i"
    by (auto simp: x_def in_use_def no_context_def event_task_def new_task_def)
  define c' where "c' = putEventContext event x (?c\<lparr>events := ?n\<rparr>)"
  note ad = added_ok [OF ok event no x(1) c'_def]
  define M' where "M' = put_fd_ctx fd c' (M\<lparr>m_epoll := (m_epoll M)(fd \<mapsto> EPOLLET OR ?n), m_pendingEventCount := m_pendingEventCount M + 1\<rparr>)"
  have gc: "getEventContext event (?c\<lparr>events := ?n\<rparr>) = Inr no_context"
    using ok event no by (auto simp: getEventContext_def fd_ok_def)
  have a: "addEvent_locked True refuse (Some i) me fd event cb M = (if refuse then Inr (- 1, M) else Inr (0, M'))"
    using me unfolding addEvent_locked_def Let_def if_True ctx sum.case no ep
    by (auto simp: gc M'_def c'_def x_def) (simp_all add: no_context_def)
  have cs: "m_fdContexts M' = (m_fdContexts M)[nat fd := c']"
    by (simp add: M'_def put_fd_ctx_def)
  have ec: "events c' = ?n" "?n \<noteq> 0"
    using Events_ops(5) [OF ev event] by (simp_all add: c'_def putEventContext_def)
  have "io_inv M'"
    by (rule io_put [OF inv fd ad(1) cs]) (simp_all add: ad(2) ec M'_def put_fd_ctx_def)
  moreover have "regs M' = (regs M)((fd, event) \<mapsto> (i, new_task me cb))"
    using regs_put [OF fd cs] ad(3,4) event regs_at [OF fd] x by (auto simp: fun_eq_iff)
  ultimately show ?thesis
    using a inv by (cases refuse) (auto simp: M'_def put_fd_ctx_def)
qed

lemma addEvent_spec:
  assumes inv: "io_inv M" and fd: "0 \<le> fd" "fd < 2 ^ 31" and event: "event = READ \<or> event = WRITE"
    and free: "regs M (fd, event) = None" and me: "cb = None \<Longrightarrow> snd me = RUNNING"
  shows "\<exists>M'. addEvent refuse (Some i) me fd event cb M = Inr (if refuse then - 1 else 0, M') \<and> io_inv M' \<and>
    regs M' = (if refuse then regs M else (regs M)((fd, event) \<mapsto> (i, new_task me cb))) \<and> schedulers M' = schedulers M"
proof (cases "int (length (m_fdContexts M)) > fd")
  case True
  then have "nat fd < length (m_fdContexts M)" using fd by (simp add: nat_less_iff)
  from addEvent_in [where cb = cb and me = me, OF inv fd(1) this event free me] True show ?thesis
    by (simp add: addEvent_def)
next
  case False
  define n where "n = nat (fd * 3 div 2)"
  have n: "length (m_fdContexts M) \<le> n" "n \<le> 2 ^ 32" "nat fd < n"
    using False fd inv by (auto simp: n_def io_inv_def core_inv_def)
  define N where "N = M\<lparr>m_fdContexts := contextResize n (m_fdContexts M)\<rparr>"
  note rs = resize_spec [OF inv n(1,2), folded N_def]
  have len: "nat fd < length (m_fdContexts N)"
    using n contextResize_grow(1) [OF n(1)] by (simp add: N_def)
  have "addEvent refuse (Some i) me fd event cb M = addEvent_locked True refuse (Some i) me fd event cb N"
    using False by (simp add: addEvent_def addEvent_locked_def N_def n_def)
  moreover have "regs N (fd, event) = None" "schedulers N = schedulers M"
    using rs(2) free by (simp_all add: N_def)
  ultimately show ?thesis
    using addEvent_in [where cb = cb and me = me and refuse = refuse and i = i, OF rs(1) fd(1) len event _ me] rs(2)
    by (cases refuse) simp_all
qed

lemma addEvent_twice:
  assumes "io_inv M" "regs M (fd, event) \<noteq> None"
  shows "addEvent refuse cur me fd event cb M = Inl Assert_failed"
  using epoll_registered [OF assms] by (simp add: addEvent_def addEvent_locked_def)

section \<open>Runs of the manager\<close>

lemma registered_card: "card (dom (regs M)) = sum_list (map event_count (m_fdContexts M))"
proof -
  let ?cs = "m_fdContexts M"
  let ?A = "\<lambda>i. Pair (int i) ` {e \<in> {READ, WRITE}. events (?cs ! i) AND e \<noteq> 0}"
  have "dom (regs M) = (\<Union>i\<in>{0..<length ?cs}. ?A i)"
  proof (rule set_eqI)
    fix x :: "int \<times> u32"
    obtain fd e where x: "x = (fd, e)" by fastforce
    have "x \<in> dom (regs M) \<longleftrightarrow> 0 \<le> fd \<and> nat fd < length ?cs \<and> e \<in> {READ, WRITE} \<and> events (?cs ! nat fd) AND e \<noteq> 0"
      by (auto simp: x regs_def reg_def Let_def dom_def)
    also have "\<dots> \<longleftrightarrow> x \<in> (\<Union>i\<in>{0..<length ?cs}. ?A i)"
      by (force simp: x intro: bexI [of _ "nat fd"])
    finally show "x \<in> dom (regs M) \<longleftrightarrow> x \<in> (\<Union>i\<in>{0..<length ?cs}. ?A i)" .
  qed
  moreover have "card (\<Union>i\<in>{0..<length ?cs}. ?A i) = (\<Sum>i\<in>{0..<length ?cs}. card (?A i))"
    by (intro card_UN_disjoint) auto
  moreover have "card (?A i) = event_count (?cs ! i)" for i
  proof -
    have "{e \<in> {READ, WRITE}. events (?cs ! i) AND e \<noteq> 0} =
        (if events (?cs ! i) AND READ \<noteq> 0 then {READ} else {}) \<union> (if events (?cs ! i) AND WRITE \<noteq> 0 then {WRITE} else {})"
      by auto
    then show ?thesis
      by (simp add: card_image inj_on_def event_count_def)
  qed
  ultimately show ?thesis
    by (simp add: sum_list_sum_nth)
qed

lemma pending_exact:
  assumes "io_inv M"
  shows "unat (m_pendingEventCount M) = card (dom (regs M))"
proof -
  have "sum_list (map event_count cs) \<le> 2 * length cs" for cs :: "'a FdContext list"
    by (induction cs) (auto simp: event_count_def)
  with assms have "sum_list (map event_count (m_fdContexts M)) < 2 ^ 64"
    by (fastforce simp: io_inv_def core_inv_def intro: le_less_trans)
  then show ?thesis
    using assms by (simp add: registered_card io_inv_def core_inv_def unat_of_nat)
qed

lemma finite_regs: "finite (dom (regs M))"
proof -
  have "dom (regs M) \<subseteq> int ` {..<length (m_fdContexts M)} \<times> {READ, WRITE}"
    by (auto simp: regs_def dom_def image_iff split: if_splits intro!: bexI [of _ "nat _"])
  then show ?thesis
    by (rule finite_subset) simp
qed

text \<open>
  The calls that the threads make, each under the lock of the context. An event is registered from a thread that
  has a scheduler, by a fiber that runs. A report of \<open>epoll_wait\<close> names events of descriptors the manager knows; the schedulers and timers
  go on by themselves. A call that fails an assertion ends the program.
\<close>

inductive io_step :: "'c IOManager \<Rightarrow> 'c IOManager \<Rightarrow> bool" where
  step_add: "0 \<le> fd \<Longrightarrow> fd < 2 ^ 31 \<Longrightarrow> event \<in> {READ, WRITE} \<Longrightarrow> (cb = None \<Longrightarrow> snd me = RUNNING) \<Longrightarrow>
    addEvent refuse (Some i) me fd event cb M = Inr (r, M') \<Longrightarrow> io_step M M'"
| step_del: "0 \<le> fd \<Longrightarrow> event \<in> {READ, WRITE} \<Longrightarrow> delEvent refuse fd event M = Inr (b, M') \<Longrightarrow> io_step M M'"
| step_cancel: "0 \<le> fd \<Longrightarrow> event \<in> {READ, WRITE} \<Longrightarrow> cancelEvent refuse fd event M = Inr (b, M') \<Longrightarrow> io_step M M'"
| step_cancel_all: "0 \<le> fd \<Longrightarrow> cancelAll refuse fd M = Inr (b, M') \<Longrightarrow> io_step M M'"
| step_report: "0 \<le> fd \<Longrightarrow> nat fd < length (m_fdContexts M) \<Longrightarrow>
    (\<And>event. event \<in> {READ, WRITE} \<Longrightarrow> ev AND event \<noteq> 0 \<Longrightarrow> regs M (fd, event) \<noteq> None) \<Longrightarrow>
    handle_event refuse fd ev M = Inr M' \<Longrightarrow> io_step M M'"
| step_other: "io_step M (M\<lparr>schedulers := ss, timer_manager := T\<rparr>)"

abbreviation io_init :: "'c IOManager \<Rightarrow> bool" where
  "io_init M \<equiv> \<exists>i ss now. M = new_IOManager i ss now"

abbreviation io_reach :: "'c IOManager \<Rightarrow> bool" where
  "io_reach \<equiv> reachable io_init io_step"

lemma io_init_inv: "io_inv (new_IOManager i (ss :: nat \<Rightarrow> 'c Scheduler) now)"
proof -
  note g = contextResize_grow [of "[] :: 'c FdContext list" 32]
  have "fd_ok i (new_FdContext i :: 'c FdContext)" for i
    by (simp add: fd_ok_def new_FdContext_def no_context_def)
  moreover have "interest ([] :: 'c FdContext list) = Map.empty"
    by (auto simp: interest_def fun_eq_iff)
  moreover have "sum_list (map event_count (contextResize 32 [] :: 'c FdContext list)) = 0"
    by (subst g(4)) simp_all
  ultimately show ?thesis
    using g by (simp add: io_inv_def core_inv_def new_IOManager_def del: sum_list_eq_0_iff)
qed

lemma io_step_inv:
  assumes "io_step M M'" "io_inv M"
  shows "io_inv M'"
  using assms
proof (induction rule: io_step.induct)
  case (step_add fd event cb me refuse i M r M')
  then have event: "event = READ \<or> event = WRITE" by simp
  have free: "regs M (fd, event) = None"
  proof (rule ccontr)
    assume "regs M (fd, event) \<noteq> None"
    from addEvent_twice [OF step_add.prems this] step_add.hyps(5) show False by simp
  qed
  from addEvent_spec [OF step_add.prems step_add.hyps(1,2) event free step_add.hyps(4), of cb refuse i] step_add.hyps(5)
  show ?case by auto
next
  case (step_del fd event refuse M b M')
  then show ?case using delEvent_spec [of M fd event refuse] by fastforce
next
  case (step_cancel fd event refuse M b M')
  then show ?case using cancelEvent_spec [of M fd event refuse] by fastforce
next
  case (step_cancel_all fd refuse M b M')
  then show ?case using cancelAll_spec [of M fd refuse] by fastforce
next
  case (step_report fd M ev refuse M')
  then show ?case using handle_event_spec [of M fd ev refuse] by fastforce
qed (simp add: io_inv_def core_inv_def)

interpretation io_machine: step_invariant io_init io_step io_inv
  by unfold_locales (auto intro: io_init_inv io_step_inv)

lemma io_reach_inv: "io_reach M \<Longrightarrow> io_inv M"
  by (rule io_machine.reachable_inv)

section \<open>A round of \<open>idle\<close>\<close>

definition valid_report :: "'c IOManager \<Rightarrow> report \<Rightarrow> bool" where
  "valid_report M r = (case r of
     Tickle_fd \<Rightarrow> True
   | Ready fd ev refuse \<Rightarrow> 0 \<le> fd \<and> nat fd < length (m_fdContexts M) \<and>
       (\<forall>event\<in>{READ, WRITE}. ev AND event \<noteq> 0 \<longrightarrow> regs M (fd, event) \<noteq> None))"

fun report_fd :: "report \<Rightarrow> int option" where
  "report_fd Tickle_fd = None"
| "report_fd (Ready fd ev refuse) = Some fd"

text \<open>The registered events that the reports make ready, unless the kernel refuses to change the interest.\<close>

definition reported :: "report list \<Rightarrow> 'c IOManager \<Rightarrow> int \<times> u32 \<Rightarrow> bool" where
  "reported rs M = (\<lambda>(fd, event). \<exists>ev. Ready fd ev False \<in> set rs \<and> ready ev fd event M)"

lemma handle_events_spec:
  assumes "io_inv M" "\<forall>r\<in>set rs. valid_report M r" "distinct (List.map_filter report_fd rs)"
  shows "\<exists>M'. handle_events rs M = Inr M' \<and> io_inv M' \<and>
    regs M' = (\<lambda>x. if reported rs M x then None else regs M x)"
  using assms
proof (induction rs arbitrary: M)
  case Nil
  then show ?case by (simp add: reported_def case_prod_beta)
next
  case (Cons r rs)
  show ?case
  proof (cases r)
    case Tickle_fd
    with Cons.prems Cons.IH [of M] show ?thesis
      by (simp add: map_filter_simps reported_def case_prod_beta)
  next
    case (Ready fd ev refuse)
    have v: "0 \<le> fd" "nat fd < length (m_fdContexts M)"
      "\<And>event. event = READ \<or> event = WRITE \<Longrightarrow> ev AND event \<noteq> 0 \<Longrightarrow> regs M (fd, event) \<noteq> None"
      using Cons.prems(2) Ready by (auto simp: valid_report_def)
    obtain M1 where M1: "handle_event refuse fd ev M = Inr M1" "io_inv M1" "length (m_fdContexts M1) = length (m_fdContexts M)"
      and r1: "regs M1 = (if refuse then regs M else (\<lambda>(f, e). if f = fd \<and> ready ev fd e M then None else regs M (f, e)))"
      using handle_event_spec [where refuse = refuse, OF Cons.prems(1) v] by blast
    have other: "f \<noteq> fd \<Longrightarrow> regs M1 (f, e) = regs M (f, e)" for f e
      using r1 by simp
    have fd_new: "Ready f ev' b \<in> set rs \<Longrightarrow> f \<noteq> fd" for f ev' b
      using Cons.prems(3) Ready by (force simp: map_filter_simps in_map_filter)
    have "\<forall>r\<in>set rs. valid_report M1 r"
    proof
      fix r' assume r': "r' \<in> set rs"
      with Cons.prems(2) have "valid_report M r'" by simp
      with r' show "valid_report M1 r'"
        using fd_new other M1(3) by - (cases r' rule: report.exhaust, auto simp: valid_report_def)
    qed
    then obtain M' where M': "handle_events rs M1 = Inr M'" "io_inv M'" "regs M' = (\<lambda>x. if reported rs M1 x then None else regs M1 x)"
      using Cons.IH [OF M1(2)] Cons.prems(3) Ready by (auto simp: map_filter_simps)
    have "reported rs M1 (f, e) \<longleftrightarrow> reported rs M (f, e)" for f e
      using fd_new other by (auto simp: reported_def ready_def)
    moreover have "reported (r # rs) M (f, e) \<longleftrightarrow> reported rs M (f, e) \<or> (f = fd \<and> \<not> refuse \<and> ready ev fd e M)" for f e
      using Ready by (auto simp: reported_def)
    ultimately have "regs M' = (\<lambda>x. if reported (r # rs) M x then None else regs M x)"
      using M'(3) r1 by (auto simp: fun_eq_iff)
    with M1 M' Ready show ?thesis by simp
  qed
qed

lemma schedule_self_fields:
  "m_fdContexts (foldl schedule_self M cbs) = m_fdContexts M" "m_epoll (foldl schedule_self M cbs) = m_epoll M"
  "m_pendingEventCount (foldl schedule_self M cbs) = m_pendingEventCount M"
  by (induction cbs arbitrary: M) (simp_all add: schedule_self_def)

lemma schedule_self_keeps:
  "io_inv (foldl schedule_self M cbs) \<longleftrightarrow> io_inv M" "regs (foldl schedule_self M cbs) = regs M"
proof -
  show "io_inv (foldl schedule_self M cbs) \<longleftrightarrow> io_inv M"
    by (simp only: io_inv_def core_inv_def schedule_self_fields)
  show "regs (foldl schedule_self M cbs) = regs M"
    by (rule regs_cong) (rule schedule_self_fields)
qed

lemma reported_cong: "regs M' = regs M \<Longrightarrow> reported rs M' = reported rs M"
  by (simp add: reported_def ready_def)

lemma valid_report_cong: "regs M' = regs M \<Longrightarrow> m_fdContexts M' = m_fdContexts M \<Longrightarrow> valid_report M' = valid_report M"
  by (auto simp: valid_report_def fun_eq_iff split: report.splits)

section \<open>Properties of the manager\<close>

lemma ucast_word_of_int: "(ucast (word_of_int k :: u64) :: u32) = word_of_int k" for k :: int
  by (rule bit_word_eqI) (simp add: bit_simps)

lemma int_through_u64: "sint (ucast (word_of_int k :: u64) :: u32) = k" if "- (2 ^ 31) \<le> k" "k < 2 ^ 31" for k :: int
  using that by (simp add: ucast_word_of_int signed_of_int signed_take_bit_int_eq_self)

lemma low_half_signed: "sint (ucast t :: u32) = (let l = int (unat (t::u64) mod 2 ^ 32) in if l < 2 ^ 31 then l else l - 2 ^ 32)"
proof -
  have "uint (ucast t :: u32) = int (unat t mod 2 ^ 32)"
    by (simp add: unsigned_ucast_eq take_bit_eq_mod of_nat_mod)
  moreover have "signed_take_bit 31 l = (if l < 2 ^ 31 then l else l - 2 ^ 32)" if "0 \<le> l" "l < 2 ^ 32" for l :: int
  proof (cases "l < 2 ^ 31")
    case True
    then show ?thesis using that by (simp add: signed_take_bit_int_eq_self)
  next
    case False
    have "(l + 2 ^ 31) mod 2 ^ 32 = l - 2 ^ 31"
      using that False by (simp add: mod_pos_geq)
    with False show ?thesis
      by (simp add: signed_take_bit_eq_take_bit_shift take_bit_eq_mod)
  qed
  ultimately show ?thesis by (simp add: sint_uint Let_def)
qed

lemma word_diff_not_max: "0 < now \<Longrightarrow> now < n \<Longrightarrow> n - now \<noteq> (- 1 :: u64)"
proof
  assume a: "0 < now" "now < n" "n - now = - 1"
  from a(2) have "unat (n - now) = unat n - unat now" by (intro unat_sub) simp
  moreover have "unat (- 1 :: u64) = 2 ^ 64 - 1" by (rule unat_ULLONG_MAX)
  moreover have "unat n < 2 ^ 64" using unsigned_less [of n] by simp
  moreover have "0 < unat now" using a(1) by (simp add: word_less_nat_alt)
  ultimately show False using a(3) by simp
qed

lemma count_zero: "unat (m::u64) = card (dom r) \<Longrightarrow> finite (dom r) \<Longrightarrow> m = 0 \<longleftrightarrow> r = Map.empty"
  by (metis card_0_eq dom_eq_empty_conv unsigned_eq_0_iff)


text \<open>
  C17: The operations on events implement the table of registrations, for a descriptor and an event that are in
  range. Adding an event that is not registered registers it, \<open>delEvent\<close> removes it, \<open>cancelEvent\<close> and \<open>cancelAll\<close> remove and
  deliver it, as the task of its context to the scheduler of its context; when the kernel refuses the change, or
  there is nothing to do, everything stays as it is and the result says so. No assertion fails but that of adding an
  event twice.
\<close>

definition io_result ::
  "io_error + ('r \<times> 'c IOManager) \<Rightarrow> 'r \<Rightarrow> 'c registrations \<Rightarrow> (nat \<Rightarrow> 'c Scheduler) \<Rightarrow> bool" where
  "io_result res v A ss \<longleftrightarrow> (\<exists>M'. res = Inr (v, M') \<and> io_inv M' \<and> regs M' = A \<and> schedulers M' = ss)"

theorem iomanager_refines:
  assumes "io_reach M" "0 \<le> fd" "fd < 2 ^ 31" "event \<in> {READ, WRITE}" "cb \<noteq> None \<or> snd me = RUNNING"
  shows "(if regs M (fd, event) \<noteq> None then addEvent refuse (Some i) me fd event cb M = Inl Assert_failed
      else io_result (addEvent refuse (Some i) me fd event cb M) (if refuse then - 1 else 0)
        (if refuse then regs M else (regs M)((fd, event) \<mapsto> (i, new_task me cb))) (schedulers M)) \<and>
    (let b = (\<not> refuse \<and> regs M (fd, event) \<noteq> None) in
      io_result (delEvent refuse fd event M) b (if b then (regs M)((fd, event) := None) else regs M) (schedulers M) \<and>
      io_result (cancelEvent refuse fd event M) b (if b then (regs M)((fd, event) := None) else regs M)
        (if b then deliver (regs M (fd, event)) (schedulers M) else schedulers M)) \<and>
    (let b = (\<not> refuse \<and> (regs M (fd, READ) \<noteq> None \<or> regs M (fd, WRITE) \<noteq> None)) in
      io_result (cancelAll refuse fd M) b (if b then (regs M)((fd, READ) := None, (fd, WRITE) := None) else regs M)
        (if b then deliver (regs M (fd, WRITE)) (deliver (regs M (fd, READ)) (schedulers M)) else schedulers M))"
proof -
  have inv: "io_inv M" by (rule io_reach_inv [OF assms(1)])
  have event: "event = READ \<or> event = WRITE" using assms(4) by simp
  have me: "cb = None \<Longrightarrow> snd me = RUNNING" using assms(5) by blast
  have "regs M (fd, event) = None \<Longrightarrow> io_result (addEvent refuse (Some i) me fd event cb M) (if refuse then - 1 else 0)
        (if refuse then regs M else (regs M)((fd, event) \<mapsto> (i, new_task me cb))) (schedulers M)"
    unfolding io_result_def by (rule addEvent_spec [where cb = cb and me = me, OF inv assms(2,3) event _ me])
  then have add: "if regs M (fd, event) \<noteq> None then addEvent refuse (Some i) me fd event cb M = Inl Assert_failed
      else io_result (addEvent refuse (Some i) me fd event cb M) (if refuse then - 1 else 0)
        (if refuse then regs M else (regs M)((fd, event) \<mapsto> (i, new_task me cb))) (schedulers M)"
    using addEvent_twice [OF inv, of fd event refuse "Some i" me cb] by (cases "regs M (fd, event) = None") (simp_all only: if_True if_False not_not simp_thms)
  show ?thesis
    unfolding Let_def
  proof (intro conjI)
    show "io_result (delEvent refuse fd event M) (\<not> refuse \<and> regs M (fd, event) \<noteq> None)
      (if \<not> refuse \<and> regs M (fd, event) \<noteq> None then (regs M)((fd, event) := None) else regs M) (schedulers M)"
      unfolding io_result_def using delEvent_spec [OF inv assms(2) event, of refuse] by blast
    show "io_result (cancelEvent refuse fd event M) (\<not> refuse \<and> regs M (fd, event) \<noteq> None)
      (if \<not> refuse \<and> regs M (fd, event) \<noteq> None then (regs M)((fd, event) := None) else regs M)
      (if \<not> refuse \<and> regs M (fd, event) \<noteq> None then deliver (regs M (fd, event)) (schedulers M) else schedulers M)"
      unfolding io_result_def using cancelEvent_spec [OF inv assms(2) event, of refuse] by blast
  qed (rule add, unfold io_result_def, use cancelAll_spec [OF inv assms(2), of refuse] in blast)
qed


text \<open>
  The report of a descriptor that is ready to read and to write, made before another thread calls \<open>delEvent\<close> for
  one of the two events and handled after it, aborts the program: \<open>real_events\<close> is not restricted to the events
  that are registered, and \<open>triggerEvent\<close> asserts that they are.
\<close>

theorem stale_report_aborts:
  assumes "io_reach M" "regs M (fd, READ) \<noteq> None" "regs M (fd, WRITE) \<noteq> None"
    and "delEvent False fd WRITE M = Inr (b, M')"
  shows "handle_event False fd (EPOLLIN OR EPOLLOUT) M' = Inl Assert_failed"
proof -
  have inv: "io_inv M" by (rule io_reach_inv [OF assms(1)])
  have fd: "0 \<le> fd" using epoll_registered [OF inv assms(2)] by simp
  have M': "io_inv M'" "regs M' = (regs M)((fd, WRITE) := None)"
    using delEvent_spec [OF inv fd, of WRITE False] assms(3,4) by auto
  then have rd: "regs M' (fd, READ) \<noteq> None" "regs M' (fd, WRITE) = None"
    using assms(2) by simp_all
  note e = epoll_registered [OF M'(1) rd(1)]
  let ?c = "m_fdContexts M' ! nat fd"
  have "fd_ok (nat fd) ?c" using M'(1) e(3) by (simp add: io_inv_def core_inv_def)
  then have c: "events ?c \<in> Events" "fd_no ?c = fd" using fd by (simp_all add: fd_ok_def)
  have "events ?c AND WRITE = 0"
    using rd(2) regs_at [OF e(2,3), of WRITE] by (simp add: reg_None)
  with c(1) e(6) have one: "events ?c = 1" by auto
  define N where "N = M'\<lparr>m_epoll := (m_epoll M')(fd := None)\<rparr>"
  have core: "core_inv N" and len: "nat fd < length (m_fdContexts N)" and ev: "events (m_fdContexts N ! nat fd) AND READ \<noteq> 0"
    using M'(1) e(3,6) by (simp_all add: N_def io_inv_def core_inv_def)
  obtain N1 where N1: "trigger fd READ N = Inr N1" "m_fdContexts N1 = (m_fdContexts N)[nat fd := cleared READ ?c]"
    using trigger_exact [OF core e(2) len _ ev] by (auto simp: N_def)
  have "events (cleared READ ?c) AND WRITE = 0" using one by simp
  then have "trigger fd WRITE N1 = Inl Assert_failed"
    using N1(2) len e(2) by (simp add: trigger_def fd_ctx_def triggerEvent_def)
  moreover have "handle_event False fd (EPOLLIN OR EPOLLOUT) M' = trigger_if True fd WRITE (trigger_if True fd READ (Inr N))"
    using e(1,5) one c(2) by (auto simp: handle_event_def Let_def epoll_ctl_def N_def)
  ultimately show ?thesis
    using N1(1) by simp
qed

text \<open>
  Two threads that register events of descriptors beyond the vector race: both find it too short under the read
  lock, and the one that resizes it last does not look again. If its descriptor is the smaller one, the
  vector shrinks, and the context of the other is gone while the kernel still watches its descriptor and the
  counter still counts it.
\<close>

theorem resize_race:
  assumes "io_reach M" "int (length (m_fdContexts M)) \<le> fd2" "fd2 * 3 div 2 \<le> fd1" "fd1 < 2 ^ 31" "event \<in> {READ, WRITE}"
    and "addEvent_locked False False (Some i1) me1 fd1 event (Some cb1) M = Inr (r1, M1)"
    and "addEvent_locked False refuse (Some i2) me2 fd2 event (Some cb2) M1 = Inr (r2, M2)"
  shows "r1 = 0 \<and> regs M1 (fd1, event) = Some (i1, new_task me1 (Some cb1)) \<and>
    regs M2 (fd1, event) = None \<and> m_epoll M2 fd1 \<noteq> None"
proof -
  have inv: "io_inv M" by (rule io_reach_inv [OF assms(1)])
  have event: "event = READ \<or> event = WRITE" using assms(5) by simp
  have fd: "32 \<le> fd2" "fd2 < fd1" "int (length (m_fdContexts M)) \<le> fd1"
    using inv assms(2,3) by (auto simp: io_inv_def core_inv_def)
  have free: "regs M (fd1, event) = None"
    using fd by (intro regs_outside) auto
  have "addEvent False (Some i1) me1 fd1 event (Some cb1) M = Inr (r1, M1)"
    using assms(6) fd(3) by (simp add: addEvent_def)
  then have one: "r1 = 0" "io_inv M1" "regs M1 (fd1, event) = Some (i1, new_task me1 (Some cb1))"
    using addEvent_spec [where cb = "Some cb1" and me = me1 and refuse = False and i = i1, OF inv _ assms(4) event free] fd by auto
  have ep: "m_epoll M1 fd1 \<noteq> None"
    by (rule epoll_registered(1) [OF one(2), of _ event]) (simp add: one(3))
  define N where "N = M1\<lparr>m_fdContexts := contextResize (nat (fd2 * 3 div 2)) (m_fdContexts M1)\<rparr>"
  have len: "length (m_fdContexts N) \<le> max (nat (fd2 * 3 div 2)) 0"
    by (simp add: N_def contextResize_def)
  have "length (m_fdContexts M2) = length (m_fdContexts N) \<and> (\<forall>f. f \<noteq> fd2 \<longrightarrow> m_epoll M2 f = m_epoll N f)"
    using assms(7)
    by (auto simp: addEvent_locked_def N_def Let_def put_fd_ctx_def epoll_ctl_def split: sum.splits if_splits option.splits)
  then have "regs M2 (fd1, event) = None" "m_epoll M2 fd1 \<noteq> None"
    using len ep fd assms(3) by (auto intro!: regs_outside simp: N_def)
  with one show ?thesis by simp
qed

text \<open>
  The timeout of \<open>epoll_wait\<close> is at most five seconds, as the comment of the source says, but it is the low half
  of the time to the next timer that is compared, as a signed number: for a timer that is \<open>2 ^ 31\<close> milliseconds
  or more away it can be negative, which is to wait without limit, or much too short.
\<close>

theorem epoll_timeout_exact:
  "epoll_timeout t =
     (if t = - 1 then 5000
      else let l = int (unat t mod 2 ^ 32) in if l < 2 ^ 31 then min l 5000 else l - 2 ^ 32)"
proof (cases "t = - 1")
  case True
  then show ?thesis by (simp add: epoll_timeout_def)
next
  case False
  then show ?thesis
    using int_through_u64 [of "min (sint (ucast t :: u32)) 5000"] sint_lt [of "ucast t :: u32"] sint_ge [of "ucast t :: u32"]
    by (simp add: epoll_timeout_def low_half_signed [of t] Let_def min_def)
qed

section \<open>The hypotheses can hold\<close>

definition io0 :: "unit IOManager" where
  "io0 = new_IOManager 0 (\<lambda>_. sch world0) 0"

lemma io0_reach: "io_reach io0"
  by (rule reachable_init) (auto simp: io0_def)

lemma io0_regs: "regs io0 = Map.empty"
proof -
  have "reg e (new_FdContext i) = None" for e i
    by (simp add: reg_def new_FdContext_def)
  moreover have "i < 32 \<Longrightarrow> m_fdContexts io0 ! i = new_FdContext i" for i
    by (simp add: io0_def new_IOManager_def contextResize_def)
  moreover have "length (m_fdContexts io0) = 32"
    by (simp add: io0_def new_IOManager_def contextResize_def)
  ultimately show ?thesis
    by (auto simp: regs_def fun_eq_iff)
qed

lemma io_added:
  assumes "io_reach M" "0 \<le> fd" "fd < 2 ^ 31" "event = READ \<or> event = WRITE" "regs M (fd, event) = None"
  obtains M' where "addEvent False (Some 0) (0, RUNNING) fd event (Some ()) M = Inr (0, M')" "io_reach M'"
    "regs M' = (regs M)((fd, event) \<mapsto> (0, new_task (0, RUNNING) (Some ())))"
proof -
  obtain M' where M': "addEvent False (Some 0) (0, RUNNING) fd event (Some ()) M = Inr (0, M')"
    "regs M' = (regs M)((fd, event) \<mapsto> (0, new_task (0, RUNNING) (Some ())))"
    using addEvent_spec [where cb = "Some ()" and me = "(0, RUNNING)" and refuse = False and i = 0, OF io_reach_inv [OF assms(1)] assms(2-5)]
    by auto
  have "io_step M M'"
    by (rule step_add [OF assms(2,3) _ _ M'(1)]) (use assms(4) in auto)
  with assms(1) have "io_reach M'" by (rule reachable_step)
  with M' show thesis by (intro that)
qed


theorem iomanager_refines_witness:
  "io_result (addEvent False (Some 0) (7, RUNNING) 40 READ None io0) 0 [(40, READ) \<mapsto> (0, new_task (7, RUNNING) None)] (schedulers io0)"
  using iomanager_refines [OF io0_reach, of 40 READ None "(7, RUNNING)" False 0] by (simp add: io0_regs)


theorem stale_report_aborts_witness:
  "\<exists>M b M'. io_reach (M :: unit IOManager) \<and> delEvent False 5 WRITE M = Inr (b, M') \<and>
     handle_event False 5 (EPOLLIN OR EPOLLOUT) M' = Inl Assert_failed"
proof -
  obtain M1 where M1: "io_reach M1" "regs M1 = (regs io0)((5, READ) \<mapsto> (0, new_task (0, RUNNING) (Some ())))"
    using io_added [OF io0_reach, of 5 READ] io0_regs by auto
  obtain M2 where M2: "io_reach M2" "regs M2 = (regs M1)((5, WRITE) \<mapsto> (0, new_task (0, RUNNING) (Some ())))"
    using io_added [OF M1(1), of 5 WRITE] io0_regs M1(2) by auto
  obtain b M' where d: "delEvent False 5 WRITE M2 = Inr (b, M')"
    using delEvent_spec [OF io_reach_inv [OF M2(1)], of 5 WRITE False] by auto
  have "handle_event False 5 (EPOLLIN OR EPOLLOUT) M' = Inl Assert_failed"
    by (rule stale_report_aborts [OF M2(1) _ _ d]) (simp_all add: M2 M1)
  with M2(1) d show ?thesis by blast
qed

theorem resize_race_witness:
  "\<exists>M1 M2 r1 r2. addEvent_locked False False (Some 0) (0, RUNNING) 100 READ (Some ()) io0 = Inr (r1, M1) \<and>
     addEvent_locked False True (Some 0) (0, RUNNING) 40 READ (Some ()) M1 = Inr (r2, M2) \<and>
     regs M2 (100, READ) = None \<and> m_epoll M2 100 \<noteq> None"
proof -
  have len: "length (m_fdContexts io0) = 32"
    by (simp add: io0_def new_IOManager_def contextResize_def)
  obtain M1 where M1: "addEvent False (Some 0) (0, RUNNING) 100 READ (Some ()) io0 = Inr (0, M1)" "io_reach M1"
    "regs M1 = [(100, READ) \<mapsto> (0, new_task (0, RUNNING) (Some ()))]"
    using io_added [OF io0_reach, of 100 READ] io0_regs by auto
  then have a: "addEvent_locked False False (Some 0) (0, RUNNING) 100 READ (Some ()) io0 = Inr (0, M1)"
    by (simp add: addEvent_def len)
  define N where "N = M1\<lparr>m_fdContexts := contextResize 60 (m_fdContexts M1)\<rparr>"
  have big: "100 < length (m_fdContexts M1)"
    using epoll_registered(3) [OF io_reach_inv [OF M1(2)], of 100 READ] M1(3) by simp
  then have "events (m_fdContexts M1 ! 40) AND READ = 0"
    using regs_at [of 40 M1 READ] M1(3) by (simp add: reg_None [symmetric])
  with big have c: "events (m_fdContexts N ! 40) AND READ = 0" "40 < length (m_fdContexts N)"
    by (simp_all add: N_def contextResize_def nth_append)
  obtain M2 r2 where b: "addEvent_locked False True (Some 0) (0, RUNNING) 40 READ (Some ()) M1 = Inr (r2, M2)"
    using c by (simp add: addEvent_locked_def Let_def fd_ctx_def epoll_ctl_def N_def)
  from resize_race [OF io0_reach _ _ _ _ a b] a b len show ?thesis
    by auto
qed

end
