(* ===== verification/Fd_Manager.thy ===== *)
theory Fd_Manager
  imports Io_Manager
begin

text \<open>
  \<open>fd_manager.h\<close> and \<open>fd_manager.cc\<close>, and the hooks of \<open>hook.cc\<close> for the calls that open, close and configure
  descriptors: a context per descriptor, which keeps what the program asked for while the kernel has every socket
  in non-blocking mode.

  The kernel is the table of the open descriptors, each with the flags that \<open>fcntl\<close> reads and writes; no two of them
  share their flags. What a system call answers is an argument where the program cannot know it. A C \<open>int\<close> that
  holds flags is the word of its bits. The vector of contexts has fewer than \<open>2 ^ 31\<close> entries; an index outside of it is
  undefined.
\<close>

section \<open>The kernel\<close>

record descr =
  is_socket :: bool
  fl :: u32

type_synonym kernel = "int \<rightharpoonup> descr"

definition O_NONBLOCK :: u32 where
  "O_NONBLOCK = 0x800"

text \<open>The flags that \<open>F_SETFL\<close> can change: \<open>O_APPEND\<close>, \<open>O_NONBLOCK\<close>, \<open>O_ASYNC\<close>, \<open>O_DIRECT\<close>, \<open>O_NOATIME\<close>.\<close>

definition SETFL_MASK :: u32 where
  "SETFL_MASK = 0x46C00"

abbreviation F_DUPFD :: nat where "F_DUPFD \<equiv> 0"
abbreviation F_GETFD :: nat where "F_GETFD \<equiv> 1"
abbreviation F_SETFD :: nat where "F_SETFD \<equiv> 2"
abbreviation F_GETFL :: nat where "F_GETFL \<equiv> 3"
abbreviation F_SETFL :: nat where "F_SETFL \<equiv> 4"
abbreviation F_GETLK :: nat where "F_GETLK \<equiv> 5"
abbreviation F_SETLK :: nat where "F_SETLK \<equiv> 6"
abbreviation F_SETLKW :: nat where "F_SETLKW \<equiv> 7"
abbreviation F_SETOWN :: nat where "F_SETOWN \<equiv> 8"
abbreviation F_GETOWN :: nat where "F_GETOWN \<equiv> 9"
abbreviation F_SETSIG :: nat where "F_SETSIG \<equiv> 10"
abbreviation F_GETSIG :: nat where "F_GETSIG \<equiv> 11"
abbreviation F_SETOWN_EX :: nat where "F_SETOWN_EX \<equiv> 15"
abbreviation F_GETOWN_EX :: nat where "F_GETOWN_EX \<equiv> 16"
abbreviation F_SETLEASE :: nat where "F_SETLEASE \<equiv> 1024"
abbreviation F_GETLEASE :: nat where "F_GETLEASE \<equiv> 1025"
abbreviation F_NOTIFY :: nat where "F_NOTIFY \<equiv> 1026"
abbreviation F_DUPFD_CLOEXEC :: nat where "F_DUPFD_CLOEXEC \<equiv> 1030"
abbreviation F_SETPIPE_SZ :: nat where "F_SETPIPE_SZ \<equiv> 1031"
abbreviation F_GETPIPE_SZ :: nat where "F_GETPIPE_SZ \<equiv> 1032"

text \<open>
  \<open>fcntl_f\<close> with an argument or without one. A command other than the two for the flags is given to
  \<open>other\<close>; it does not change the table.
\<close>

definition fcntl_f :: "(int \<Rightarrow> nat \<Rightarrow> u64 option \<Rightarrow> u32) \<Rightarrow> int \<Rightarrow> nat \<Rightarrow> u64 option \<Rightarrow> kernel \<Rightarrow> u32 \<times> kernel" where
  "fcntl_f other fd cmd arg k =
     (if cmd = F_GETFL then (case k fd of None \<Rightarrow> - 1 | Some f \<Rightarrow> fl f, k)
      else if cmd = F_SETFL then
        (case (k fd, arg) of
           (Some f, Some a) \<Rightarrow> (0, k(fd \<mapsto> f\<lparr>fl := (fl f AND NOT SETFL_MASK) OR (ucast a AND SETFL_MASK)\<rparr>))
         | _ \<Rightarrow> (- 1, k))
      else (other fd cmd arg, k))"

abbreviation FIONBIO :: u64 where "FIONBIO \<equiv> 0x5421"

text \<open>\<open>ioctl_f\<close>; \<open>v\<close> is the \<open>int\<close> that the argument points to.\<close>

definition ioctl_f :: "(int \<Rightarrow> u64 \<Rightarrow> u32 \<Rightarrow> u32) \<Rightarrow> int \<Rightarrow> u64 \<Rightarrow> u32 \<Rightarrow> kernel \<Rightarrow> u32 \<times> kernel" where
  "ioctl_f other fd request v k =
     (if request = FIONBIO then
        (case k fd of
           None \<Rightarrow> (- 1, k)
         | Some f \<Rightarrow> (0, k(fd \<mapsto> f\<lparr>fl := (if v \<noteq> 0 then fl f OR O_NONBLOCK else fl f AND NOT O_NONBLOCK)\<rparr>)))
      else (other fd request v, k))"

section \<open>Contexts of descriptors\<close>

record FdCtx =
  m_isInit :: bool
  m_isSocket :: bool
  m_sysNonblock :: bool
  m_userNonblock :: bool
  m_isClosed :: bool
  m_fd :: int
  m_recvTimeout :: u64
  m_sendTimeout :: u64

definition FdCtx_init :: "FdCtx \<Rightarrow> kernel \<Rightarrow> bool \<times> FdCtx \<times> kernel" where
  "FdCtx_init c k =
     (if m_isInit c then (True, c, k)
      else
        let c = c\<lparr>m_recvTimeout := - 1, m_sendTimeout := - 1\<rparr>;
            c = (case k (m_fd c) of
                   None \<Rightarrow> c\<lparr>m_isInit := False, m_isSocket := False\<rparr>
                 | Some f \<Rightarrow> c\<lparr>m_isInit := True, m_isSocket := is_socket f\<rparr>);
            (c, k) =
              (if m_isSocket c then
                 let flags = fst (fcntl_f (\<lambda>_ _ _. 0) (m_fd c) F_GETFL (Some 0) k);
                     k = (if flags AND O_NONBLOCK = 0
                          then snd (fcntl_f (\<lambda>_ _ _. 0) (m_fd c) F_SETFL (Some (ucast (flags OR O_NONBLOCK))) k) else k)
                 in (c\<lparr>m_sysNonblock := True\<rparr>, k)
               else (c\<lparr>m_sysNonblock := False\<rparr>, k));
            c = c\<lparr>m_userNonblock := False, m_isClosed := False\<rparr>
        in (m_isInit c, c, k))"

definition new_FdCtx :: "int \<Rightarrow> kernel \<Rightarrow> FdCtx \<times> kernel" where
  "new_FdCtx fd k =
     snd (FdCtx_init \<lparr>m_isInit = False, m_isSocket = False, m_sysNonblock = False, m_userNonblock = False,
       m_isClosed = False, m_fd = fd, m_recvTimeout = - 1, m_sendTimeout = - 1\<rparr> k)"

abbreviation SO_RCVTIMEO :: int where "SO_RCVTIMEO \<equiv> 20"
abbreviation SO_SNDTIMEO :: int where "SO_SNDTIMEO \<equiv> 21"

definition setTimeout :: "int \<Rightarrow> u64 \<Rightarrow> FdCtx \<Rightarrow> FdCtx" where
  "setTimeout type v c = (if type = SO_RCVTIMEO then c\<lparr>m_recvTimeout := v\<rparr> else c\<lparr>m_sendTimeout := v\<rparr>)"

definition getTimeout :: "int \<Rightarrow> FdCtx \<Rightarrow> u64" where
  "getTimeout type c = (if type = SO_RCVTIMEO then m_recvTimeout c else m_sendTimeout c)"

section \<open>The manager\<close>

text \<open>The manager of the process with the kernel it calls, and the flag of the thread.\<close>

record fd_world =
  m_datas :: "FdCtx option list"
  kern :: kernel
  t_hook_enable :: bool

datatype fd_error = Bad_fd_index

definition new_FdManager :: "FdCtx option list" where
  "new_FdManager = replicate 64 None"

definition vec_resize :: "nat \<Rightarrow> 'a option list \<Rightarrow> 'a option list" where
  "vec_resize n xs = take n xs @ replicate (n - length xs) None"

text \<open>The part of \<open>get\<close> under the write lock.\<close>

definition get_create :: "int \<Rightarrow> fd_world \<Rightarrow> fd_error + (FdCtx option \<times> fd_world)" where
  "get_create fd w =
     (case new_FdCtx fd (kern w) of
        (fc, k) \<Rightarrow>
          let ds = (if fd \<ge> int (length (m_datas w)) then vec_resize (nat (fd * 3 div 2)) (m_datas w) else m_datas w)
          in if 0 \<le> fd \<and> nat fd < length ds then Inr (Some fc, w\<lparr>m_datas := ds[nat fd := Some fc], kern := k\<rparr>)
             else Inl Bad_fd_index)"

definition get_fd :: "int \<Rightarrow> bool \<Rightarrow> fd_world \<Rightarrow> fd_error + (FdCtx option \<times> fd_world)" where
  "get_fd fd auto_create w =
     (if fd = - 1 then Inr (None, w)
      else if int (length (m_datas w)) \<le> fd then (if \<not> auto_create then Inr (None, w) else get_create fd w)
      else if fd < 0 then Inl Bad_fd_index
      else if m_datas w ! nat fd \<noteq> None \<or> \<not> auto_create then Inr (m_datas w ! nat fd, w)
      else get_create fd w)"

definition del_fd :: "int \<Rightarrow> fd_world \<Rightarrow> fd_error + fd_world" where
  "del_fd fd w =
     (if int (length (m_datas w)) \<le> fd then Inr w
      else if fd < 0 then Inl Bad_fd_index
      else Inr (w\<lparr>m_datas := (m_datas w)[nat fd := None]\<rparr>))"

text \<open>A change of the object that \<open>get\<close> returned.\<close>

definition upd_ctx :: "int \<Rightarrow> (FdCtx \<Rightarrow> FdCtx) \<Rightarrow> fd_world \<Rightarrow> fd_world" where
  "upd_ctx fd f w = w\<lparr>m_datas := (m_datas w)[nat fd := map_option f (m_datas w ! nat fd)]\<rparr>"

section \<open>Hooked calls\<close>

text \<open>\<open>socket\<close>: the kernel opens \<open>fd\<close> with the flags \<open>flags\<close>, or fails with \<open>fd = - 1\<close>.\<close>

definition opened :: "int \<Rightarrow> u32 \<Rightarrow> fd_world \<Rightarrow> fd_world" where
  "opened fd flags w = w\<lparr>kern := (kern w)(fd \<mapsto> \<lparr>is_socket = True, fl = flags\<rparr>)\<rparr>"

definition hook_socket :: "int \<Rightarrow> u32 \<Rightarrow> fd_world \<Rightarrow> fd_error + (int \<times> fd_world)" where
  "hook_socket fd flags w =
     (if \<not> t_hook_enable w then Inr (fd, if fd = - 1 then w else opened fd flags w)
      else if fd = - 1 then Inr (fd, w)
      else case get_fd fd True (opened fd flags w) of Inl e \<Rightarrow> Inl e | Inr (_, w) \<Rightarrow> Inr (fd, w))"

text \<open>\<open>accept\<close>, after \<open>do_io\<close> has returned \<open>fd\<close>.\<close>

definition hook_accept :: "int \<Rightarrow> u32 \<Rightarrow> fd_world \<Rightarrow> fd_error + (int \<times> fd_world)" where
  "hook_accept fd flags w =
     (if fd \<ge> 0 then (case get_fd fd True (opened fd flags w) of Inl e \<Rightarrow> Inl e | Inr (_, w) \<Rightarrow> Inr (fd, w))
      else Inr (fd, w))"

definition close_f :: "int \<Rightarrow> fd_world \<Rightarrow> int \<times> fd_world" where
  "close_f fd w = (if kern w fd = None then (- 1, w) else (0, w\<lparr>kern := (kern w)(fd := None)\<rparr>))"

text \<open>\<open>close\<close>; \<open>iom\<close> is the manager of the thread, and \<open>refuse\<close> what the kernel answers to its \<open>epoll_ctl\<close>.\<close>

definition hook_close ::
  "bool \<Rightarrow> int \<Rightarrow> 'c IOManager option \<Rightarrow> fd_world \<Rightarrow> (fd_error + io_error) + (int \<times> 'c IOManager option \<times> fd_world)" where
  "hook_close refuse fd iom w =
     (if \<not> t_hook_enable w then (case close_f fd w of (r, w) \<Rightarrow> Inr (r, iom, w))
      else case get_fd fd False w of
        Inl e \<Rightarrow> Inl (Inl e)
      | Inr (None, w) \<Rightarrow> (case close_f fd w of (r, w) \<Rightarrow> Inr (r, iom, w))
      | Inr (Some fc, w) \<Rightarrow>
          (case (case iom of
                   None \<Rightarrow> Inr None
                 | Some M \<Rightarrow> (case cancelAll refuse fd M of Inl e \<Rightarrow> Inl e | Inr (_, M) \<Rightarrow> Inr (Some M))) of
             Inl e \<Rightarrow> Inl (Inr e)
           | Inr iom \<Rightarrow> (case del_fd fd w of
               Inl e \<Rightarrow> Inl (Inl e)
             | Inr w \<Rightarrow> (case close_f fd w of (r, w) \<Rightarrow> Inr (r, iom, w)))))"

abbreviation "fcntl_int_commands \<equiv>
  [F_DUPFD, F_DUPFD_CLOEXEC, F_SETFD, F_SETOWN, F_SETSIG, F_SETLEASE, F_NOTIFY, F_SETPIPE_SZ]"
abbreviation "fcntl_pointer_commands \<equiv> [F_SETLK, F_SETLKW, F_GETLK, F_GETOWN_EX, F_SETOWN_EX]"

text \<open>\<open>fcntl\<close>; \<open>arg\<close> is what the variable argument holds, an \<open>int\<close> is its lower half.\<close>

definition hook_fcntl :: "(int \<Rightarrow> nat \<Rightarrow> u64 option \<Rightarrow> u32) \<Rightarrow> int \<Rightarrow> nat \<Rightarrow> u64 \<Rightarrow> fd_world \<Rightarrow> fd_error + (u32 \<times> fd_world)" where
  "hook_fcntl other fd cmd arg w =
     (let call = (\<lambda>a w. case fcntl_f other fd cmd a (kern w) of (r, k) \<Rightarrow> Inr (r, w\<lparr>kern := k\<rparr>)) in
      if cmd = F_SETFL then
        (let arg = ucast arg :: u32 in
         case get_fd fd False w of
           Inl e \<Rightarrow> Inl e
         | Inr (fc, w) \<Rightarrow>
             (case fc of
                None \<Rightarrow> call (Some (ucast arg)) w
              | Some c \<Rightarrow>
                  if m_isClosed c \<or> \<not> m_isSocket c then call (Some (ucast arg)) w
                  else let w = upd_ctx fd (\<lambda>c. c\<lparr>m_userNonblock := (arg AND O_NONBLOCK \<noteq> 0)\<rparr>) w;
                           arg = (if m_sysNonblock c then arg OR O_NONBLOCK else arg AND NOT O_NONBLOCK)
                       in call (Some (ucast arg)) w))
      else if cmd = F_GETFL then
        (let arg = fst (fcntl_f other fd cmd None (kern w)) in
         case get_fd fd False w of
           Inl e \<Rightarrow> Inl e
         | Inr (fc, w) \<Rightarrow>
             (case fc of
                None \<Rightarrow> Inr (arg, w)
              | Some c \<Rightarrow>
                  if m_isClosed c \<or> \<not> m_isSocket c then Inr (arg, w)
                  else Inr (if m_userNonblock c then arg OR O_NONBLOCK else arg AND NOT O_NONBLOCK, w)))
      else if cmd \<in> set fcntl_int_commands then call (Some (ucast (ucast arg :: u32))) w
      else if cmd \<in> set fcntl_pointer_commands then call (Some arg) w
      else call None w)"

definition hook_ioctl :: "(int \<Rightarrow> u64 \<Rightarrow> u32 \<Rightarrow> u32) \<Rightarrow> int \<Rightarrow> u64 \<Rightarrow> u32 \<Rightarrow> fd_world \<Rightarrow> fd_error + (u32 \<times> fd_world)" where
  "hook_ioctl other d request v w =
     (let call = (\<lambda>w. case ioctl_f other d request v (kern w) of (r, k) \<Rightarrow> Inr (r, w\<lparr>kern := k\<rparr>)) in
      if request = FIONBIO then
        (case get_fd d False w of
           Inl e \<Rightarrow> Inl e
         | Inr (fc, w) \<Rightarrow>
             (case fc of
                None \<Rightarrow> call w
              | Some c \<Rightarrow>
                  if m_isClosed c \<or> \<not> m_isSocket c then call w
                  else call (upd_ctx d (\<lambda>c. c\<lparr>m_userNonblock := (v \<noteq> 0)\<rparr>) w)))
      else call w)"

text \<open>\<open>setsockopt\<close>; \<open>tv\<close> is the \<open>timeval\<close> behind \<open>optval\<close>, and the kernel keeps it to itself.\<close>

definition hook_setsockopt :: "int \<Rightarrow> int \<Rightarrow> int \<Rightarrow> int \<times> int \<Rightarrow> fd_world \<Rightarrow> fd_error + fd_world" where
  "hook_setsockopt sockfd level optname tv w =
     (if \<not> t_hook_enable w then Inr w
      else if level = 1 \<and> (optname = SO_RCVTIMEO \<or> optname = SO_SNDTIMEO) then
        (case get_fd sockfd False w of
           Inl e \<Rightarrow> Inl e
         | Inr (None, w) \<Rightarrow> Inr w
         | Inr (Some fc, w) \<Rightarrow>
             Inr (upd_ctx sockfd (setTimeout optname (word_of_int (fst tv * 1000 + snd tv div 1000))) w))
      else Inr w)"

section \<open>The invariant\<close>

definition ctx_of :: "fd_world \<Rightarrow> int \<Rightarrow> FdCtx option" where
  "ctx_of w fd = (if 0 \<le> fd \<and> nat fd < length (m_datas w) then m_datas w ! nat fd else None)"

text \<open>A descriptor with a context is an open socket in non-blocking mode.\<close>

definition hooked :: "fd_world \<Rightarrow> int \<Rightarrow> FdCtx \<Rightarrow> bool" where
  "hooked w fd c \<longleftrightarrow> m_fd c = fd \<and> m_isInit c \<and> m_isSocket c \<and> m_sysNonblock c \<and> \<not> m_isClosed c \<and>
     (\<exists>f. kern w fd = Some f \<and> is_socket f \<and> fl f AND O_NONBLOCK \<noteq> 0)"

definition fds_inv :: "fd_world \<Rightarrow> bool" where
  "fds_inv w \<longleftrightarrow> t_hook_enable w \<and> 64 \<le> length (m_datas w) \<and> (\<forall>fd c. ctx_of w fd = Some c \<longrightarrow> hooked w fd c)"

section \<open>Flags\<close>

text \<open>The flags that the program sees when it asked for non-blocking mode, or did not.\<close>

definition user_flags :: "bool \<Rightarrow> u32 \<Rightarrow> u32" where
  "user_flags b flags = (if b then flags OR O_NONBLOCK else flags AND NOT O_NONBLOCK)"

lemma nonblock_exp: "O_NONBLOCK = 2 ^ 11"
  by (simp add: O_NONBLOCK_def)

lemma nonblock_bit: "bit O_NONBLOCK n \<longleftrightarrow> n = 11"
  unfolding nonblock_exp bit_exp_iff by (auto simp: possible_bit_def)

lemma has_nonblock: "flags AND O_NONBLOCK = 0 \<longleftrightarrow> \<not> bit flags 11"
  unfolding nonblock_exp by (rule and_exp_eq_0_iff_not_bit)

lemma mask_nonblock: "bit SETFL_MASK 11"
  by (simp add: SETFL_MASK_def)

lemmas flag_bits = bit_or_iff bit_and_iff bit_not_iff nonblock_bit mask_nonblock has_nonblock user_flags_def

lemma int_through_long: "ucast (ucast v :: u64) = v" for v :: u32
  by (rule bit_word_eqI) (simp add: bit_ucast_iff)

lemma nonblock_kept: "(flags AND NOT SETFL_MASK OR (a OR O_NONBLOCK) AND SETFL_MASK) AND O_NONBLOCK \<noteq> 0" for flags :: u32
  by (simp add: flag_bits)

lemma nonblock_added: "flags AND NOT SETFL_MASK OR (flags OR O_NONBLOCK) AND SETFL_MASK = flags OR O_NONBLOCK" for flags :: u32
  by (rule bit_word_eqI) (auto simp: flag_bits)

lemma user_flags_set:
  "user_flags (a AND O_NONBLOCK \<noteq> 0) (flags AND NOT SETFL_MASK OR (a OR O_NONBLOCK) AND SETFL_MASK) =
     user_flags u flags AND NOT SETFL_MASK OR a AND SETFL_MASK" for flags a :: u32
  by (rule bit_word_eqI) (auto simp: flag_bits)

lemma user_flags_ioctl:
  "user_flags b (if b then flags OR O_NONBLOCK else flags AND NOT O_NONBLOCK) =
     (if b then user_flags u flags OR O_NONBLOCK else user_flags u flags AND NOT O_NONBLOCK)" for flags :: u32
  by (rule bit_word_eqI) (auto simp: flag_bits)

section \<open>The table of contexts\<close>

lemma get_fd_lookup: "0 \<le> fd \<Longrightarrow> get_fd fd False w = Inr (ctx_of w fd, w)"
  by (auto simp: get_fd_def ctx_of_def)

lemma ctx_of_upd: "0 \<le> fd \<Longrightarrow> ctx_of (upd_ctx fd f w) = (if ctx_of w fd = None then ctx_of w else (ctx_of w)(fd := map_option f (ctx_of w fd)))"
  by (auto simp: fun_eq_iff ctx_of_def upd_ctx_def nth_list_update nat_eq_iff2)

lemma upd_ctx_simps [simp]:
  "kern (upd_ctx fd f w) = kern w" "length (m_datas (upd_ctx fd f w)) = length (m_datas w)"
  "t_hook_enable (upd_ctx fd f w) = t_hook_enable w"
  by (simp_all add: upd_ctx_def)

lemma ctx_of_kern [simp]: "ctx_of (w\<lparr>kern := k\<rparr>) = ctx_of w"
  by (simp add: ctx_of_def fun_eq_iff)

lemma new_FdCtx_socket:
  assumes "k fd = Some f" "is_socket f"
  shows "new_FdCtx fd k = (\<lparr>m_isInit = True, m_isSocket = True, m_sysNonblock = True, m_userNonblock = False,
      m_isClosed = False, m_fd = fd, m_recvTimeout = - 1, m_sendTimeout = - 1\<rparr>,
      k(fd \<mapsto> f\<lparr>fl := fl f OR O_NONBLOCK\<rparr>))"
proof (cases "fl f AND O_NONBLOCK = 0")
  case True
  then show ?thesis
    using assms nonblock_added [of "fl f"] by (simp add: new_FdCtx_def FdCtx_init_def fcntl_f_def Let_def int_through_long)
next
  case False
  then have "fl f OR O_NONBLOCK = fl f"
    by (auto intro!: bit_word_eqI simp: flag_bits)
  then have "k(fd \<mapsto> f\<lparr>fl := fl f OR O_NONBLOCK\<rparr>) = k"
    using assms(1) by (auto simp: fun_eq_iff)
  with False assms show ?thesis
    by (simp add: new_FdCtx_def FdCtx_init_def fcntl_f_def Let_def)
qed

lemma get_fd_create:
  assumes "0 \<le> fd" "64 \<le> length (m_datas w)" "ctx_of w fd = None" "kern w fd = Some f" "is_socket f"
  obtains c w' where "get_fd fd True w = Inr (Some c, w')" "ctx_of w' = (ctx_of w)(fd \<mapsto> c)"
    "kern w' = (kern w)(fd \<mapsto> f\<lparr>fl := fl f OR O_NONBLOCK\<rparr>)" "m_fd c = fd" "m_isInit c" "m_isSocket c" "m_sysNonblock c"
    "\<not> m_isClosed c" "\<not> m_userNonblock c" "t_hook_enable w' = t_hook_enable w" "64 \<le> length (m_datas w')"
proof -
  define ds where "ds = (if fd \<ge> int (length (m_datas w)) then vec_resize (nat (fd * 3 div 2)) (m_datas w) else m_datas w)"
  have ds: "nat fd < length ds" "length (m_datas w) \<le> length ds"
    using assms(1,2) by (auto simp: ds_def vec_resize_def)
  have nth: "ds ! i = (if i < length (m_datas w) then m_datas w ! i else None)" if "i < length ds" for i
    using that ds assms(1,2) by (auto simp: ds_def vec_resize_def nth_append split: if_splits)
  obtain c where nw: "new_FdCtx fd (kern w) = (c, (kern w)(fd \<mapsto> f\<lparr>fl := fl f OR O_NONBLOCK\<rparr>))"
    and c: "m_fd c = fd" "m_isInit c" "m_isSocket c" "m_sysNonblock c" "\<not> m_isClosed c" "\<not> m_userNonblock c"
    using new_FdCtx_socket [of "kern w", OF assms(4,5)] by auto
  define w' where "w' = w\<lparr>m_datas := ds[nat fd := Some c], kern := (kern w)(fd \<mapsto> f\<lparr>fl := fl f OR O_NONBLOCK\<rparr>)\<rparr>"
  have "get_create fd w = Inr (Some c, w')"
    using nw ds assms(1) by (simp add: get_create_def w'_def flip: ds_def)
  then have g: "get_fd fd True w = Inr (Some c, w')"
    using assms(1,3) by (auto simp: get_fd_def ctx_of_def split: if_splits)
  have "ctx_of w' = (ctx_of w)(fd \<mapsto> c)"
    using ds nth assms(1) by (auto simp: fun_eq_iff ctx_of_def w'_def nth_list_update nat_eq_iff2)
  then show thesis
    by (rule that [OF g]) (use c ds assms(2) in \<open>auto simp: w'_def\<close>)
qed

section \<open>Steps\<close>

text \<open>
  The calls of a thread with hooks. The kernel opens descriptors that are not in use; a socket is opened without
  \<open>SOCK_NONBLOCK\<close>; \<open>ioctl\<close> is not used to leave the non-blocking mode.
\<close>

inductive fd_step :: "fd_world \<Rightarrow> fd_world \<Rightarrow> bool" where
  fd_socket: "0 \<le> fd \<Longrightarrow> kern w fd = None \<Longrightarrow> flags AND O_NONBLOCK = 0 \<Longrightarrow> hook_socket fd flags w = Inr (r, w') \<Longrightarrow> fd_step w w'"
| fd_accept: "0 \<le> fd \<Longrightarrow> kern w fd = None \<Longrightarrow> flags AND O_NONBLOCK = 0 \<Longrightarrow> hook_accept fd flags w = Inr (r, w') \<Longrightarrow> fd_step w w'"
| fd_close: "0 \<le> fd \<Longrightarrow> hook_close refuse fd (iom :: nat IOManager option) w = Inr (r, iom', w') \<Longrightarrow> fd_step w w'"
| fd_fcntl: "0 \<le> fd \<Longrightarrow> hook_fcntl other fd cmd arg w = Inr (v, w') \<Longrightarrow> fd_step w w'"
| fd_ioctl: "0 \<le> fd \<Longrightarrow> request = FIONBIO \<longrightarrow> v \<noteq> 0 \<Longrightarrow> hook_ioctl other2 fd request v w = Inr (u, w') \<Longrightarrow> fd_step w w'"
| fd_setsockopt: "0 \<le> fd \<Longrightarrow> hook_setsockopt fd level optname tv w = Inr w' \<Longrightarrow> fd_step w w'"

abbreviation fd_init :: "fd_world \<Rightarrow> bool" where
  "fd_init w \<equiv> w = \<lparr>m_datas = new_FdManager, kern = kern w, t_hook_enable = True\<rparr>"

abbreviation fd_reach :: "fd_world \<Rightarrow> bool" where
  "fd_reach \<equiv> reachable fd_init fd_step"

lemma fds_invD: "fds_inv w \<Longrightarrow> ctx_of w fd = Some c \<Longrightarrow> hooked w fd c"
  by (auto simp: fds_inv_def)

text \<open>A step that changes the context and the flags of one descriptor.\<close>

lemma fds_inv_update:
  assumes "fds_inv w" "t_hook_enable w' = t_hook_enable w" "64 \<le> length (m_datas w')"
    and "\<And>x. x \<noteq> fd \<Longrightarrow> ctx_of w' x = ctx_of w x" "\<And>x. x \<noteq> fd \<Longrightarrow> kern w' x = kern w x"
    and "\<And>c. ctx_of w' fd = Some c \<Longrightarrow> hooked w' fd c"
  shows "fds_inv w'"
proof -
  have "hooked w' x c" if "ctx_of w' x = Some c" for x c
  proof (cases "x = fd")
    case False
    with that assms(1,4,5) have "hooked w x c" by (auto dest: fds_invD)
    with False assms(5) show ?thesis by (simp add: hooked_def)
  qed (use that assms(6) in simp)
  with assms(1-3) show ?thesis by (auto simp: fds_inv_def)
qed

lemma opened_ctx [simp]: "ctx_of (opened fd flags w) = ctx_of w" "length (m_datas (opened fd flags w)) = length (m_datas w)"
  by (simp_all add: opened_def)

lemma open_inv:
  assumes "fds_inv w" "0 \<le> fd" "kern w fd = None"
  obtains c w' where "get_fd fd True (opened fd flags w) = Inr (Some c, w')" "fds_inv w'"
    "kern w' = (kern w)(fd \<mapsto> \<lparr>is_socket = True, fl = flags OR O_NONBLOCK\<rparr>)" "ctx_of w' = (ctx_of w)(fd \<mapsto> c)" "\<not> m_userNonblock c" "m_isSocket c"
proof -
  have "ctx_of w fd = None"
    using assms by (cases "ctx_of w fd") (auto dest!: fds_invD simp: hooked_def)
  then obtain c w' where g: "get_fd fd True (opened fd flags w) = Inr (Some c, w')" "ctx_of w' = (ctx_of w)(fd \<mapsto> c)"
    "kern w' = (kern w)(fd \<mapsto> \<lparr>is_socket = True, fl = flags OR O_NONBLOCK\<rparr>)" "m_fd c = fd" "m_isInit c" "m_isSocket c"
    "m_sysNonblock c" "\<not> m_isClosed c" "\<not> m_userNonblock c" "t_hook_enable w' = t_hook_enable w" "64 \<le> length (m_datas w')"
    using get_fd_create [OF assms(2), of "opened fd flags w" "\<lparr>is_socket = True, fl = flags\<rparr>"] assms(1)
    by (auto simp: fds_inv_def opened_def)
  have "fds_inv w'"
    by (rule fds_inv_update [OF assms(1), of _ fd]) (use g in \<open>auto simp: hooked_def flag_bits\<close>)
  with g show thesis by (intro that)
qed

lemma hook_close_inv:
  assumes "fds_inv w" "0 \<le> fd" "hook_close refuse fd iom w = Inr (r, iom', w')"
  shows "fds_inv w' \<and> kern w' = (kern w)(fd := None) \<and> ctx_of w' = (ctx_of w)(fd := None)"
proof -
  have "\<exists>w1. del_fd fd w = Inr w1 \<and> ctx_of w1 = (ctx_of w)(fd := None) \<and> kern w1 = kern w \<and> t_hook_enable w1 = t_hook_enable w \<and>
      length (m_datas w1) = length (m_datas w)"
    using assms(2) by (auto simp: del_fd_def fun_eq_iff ctx_of_def nth_list_update nat_eq_iff2)
  then obtain w1 where w1: "del_fd fd w = Inr w1" "ctx_of w1 = (ctx_of w)(fd := None)" "kern w1 = kern w"
    "t_hook_enable w1 = t_hook_enable w" "length (m_datas w1) = length (m_datas w)" by blast
  have same: "(ctx_of w)(fd := None) = ctx_of w" if "ctx_of w fd = None"
    using that by (auto simp: fun_eq_iff)
  have w': "kern w' = (kern w)(fd := None)" "ctx_of w' = (ctx_of w)(fd := None)"
    "t_hook_enable w' = t_hook_enable w" "length (m_datas w') = length (m_datas w)"
    using assms w1 same get_fd_lookup [OF assms(2), of w]
    by (auto simp: hook_close_def close_f_def fds_inv_def fun_eq_iff split: option.splits if_splits sum.splits prod.splits)
  have "fds_inv w'"
    by (rule fds_inv_update [OF assms(1), of _ fd]) (use w' assms(1) in \<open>auto simp: fds_inv_def\<close>)
  with w' show ?thesis by simp
qed

section \<open>What the program sees\<close>

text \<open>The descriptors as the program sees them: a socket is in the mode that the program asked for.\<close>

definition view :: "fd_world \<Rightarrow> kernel" where
  "view w fd = (case kern w fd of
     None \<Rightarrow> None
   | Some f \<Rightarrow> Some (case ctx_of w fd of None \<Rightarrow> f | Some c \<Rightarrow> f\<lparr>fl := user_flags (m_userNonblock c) (fl f)\<rparr>))"

text \<open>The argument as the command takes it: an \<open>int\<close>, a pointer, or none.\<close>

definition fcntl_arg :: "nat \<Rightarrow> u64 \<Rightarrow> u64 option" where
  "fcntl_arg cmd arg =
     (if cmd = F_SETFL \<or> cmd \<in> set fcntl_int_commands then Some (ucast (ucast arg :: u32))
      else if cmd \<in> set fcntl_pointer_commands then Some arg else None)"

lemma hook_fcntl_plain:
  assumes "0 \<le> fd" "ctx_of w fd = None \<or> cmd \<noteq> F_SETFL \<and> cmd \<noteq> F_GETFL"
  shows "hook_fcntl other fd cmd arg w =
    (case fcntl_f other fd cmd (fcntl_arg cmd arg) (kern w) of (r, k) \<Rightarrow> Inr (r, w\<lparr>kern := k\<rparr>))"
  using assms get_fd_lookup [OF assms(1), of w]
  by (auto simp: hook_fcntl_def fcntl_arg_def fcntl_f_def Let_def)

lemma hook_fcntl_get:
  assumes "fds_inv w" "0 \<le> fd" "ctx_of w fd = Some c"
  shows "\<exists>f. kern w fd = Some f \<and> hook_fcntl other fd F_GETFL arg w = Inr (user_flags (m_userNonblock c) (fl f), w)"
  using fds_invD [OF assms(1,3)] get_fd_lookup [OF assms(2), of w] assms(3)
  by (auto simp: hook_fcntl_def fcntl_f_def hooked_def user_flags_def)

lemma hook_fcntl_set:
  assumes "fds_inv w" "0 \<le> fd" "ctx_of w fd = Some c"
  obtains f w' where "kern w fd = Some f" "hook_fcntl other fd F_SETFL arg w = Inr (0, w')" "fds_inv w'"
    "kern w' = (kern w)(fd \<mapsto> f\<lparr>fl := fl f AND NOT SETFL_MASK OR (ucast arg OR O_NONBLOCK) AND SETFL_MASK\<rparr>)"
    "ctx_of w' = (ctx_of w)(fd \<mapsto> c\<lparr>m_userNonblock := (ucast arg AND O_NONBLOCK \<noteq> 0)\<rparr>)"
proof -
  obtain f where h: "hooked w fd c" "kern w fd = Some f" "is_socket f"
    using fds_invD [OF assms(1,3)] by (auto simp: hooked_def)
  define w' where "w' = (upd_ctx fd (\<lambda>c. c\<lparr>m_userNonblock := (ucast arg AND O_NONBLOCK \<noteq> 0)\<rparr>) w)
    \<lparr>kern := (kern w)(fd \<mapsto> f\<lparr>fl := fl f AND NOT SETFL_MASK OR (ucast arg OR O_NONBLOCK) AND SETFL_MASK\<rparr>)\<rparr>"
  have call: "hook_fcntl other fd F_SETFL arg w = Inr (0, w')"
    using h get_fd_lookup [OF assms(2), of w] assms(3)
    by (simp add: hook_fcntl_def fcntl_f_def hooked_def w'_def Let_def int_through_long)
  have ctx: "ctx_of w' = (ctx_of w)(fd \<mapsto> c\<lparr>m_userNonblock := (ucast arg AND O_NONBLOCK \<noteq> 0)\<rparr>)"
    using assms(3) by (simp add: w'_def ctx_of_upd [OF assms(2)])
  have "hooked w' fd (c\<lparr>m_userNonblock := (ucast arg AND O_NONBLOCK \<noteq> 0)\<rparr>)"
    using h nonblock_kept [of "fl f" "ucast arg"] by (simp add: hooked_def w'_def)
  then have "fds_inv w'"
    by (intro fds_inv_update [OF assms(1), of w' fd]) (use ctx assms(1) in \<open>auto simp: w'_def fds_inv_def\<close>)
  then show thesis by (rule that [OF h(2) call _ _ ctx]) (simp add: w'_def)
qed

lemma hook_ioctl_total:
  assumes "0 \<le> fd" "\<And>c. ctx_of w fd = Some c \<Longrightarrow> m_isSocket c \<and> \<not> m_isClosed c"
  obtains w' where "hook_ioctl other fd request v w = Inr (fst (ioctl_f other fd request v (kern w)), w')"
    "kern w' = snd (ioctl_f other fd request v (kern w))" "t_hook_enable w' = t_hook_enable w"
    "length (m_datas w') = length (m_datas w)"
    "ctx_of w' = (if request = FIONBIO
       then (ctx_of w)(fd := map_option (\<lambda>c. c\<lparr>m_userNonblock := (v \<noteq> 0)\<rparr>) (ctx_of w fd)) else ctx_of w)"
proof -
  obtain r k where rk: "ioctl_f other fd request v (kern w) = (r, k)" by fastforce
  define w' where "w' = (if request = FIONBIO \<and> ctx_of w fd \<noteq> None
     then upd_ctx fd (\<lambda>c. c\<lparr>m_userNonblock := (v \<noteq> 0)\<rparr>) w else w)\<lparr>kern := k\<rparr>"
  have "hook_ioctl other fd request v w = Inr (r, w')"
    using rk get_fd_lookup [OF assms(1), of w] assms(2)
    by (auto simp: hook_ioctl_def w'_def split: option.splits)
  then show thesis
    by (rule that [of w', unfolded rk fst_conv snd_conv])
      (auto simp: w'_def ctx_of_upd [OF assms(1)] fun_eq_iff)
qed

lemma hook_setsockopt_keeps:
  assumes "0 \<le> fd" "hook_setsockopt fd level optname tv w = Inr w'"
  shows "kern w' = kern w \<and> t_hook_enable w' = t_hook_enable w \<and> length (m_datas w') = length (m_datas w) \<and>
    (\<forall>x. ctx_of w' x = ctx_of w x \<or> x = fd \<and> (\<exists>v. ctx_of w' fd = map_option (setTimeout optname v) (ctx_of w fd)))"
  using assms(2) get_fd_lookup [OF assms(1), of w]
  by (auto simp: hook_setsockopt_def ctx_of_upd [OF assms(1)] split: if_splits option.splits sum.splits prod.splits)

lemma ioctl_inv:
  assumes "fds_inv w" "0 \<le> fd" "request = FIONBIO \<longrightarrow> v \<noteq> 0" "hook_ioctl other fd request v w = Inr (r, w')"
  shows "fds_inv w'"
proof -
  have sock: "m_isSocket c \<and> \<not> m_isClosed c" if "ctx_of w fd = Some c" for c
    using fds_invD [OF assms(1) that] by (simp add: hooked_def)
  obtain w'' where w'': "hook_ioctl other fd request v w = Inr (fst (ioctl_f other fd request v (kern w)), w'')"
    "kern w'' = snd (ioctl_f other fd request v (kern w))" "t_hook_enable w'' = t_hook_enable w"
    "length (m_datas w'') = length (m_datas w)"
    "ctx_of w'' = (if request = FIONBIO
       then (ctx_of w)(fd := map_option (\<lambda>c. c\<lparr>m_userNonblock := (v \<noteq> 0)\<rparr>) (ctx_of w fd)) else ctx_of w)"
    using hook_ioctl_total [OF assms(2) sock] by blast
  have eq: "w' = w''" using w''(1) assms(4) by simp
  have k: "kern w'' x = kern w x" if "x \<noteq> fd" for x
    using w''(2) that by (auto simp: ioctl_f_def split: if_splits option.splits)
  have "hooked w'' fd c" if c: "ctx_of w'' fd = Some c" for c
  proof -
    obtain c0 where c0: "ctx_of w fd = Some c0" "c = (if request = FIONBIO then c0\<lparr>m_userNonblock := (v \<noteq> 0)\<rparr> else c0)"
      using c w''(5) by (auto split: if_splits)
    show ?thesis
      using fds_invD [OF assms(1) c0(1)] c0(2) w''(2) assms(3)
      by (auto simp: hooked_def ioctl_f_def flag_bits split: if_splits)
  qed
  then show ?thesis
    unfolding eq by (intro fds_inv_update [OF assms(1), of w'' fd])
      (use w'' k assms(1) in \<open>auto simp: fds_inv_def\<close>)
qed

lemma fd_step_inv: "fd_step w w' \<Longrightarrow> fds_inv w \<Longrightarrow> fds_inv w'"
proof (induction rule: fd_step.induct)
  case (fd_socket fd w flags r w')
  obtain c w1 where "get_fd fd True (opened fd flags w) = Inr (Some c, w1)" "fds_inv w1"
    by (rule open_inv [OF fd_socket.prems fd_socket.hyps(1,2)])
  with fd_socket show ?case by (simp add: hook_socket_def fds_inv_def)
next
  case (fd_accept fd w flags r w')
  obtain c w1 where "get_fd fd True (opened fd flags w) = Inr (Some c, w1)" "fds_inv w1"
    by (rule open_inv [OF fd_accept.prems fd_accept.hyps(1,2)])
  with fd_accept show ?case by (simp add: hook_accept_def)
next
  case (fd_close fd refuse iom w r iom' w')
  then show ?case using hook_close_inv by blast
next
  case (fd_fcntl fd other cmd arg w v w')
  show ?case
  proof (cases "ctx_of w fd = None \<or> cmd \<noteq> F_SETFL \<and> cmd \<noteq> F_GETFL")
    case True
    then have eq: "ctx_of w' = ctx_of w" "\<And>x. x \<noteq> fd \<Longrightarrow> kern w' x = kern w x" "cmd \<noteq> F_SETFL \<Longrightarrow> kern w' = kern w"
      "t_hook_enable w' = t_hook_enable w" "m_datas w' = m_datas w"
      using fd_fcntl hook_fcntl_plain [OF fd_fcntl.hyps(1) True, of other arg]
      by (auto simp: fcntl_f_def split: if_splits option.splits prod.splits)
    with True fd_fcntl.prems show ?thesis
      by (intro fds_inv_update [OF fd_fcntl.prems, of w' fd]) (auto simp: fds_inv_def hooked_def)
  next
    case False
    then obtain c where c: "ctx_of w fd = Some c" "cmd = F_SETFL \<or> cmd = F_GETFL" by auto
    show ?thesis
    proof (cases "cmd = F_GETFL")
      case True
      with hook_fcntl_get [OF fd_fcntl.prems fd_fcntl.hyps(1) c(1), of other arg] fd_fcntl.hyps(2) fd_fcntl.prems
      show ?thesis by auto
    next
      case False
      obtain w1 where "hook_fcntl other fd F_SETFL arg w = Inr (0, w1)" "fds_inv w1"
        by (rule hook_fcntl_set [OF fd_fcntl.prems fd_fcntl.hyps(1) c(1), of other arg])
      with False c(2) fd_fcntl.hyps(2) show ?thesis by simp
    qed
  qed
next
  case (fd_ioctl fd request v other2 w u w')
  then show ?case using ioctl_inv by blast
next
  case (fd_setsockopt fd level optname tv w w')
  note k = hook_setsockopt_keeps [OF fd_setsockopt.hyps]
  have "hooked w' fd c" if c: "ctx_of w' fd = Some c" for c
  proof -
    obtain c0 where c0: "ctx_of w fd = Some c0" "c = c0 \<or> (\<exists>v. c = setTimeout optname v c0)"
      using k c by (metis map_option_eq_Some)
    then show ?thesis
      using fds_invD [OF fd_setsockopt.prems c0(1)] k by (auto simp: hooked_def setTimeout_def split: if_splits)
  qed
  with k fd_setsockopt.prems show ?case
    by (intro fds_inv_update [OF fd_setsockopt.prems, of w' fd]) (auto simp: fds_inv_def)
qed

lemma fd_init_inv: "fd_init w \<Longrightarrow> fds_inv w"
  by (cases w) (auto simp: fds_inv_def ctx_of_def new_FdManager_def split: if_splits)

interpretation fd_machine: step_invariant fd_init fd_step fds_inv
  by unfold_locales (auto intro: fd_init_inv fd_step_inv)


lemma view_at: "view w fd = (case kern w fd of None \<Rightarrow> None | Some f \<Rightarrow>
    Some (case ctx_of w fd of None \<Rightarrow> f | Some c \<Rightarrow> f\<lparr>fl := user_flags (m_userNonblock c) (fl f)\<rparr>))"
  by (simp add: view_def)

lemma view_update:
  assumes "\<And>x. x \<noteq> fd \<Longrightarrow> ctx_of w' x = ctx_of w x" "\<And>x. x \<noteq> fd \<Longrightarrow> kern w' x = kern w x"
  shows "view w' = (view w)(fd := view w' fd)"
  using assms by (auto simp: fun_eq_iff view_def split: option.splits)

lemma view_fcntl:
  assumes "fds_inv w" "0 \<le> fd"
  shows "\<exists>r w'. hook_fcntl other fd cmd arg w = Inr (r, w') \<and>
    (r, view w') = fcntl_f other fd cmd (fcntl_arg cmd arg) (view w)"
proof (cases "ctx_of w fd = None \<or> cmd \<noteq> F_SETFL \<and> cmd \<noteq> F_GETFL")
  case True
  then show ?thesis
    using hook_fcntl_plain [OF assms(2) True, of other arg]
    by (auto simp: fcntl_f_def view_def fun_eq_iff split: option.splits)
next
  case False
  then obtain c where c: "ctx_of w fd = Some c" "cmd = F_SETFL \<or> cmd = F_GETFL" by auto
  show ?thesis
  proof (cases "cmd = F_GETFL")
    case True
    with hook_fcntl_get [OF assms c(1), of other arg] c(1) show ?thesis
      by (auto simp: fcntl_f_def view_at)
  next
    case False
    with c(2) have cmd: "cmd = F_SETFL" by simp
    obtain f w' where w': "kern w fd = Some f" "hook_fcntl other fd F_SETFL arg w = Inr (0, w')"
      "kern w' = (kern w)(fd \<mapsto> f\<lparr>fl := fl f AND NOT SETFL_MASK OR (ucast arg OR O_NONBLOCK) AND SETFL_MASK\<rparr>)"
      "ctx_of w' = (ctx_of w)(fd \<mapsto> c\<lparr>m_userNonblock := (ucast arg AND O_NONBLOCK \<noteq> 0)\<rparr>)"
      by (rule hook_fcntl_set [OF assms c(1), of other arg])
    have "view w' fd = Some (f\<lparr>fl := user_flags (m_userNonblock c) (fl f) AND NOT SETFL_MASK OR ucast arg AND SETFL_MASK\<rparr>)"
      using user_flags_set [of "ucast arg" "fl f" "m_userNonblock c"] by (simp add: view_at w'(3,4))
    moreover have "view w' = (view w)(fd := view w' fd)"
      by (rule view_update) (simp_all add: w'(3,4))
    ultimately have "view w' = (view w)(fd \<mapsto> f\<lparr>fl := user_flags (m_userNonblock c) (fl f) AND NOT SETFL_MASK OR ucast arg AND SETFL_MASK\<rparr>)"
      by simp
    then show ?thesis
      using w'(1,2) c(1) by (simp add: cmd fcntl_f_def fcntl_arg_def view_at int_through_long)
  qed
qed

lemma view_ioctl:
  assumes "fds_inv w" "0 \<le> fd"
  shows "\<exists>r w'. hook_ioctl other fd request v w = Inr (r, w') \<and> (r, view w') = ioctl_f other fd request v (view w)"
proof -
  have sock: "m_isSocket c \<and> \<not> m_isClosed c" if "ctx_of w fd = Some c" for c
    using fds_invD [OF assms(1) that] by (simp add: hooked_def)
  obtain w' where w': "hook_ioctl other fd request v w = Inr (fst (ioctl_f other fd request v (kern w)), w')"
    "kern w' = snd (ioctl_f other fd request v (kern w))"
    "ctx_of w' = (if request = FIONBIO
       then (ctx_of w)(fd := map_option (\<lambda>c. c\<lparr>m_userNonblock := (v \<noteq> 0)\<rparr>) (ctx_of w fd)) else ctx_of w)"
    using hook_ioctl_total [OF assms(2) sock] by blast
  have "view w' = (view w)(fd := view w' fd)"
    by (rule view_update) (use w'(2,3) in \<open>auto simp: ioctl_f_def split: option.splits\<close>)
  moreover have "(fst (ioctl_f other fd request v (kern w)), (view w)(fd := view w' fd)) = ioctl_f other fd request v (view w)"
    using w'(2,3) user_flags_ioctl [of "v \<noteq> 0"]
    by (auto simp: ioctl_f_def view_at fun_eq_iff split: option.splits)
  ultimately show ?thesis using w'(1) by auto
qed

lemma view_socket:
  assumes "fds_inv w" "0 \<le> fd" "kern w fd = None" "flags AND O_NONBLOCK = 0"
  shows "\<exists>w'. hook_socket fd flags w = Inr (fd, w') \<and> view w' = (view w)(fd \<mapsto> \<lparr>is_socket = True, fl = flags\<rparr>)"
proof -
  obtain c w' where w': "get_fd fd True (opened fd flags w) = Inr (Some c, w')"
    "kern w' = (kern w)(fd \<mapsto> \<lparr>is_socket = True, fl = flags OR O_NONBLOCK\<rparr>)" "ctx_of w' = (ctx_of w)(fd \<mapsto> c)" "\<not> m_userNonblock c"
    by (rule open_inv [OF assms(1-3)])
  have "user_flags False (flags OR O_NONBLOCK) = flags"
    using assms(4) by (intro bit_word_eqI) (auto simp: flag_bits)
  then have "view w' fd = Some \<lparr>is_socket = True, fl = flags\<rparr>"
    by (simp add: view_at w')
  moreover have "view w' = (view w)(fd := view w' fd)"
    by (rule view_update) (simp_all add: w')
  ultimately show ?thesis
    using w'(1) assms(1,2) by (auto simp: hook_socket_def fds_inv_def)
qed


text \<open>
  After \<open>ioctl(FIONBIO)\<close> with the value 0, which \<open>fcntl\<close> would have kept from the kernel, the socket is in
  blocking mode, while its context still says that the system made it non-blocking: the hooked calls on it then
  block the thread with all its fibers.
\<close>

theorem ioctl_makes_blocking:
  assumes "fd_reach w" "0 \<le> fd" "ctx_of w fd = Some c"
  shows "\<exists>w' f c'. hook_ioctl other fd FIONBIO 0 w = Inr (0, w') \<and> kern w' fd = Some f \<and> fl f AND O_NONBLOCK = 0 \<and>
    ctx_of w' fd = Some c' \<and> m_sysNonblock c' \<and> \<not> m_userNonblock c' \<and> m_isSocket c'"
proof -
  have h: "hooked w fd c"
    by (rule fds_invD [OF fd_machine.reachable_inv [OF assms(1)] assms(3)])
  then have sock: "m_isSocket c' \<and> \<not> m_isClosed c'" if "ctx_of w fd = Some c'" for c'
    using that assms(3) by (auto simp: hooked_def)
  obtain w' where w': "hook_ioctl other fd FIONBIO 0 w = Inr (fst (ioctl_f other fd FIONBIO 0 (kern w)), w')"
    "kern w' = snd (ioctl_f other fd FIONBIO 0 (kern w))"
    "ctx_of w' = (ctx_of w)(fd := map_option (\<lambda>c. c\<lparr>m_userNonblock := ((0 :: u32) \<noteq> 0)\<rparr>) (ctx_of w fd))"
    using hook_ioctl_total [OF assms(2) sock, of w other FIONBIO 0] by auto
  then show ?thesis
    using h assms(3) by (auto simp: hooked_def ioctl_f_def flag_bits)
qed

text \<open>A socket that is opened in non-blocking mode is one the program sees in blocking mode.\<close>

lemma sock_nonblock_lost:
  assumes "fd_reach w" "0 \<le> fd" "kern w fd = None" "hook_socket fd O_NONBLOCK w = Inr (r, w')"
  shows "\<exists>f. view w' fd = Some f \<and> fl f AND O_NONBLOCK = 0"
proof -
  note inv = fd_machine.reachable_inv [OF assms(1)]
  obtain c w1 where w1: "get_fd fd True (opened fd O_NONBLOCK w) = Inr (Some c, w1)"
    "kern w1 = (kern w)(fd \<mapsto> \<lparr>is_socket = True, fl = O_NONBLOCK OR O_NONBLOCK\<rparr>)" "ctx_of w1 = (ctx_of w)(fd \<mapsto> c)" "\<not> m_userNonblock c"
    by (rule open_inv [OF inv assms(2,3)])
  then have "w' = w1" using assms inv by (simp add: hook_socket_def fds_inv_def)
  with w1 show ?thesis by (simp add: view_at flag_bits)
qed

section \<open>Examples\<close>

definition fd_world0 :: fd_world where
  "fd_world0 = \<lparr>m_datas = new_FdManager, kern = Map.empty, t_hook_enable = True\<rparr>"

definition fd_world1 :: fd_world where
  "fd_world1 = (case hook_socket 70 2 fd_world0 of Inr (r, w) \<Rightarrow> w | Inl _ \<Rightarrow> fd_world0)"

lemma fd_world0_reach: "fd_reach fd_world0"
  by (rule reachable_init) (simp add: fd_world0_def)

lemma fd_world1_made: "\<exists>c w. hook_socket 70 2 fd_world0 = Inr (70, w) \<and> ctx_of w 70 = Some c"
proof -
  have inv: "fds_inv fd_world0" by (rule fd_init_inv) (simp add: fd_world0_def)
  obtain c w' where "get_fd 70 True (opened 70 2 fd_world0) = Inr (Some c, w')" "ctx_of w' = (ctx_of fd_world0)(70 \<mapsto> c)"
    by (rule open_inv [OF inv, of 70 2]) (simp_all add: fd_world0_def)
  then show ?thesis by (simp add: hook_socket_def fd_world0_def)
qed

lemma fd_world1_reach: "fd_reach fd_world1" "\<exists>c. ctx_of fd_world1 70 = Some c"
proof -
  obtain c w where w: "hook_socket 70 2 fd_world0 = Inr (70, w)" "ctx_of w 70 = Some c"
    using fd_world1_made by blast
  then have "fd_step fd_world0 w"
    by (intro fd_socket [of 70 fd_world0 2 70 w]) (simp_all add: fd_world0_def O_NONBLOCK_def)
  with w show "fd_reach fd_world1" "\<exists>c. ctx_of fd_world1 70 = Some c"
    using reachable_step [OF fd_world0_reach] by (auto simp: fd_world1_def)
qed



theorem ioctl_makes_blocking_witness:
  "\<exists>w' f. hook_ioctl (\<lambda>_ _ _. 0) 70 FIONBIO 0 fd_world1 = Inr (0, w') \<and> kern w' 70 = Some f \<and> fl f AND O_NONBLOCK = 0"
proof -
  obtain c where c: "ctx_of fd_world1 70 = Some c" using fd_world1_reach(2) by blast
  show ?thesis
    using ioctl_makes_blocking [OF fd_world1_reach(1) _ c, of "\<lambda>_ _ _. 0"] by auto
qed

end
