(* ===== verification/Hooks.thy ===== *)
theory Hooks
  imports Fd_Manager
begin

text \<open>
  The hooks of \<open>hook.cc\<close> that wait: \<open>do_io\<close>, which all calls that read and write share, \<open>connect_with_timeout\<close>
  and the functions that sleep. A call that would block registers an event with the I/O manager, possibly arms a
  timer, and leaves the thread to other fibers until the event or the timer wakes it.

  A call is split where other threads can come in between: at the system call, between arming the timer and
  \<open>addEvent\<close>, and at \<open>yield\<close>. The record \<open>io_run\<close> is one call with the manager it runs in; \<open>cancelled\<close> is the field
  of the \<open>timer_info\<close> object that the call shares with the callback of its timer. Callbacks are data: the
  function that a timer runs is a value of \<open>hook_cb\<close>.
\<close>

abbreviation EINTR :: int where "EINTR \<equiv> 4"
abbreviation EBADF :: int where "EBADF \<equiv> 9"
abbreviation EAGAIN :: int where "EAGAIN \<equiv> 11"
abbreviation ETIMEDOUT :: int where "ETIMEDOUT \<equiv> 110"
abbreviation EINPROGRESS :: int where "EINPROGRESS \<equiv> 115"

datatype hook_cb = Wake_fiber nat | Io_timeout nat int u32

type_synonym hook_iom = "(nat, hook_cb) callback IOManager"

datatype hook_error = Io_failed io_error | Bad_erase

section \<open>Entering a call\<close>

text \<open>What \<open>do_io\<close> does before it tries: call the system function, fail, or go on with a timeout.\<close>

datatype io_entry = Call_direct | Fail_with int | Hooked_io u64

definition do_io_enter :: "int \<Rightarrow> int \<Rightarrow> fd_world \<Rightarrow> fd_error + io_entry" where
  "do_io_enter fd timeout_so w =
     (if \<not> t_hook_enable w then Inr Call_direct
      else case get_fd fd False w of
        Inl e \<Rightarrow> Inl e
      | Inr (None, _) \<Rightarrow> Inr Call_direct
      | Inr (Some c, _) \<Rightarrow>
          Inr (if m_isClosed c then Fail_with EBADF
               else if \<not> m_isSocket c \<or> m_userNonblock c then Call_direct
               else Hooked_io (getTimeout timeout_so c)))"

text \<open>The functions that \<open>do_io\<close> stands behind, with the event each waits for and the timeout it takes.\<close>

datatype io_function = Accept | Read | Readv | Recv | Recvfrom | Recvmsg | Write | Writev | Send | Sendto | Sendmsg

fun hooked_event :: "io_function \<Rightarrow> u32 \<times> int" where
  "hooked_event Accept = (READ, SO_RCVTIMEO)"
| "hooked_event Read = (READ, SO_RCVTIMEO)"
| "hooked_event Readv = (READ, SO_RCVTIMEO)"
| "hooked_event Recv = (READ, SO_RCVTIMEO)"
| "hooked_event Recvfrom = (READ, SO_RCVTIMEO)"
| "hooked_event Recvmsg = (READ, SO_RCVTIMEO)"
| "hooked_event Write = (WRITE, SO_SNDTIMEO)"
| "hooked_event Writev = (WRITE, SO_SNDTIMEO)"
| "hooked_event Send = (WRITE, SO_SNDTIMEO)"
| "hooked_event Sendto = (WRITE, SO_SNDTIMEO)"
| "hooked_event Sendmsg = (WRITE, SO_SNDTIMEO)"

definition connect_enter :: "int \<Rightarrow> u64 \<Rightarrow> fd_world \<Rightarrow> fd_error + io_entry" where
  "connect_enter fd timeout_ms w =
     (if \<not> t_hook_enable w then Inr Call_direct
      else case get_fd fd False w of
        Inl e \<Rightarrow> Inl e
      | Inr (None, _) \<Rightarrow> Inr (Fail_with EBADF)
      | Inr (Some c, _) \<Rightarrow>
          Inr (if m_isClosed c then Fail_with EBADF
               else if \<not> m_isSocket c then Call_direct
               else if m_userNonblock c then Call_direct
               else Hooked_io timeout_ms))"

section \<open>Waiting\<close>

text \<open>
  Where a call is; the timer is the one of this round. \<open>Checking\<close> is \<open>connect_with_timeout\<close> before it asks for
  \<open>SO_ERROR\<close>. \<open>Done\<close> has the result and \<open>errno\<close>.
\<close>

datatype io_phase = Trying | Adding "nat option" | Waiting "nat option" | Woken "nat option" | Checking | Done int int

record io_args =
  a_fd :: int
  a_event :: u32
  a_to :: u64
  a_fiber :: nat
  a_sched :: nat
  a_tinfo :: nat

text \<open>The last three fields record what happened: the answers of the system call, whether the timer fired, and the
  value of \<open>errno\<close> after an \<open>addEvent\<close> that failed.\<close>

record io_run =
  phase :: io_phase
  cancelled :: int
  manager :: hook_iom
  answers :: "(int \<times> int) list"
  fired :: bool
  failed :: "int option"

definition arm_timer :: "u64 \<Rightarrow> nat \<Rightarrow> io_args \<Rightarrow> io_run \<Rightarrow> io_run" where
  "arm_timer now t A R =
     (if a_to A \<noteq> - 1
      then R\<lparr>phase := Adding (Some t), manager := (manager R)\<lparr>timer_manager :=
             addConditionTimer now t (a_to A) (Io_timeout (a_tinfo A) (a_fd A) (a_event A)) (a_tinfo A) False
               (timer_manager (manager R))\<rparr>\<rparr>
      else R\<lparr>phase := Adding None\<rparr>)"

definition cancel_timer :: "nat option \<Rightarrow> hook_iom \<Rightarrow> hook_error + hook_iom" where
  "cancel_timer tm M =
     (case tm of
        None \<Rightarrow> Inr M
      | Some t \<Rightarrow> (case cancel t (timer_manager M) of
          None \<Rightarrow> Inl Bad_erase
        | Some (_, T) \<Rightarrow> Inr (M\<lparr>timer_manager := T\<rparr>)))"

text \<open>The system call has returned \<open>n\<close>, with \<open>e\<close> in \<open>errno\<close>: \<open>retry\<close>, the loop around it, and the timer.\<close>

definition do_io_answer :: "u64 \<Rightarrow> nat \<Rightarrow> int \<Rightarrow> int \<Rightarrow> io_args \<Rightarrow> io_run \<Rightarrow> io_run" where
  "do_io_answer now t n e A R =
     (let R = R\<lparr>answers := answers R @ [(n, e)]\<rparr> in
      if n = - 1 \<and> e = EINTR then R
      else if n = - 1 \<and> e = EAGAIN then arm_timer now t A R
      else R\<lparr>phase := Done n e\<rparr>)"

text \<open>\<open>addEvent\<close>, by the fiber of the call; \<open>err\<close> is the \<open>errno\<close> of a call that the kernel refused.\<close>

definition do_io_add :: "bool \<Rightarrow> int \<Rightarrow> nat option \<Rightarrow> io_args \<Rightarrow> io_run \<Rightarrow> hook_error + io_run" where
  "do_io_add refuse err tm A R =
     (case addEvent refuse (Some (a_sched A)) (a_fiber A, RUNNING) (a_fd A) (a_event A) None (manager R) of
        Inl e \<Rightarrow> Inl (Io_failed e)
      | Inr (rt, M) \<Rightarrow>
          if rt \<noteq> 0
          then (case cancel_timer tm M of
                  Inl e \<Rightarrow> Inl e
                | Inr M \<Rightarrow> Inr (R\<lparr>manager := M, phase := Done (- 1) err, failed := Some err\<rparr>))
          else Inr (R\<lparr>manager := M, phase := Waiting tm\<rparr>))"

text \<open>After \<open>yield\<close> has returned.\<close>

definition do_io_resume :: "nat option \<Rightarrow> io_run \<Rightarrow> hook_error + io_run" where
  "do_io_resume tm R =
     (case cancel_timer tm (manager R) of
        Inl e \<Rightarrow> Inl e
      | Inr M \<Rightarrow>
          let R = R\<lparr>manager := M\<rparr>
          in Inr (if cancelled R \<noteq> 0 then R\<lparr>phase := Done (- 1) (cancelled R)\<rparr> else R\<lparr>phase := Trying\<rparr>))"

text \<open>The callback of the timer; the weak pointer is dead when the call has returned.\<close>

definition tinfo_alive :: "io_run \<Rightarrow> bool" where
  "tinfo_alive R \<longleftrightarrow> (\<forall>n e. phase R \<noteq> Done n e)"

definition io_timeout :: "bool \<Rightarrow> io_args \<Rightarrow> io_run \<Rightarrow> hook_error + io_run" where
  "io_timeout refuse A R =
     (if \<not> tinfo_alive R \<or> cancelled R \<noteq> 0 then Inr R
      else case cancelEvent refuse (a_fd A) (a_event A) (manager R) of
        Inl e \<Rightarrow> Inl (Io_failed e)
      | Inr (_, M) \<Rightarrow> Inr (R\<lparr>cancelled := ETIMEDOUT, manager := M, fired := True\<rparr>))"

section \<open>Connecting\<close>

definition connect_answer :: "u64 \<Rightarrow> nat \<Rightarrow> int \<Rightarrow> int \<Rightarrow> io_args \<Rightarrow> io_run \<Rightarrow> io_run" where
  "connect_answer now t n e A R =
     (let R = R\<lparr>answers := answers R @ [(n, e)]\<rparr> in
      if n = 0 then R\<lparr>phase := Done 0 e\<rparr>
      else if n \<noteq> - 1 \<or> e \<noteq> EINPROGRESS then R\<lparr>phase := Done n e\<rparr>
      else arm_timer now t A R)"

definition connect_add :: "bool \<Rightarrow> nat option \<Rightarrow> io_args \<Rightarrow> io_run \<Rightarrow> hook_error + io_run" where
  "connect_add refuse tm A R =
     (case addEvent refuse (Some (a_sched A)) (a_fiber A, RUNNING) (a_fd A) WRITE None (manager R) of
        Inl e \<Rightarrow> Inl (Io_failed e)
      | Inr (rt, M) \<Rightarrow>
          if rt = 0 then Inr (R\<lparr>manager := M, phase := Waiting tm\<rparr>)
          else (case cancel_timer tm M of
                  Inl e \<Rightarrow> Inl e
                | Inr M \<Rightarrow> Inr (R\<lparr>manager := M, phase := Checking\<rparr>)))"

definition connect_resume :: "nat option \<Rightarrow> io_run \<Rightarrow> hook_error + io_run" where
  "connect_resume tm R =
     (case cancel_timer tm (manager R) of
        Inl e \<Rightarrow> Inl e
      | Inr M \<Rightarrow>
          let R = R\<lparr>manager := M\<rparr>
          in Inr (if cancelled R \<noteq> 0 then R\<lparr>phase := Done (- 1) (cancelled R)\<rparr> else R\<lparr>phase := Checking\<rparr>))"

text \<open>\<open>getsockopt\<close> returns \<open>rt\<close>, with \<open>e\<close> in \<open>errno\<close>, and \<open>error\<close> as the value of \<open>SO_ERROR\<close>.\<close>

definition connect_check :: "int \<Rightarrow> int \<Rightarrow> int \<Rightarrow> io_run \<Rightarrow> io_run" where
  "connect_check rt e error R =
     (if rt = - 1 then R\<lparr>phase := Done (- 1) e\<rparr>
      else if error = 0 then R\<lparr>phase := Done 0 e\<rparr>
      else R\<lparr>phase := Done (- 1) error\<rparr>)"

section \<open>Sleeping\<close>

text \<open>The timer that wakes the fiber; \<open>ms\<close> is the 64-bit argument of \<open>addTimer\<close>.\<close>

definition sleep_timer :: "u64 \<Rightarrow> nat \<Rightarrow> nat \<Rightarrow> u64 \<Rightarrow> hook_iom \<Rightarrow> hook_iom" where
  "sleep_timer now t fiber ms M =
     M\<lparr>timer_manager := addTimer now t ms (Some (Fun (Wake_fiber fiber))) False (timer_manager M)\<rparr>"

definition hook_sleep :: "u64 \<Rightarrow> nat \<Rightarrow> nat \<Rightarrow> u32 \<Rightarrow> hook_iom \<Rightarrow> hook_iom" where
  "hook_sleep now t fiber seconds M = sleep_timer now t fiber (ucast (seconds * 1000)) M"

definition hook_usleep :: "u64 \<Rightarrow> nat \<Rightarrow> nat \<Rightarrow> u32 \<Rightarrow> hook_iom \<Rightarrow> hook_iom" where
  "hook_usleep now t fiber usec M = sleep_timer now t fiber (ucast (usec div 1000)) M"

text \<open>\<open>timeout_ms\<close> is an \<open>int\<close>, which is sign-extended.\<close>

definition hook_nanosleep :: "u64 \<Rightarrow> nat \<Rightarrow> nat \<Rightarrow> int \<times> int \<Rightarrow> hook_iom \<Rightarrow> hook_iom" where
  "hook_nanosleep now t fiber req M =
     (let timeout_ms = word_of_int (fst req * 1000 + snd req div 1000 div 1000) :: u32
      in sleep_timer now t fiber (scast timeout_ms) M)"

section \<open>Steps of a call\<close>

text \<open>
  The call and its environment. Other threads make any calls of the manager, but none registers or removes the
  event of this call: it can only be delivered. They keep the timers well formed.
\<close>

definition io_env :: "io_args \<Rightarrow> hook_iom \<Rightarrow> hook_iom \<Rightarrow> bool" where
  "io_env A M M' \<longleftrightarrow> io_step M M' \<and>
     (regs M' (a_fd A, a_event A) = regs M (a_fd A, a_event A) \<or> regs M' (a_fd A, a_event A) = None) \<and>
     timers_ok (timer_manager M') \<and> set (tm_made (timer_manager M)) \<subseteq> set (tm_made (timer_manager M'))"

inductive do_io_step :: "io_args \<Rightarrow> io_run \<Rightarrow> io_run \<Rightarrow> bool" for A where
  io_try: "phase R = Trying \<Longrightarrow> t \<noteq> 0 \<Longrightarrow> t \<notin> set (tm_made (timer_manager (manager R))) \<Longrightarrow>
    do_io_step A R (do_io_answer now t n e A R)"
| io_add: "phase R = Adding tm \<Longrightarrow> do_io_add refuse err tm A R = Inr R' \<Longrightarrow> do_io_step A R R'"
| io_wake: "phase R = Waiting tm \<Longrightarrow> regs (manager R) (a_fd A, a_event A) = None \<Longrightarrow> do_io_step A R (R\<lparr>phase := Woken tm\<rparr>)"
| io_resume: "phase R = Woken tm \<Longrightarrow> do_io_resume tm R = Inr R' \<Longrightarrow> do_io_step A R R'"
| io_fire: "a_to A \<noteq> - 1 \<Longrightarrow> (- 1, EAGAIN) \<in> set (answers R) \<Longrightarrow> io_timeout refuse A R = Inr R' \<Longrightarrow> do_io_step A R R'"
| io_other: "io_env A (manager R) M' \<Longrightarrow> do_io_step A R (R\<lparr>manager := M'\<rparr>)"

definition do_io_init :: "io_args \<Rightarrow> io_run \<Rightarrow> bool" where
  "do_io_init A R \<longleftrightarrow> 0 \<le> a_fd A \<and> a_fd A < 2 ^ 31 \<and> a_event A \<in> {READ, WRITE} \<and> io_reach (manager R) \<and>
     regs (manager R) (a_fd A, a_event A) = None \<and> timers_ok (timer_manager (manager R)) \<and>
     phase R = Trying \<and> cancelled R = 0 \<and> answers R = [] \<and> \<not> fired R \<and> failed R = None"

abbreviation do_io_reach :: "io_args \<Rightarrow> io_run \<Rightarrow> bool" where
  "do_io_reach A \<equiv> reachable (do_io_init A) (do_io_step A)"

section \<open>The invariant of a call\<close>

lemma addEvent_timers: "addEvent refuse cur me fd event cb M = Inr (rt, M') \<Longrightarrow> timer_manager M' = timer_manager M"
  by (auto simp: addEvent_def addEvent_locked_def Let_def put_fd_ctx_def split: if_splits sum.splits option.splits)

lemma cancelEvent_timers: "cancelEvent refuse fd event M = Inr (b, M') \<Longrightarrow> timer_manager M' = timer_manager M"
  by (auto simp: cancelEvent_def trigger_def Let_def put_fd_ctx_def split: if_splits sum.splits option.splits prod.splits)

lemma timers_only [simp]:
  "regs (M\<lparr>timer_manager := T\<rparr>) = regs M" "io_inv (M\<lparr>timer_manager := T\<rparr>) = io_inv M"
  by (rule regs_cong) (simp_all add: io_inv_def core_inv_def)

definition timer_known :: "io_args \<Rightarrow> nat option \<Rightarrow> hook_iom \<Rightarrow> bool" where
  "timer_known A tm M \<longleftrightarrow>
     (case tm of None \<Rightarrow> a_to A = - 1 | Some t \<Rightarrow> a_to A \<noteq> - 1 \<and> t \<in> set (tm_made (timer_manager M)))"

lemma timer_known_cong: "timer_manager M' = timer_manager M \<Longrightarrow> timer_known A tm M' = timer_known A tm M"
  by (simp add: timer_known_def split: option.splits)

lemma cancel_timer_ok:
  assumes "timers_ok (timer_manager M)" "timer_known A tm M"
  obtains M' where "cancel_timer tm M = Inr M'" "timers_ok (timer_manager M')" "regs M' = regs M" "io_inv M' = io_inv M"
    "tm_made (timer_manager M') = tm_made (timer_manager M)"
proof (cases tm)
  case None
  then show thesis using assms(1) by (intro that [of M]) (simp_all add: cancel_timer_def)
next
  case (Some t)
  obtain b T where T: "cancel t (timer_manager M) = Some (b, T)" "timers_ok T"
    using cancel_ok [OF assms(1), of t] assms Some by (auto simp: timer_known_def)
  then have "tm_made T = tm_made (timer_manager M)"
    by (auto simp: cancel_def upd_timer_def set_erase_def Let_def split: if_splits)
  with T Some show thesis by (intro that [of "M\<lparr>timer_manager := T\<rparr>"]) (simp_all add: cancel_timer_def)
qed

text \<open>How a call may end.\<close>

definition call_result :: "io_args \<Rightarrow> io_run \<Rightarrow> int \<Rightarrow> int \<Rightarrow> bool" where
  "call_result A R n e \<longleftrightarrow>
     answers R \<noteq> [] \<and> last (answers R) = (n, e) \<and> \<not> (n = - 1 \<and> e \<in> {EINTR, EAGAIN}) \<or>
     n = - 1 \<and> e = ETIMEDOUT \<and> fired R \<and> a_to A \<noteq> - 1 \<or>
     n = - 1 \<and> failed R = Some e"

definition phase_inv :: "io_args \<Rightarrow> io_run \<Rightarrow> bool" where
  "phase_inv A R \<longleftrightarrow>
     (let r = regs (manager R) (a_fd A, a_event A) in
      case phase R of
        Trying \<Rightarrow> r = None
      | Adding tm \<Rightarrow> r = None \<and> timer_known A tm (manager R)
      | Waiting tm \<Rightarrow> r \<in> {None, Some (a_sched A, new_task (a_fiber A, RUNNING) None)} \<and> timer_known A tm (manager R)
      | Woken tm \<Rightarrow> r = None \<and> timer_known A tm (manager R)
      | Checking \<Rightarrow> False
      | Done n e \<Rightarrow> r = None \<and> call_result A R n e)"

definition run_inv :: "io_args \<Rightarrow> io_run \<Rightarrow> bool" where
  "run_inv A R \<longleftrightarrow> 0 \<le> a_fd A \<and> a_fd A < 2 ^ 31 \<and> (a_event A = READ \<or> a_event A = WRITE) \<and>
     io_inv (manager R) \<and> timers_ok (timer_manager (manager R)) \<and>
     cancelled R = (if fired R then ETIMEDOUT else 0) \<and> (fired R \<longrightarrow> a_to A \<noteq> - 1) \<and> phase_inv A R"

lemma arm_timer_inv:
  assumes "run_inv A R" "phase R = Trying" "t \<noteq> 0" "t \<notin> set (tm_made (timer_manager (manager R)))"
  shows "run_inv A (arm_timer now t A R)"
proof -
  have "timers_ok (addTimer now t (a_to A) cb False (timer_manager (manager R)))" for cb
    using assms by (intro addTimer_ok) (simp_all add: run_inv_def)
  moreover have "t \<in> set (tm_made (addTimer now t ms cb False T))" for ms cb and T :: "(nat, hook_cb) callback TimerManager"
    by (simp add: addTimer_def addTimer_locked_def set_insert_def Let_def)
  ultimately show ?thesis
    using assms by (auto simp: arm_timer_def run_inv_def phase_inv_def timer_known_def addConditionTimer_def)
qed

lemma answers_inv: "run_inv A R \<Longrightarrow> phase R = Trying \<Longrightarrow> run_inv A (R\<lparr>answers := as\<rparr>)"
  by (simp add: run_inv_def phase_inv_def)

lemma do_io_answer_inv:
  assumes "run_inv A R" "phase R = Trying" "t \<noteq> 0" "t \<notin> set (tm_made (timer_manager (manager R)))"
  shows "run_inv A (do_io_answer now t n e A R)"
proof -
  let ?R = "R\<lparr>answers := answers R @ [(n, e)]\<rparr>"
  have "run_inv A (?R\<lparr>phase := Done n e\<rparr>)" if "\<not> (n = - 1 \<and> e \<in> {EINTR, EAGAIN})"
    using assms that by (auto simp: run_inv_def phase_inv_def call_result_def)
  with assms arm_timer_inv [of A ?R t now] answers_inv [of A R] show ?thesis
    by (auto simp: do_io_answer_def Let_def)
qed

lemma do_io_add_inv:
  assumes "run_inv A R" "phase R = Adding tm"
  obtains R' where "do_io_add refuse err tm A R = Inr R'" "run_inv A R'"
proof -
  have inv: "io_inv (manager R)" "0 \<le> a_fd A" "a_fd A < 2 ^ 31" "a_event A = READ \<or> a_event A = WRITE"
    "regs (manager R) (a_fd A, a_event A) = None" "timer_known A tm (manager R)" "timers_ok (timer_manager (manager R))"
    using assms by (auto simp: run_inv_def phase_inv_def)
  let ?r = "(a_sched A, new_task (a_fiber A, RUNNING) None)"
  obtain M where M: "addEvent refuse (Some (a_sched A)) (a_fiber A, RUNNING) (a_fd A) (a_event A) None (manager R) = Inr (if refuse then - 1 else 0, M)"
    "io_inv M" "regs M = (if refuse then regs (manager R) else (regs (manager R))((a_fd A, a_event A) \<mapsto> ?r))"
    using addEvent_spec [OF inv(1-5), of None "(a_fiber A, RUNNING)" refuse "a_sched A"] by auto
  note T = addEvent_timers [OF M(1)]
  show thesis
  proof (cases refuse)
    case True
    obtain M' where "cancel_timer tm M = Inr M'" "timers_ok (timer_manager M')" "regs M' = regs M" "io_inv M' = io_inv M"
      by (rule cancel_timer_ok [of M A tm]) (use inv(6,7) T timer_known_cong [OF T] in simp_all)
    with True M inv assms(1) show thesis
      by (intro that [of "R\<lparr>manager := M', phase := Done (- 1) err, failed := Some err\<rparr>"])
        (simp_all add: do_io_add_def run_inv_def phase_inv_def call_result_def)
  next
    case False
    with M inv assms(1) T show thesis
      by (intro that [of "R\<lparr>manager := M, phase := Waiting tm\<rparr>"])
        (simp_all add: do_io_add_def run_inv_def phase_inv_def timer_known_cong [OF T])
  qed
qed

lemma do_io_resume_inv:
  assumes "run_inv A R" "phase R = Woken tm"
  obtains R' where "do_io_resume tm R = Inr R'" "run_inv A R'"
proof -
  have "timer_known A tm (manager R)" "timers_ok (timer_manager (manager R))"
    using assms by (auto simp: run_inv_def phase_inv_def)
  then obtain M' where "cancel_timer tm (manager R) = Inr M'" "timers_ok (timer_manager M')" "regs M' = regs (manager R)"
    "io_inv M' = io_inv (manager R)"
    using cancel_timer_ok by metis
  with assms show thesis
    by (intro that [of "(R\<lparr>manager := M'\<rparr>)\<lparr>phase := if cancelled R \<noteq> 0 then Done (- 1) (cancelled R) else Trying\<rparr>"])
      (auto simp: do_io_resume_def run_inv_def phase_inv_def call_result_def Let_def split: if_splits)
qed

lemma io_timeout_inv:
  assumes "run_inv A R"
  obtains R' where "io_timeout refuse A R = Inr R'" "a_to A \<noteq> - 1 \<Longrightarrow> run_inv A R'"
proof (cases "\<not> tinfo_alive R \<or> cancelled R \<noteq> 0")
  case True
  with assms show thesis by (intro that [of R]) (simp_all add: io_timeout_def)
next
  case False
  have inv: "io_inv (manager R)" "0 \<le> a_fd A" "a_event A = READ \<or> a_event A = WRITE"
    using assms by (auto simp: run_inv_def)
  obtain b M where M: "cancelEvent refuse (a_fd A) (a_event A) (manager R) = Inr (b, M)" "io_inv M"
    "regs M = (if b then (regs (manager R))((a_fd A, a_event A) := None) else regs (manager R))"
    using cancelEvent_spec [OF inv, of refuse] by auto
  note T = cancelEvent_timers [OF M(1)]
  have "phase_inv A (R\<lparr>cancelled := ETIMEDOUT, manager := M, fired := True\<rparr>)"
    using assms M(3) False
    by (cases "phase R") (auto simp: run_inv_def phase_inv_def timer_known_cong [OF T] tinfo_alive_def Let_def)
  with False M assms T show thesis
    by (intro that [of "R\<lparr>cancelled := ETIMEDOUT, manager := M, fired := True\<rparr>"]) (auto simp: io_timeout_def run_inv_def)
qed

lemma io_other_inv:
  assumes "run_inv A R" "io_env A (manager R) M'"
  shows "run_inv A (R\<lparr>manager := M'\<rparr>)"
proof -
  have "io_inv M'"
    using assms io_step_inv by (auto simp: io_env_def run_inv_def)
  moreover have "timer_known A tm M'" if "timer_known A tm (manager R)" for tm
    using that assms(2) by (auto simp: timer_known_def io_env_def split: option.splits)
  ultimately show ?thesis
    using assms by (auto simp: run_inv_def phase_inv_def io_env_def call_result_def Let_def split: io_phase.splits)
qed

lemma do_io_step_inv: "do_io_step A R R' \<Longrightarrow> run_inv A R \<Longrightarrow> run_inv A R'"
proof (induction rule: do_io_step.induct)
  case (io_try R t now n e)
  then show ?case by (intro do_io_answer_inv)
next
  case (io_add R tm refuse err R')
  then show ?case using do_io_add_inv [of A R tm refuse err] by auto
next
  case (io_wake R tm)
  then show ?case by (auto simp: run_inv_def phase_inv_def)
next
  case (io_resume R tm R')
  then show ?case using do_io_resume_inv [of A R tm] by auto
next
  case (io_fire R refuse R')
  then show ?case using io_timeout_inv [of A R refuse] by auto
next
  case (io_other R M')
  then show ?case by (intro io_other_inv)
qed

lemma do_io_init_inv: "do_io_init A R \<Longrightarrow> run_inv A R"
  by (auto simp: do_io_init_def run_inv_def phase_inv_def io_reach_inv)

interpretation io_call: step_invariant "do_io_init A" "do_io_step A" "run_inv A" for A
  by unfold_locales (auto intro: do_io_init_inv do_io_step_inv)


section \<open>Races and edge cases\<close>

text \<open>
  When the timer fires after it was armed and before \<open>addEvent\<close>, the timeout is lost. The callback finds no event
  to cancel; the fiber then waits with the event registered, no later firing does anything, and only the event
  can wake it. The call then returns \<open>ETIMEDOUT\<close>, although its descriptor is ready.
\<close>

theorem timeout_race:
  assumes "do_io_reach A R" "phase R = Adding (Some t)" "cancelled R = 0"
  shows "\<exists>R1 R2. io_timeout False A R = Inr R1 \<and> do_io_add False err (Some t) A R1 = Inr R2 \<and> phase R2 = Waiting (Some t) \<and>
    regs (manager R2) (a_fd A, a_event A) \<noteq> None \<and> (\<forall>refuse. io_timeout refuse A R2 = Inr R2) \<and>
    (\<forall>M R3. do_io_resume (Some t) (R2\<lparr>phase := Woken (Some t), manager := M\<rparr>) = Inr R3 \<longrightarrow> phase R3 = Done (- 1) ETIMEDOUT)"
proof -
  note inv = io_call.reachable_inv [OF assms(1)]
  obtain R1 where R1: "io_timeout False A R = Inr R1" "a_to A \<noteq> - 1 \<Longrightarrow> run_inv A R1"
    using io_timeout_inv [OF inv, of False] by blast
  have to: "a_to A \<noteq> - 1"
    using inv assms(2) by (auto simp: run_inv_def phase_inv_def timer_known_def)
  have f: "phase R1 = Adding (Some t)" "cancelled R1 = ETIMEDOUT" "io_inv (manager R1)" "a_event A = READ \<or> a_event A = WRITE"
    "0 \<le> a_fd A" "a_fd A < 2 ^ 31" "regs (manager R1) (a_fd A, a_event A) = None"
    using R1 to assms(2,3) by (auto simp: io_timeout_def tinfo_alive_def run_inv_def phase_inv_def split: sum.splits prod.splits)
  obtain M where M: "addEvent False (Some (a_sched A)) (a_fiber A, RUNNING) (a_fd A) (a_event A) None (manager R1) = Inr (0, M)"
    "regs M = (regs (manager R1))((a_fd A, a_event A) \<mapsto> (a_sched A, new_task (a_fiber A, RUNNING) None))"
    using addEvent_spec [OF f(3,5,6,4,7), of None "(a_fiber A, RUNNING)" False "a_sched A"] by auto
  let ?R2 = "R1\<lparr>manager := M, phase := Waiting (Some t)\<rparr>"
  have "do_io_add False err (Some t) A R1 = Inr ?R2" using M(1) by (simp add: do_io_add_def)
  moreover have "io_timeout refuse A ?R2 = Inr ?R2" for refuse using f(2) by (simp add: io_timeout_def)
  moreover have "phase R3 = Done (- 1) ETIMEDOUT"
    if "do_io_resume (Some t) (?R2\<lparr>phase := Woken (Some t), manager := N\<rparr>) = Inr R3" for N R3
    using that f(2) by (auto simp: do_io_resume_def split: sum.splits)
  ultimately show ?thesis
    using R1(1) M(2) by (intro exI [of _ R1] exI [of _ ?R2]) simp
qed

text \<open>
  When \<open>connect\<close> is in progress and the manager cannot register the event, \<open>connect_with_timeout\<close> does not
  wait: it asks for \<open>SO_ERROR\<close>, which is 0 while the connection is being made, and reports success.
\<close>

theorem connect_unfinished_succeeds:
  assumes "do_io_init A R" "a_event A = WRITE" "t \<noteq> 0" "t \<notin> set (tm_made (timer_manager (manager R)))"
  shows "\<exists>R1. connect_add True (if a_to A = - 1 then None else Some t) A (connect_answer now t (- 1) EINPROGRESS A R) = Inr R1 \<and>
    phase (connect_check 0 e 0 R1) = Done 0 e"
proof -
  let ?R = "arm_timer now t A (R\<lparr>answers := answers R @ [(- 1, EINPROGRESS)]\<rparr>)"
  let ?tm = "if a_to A = - 1 then None else Some t"
  have inv: "run_inv A ?R"
    using assms by (intro arm_timer_inv answers_inv do_io_init_inv) (simp_all add: do_io_init_def)
  have ph: "phase ?R = Adding ?tm" by (simp add: arm_timer_def)
  then have f: "io_inv (manager ?R)" "0 \<le> a_fd A" "a_fd A < 2 ^ 31" "WRITE = READ \<or> WRITE = WRITE"
    "regs (manager ?R) (a_fd A, WRITE) = None" "timer_known A ?tm (manager ?R)" "timers_ok (timer_manager (manager ?R))"
    using inv assms(2) by (auto simp: run_inv_def phase_inv_def)
  obtain M where M: "addEvent True (Some (a_sched A)) (a_fiber A, RUNNING) (a_fd A) WRITE None (manager ?R) = Inr (- 1, M)"
    using addEvent_spec [OF f(1-5), of None "(a_fiber A, RUNNING)" True "a_sched A"] by auto
  note T = addEvent_timers [OF M]
  obtain M' where "cancel_timer ?tm M = Inr M'"
    by (rule cancel_timer_ok [of M A ?tm]) (use f(6,7) T timer_known_cong [OF T] in simp_all)
  then have "connect_add True ?tm A ?R = Inr (?R\<lparr>manager := M', phase := Checking\<rparr>)"
    using M by (simp add: connect_add_def)
  moreover have "connect_answer now t (- 1) EINPROGRESS A R = ?R"
    by (simp add: connect_answer_def)
  ultimately show ?thesis by (simp add: connect_check_def)
qed

text \<open>A receive timeout of zero, which stands for no timeout, becomes a timeout of 0 milliseconds.\<close>

lemma zero_timeout:
  assumes "fd_reach w" "0 \<le> fd" "ctx_of w fd = Some c" "\<not> m_userNonblock c" "hook_setsockopt fd 1 SO_RCVTIMEO (0, 0) w = Inr w'"
  shows "do_io_enter fd SO_RCVTIMEO w' = Inr (Hooked_io 0)"
proof -
  note inv = fd_machine.reachable_inv [OF assms(1)]
  have "w' = upd_ctx fd (setTimeout SO_RCVTIMEO 0) w" "t_hook_enable w"
    using assms(3,5) inv get_fd_lookup [OF assms(2), of w] by (auto simp: hook_setsockopt_def fds_inv_def)
  then show ?thesis
    using fds_invD [OF inv assms(3)] assms(3,4) get_fd_lookup [OF assms(2), of w']
    by (simp add: do_io_enter_def ctx_of_upd [OF assms(2)] hooked_def setTimeout_def getTimeout_def)
qed

text \<open>In a thread without hooks, \<open>accept\<close> puts the new socket into non-blocking mode, and nothing waits for it.\<close>

lemma accept_without_hooks:
  assumes "\<not> t_hook_enable w" "0 \<le> fd" "64 \<le> length (m_datas w)" "ctx_of w fd = None" "hook_accept fd flags w = Inr (r, w')"
  shows "(\<exists>f. kern w' fd = Some f \<and> fl f AND O_NONBLOCK \<noteq> 0) \<and> do_io_enter fd SO_RCVTIMEO w' = Inr Call_direct"
proof -
  obtain c w1 where "get_fd fd True (opened fd flags w) = Inr (Some c, w1)" "t_hook_enable w1 = t_hook_enable w"
    "kern w1 = (kern w)(fd \<mapsto> \<lparr>is_socket = True, fl = flags OR O_NONBLOCK\<rparr>)"
    by (rule get_fd_create [OF assms(2), of "opened fd flags w" "\<lparr>is_socket = True, fl = flags\<rparr>"])
      (use assms(3,4) in \<open>auto simp: opened_def\<close>)
  with assms show ?thesis
    by (auto simp: hook_accept_def do_io_enter_def flag_bits)
qed

text \<open>The product of \<open>sleep\<close> has 32 bits: 4294968 seconds, almost fifty days, are 704 milliseconds.\<close>

lemma sleep_wraps: "m_ms (tm_heap (timer_manager (hook_sleep now t fiber 4294968 M)) t) = 704"
  by (simp add: hook_sleep_def sleep_timer_def addTimer_def addTimer_locked_def set_insert_def new_Timer_def Let_def)

section \<open>Examples\<close>

definition call0 :: io_args where
  "call0 = \<lparr>a_fd = 7, a_event = WRITE, a_to = 100, a_fiber = 3, a_sched = 0, a_tinfo = 1\<rparr>"

definition run0 :: io_run where
  "run0 = \<lparr>phase = Trying, cancelled = 0, manager = new_IOManager 0 (\<lambda>_. the (new_Scheduler 1 False 0)) 0, answers = [],
     fired = False, failed = None\<rparr>"

lemma run0_init: "do_io_init call0 run0"
proof -
  have "io_reach (manager run0)" by (rule reachable_init) (auto simp: run0_def)
  moreover have "timers_ok (timer_manager (manager run0))"
    by (simp add: run0_def new_IOManager_def new_TimerManager_def timers_ok_def)
  moreover have "regs (manager run0) (7, WRITE) = None"
    by (auto simp: run0_def new_IOManager_def regs_def contextResize_def reg_def new_FdContext_def)
  ultimately show ?thesis by (simp add: do_io_init_def call0_def) (simp add: run0_def)
qed

definition run1 :: io_run where
  "run1 = do_io_answer 0 1 (- 1) EAGAIN call0 run0"

lemma run1_reach: "do_io_reach call0 run1" "phase run1 = Adding (Some 1)" "cancelled run1 = 0"
proof -
  have "do_io_step call0 run0 run1"
    unfolding run1_def by (rule io_try) (simp_all add: run0_def new_IOManager_def new_TimerManager_def)
  then show "do_io_reach call0 run1"
    by (rule reachable_step [OF reachable_init [of "do_io_init call0", OF run0_init]])
qed (simp_all add: run1_def do_io_answer_def arm_timer_def call0_def run0_def)


theorem timeout_race_witness:
  "\<exists>R1 R2. io_timeout False call0 run1 = Inr R1 \<and> do_io_add False 0 (Some 1) call0 R1 = Inr R2 \<and> phase R2 = Waiting (Some 1)"
  using timeout_race [OF run1_reach, of 0] by blast

theorem connect_unfinished_succeeds_witness:
  "\<exists>R1. connect_add True (Some 1) call0 (connect_answer 0 1 (- 1) EINPROGRESS call0 run0) = Inr R1 \<and>
     phase (connect_check 0 0 0 R1) = Done 0 0"
  using connect_unfinished_succeeds [OF run0_init, of 1 0 0]
  by (simp add: call0_def) (simp add: run0_def new_IOManager_def new_TimerManager_def)

end
