(* ===== verification/Configuration.thy ===== *)
theory Configuration
  imports Util
begin

text \<open>
  \<open>config.h\<close>, \<open>config.cc\<close> and \<open>env.cc\<close>: configuration variables with their listeners, the table of all variables, loading
  it from YAML, and the arguments of the process.

  A node of the YAML library is the tree \<open>yaml\<close>, in which the key of an entry is its \<open>Scalar()\<close>; reading and writing
  YAML are the record \<open>yaml_lib\<close>. The values of all variables have one type; \<open>cv_type\<close> is the type that
  \<open>dynamic_pointer_cast\<close> compares, and the conversions from and to text are arguments that depend on it. A listener is
  called with the old and the new value, which is recorded in \<open>cv_calls\<close>. The locks make each operation one step.
\<close>

section \<open>YAML\<close>

datatype yaml = YNull | YScalar string | YSeq "yaml list" | YMap "(string \<times> yaml) list"

record yaml_lib =
  y_load :: "string \<Rightarrow> yaml option"
  y_emit :: "yaml \<Rightarrow> string"
  y_index :: "(string \<times> yaml) list \<Rightarrow> yaml list option"

text \<open>\<open>node[0]\<close> to \<open>node[size() - 1]\<close>; what the library does for a map is \<open>y_index\<close>.\<close>

fun yaml_elements :: "yaml_lib \<Rightarrow> yaml \<Rightarrow> yaml list option" where
  "yaml_elements Y (YSeq ns) = Some ns"
| "yaml_elements Y (YMap es) = y_index Y es"
| "yaml_elements Y n = Some []"

text \<open>The entries an iterator visits: those of a map.\<close>

fun yaml_entries :: "yaml \<Rightarrow> (string \<times> yaml) list" where
  "yaml_entries (YMap es) = es"
| "yaml_entries n = []"

section \<open>Conversions\<close>

text \<open>A conversion that throws is \<open>None\<close>.\<close>

fun cast_all :: "('a \<Rightarrow> 'b option) \<Rightarrow> 'a list \<Rightarrow> 'b list option" where
  "cast_all f [] = Some []"
| "cast_all f (x # xs) = (case f x of None \<Rightarrow> None | Some y \<Rightarrow> map_option ((#) y) (cast_all f xs))"

definition string_to_vector :: "yaml_lib \<Rightarrow> (string \<Rightarrow> 't option) \<Rightarrow> string \<Rightarrow> 't list option" where
  "string_to_vector Y cast v =
     (case y_load Y v of
        None \<Rightarrow> None
      | Some node \<Rightarrow>
          (case yaml_elements Y node of None \<Rightarrow> None | Some ns \<Rightarrow> cast_all (\<lambda>n. cast (y_emit Y n)) ns))"

definition vector_to_string :: "yaml_lib \<Rightarrow> ('t \<Rightarrow> string option) \<Rightarrow> 't list \<Rightarrow> string option" where
  "vector_to_string Y to v =
     map_option (\<lambda>ns. y_emit Y (YSeq ns))
       (cast_all (\<lambda>i. case to i of None \<Rightarrow> None | Some s \<Rightarrow> y_load Y s) v)"

definition string_to_set :: "yaml_lib \<Rightarrow> (string \<Rightarrow> 't option) \<Rightarrow> string \<Rightarrow> 't set option" where
  "string_to_set Y cast v = map_option (\<lambda>xs. foldl (\<lambda>A x. insert x A) {} xs) (string_to_vector Y cast v)"

text \<open>\<open>insert\<close> keeps the first entry of a key.\<close>

fun insert_new :: "string \<times> 't \<Rightarrow> (string \<rightharpoonup> 't) \<Rightarrow> string \<rightharpoonup> 't" where
  "insert_new (k, x) m = (if m k = None then m(k \<mapsto> x) else m)"

definition string_to_map :: "yaml_lib \<Rightarrow> (string \<Rightarrow> 't option) \<Rightarrow> string \<Rightarrow> (string \<rightharpoonup> 't) option" where
  "string_to_map Y cast v =
     (case y_load Y v of
        None \<Rightarrow> None
      | Some node \<Rightarrow>
          map_option (\<lambda>es. foldl (\<lambda>m e. insert_new e m) Map.empty es)
            (cast_all (\<lambda>(k, n). map_option (Pair k) (cast (y_emit Y n))) (yaml_entries node)))"

text \<open>The entries of the map in the order of iteration; \<open>node[key] = ...\<close> for keys that are all different.\<close>

definition map_to_string :: "yaml_lib \<Rightarrow> ('t \<Rightarrow> string option) \<Rightarrow> (string \<times> 't) list \<Rightarrow> string option" where
  "map_to_string Y to v =
     map_option (\<lambda>es. y_emit Y (YMap es))
       (cast_all (\<lambda>(k, x). case to x of None \<Rightarrow> None | Some s \<Rightarrow> map_option (Pair k) (y_load Y s)) v)"

section \<open>Variables\<close>

record 'v ConfigVar =
  cv_name :: string
  cv_description :: string
  cv_type :: string
  cv_val :: 'v
  cv_cbs :: "u64 list"
  cv_calls :: "(u64 \<times> 'v \<times> 'v) list"

definition new_ConfigVar :: "string \<Rightarrow> string \<Rightarrow> 'v \<Rightarrow> string \<Rightarrow> 'v ConfigVar" where
  "new_ConfigVar type name default_value description =
     \<lparr>cv_name = ToLower name, cv_description = description, cv_type = type, cv_val = default_value, cv_cbs = [], cv_calls = []\<rparr>"

definition cv_toString :: "('v \<Rightarrow> string option) \<Rightarrow> 'v ConfigVar \<Rightarrow> string" where
  "cv_toString to_str x = (case to_str (cv_val x) of Some s \<Rightarrow> s | None \<Rightarrow> [])"

definition setValue :: "'v \<Rightarrow> 'v ConfigVar \<Rightarrow> 'v ConfigVar" where
  "setValue v x =
     (if v = cv_val x then x
      else x\<lparr>cv_calls := cv_calls x @ map (\<lambda>i. (i, cv_val x, v)) (cv_cbs x), cv_val := v\<rparr>)"

text \<open>The result of \<open>fromString\<close> is always false.\<close>

definition cv_fromString :: "(string \<Rightarrow> 'v option) \<Rightarrow> string \<Rightarrow> 'v ConfigVar \<Rightarrow> bool \<times> 'v ConfigVar" where
  "cv_fromString from_str val x = (False, case from_str val of None \<Rightarrow> x | Some v \<Rightarrow> setValue v x)"

text \<open>\<open>s_fun_id\<close> is shared by the variables of a type; the listeners are in the order of their numbers.\<close>

definition addListener :: "u64 \<Rightarrow> 'v ConfigVar \<Rightarrow> u64 \<times> u64 \<times> 'v ConfigVar" where
  "addListener s_fun_id x =
     (let s_fun_id = s_fun_id + 1 in (s_fun_id, s_fun_id, x\<lparr>cv_cbs := insort s_fun_id (remove1 s_fun_id (cv_cbs x))\<rparr>))"

definition delListener :: "u64 \<Rightarrow> 'v ConfigVar \<Rightarrow> 'v ConfigVar" where
  "delListener key x = x\<lparr>cv_cbs := remove1 key (cv_cbs x)\<rparr>"

definition getListener :: "u64 \<Rightarrow> 'v ConfigVar \<Rightarrow> u64 option" where
  "getListener key x = (if key \<in> set (cv_cbs x) then Some key else None)"

definition clearListener :: "'v ConfigVar \<Rightarrow> 'v ConfigVar" where
  "clearListener x = x\<lparr>cv_cbs := []\<rparr>"

section \<open>The table of variables\<close>

type_synonym 'v datas = "string \<rightharpoonup> 'v ConfigVar"

datatype config_error = Invalid_name string

definition name_chars :: string where
  "name_chars = ''abcdefghikjlmnopqrstuvwxyz._012345678''"

definition Config_Lookup_default :: "string \<Rightarrow> string \<Rightarrow> 'v \<Rightarrow> string \<Rightarrow> 'v datas \<Rightarrow> config_error + 'v ConfigVar option \<times> 'v datas" where
  "Config_Lookup_default type name default_value description D =
     (case D name of
        Some x \<Rightarrow> Inr (if cv_type x = type then Some x else None, D)
      | None \<Rightarrow>
          if find_first_not_of name name_chars \<noteq> None then Inl (Invalid_name name)
          else let v = new_ConfigVar type name default_value description in Inr (Some v, D(name \<mapsto> v)))"

definition Config_Lookup :: "string \<Rightarrow> string \<Rightarrow> 'v datas \<Rightarrow> 'v ConfigVar option" where
  "Config_Lookup type name D = (case D name of None \<Rightarrow> None | Some x \<Rightarrow> if cv_type x = type then Some x else None)"

definition LookupBase :: "string \<Rightarrow> 'v datas \<Rightarrow> 'v ConfigVar option" where
  "LookupBase name D = D name"

definition member_prefix :: "string \<Rightarrow> string \<Rightarrow> string" where
  "member_prefix prefix key = (if prefix = [] then key else prefix @ ''.'' @ key)"

fun ListAllMember :: "string \<Rightarrow> yaml \<Rightarrow> (string \<times> yaml) list" where
  "ListAllMember prefix node =
     (if find_first_not_of prefix name_chars \<noteq> None then []
      else (prefix, node) #
        (case node of
           YMap es \<Rightarrow> concat (map (\<lambda>(k, n). ListAllMember (member_prefix prefix k) n) es)
         | _ \<Rightarrow> []))"

declare ListAllMember.simps [simp del]

definition node_text :: "yaml_lib \<Rightarrow> yaml \<Rightarrow> string" where
  "node_text Y node = (case node of YScalar s \<Rightarrow> s | _ \<Rightarrow> y_emit Y node)"

definition load_member :: "yaml_lib \<Rightarrow> (string \<Rightarrow> string \<Rightarrow> 'v option) \<Rightarrow> 'v datas \<Rightarrow> string \<times> yaml \<Rightarrow> 'v datas" where
  "load_member Y from_str D i =
     (if fst i = [] then D
      else let key = ToLower (fst i) in
        case LookupBase key D of
          None \<Rightarrow> D
        | Some var \<Rightarrow> D(key \<mapsto> snd (cv_fromString (from_str (cv_type var)) (node_text Y (snd i)) var)))"

definition LoadFromYaml :: "yaml_lib \<Rightarrow> (string \<Rightarrow> string \<Rightarrow> 'v option) \<Rightarrow> yaml \<Rightarrow> 'v datas \<Rightarrow> 'v datas" where
  "LoadFromYaml Y from_str root D = foldl (load_member Y from_str) D (ListAllMember [] root)"

text \<open>
  \<open>LoadFromConfDir\<close>: the files with their time of modification and what \<open>YAML::LoadFile\<close> gives. The map of times gives
  0 for a file it does not know. An exception while loading leaves the values that were set before it; \<open>LoadFile\<close>
  is the only call that throws.
\<close>

fun load_files :: "yaml_lib \<Rightarrow> (string \<Rightarrow> string \<Rightarrow> 'v option) \<Rightarrow> bool \<Rightarrow> (string \<times> u64 \<times> yaml option) list \<Rightarrow>
    (string \<Rightarrow> u64) \<times> 'v datas \<Rightarrow> (string \<Rightarrow> u64) \<times> 'v datas" where
  "load_files Y from_str force [] st = st"
| "load_files Y from_str force ((i, st_mtime, content) # files) (mtimes, D) =
     (if \<not> force \<and> mtimes i = st_mtime then load_files Y from_str force files (mtimes, D)
      else load_files Y from_str force files
        (mtimes(i := st_mtime), case content of None \<Rightarrow> D | Some root \<Rightarrow> LoadFromYaml Y from_str root D))"

section \<open>Arguments of the process\<close>

record Env =
  m_args :: "string \<rightharpoonup> string"
  m_helps :: "(string \<times> string) list"
  m_program :: string
  m_exe :: string
  m_cwd :: string

definition env_add :: "string \<Rightarrow> string \<Rightarrow> Env \<Rightarrow> Env" where
  "env_add key val e = e\<lparr>m_args := (m_args e)(key \<mapsto> val)\<rparr>"

definition env_has :: "string \<Rightarrow> Env \<Rightarrow> bool" where
  "env_has key e \<longleftrightarrow> m_args e key \<noteq> None"

definition env_del :: "string \<Rightarrow> Env \<Rightarrow> Env" where
  "env_del key e = e\<lparr>m_args := (m_args e)(key := None)\<rparr>"

definition env_get :: "string \<Rightarrow> string \<Rightarrow> Env \<Rightarrow> string" where
  "env_get key default_value e = (case m_args e key of Some v \<Rightarrow> v | None \<Rightarrow> default_value)"

definition removeHelp :: "string \<Rightarrow> Env \<Rightarrow> Env" where
  "removeHelp key e = e\<lparr>m_helps := filter (\<lambda>h. fst h \<noteq> key) (m_helps e)\<rparr>"

definition addHelp :: "string \<Rightarrow> string \<Rightarrow> Env \<Rightarrow> Env" where
  "addHelp key desc e = (let e = removeHelp key e in e\<lparr>m_helps := m_helps e @ [(key, desc)]\<rparr>)"

definition printHelp :: "Env \<Rightarrow> string" where
  "printHelp e =
     ''Usage: '' @ m_program e @ '' [options]'' @ [LF] @
     concat (map (\<lambda>(k, d). ''    -'' @ k @ '' : '' @ d @ [LF]) (m_helps e))"

text \<open>The loop over the arguments from the first on.\<close>

fun init_args :: "string option \<Rightarrow> string list \<Rightarrow> Env \<Rightarrow> bool \<times> Env" where
  "init_args now_key [] e = (True, case now_key of None \<Rightarrow> e | Some k \<Rightarrow> env_add k [] e)"
| "init_args now_key (a # args) e =
     (if a \<noteq> [] \<and> hd a = CHR ''-'' then
        if length a > 1 then init_args (Some (tl a)) args (case now_key of None \<Rightarrow> e | Some k \<Rightarrow> env_add k [] e)
        else (False, e)
      else case now_key of
             Some k \<Rightarrow> init_args None args (env_add k a e)
           | None \<Rightarrow> (False, e))"

text \<open>\<open>exe\<close> is what \<open>readlink\<close> wrote; the position is \<open>npos\<close> when there is no slash.\<close>

definition env_init :: "string \<Rightarrow> string list \<Rightarrow> Env \<Rightarrow> (bool \<times> Env) option" where
  "env_init exe argv e =
     (case argv of
        [] \<Rightarrow> None
      | prog # args \<Rightarrow>
          let cwd = (case rfind (CHR ''/'') exe of Some pos \<Rightarrow> take pos exe | None \<Rightarrow> exe) @ ''/''
          in Some (init_args None args (e\<lparr>m_exe := exe, m_cwd := cwd, m_program := prog\<rparr>)))"

definition getAbsolutePath :: "string \<Rightarrow> Env \<Rightarrow> string" where
  "getAbsolutePath path e = (if path = [] then ''/'' else if hd path = CHR ''/'' then path else m_cwd e @ path)"

definition getAbsoluteWorkPath :: "string \<Rightarrow> string \<Rightarrow> string" where
  "getAbsoluteWorkPath work_path path =
     (if path = [] then ''/'' else if hd path = CHR ''/'' then path else work_path @ ''/'' @ path)"

definition getConfigPath :: "Env \<Rightarrow> string" where
  "getConfigPath e = getAbsolutePath (env_get ''c'' ''conf'' e) e"

text \<open>The environment of the process as a map of C strings; a name that is empty or holds \<open>=\<close> is refused.\<close>

definition setEnv :: "string \<Rightarrow> string \<Rightarrow> (string \<rightharpoonup> string) \<Rightarrow> bool \<times> (string \<rightharpoonup> string)" where
  "setEnv key val env =
     (let k = c_str key in if k = [] \<or> CHR ''='' \<in> set k then (False, env) else (True, env(k \<mapsto> c_str val)))"

definition getEnv :: "string \<Rightarrow> string \<Rightarrow> (string \<rightharpoonup> string) \<Rightarrow> string" where
  "getEnv key default_value env = (case env (c_str key) of None \<Rightarrow> default_value | Some v \<Rightarrow> v)"

section \<open>Loading\<close>

lemma find_first_not_of_all: "find_first_not_of s cs = None \<longleftrightarrow> set s \<subseteq> set cs"
  by (induction s) auto

text \<open>The nodes below a node, by the keys that lead to them.\<close>

inductive node_at :: "yaml \<Rightarrow> string list \<Rightarrow> yaml \<Rightarrow> bool" where
  here: "node_at n [] n"
| below: "(k, n) \<in> set es \<Longrightarrow> node_at n ks m \<Longrightarrow> node_at (YMap es) (k # ks) m"

inductive_simps node_at_simps: "node_at n [] m" "node_at n (k # ks) m"

lemma member_prefix_subset: "set prefix \<subseteq> set (foldl member_prefix prefix ks)"
proof (induction ks arbitrary: prefix)
  case (Cons k ks)
  have "set prefix \<subseteq> set (member_prefix prefix k)"
    by (auto simp: member_prefix_def)
  then show ?case
    using Cons [of "member_prefix prefix k"] by auto
qed simp

lemma ex_list: "(\<exists>xs. Q xs) \<longleftrightarrow> Q [] \<or> (\<exists>x xs. Q (x # xs))"
  by (metis list.exhaust)

lemma ListAllMember_iff:
  "(p, m) \<in> set (ListAllMember prefix node) \<longleftrightarrow>
    (\<exists>ks. node_at node ks m \<and> p = foldl member_prefix prefix ks) \<and> set p \<subseteq> set name_chars"
proof (induction prefix node rule: ListAllMember.induct)
  case (1 prefix node)
  show ?case
  proof (cases "set prefix \<subseteq> set name_chars")
    case False
    then have "ListAllMember prefix node = []"
      by (simp add: ListAllMember.simps find_first_not_of_all)
    moreover have "\<not> set (foldl member_prefix prefix ks) \<subseteq> set name_chars" for ks
      using False member_prefix_subset [of prefix ks] by blast
    ultimately show ?thesis
      by auto
  next
    case True
    then have ok: "\<not> find_first_not_of prefix name_chars \<noteq> None"
      by (simp add: find_first_not_of_all)
    have members: "(p, m) \<in> set (ListAllMember prefix node) \<longleftrightarrow>
        (p, m) = (prefix, node) \<or> (\<exists>k n. (k, n) \<in> set (yaml_entries node) \<and> (p, m) \<in> set (ListAllMember (member_prefix prefix k) n))"
      using ok by (subst ListAllMember.simps) (cases node; auto)
    have at: "node_at node (k # ks) m \<longleftrightarrow> (\<exists>n. (k, n) \<in> set (yaml_entries node) \<and> node_at n ks m)" for k ks
      by (cases node) (auto simp: node_at_simps)
    have IH: "(p, m) \<in> set (ListAllMember (member_prefix prefix k) n) \<longleftrightarrow>
        (\<exists>ks. node_at n ks m \<and> p = foldl member_prefix (member_prefix prefix k) ks) \<and> set p \<subseteq> set name_chars"
      if "(k, n) \<in> set (yaml_entries node)" for k n
      using that 1 [OF ok] by (cases node) auto
    have "(\<exists>ks. node_at node ks m \<and> p = foldl member_prefix prefix ks) \<longleftrightarrow>
        (p, m) = (prefix, node) \<or> (\<exists>k ks. node_at node (k # ks) m \<and> p = foldl member_prefix (member_prefix prefix k) ks)"
      by (subst ex_list) (auto simp: node_at_simps(1))
    then show ?thesis
      unfolding members at using IH True by blast
  qed
qed

lemma ToLower_names: "set p \<subseteq> set name_chars \<Longrightarrow> ToLower p = p"
proof -
  have "\<forall>c\<in>set name_chars. tolower c = c"
    by code_simp
  then show "set p \<subseteq> set name_chars \<Longrightarrow> ToLower p = p"
    by (auto simp: ToLower_def intro: map_idI)
qed

definition update_text :: "(string \<Rightarrow> string \<Rightarrow> 'v option) \<Rightarrow> string \<Rightarrow> 'v ConfigVar \<Rightarrow> 'v ConfigVar" where
  "update_text from_str t x = snd (cv_fromString (from_str (cv_type x)) t x)"

text \<open>The texts of the nodes whose path spells a name, in document order.\<close>

definition texts_at :: "yaml_lib \<Rightarrow> yaml \<Rightarrow> string \<Rightarrow> string list" where
  "texts_at Y root name = map (node_text Y \<circ> snd) (filter (\<lambda>i. fst i = name) (ListAllMember [] root))"

lemma load_members:
  assumes "\<forall>i\<in>set ms. set (fst i) \<subseteq> set name_chars" "name \<noteq> []"
  shows "foldl (load_member Y from_str) D ms name =
    map_option (fold (update_text from_str) (map (node_text Y \<circ> snd) (filter (\<lambda>i. fst i = name) ms))) (D name)"
  using assms(1)
proof (induction ms arbitrary: D)
  case (Cons i ms)
  have "load_member Y from_str D i name = (if fst i = name then map_option (update_text from_str (node_text Y (snd i))) (D name) else D name)"
    using Cons.prems assms(2)
    by (auto simp: load_member_def Let_def LookupBase_def ToLower_names update_text_def split: option.splits)
  then show ?case
    using Cons by (simp add: option.map_comp comp_def)
qed (simp add: option.map_id0)

lemma empty_name_kept: "\<forall>i\<in>set ms. set (fst i) \<subseteq> set name_chars \<Longrightarrow> foldl (load_member Y from_str) D ms [] = D []"
proof (induction ms arbitrary: D)
  case (Cons i ms)
  have "load_member Y from_str D i [] = D []"
    using Cons.prems by (auto simp: load_member_def LookupBase_def ToLower_names Let_def split: option.splits)
  then show ?case
    using Cons by simp
qed simp

text \<open>
  C30: Loading a configuration. A variable takes, in document order, the texts of exactly those nodes of the document
  whose keys spell its name when they are joined by dots, and no other variable changes; a text that cannot be converted is
  skipped. When there is one such node, the variable has its value afterwards, and every listener was called once with the
  old and the new value if they differ, and not at all otherwise.
\<close>

theorem config_load_exact:
  assumes "name \<noteq> []"
  shows "LoadFromYaml Y from_str root D name = map_option (fold (update_text from_str) (texts_at Y root name)) (D name) \<and>
    (\<forall>t. t \<in> set (texts_at Y root name) \<longleftrightarrow>
       (\<exists>ks n. node_at root ks n \<and> foldl member_prefix [] ks = name \<and> set name \<subseteq> set name_chars \<and> t = node_text Y n)) \<and>
    (\<forall>t x v. D name = Some x \<longrightarrow> texts_at Y root name = [t] \<longrightarrow> from_str (cv_type x) t = Some v \<longrightarrow>
       (\<exists>y. LoadFromYaml Y from_str root D name = Some y \<and> cv_val y = v \<and>
          cv_calls y = cv_calls x @ (if v = cv_val x then [] else map (\<lambda>i. (i, cv_val x, v)) (cv_cbs x))))"
proof -
  have names: "\<forall>i\<in>set (ListAllMember [] root). set (fst i) \<subseteq> set name_chars"
    using ListAllMember_iff by fastforce
  have load: "LoadFromYaml Y from_str root D name = map_option (fold (update_text from_str) (texts_at Y root name)) (D name)"
    unfolding LoadFromYaml_def texts_at_def by (rule load_members [OF names assms])
  moreover have "t \<in> set (texts_at Y root name) \<longleftrightarrow>
      (\<exists>ks n. node_at root ks n \<and> foldl member_prefix [] ks = name \<and> set name \<subseteq> set name_chars \<and> t = node_text Y n)" for t
    using ListAllMember_iff [of name _ "[]" root] by (auto simp: texts_at_def image_iff)
  ultimately show ?thesis
    by (auto simp: update_text_def cv_fromString_def setValue_def)
qed

text \<open>A document with one variable in it.\<close>

theorem config_load_exact_witness:
  "\<exists>y. LoadFromYaml \<lparr>y_load = (\<lambda>s. None), y_emit = (\<lambda>n. []), y_index = (\<lambda>es. None)\<rparr> (\<lambda>ty s. Some (length s))
       (YMap [(''tcp'', YMap [(''port'', YScalar ''8020'')])])
       [''tcp.port'' \<mapsto> (new_ConfigVar ''size_t'' ''tcp.port'' 0 [])\<lparr>cv_cbs := [1]\<rparr>] ''tcp.port'' = Some y \<and>
     cv_val y = 4 \<and> cv_calls y = [(1, 0, 4)]"
proof -
  let ?Y = "\<lparr>y_load = (\<lambda>s. None), y_emit = (\<lambda>n. []), y_index = (\<lambda>es. None)\<rparr>"
  let ?root = "YMap [(''tcp'', YMap [(''port'', YScalar ''8020'')])]"
  let ?x = "(new_ConfigVar ''size_t'' ''tcp.port'' 0 [])\<lparr>cv_cbs := [1]\<rparr>"
  let ?D = "[''tcp.port'' \<mapsto> ?x]"
  have "texts_at ?Y ?root ''tcp.port'' = [''8020'']"
    by code_simp
  then show ?thesis
    using config_load_exact [of "''tcp.port''" ?Y "\<lambda>ty s. Some (length s)" ?root ?D]
    by (simp add: new_ConfigVar_def update_text_def cv_fromString_def setValue_def)
qed

section \<open>Round trips\<close>

lemma cast_all_compose:
  "cast_all f xs = Some ys \<Longrightarrow> (\<And>x y. x \<in> set xs \<Longrightarrow> f x = Some y \<Longrightarrow> g y = Some x) \<Longrightarrow> cast_all g ys = Some xs"
proof (induction xs arbitrary: ys)
  case (Cons x xs)
  obtain y zs where y: "f x = Some y" "cast_all f xs = Some zs" "ys = y # zs"
    using Cons.prems(1) by (auto split: option.splits)
  have "g y = Some x" "cast_all g zs = Some xs"
    using Cons.prems(2) [of x y] Cons.IH [OF y(2)] Cons.prems(2) y(1) by auto
  then show ?case
    by (simp add: y(3))
qed simp

text \<open>A vector that was written as YAML is read back, if the library reads what it writes.\<close>

lemma vector_read_back:
  assumes "vector_to_string Y to v = Some s"
    and "\<And>ns. y_load Y (y_emit Y (YSeq ns)) = Some (YSeq ns)"
    and "\<And>x t n. x \<in> set v \<Longrightarrow> to x = Some t \<Longrightarrow> y_load Y t = Some n \<Longrightarrow> cast (y_emit Y n) = Some x"
  shows "string_to_vector Y cast s = Some v"
proof -
  obtain ns where ns: "cast_all (\<lambda>i. case to i of None \<Rightarrow> None | Some s \<Rightarrow> y_load Y s) v = Some ns" "s = y_emit Y (YSeq ns)"
    using assms(1) by (auto simp: vector_to_string_def)
  have "cast_all (\<lambda>n. cast (y_emit Y n)) ns = Some v"
    using assms(3) by (intro cast_all_compose [OF ns(1)]) (auto split: option.splits)
  then show ?thesis
    by (simp add: string_to_vector_def ns(2) assms(2))
qed

section \<open>Options\<close>

text \<open>The arguments that spell a list of options, each with a value or without.\<close>

fun option_args :: "string \<times> string option \<Rightarrow> string list" where
  "option_args (k, None) = [CHR ''-'' # k]"
| "option_args (k, Some v) = [CHR ''-'' # k, v]"

definition option_ok :: "string \<times> string option \<Rightarrow> bool" where
  "option_ok opt \<longleftrightarrow> fst opt \<noteq> [] \<and> (\<forall>v. snd opt = Some v \<longrightarrow> v = [] \<or> hd v \<noteq> CHR ''-'')"

definition add_option :: "Env \<Rightarrow> string \<times> string option \<Rightarrow> Env" where
  "add_option e opt = env_add (fst opt) (case snd opt of None \<Rightarrow> [] | Some v \<Rightarrow> v) e"

lemma init_args_pending:
  "args = [] \<or> (\<exists>k as. args = (CHR ''-'' # k) # as \<and> k \<noteq> []) \<Longrightarrow> init_args (Some k0) args e = init_args None args (env_add k0 [] e)"
  by auto

text \<open>Every option of the command line is in the table, the last of a name wins, and the call succeeds.\<close>

lemma init_args_options:
  "\<forall>opt\<in>set os. option_ok opt \<Longrightarrow> init_args None (concat (map option_args os)) e = (True, foldl add_option e os)"
proof (induction os arbitrary: e)
  case (Cons opt os)
  obtain k v where opt: "opt = (k, v)"
    by fastforce
  have k: "k \<noteq> []"
    using Cons.prems by (simp add: opt option_ok_def)
  show ?case
  proof (cases v)
    case None
    have "concat (map option_args os) = [] \<or> (\<exists>k as. concat (map option_args os) = (CHR ''-'' # k) # as \<and> k \<noteq> [])"
    proof (cases os)
      case (Cons opt' os')
      then show ?thesis
        using Cons.prems \<open>\<forall>opt\<in>set (opt # os). option_ok opt\<close> by (cases opt' rule: option_args.cases) (auto simp: option_ok_def)
    qed simp
    then show ?thesis
      using Cons None k init_args_pending by (simp add: opt add_option_def)
  next
    case (Some w)
    then show ?thesis
      using Cons k by (auto simp: opt add_option_def option_ok_def)
  qed
qed simp

text \<open>The digit 9 is missing in the characters of a name, although the comments allow it.\<close>

lemma name_with_nine: "Config_Lookup_default type ''port9'' v d Map.empty = Inl (Invalid_name ''port9'')"
proof -
  have "find_first_not_of ''port9'' name_chars \<noteq> None"
    by code_simp
  then show ?thesis
    by (simp add: Config_Lookup_default_def)
qed

end
