(* ===== verification/Tcp_Server.thy ===== *)
theory Tcp_Server
  imports Addresses
begin

text \<open>
  The life of a socket in \<open>socket.cc\<close> (opening, binding, connecting, listening, accepting, closing) and \<open>tcp_server.cc\<close>.
  Sending and receiving are in theory \<open>Streams\<close>.

  The kernel is the set of the open descriptors, a script of the answers of system calls (a descriptor, 0, or
  anything else for a failure) and the addresses that \<open>getsockname\<close> and \<open>getpeername\<close> fill in for a descriptor. Options of sockets, which do not change
  this state, are left out. A socket object is destroyed, and closed, when the last pointer to it goes away; the
  functions below say where that is.
\<close>

section \<open>The kernel\<close>

record kern =
  k_open :: "int set"
  k_answers :: "int list"
  k_local :: "int \<Rightarrow> Address option"
  k_peer :: "int \<Rightarrow> Address option"
  k_unlinked :: "string list"

definition sys_fd :: "kern \<Rightarrow> int \<times> kern" where
  "sys_fd k =
     (case k_answers k of
        [] \<Rightarrow> (- 1, k)
      | a # as \<Rightarrow> if 0 \<le> a \<and> a \<notin> k_open k then (a, k\<lparr>k_answers := as, k_open := insert a (k_open k)\<rparr>) else (- 1, k\<lparr>k_answers := as\<rparr>))"

definition sys_call :: "kern \<Rightarrow> int \<times> kern" where
  "sys_call k = (case k_answers k of [] \<Rightarrow> (- 1, k) | a # as \<Rightarrow> (if a = 0 then 0 else - 1, k\<lparr>k_answers := as\<rparr>))"

definition sys_close :: "int \<Rightarrow> kern \<Rightarrow> kern" where
  "sys_close fd k = k\<lparr>k_open := k_open k - {fd}\<rparr>"

section \<open>Sockets\<close>

record Sock =
  so_sock :: int
  so_family :: int
  so_type :: int
  so_protocol :: int
  so_isConnected :: bool
  so_localAddress :: "Address option"
  so_remoteAddress :: "Address option"

definition new_Sock :: "int \<Rightarrow> int \<Rightarrow> int \<Rightarrow> Sock" where
  "new_Sock family type protocol =
     \<lparr>so_sock = - 1, so_family = family, so_type = type, so_protocol = protocol, so_isConnected = False,
      so_localAddress = None, so_remoteAddress = None\<rparr>"

definition SOCK_STREAM :: int where "SOCK_STREAM = 1"

definition CreateTCP :: "Address \<Rightarrow> Sock" where
  "CreateTCP address = new_Sock (getFamily address) SOCK_STREAM 0"

definition CreateUnixTCPSocket :: Sock where
  "CreateUnixTCPSocket = new_Sock AF_UNIX SOCK_STREAM 0"

definition isValid :: "Sock \<Rightarrow> bool" where
  "isValid s \<longleftrightarrow> so_sock s \<noteq> - 1"

definition newSock :: "Sock \<Rightarrow> kern \<Rightarrow> Sock \<times> kern" where
  "newSock s k = (case sys_fd k of (fd, k) \<Rightarrow> (s\<lparr>so_sock := fd\<rparr>, k))"

definition sock_close :: "Sock \<Rightarrow> kern \<Rightarrow> bool \<times> Sock \<times> kern" where
  "sock_close s k =
     (if \<not> so_isConnected s \<and> so_sock s = - 1 then (True, s, k)
      else
        let s = s\<lparr>so_isConnected := False\<rparr>
        in if so_sock s \<noteq> - 1 then (False, s\<lparr>so_sock := - 1\<rparr>, sys_close (so_sock s) k) else (False, s, k))"

definition sock_destroy :: "Sock \<Rightarrow> kern \<Rightarrow> kern" where
  "sock_destroy s k = snd (snd (sock_close s k))"

definition unknown_address :: "Sock \<Rightarrow> Address" where
  "unknown_address s = UnknownAddress (UnknownAddress_family (so_family s))"

definition getRemoteAddress :: "Sock \<Rightarrow> kern \<Rightarrow> Address \<times> Sock" where
  "getRemoteAddress s k =
     (case so_remoteAddress s of
        Some a \<Rightarrow> (a, s)
      | None \<Rightarrow>
          (case k_peer k (so_sock s) of
             None \<Rightarrow> (unknown_address s, s)
           | Some a \<Rightarrow> (a, s\<lparr>so_remoteAddress := Some a\<rparr>)))"

definition getLocalAddress :: "Sock \<Rightarrow> kern \<Rightarrow> Address \<times> Sock" where
  "getLocalAddress s k =
     (case so_localAddress s of
        Some a \<Rightarrow> (a, s)
      | None \<Rightarrow>
          (case k_local k (so_sock s) of
             None \<Rightarrow> (unknown_address s, s)
           | Some a \<Rightarrow> (a, s\<lparr>so_localAddress := Some a\<rparr>)))"

text \<open>\<open>if (!isValid()) newSock();\<close>\<close>

definition open_sock :: "Sock \<Rightarrow> kern \<Rightarrow> Sock \<times> kern" where
  "open_sock s k = (if isValid s then (s, k) else newSock s k)"

text \<open>Both calls that connect, with a time limit and without, answer 0 or fail.\<close>

definition sock_connect :: "Address \<Rightarrow> Sock \<Rightarrow> kern \<Rightarrow> bool \<times> Sock \<times> kern" where
  "sock_connect addr s k =
     (case open_sock (s\<lparr>so_remoteAddress := Some addr\<rparr>) k of (s, k) \<Rightarrow>
        if \<not> isValid s then (False, s, k)
        else if getFamily addr \<noteq> so_family s then (False, s, k)
        else
          (case sys_call k of (rt, k) \<Rightarrow>
             if rt \<noteq> 0 then (case sock_close s k of (_, s, k) \<Rightarrow> (False, s, k))
             else
               let s = s\<lparr>so_isConnected := True\<rparr>; s = snd (getRemoteAddress s k); s = snd (getLocalAddress s k)
               in (True, s, k)))"

definition sock_reconnect :: "Sock \<Rightarrow> kern \<Rightarrow> bool \<times> Sock \<times> kern" where
  "sock_reconnect s k =
     (case so_remoteAddress s of
        None \<Rightarrow> (False, s, k)
      | Some addr \<Rightarrow> sock_connect addr (s\<lparr>so_localAddress := None\<rparr>) k)"

text \<open>
  For a Unix address: if a server answers at the path, the address is in use; otherwise the path is removed. The
  socket that tried to connect is destroyed. The path is \<open>None\<close> where reading it is undefined.
\<close>

definition unix_in_use :: "Address \<Rightarrow> kern \<Rightarrow> bool \<times> kern" where
  "unix_in_use addr k =
     (case addr of
        UnixAddress m n \<Rightarrow>
          (case sock_connect addr CreateUnixTCPSocket k of (connected, s, k) \<Rightarrow>
             let k = sock_destroy s k
             in if connected then (True, k)
                else (False, case UnixAddress_getPath m n of Some p \<Rightarrow> k\<lparr>k_unlinked := k_unlinked k @ [p]\<rparr> | None \<Rightarrow> k))
      | _ \<Rightarrow> (False, k))"

definition sock_bind :: "Address \<Rightarrow> Sock \<Rightarrow> kern \<Rightarrow> bool \<times> Sock \<times> kern" where
  "sock_bind addr s k =
     (case open_sock (s\<lparr>so_localAddress := Some addr\<rparr>) k of (s, k) \<Rightarrow>
        if \<not> isValid s then (False, s, k)
        else if getFamily addr \<noteq> so_family s then (False, s, k)
        else
          (case unix_in_use addr k of (used, k) \<Rightarrow>
             if used then (False, s, k)
             else
               (case sys_call k of (rt, k) \<Rightarrow>
                  if rt \<noteq> 0 then (False, s, k) else (True, snd (getLocalAddress s k), k))))"

definition sock_listen :: "Sock \<Rightarrow> kern \<Rightarrow> bool \<times> kern" where
  "sock_listen s k = (if \<not> isValid s then (False, k) else case sys_call k of (rt, k) \<Rightarrow> (rt = 0, k))"

text \<open>\<open>has_ctx\<close> says whether the manager of descriptors has an open socket for a descriptor.\<close>

definition sock_init :: "(int \<Rightarrow> bool) \<Rightarrow> int \<Rightarrow> Sock \<Rightarrow> kern \<Rightarrow> bool \<times> Sock" where
  "sock_init has_ctx sock s k =
     (if has_ctx sock
      then let s = s\<lparr>so_sock := sock, so_isConnected := True\<rparr>; s = snd (getLocalAddress s k) in (True, snd (getRemoteAddress s k))
      else (False, s))"

definition sock_accept :: "(int \<Rightarrow> bool) \<Rightarrow> Sock \<Rightarrow> kern \<Rightarrow> Sock option \<times> kern" where
  "sock_accept has_ctx s k =
     (case sys_fd k of (newsock, k) \<Rightarrow>
        if newsock = - 1 then (None, k)
        else
          (case sock_init has_ctx newsock (new_Sock (so_family s) (so_type s) (so_protocol s)) k of (ok, sock) \<Rightarrow>
             if ok then (Some sock, k) else (None, sock_destroy sock k)))"

section \<open>The server\<close>

record TcpServer =
  ts_socks :: "Sock list"
  ts_recvTimeout :: u64
  ts_name :: string
  ts_type :: string
  ts_isStop :: bool

definition new_TcpServer :: "u64 \<Rightarrow> TcpServer" where
  "new_TcpServer read_timeout =
     \<lparr>ts_socks = [], ts_recvTimeout = read_timeout, ts_name = ''sylar/1.0.0'', ts_type = ''tcp'', ts_isStop = True\<rparr>"

text \<open>One address: the socket if it is bound and listens, otherwise it is destroyed.\<close>

definition bind_one :: "Address \<Rightarrow> kern \<Rightarrow> Sock option \<times> kern" where
  "bind_one addr k =
     (case sock_bind addr (CreateTCP addr) k of (bound, s, k) \<Rightarrow>
        if \<not> bound then (None, sock_destroy s k)
        else (case sock_listen s k of (listening, k) \<Rightarrow> if \<not> listening then (None, sock_destroy s k) else (Some s, k)))"

fun bind_loop :: "Address list \<Rightarrow> Address list \<Rightarrow> Sock list \<Rightarrow> kern \<Rightarrow> Address list \<times> Sock list \<times> kern" where
  "bind_loop [] fails socks k = (fails, socks, k)"
| "bind_loop (addr # addrs) fails socks k =
     (case bind_one addr k of
        (None, k) \<Rightarrow> bind_loop addrs (fails @ [addr]) socks k
      | (Some s, k) \<Rightarrow> bind_loop addrs fails (socks @ [s]) k)"

definition server_bind :: "Address list \<Rightarrow> Address list \<Rightarrow> TcpServer \<Rightarrow> kern \<Rightarrow> bool \<times> Address list \<times> TcpServer \<times> kern" where
  "server_bind addrs fails srv k =
     (case bind_loop addrs fails (ts_socks srv) k of (fails, socks, k) \<Rightarrow>
        if fails \<noteq> [] then (False, fails, srv\<lparr>ts_socks := []\<rparr>, fold sock_destroy socks k)
        else (True, fails, srv\<lparr>ts_socks := socks\<rparr>, k))"

definition server_bind_addr :: "Address \<Rightarrow> TcpServer \<Rightarrow> kern \<Rightarrow> bool \<times> TcpServer \<times> kern" where
  "server_bind_addr addr srv k = (case server_bind [addr] [] srv k of (ok, _, srv, k) \<Rightarrow> (ok, srv, k))"

text \<open>The sockets for which \<open>startAccept\<close> is scheduled.\<close>

definition server_start :: "TcpServer \<Rightarrow> bool \<times> Sock list \<times> TcpServer" where
  "server_start srv = (if \<not> ts_isStop srv then (True, [], srv) else (True, ts_socks srv, srv\<lparr>ts_isStop := False\<rparr>))"

text \<open>
  One round of the loop of \<open>startAccept\<close>: \<open>None\<close> when the server has stopped, otherwise the client for which
  \<open>handleClient\<close> is scheduled, if there is one.
\<close>

definition accept_round :: "(int \<Rightarrow> bool) \<Rightarrow> Sock \<Rightarrow> TcpServer \<Rightarrow> kern \<Rightarrow> (Sock option \<times> kern) option" where
  "accept_round has_ctx s srv k = (if ts_isStop srv then None else Some (sock_accept has_ctx s k))"

definition server_stop :: "TcpServer \<Rightarrow> TcpServer" where
  "server_stop srv = srv\<lparr>ts_isStop := True\<rparr>"

text \<open>The task that \<open>stop\<close> schedules.\<close>

definition close_all :: "TcpServer \<Rightarrow> kern \<Rightarrow> TcpServer \<times> kern" where
  "close_all srv k = (srv\<lparr>ts_socks := []\<rparr>, fold (\<lambda>s k. snd (snd (sock_close s k))) (ts_socks srv) k)"

section \<open>Descriptors\<close>

definition fds :: "Sock list \<Rightarrow> int set" where
  "fds socks = {so_sock s | s. s \<in> set socks \<and> so_sock s \<noteq> - 1}"

lemma fds_simps [simp]: "fds [] = {}" "fds (s # socks) = (if so_sock s = - 1 then {} else {so_sock s}) \<union> fds socks"
  "fds (xs @ ys) = fds xs \<union> fds ys"
  by (auto simp: fds_def)

lemma fds_same: "so_sock s = so_sock t \<Longrightarrow> fds [s] = fds [t]" and fds_closed: "so_sock s = - 1 \<Longrightarrow> fds [s] = {}"
  by simp_all

lemma sys_fd_open:
  "sys_fd k = (fd, k') \<Longrightarrow> k_open k' = (if fd = - 1 then k_open k else insert fd (k_open k)) \<and> (fd \<noteq> - 1 \<longrightarrow> fd \<notin> k_open k)"
  by (auto simp: sys_fd_def split: list.splits if_splits)

lemma sys_call_open: "sys_call k = (rt, k') \<Longrightarrow> k_open k' = k_open k"
  by (auto simp: sys_call_def split: list.splits)

lemma sock_close_open: "sock_close s k = (b, s', k') \<Longrightarrow> so_sock s' = - 1 \<and> k_open k' = k_open k - fds [s]"
  by (auto simp: sock_close_def sys_close_def Let_def split: if_splits)

lemma sock_destroy_open: "k_open (sock_destroy s k) = k_open k - fds [s]"
  using sock_close_open [of s k] by (cases "sock_close s k") (simp add: sock_destroy_def)

lemma names_keep:
  "so_sock (snd (getRemoteAddress s k)) = so_sock s" "so_sock (snd (getLocalAddress s k)) = so_sock s"
  by (auto simp: getRemoteAddress_def getLocalAddress_def split: option.splits)

lemma open_sock_open:
  "open_sock s k = (s', k') \<Longrightarrow> so_sock s = - 1 \<Longrightarrow> k_open k' = k_open k \<union> fds [s'] \<and> fds [s'] \<inter> k_open k = {}"
proof -
  assume *: "open_sock s k = (s', k')" "so_sock s = - 1"
  obtain fd k1 where f: "sys_fd k = (fd, k1)"
    by fastforce
  then have "s' = s\<lparr>so_sock := fd\<rparr>" "k' = k1"
    using * by (simp_all add: open_sock_def isValid_def newSock_def)
  then show ?thesis
    using sys_fd_open [OF f] by auto
qed

lemma sock_connect_open:
  assumes "sock_connect addr s k = (r, s', k')" "so_sock s = - 1"
  shows "k_open k' = k_open k \<union> fds [s'] \<and> fds [s'] \<inter> k_open k = {}"
proof -
  obtain s1 k1 where o: "open_sock (s\<lparr>so_remoteAddress := Some addr\<rparr>) k = (s1, k1)"
    by fastforce
  have k1: "k_open k1 = k_open k \<union> fds [s1]" "fds [s1] \<inter> k_open k = {}"
    using open_sock_open [OF o] assms(2) by (simp_all del: fds_simps)
  obtain rt k2 where c: "sys_call k1 = (rt, k2)"
    by fastforce
  obtain b s3 k3 where cl: "sock_close s1 k2 = (b, s3, k3)"
    by (metis prod_cases3)
  have k3: "fds [s3] = {}" "k_open k3 = k_open k"
    using k1 sys_call_open [OF c] sock_close_open [OF cl] fds_closed by auto
  consider "s' = s1" "k' = k1" | "s' = s3" "k' = k3" | "so_sock s' = so_sock s1" "k' = k2"
    using assms(1) o c cl by (auto simp: sock_connect_def Let_def names_keep split: if_splits)
  then show ?thesis
    using k1 k3 sys_call_open [OF c] fds_same [of s' s1] by cases (simp_all del: fds_simps)
qed

lemma unix_in_use_open: "unix_in_use addr k = (used, k') \<Longrightarrow> k_open k' = k_open k"
proof -
  assume *: "unix_in_use addr k = (used, k')"
  obtain r s k1 where c: "sock_connect addr CreateUnixTCPSocket k = (r, s, k1)"
    by (metis prod_cases3)
  have "k_open k1 = k_open k \<union> fds [s]" "fds [s] \<inter> k_open k = {}"
    using sock_connect_open [OF c] by (simp_all add: CreateUnixTCPSocket_def new_Sock_def)
  then have "k_open (sock_destroy s k1) = k_open k"
    unfolding sock_destroy_open by blast
  moreover have "k' = k \<or> k_open k' = k_open (sock_destroy s k1)"
  proof (cases addr)
    case (UnixAddress m n)
    then have "(if r then (True, sock_destroy s k1)
        else (False, case UnixAddress_getPath m n of Some p \<Rightarrow> (sock_destroy s k1)\<lparr>k_unlinked := k_unlinked (sock_destroy s k1) @ [p]\<rparr>
                     | None \<Rightarrow> sock_destroy s k1)) = (used, k')"
      using * c by (simp add: unix_in_use_def Let_def)
    then show ?thesis
      by (cases r; cases "UnixAddress_getPath m n") auto
  qed (use * in \<open>simp_all add: unix_in_use_def\<close>)
  ultimately show ?thesis
    by metis
qed

lemma sock_bind_open:
  assumes "sock_bind addr s k = (r, s', k')" "so_sock s = - 1"
  shows "k_open k' = k_open k \<union> fds [s'] \<and> fds [s'] \<inter> k_open k = {} \<and> (r \<longrightarrow> so_sock s' \<noteq> - 1)"
proof -
  obtain s1 k1 where o: "open_sock (s\<lparr>so_localAddress := Some addr\<rparr>) k = (s1, k1)"
    by fastforce
  have k1: "k_open k1 = k_open k \<union> fds [s1]" "fds [s1] \<inter> k_open k = {}"
    using open_sock_open [OF o] assms(2) by (simp_all del: fds_simps)
  obtain used k2 where u: "unix_in_use addr k1 = (used, k2)"
    by fastforce
  obtain rt k3 where c: "sys_call k2 = (rt, k3)"
    by fastforce
  have "so_sock s' = so_sock s1 \<and> k' \<in> {k1, k2, k3} \<and> (r \<longrightarrow> isValid s1)"
    using assms(1) o u c by (auto simp: sock_bind_def names_keep split: if_splits)
  then show ?thesis
    using k1 unix_in_use_open [OF u] sys_call_open [OF c] fds_same [of s' s1] by (auto simp: isValid_def simp del: fds_simps)
qed

lemma bind_one_open:
  assumes "bind_one addr k = (r, k')"
  shows "case r of None \<Rightarrow> k_open k' = k_open k
    | Some s \<Rightarrow> so_sock s \<noteq> - 1 \<and> so_sock s \<notin> k_open k \<and> k_open k' = insert (so_sock s) (k_open k)"
proof -
  obtain b s k1 where bd: "sock_bind addr (CreateTCP addr) k = (b, s, k1)"
    by (metis prod_cases3)
  have k1: "k_open k1 = k_open k \<union> fds [s]" "fds [s] \<inter> k_open k = {}" "b \<longrightarrow> so_sock s \<noteq> - 1"
    using sock_bind_open [OF bd] by (simp_all add: CreateTCP_def new_Sock_def)
  obtain l k2 where li: "sock_listen s k1 = (l, k2)"
    by fastforce
  have "k_open k2 = k_open k1"
    using li by (auto simp: sock_listen_def dest: sys_call_open split: if_splits prod.splits)
  then show ?thesis
    using assms bd li k1 by (auto simp: bind_one_def sock_destroy_open split: if_splits)
qed

text \<open>The descriptors of the sockets are open, and all different.\<close>

definition socks_ok :: "Sock list \<Rightarrow> kern \<Rightarrow> bool" where
  "socks_ok socks k \<longleftrightarrow> distinct (map so_sock socks) \<and> (\<forall>s\<in>set socks. so_sock s \<noteq> - 1) \<and> fds socks \<subseteq> k_open k"

lemma bind_loop_open:
  assumes "bind_loop addrs fails socks k = (fails', socks', k')" "socks_ok socks k"
  shows "\<exists>new failed. socks' = socks @ new \<and> fails' = fails @ failed \<and> length addrs = length new + length failed \<and>
    set failed \<subseteq> set addrs \<and> socks_ok socks' k' \<and> fds new \<inter> k_open k = {} \<and> k_open k' = k_open k \<union> fds new"
  using assms
proof (induction addrs fails socks k rule: bind_loop.induct)
  case (1 fails socks k)
  then show ?case
    by simp
next
  case (2 addr addrs fails socks k)
  obtain r k1 where b: "bind_one addr k = (r, k1)"
    by fastforce
  show ?case
  proof (cases r)
    case None
    then have "socks_ok socks k1" "k_open k1 = k_open k"
      using bind_one_open [OF b] 2(4) by (auto simp: socks_ok_def)
    then obtain new failed where "socks' = socks @ new" "fails' = (fails @ [addr]) @ failed" "length addrs = length new + length failed"
      "set failed \<subseteq> set addrs" "socks_ok socks' k'" "fds new \<inter> k_open k1 = {}" "k_open k' = k_open k1 \<union> fds new"
      using 2(1) [of None k1] 2(3) b None by auto
    with \<open>k_open k1 = k_open k\<close> show ?thesis
      by (intro exI [of _ new] exI [of _ "addr # failed"]) auto
  next
    case (Some s)
    then have s: "so_sock s \<noteq> - 1" "so_sock s \<notin> k_open k" "k_open k1 = insert (so_sock s) (k_open k)"
      using bind_one_open [OF b] by auto
    have "socks_ok (socks @ [s]) k1"
      using 2(4) s by (auto simp: socks_ok_def fds_def)
    then obtain new failed where "socks' = (socks @ [s]) @ new" "fails' = fails @ failed" "length addrs = length new + length failed"
      "set failed \<subseteq> set addrs" "socks_ok socks' k'" "fds new \<inter> k_open k1 = {}" "k_open k' = k_open k1 \<union> fds new"
      using 2(2) [of "Some s" k1] 2(3) b Some by auto
    with s show ?thesis
      by (intro exI [of _ "s # new"] exI [of _ failed]) auto
  qed
qed

lemma destroy_all_open: "k_open (fold sock_destroy socks k) = k_open k - fds socks"
  by (induction socks arbitrary: k) (auto simp: sock_destroy_open)

lemma close_all_open: "k_open (snd (close_all srv k)) = k_open k - fds (ts_socks srv)"
proof -
  have "(\<lambda>s k. snd (snd (sock_close s k))) = sock_destroy"
    by (simp add: fun_eq_iff sock_destroy_def)
  then show ?thesis
    by (simp add: close_all_def destroy_all_open)
qed

text \<open>
  C23: Binding a server to addresses is all or nothing, and no descriptor is lost. On every behaviour of the kernel the call
  succeeds exactly if no address failed; then the server has one open socket more for each address, in order, and exactly
  these descriptors were opened. Otherwise the server has no sockets, those it had before and those it had just opened are
  closed, and everything else is as it was.
\<close>

theorem server_bind_exact:
  assumes "socks_ok (ts_socks srv) k" "server_bind addrs [] srv k = (ok, fails, srv', k')"
  shows "(ok \<longleftrightarrow> fails = []) \<and> set fails \<subseteq> set addrs \<and>
    (ok \<longrightarrow> (\<exists>new. ts_socks srv' = ts_socks srv @ new \<and> length new = length addrs \<and> socks_ok (ts_socks srv') k' \<and>
       fds new \<inter> k_open k = {} \<and> k_open k' = k_open k \<union> fds new)) \<and>
    (\<not> ok \<longrightarrow> ts_socks srv' = [] \<and> k_open k' = k_open k - fds (ts_socks srv)) \<and>
    k_open (snd (close_all srv' k')) = k_open k - fds (ts_socks srv)"
proof -
  obtain fs socks k1 where loop: "bind_loop addrs [] (ts_socks srv) k = (fs, socks, k1)"
    by (metis prod_cases3)
  obtain new where new: "socks = ts_socks srv @ new" "length addrs = length new + length fs" "set fs \<subseteq> set addrs"
    "socks_ok socks k1" "fds new \<inter> k_open k = {}" "k_open k1 = k_open k \<union> fds new"
    using bind_loop_open [OF loop assms(1)] by auto
  have closed: "k_open k1 - fds socks = k_open k - fds (ts_socks srv)"
    using new(1,5,6) by auto
  show ?thesis
  proof (cases "fs = []")
    case True
    then show ?thesis
      using assms(2) loop new closed by (auto simp: server_bind_def close_all_open)
  next
    case False
    then show ?thesis
      using assms(2) loop new(3) closed by (auto simp: server_bind_def close_all_open destroy_all_open)
  qed
qed

text \<open>A server that is bound to one address by a kernel that opens descriptor 5.\<close>

theorem server_bind_exact_witness:
  "\<exists>ok fails srv k. server_bind [IPv6Address new_IPv6Address] [] (new_TcpServer 10)
       \<lparr>k_open = {3}, k_answers = [5, 0, 0], k_local = Map.empty, k_peer = Map.empty, k_unlinked = []\<rparr> = (ok, fails, srv, k) \<and>
     (ok \<longleftrightarrow> fails = []) \<and> k_open (snd (close_all srv k)) = {3}"
proof -
  let ?k = "\<lparr>k_open = {3}, k_answers = [5, 0, 0], k_local = Map.empty, k_peer = Map.empty, k_unlinked = []\<rparr>"
  obtain ok fails srv k where b: "server_bind [IPv6Address new_IPv6Address] [] (new_TcpServer 10) ?k = (ok, fails, srv, k)"
    by (metis prod_cases4)
  have "socks_ok (ts_socks (new_TcpServer 10)) ?k"
    by (simp add: socks_ok_def new_TcpServer_def)
  from server_bind_exact [OF this b] b show ?thesis
    by (auto simp: new_TcpServer_def)
qed

section \<open>Defects\<close>

text \<open>A descriptor that was accepted stays open when the manager of descriptors does not know it, and nothing refers to it.\<close>

lemma accept_leaks:
  assumes "sys_fd k = (fd, k1)" "fd \<noteq> - 1" "\<not> has_ctx fd"
  shows "sock_accept has_ctx s k = (None, k1) \<and> fd \<in> k_open k1"
  using assms sys_fd_open [OF assms(1)]
  by (auto simp: sock_accept_def sock_init_def sock_destroy_def sock_close_def new_Sock_def)

text \<open>After \<open>bind\<close> the local address is the one given, whatever the kernel bound: port 0 stays 0.\<close>

lemma bind_keeps_address:
  assumes "sock_bind addr s k = (True, s', k')"
  shows "fst (getLocalAddress s' k') = addr"
  using assms
  by (auto simp: sock_bind_def open_sock_def newSock_def getLocalAddress_def split: if_splits prod.splits option.splits)

end
