(* ===== verification/Locks.thy ===== *)
theory Locks
  imports Prelude "HOL-Library.Multiset"
begin

text \<open>
  The locks of \<open>mutex.h\<close> and the guards that hold them for the length of a block, and the semaphore of \<open>mutex.cc\<close>.

  An operation of a lock is called by a thread and is done, has to wait, or has no defined behaviour (a thread gives
  back a lock that it does not hold). Guards are objects on the stack of a thread; the machine at the end runs any number of
  guards of any number of threads on one lock.
\<close>

section \<open>Locks\<close>

type_synonym tid = nat

datatype 'a lock_op = Returns 'a | Blocks | Undefined

text \<open>\<open>pthread_mutex_t\<close> and \<open>pthread_spinlock_t\<close>: the thread that holds the lock.\<close>

definition Mutex_lock :: "tid \<Rightarrow> tid option \<Rightarrow> tid option lock_op" where
  "Mutex_lock t m = (case m of None \<Rightarrow> Returns (Some t) | Some _ \<Rightarrow> Blocks)"

definition Mutex_unlock :: "tid \<Rightarrow> tid option \<Rightarrow> tid option lock_op" where
  "Mutex_unlock t m = (if m = Some t then Returns None else Undefined)"

definition Spinlock_lock :: "tid \<Rightarrow> tid option \<Rightarrow> tid option lock_op" where
  "Spinlock_lock t m = (case m of None \<Rightarrow> Returns (Some t) | Some _ \<Rightarrow> Blocks)"

definition Spinlock_unlock :: "tid \<Rightarrow> tid option \<Rightarrow> tid option lock_op" where
  "Spinlock_unlock t m = (if m = Some t then Returns None else Undefined)"

definition NullMutex_lock :: "tid \<Rightarrow> unit \<Rightarrow> unit lock_op" where
  "NullMutex_lock t m = Returns m"

definition NullMutex_unlock :: "tid \<Rightarrow> unit \<Rightarrow> unit lock_op" where
  "NullMutex_unlock t m = Returns m"

text \<open>
  A \<open>CASLock\<close> is a flag that does not know its holder. A round of the loop of \<open>lock\<close> sets the flag and ends the loop if it was
  clear; if it was set, the round has changed nothing and the loop goes on.
\<close>

definition test_and_set :: "bool \<Rightarrow> bool \<times> bool" where
  "test_and_set flag = (flag, True)"

definition CASLock_lock :: "tid \<Rightarrow> bool \<Rightarrow> bool lock_op" where
  "CASLock_lock t flag = (case test_and_set flag of (was_set, flag') \<Rightarrow> if was_set then Blocks else Returns flag')"

definition CASLock_unlock :: "tid \<Rightarrow> bool \<Rightarrow> bool lock_op" where
  "CASLock_unlock t flag = Returns False"

record rwlock =
  rw_writer :: "tid option"
  rw_readers :: "tid list"

definition RWMutex :: rwlock where
  "RWMutex = \<lparr>rw_writer = None, rw_readers = []\<rparr>"

definition RWMutex_rdlock :: "tid \<Rightarrow> rwlock \<Rightarrow> rwlock lock_op" where
  "RWMutex_rdlock t l = (if rw_writer l = None then Returns (l\<lparr>rw_readers := t # rw_readers l\<rparr>) else Blocks)"

definition RWMutex_wrlock :: "tid \<Rightarrow> rwlock \<Rightarrow> rwlock lock_op" where
  "RWMutex_wrlock t l = (if rw_writer l = None \<and> rw_readers l = [] then Returns (l\<lparr>rw_writer := Some t\<rparr>) else Blocks)"

definition RWMutex_unlock :: "tid \<Rightarrow> rwlock \<Rightarrow> rwlock lock_op" where
  "RWMutex_unlock t l =
     (if rw_writer l = Some t then Returns (l\<lparr>rw_writer := None\<rparr>)
      else if t \<in> set (rw_readers l) then Returns (l\<lparr>rw_readers := remove1 t (rw_readers l)\<rparr>)
      else Undefined)"

section \<open>The semaphore\<close>

datatype sem_error = Logic_error

definition SEM_VALUE_MAX :: nat where
  "SEM_VALUE_MAX = 2147483647"

definition new_Semaphore :: "u32 \<Rightarrow> sem_error + nat" where
  "new_Semaphore n = (if unat n > SEM_VALUE_MAX then Inl Logic_error else Inr (unat n))"

text \<open>A handler of a signal may interrupt the wait; \<open>sem_wait\<close> fails then and is not called again.\<close>

definition Semaphore_wait :: "bool \<Rightarrow> nat \<Rightarrow> (sem_error + nat) lock_op" where
  "Semaphore_wait interrupted n =
     (if n > 0 then Returns (Inr (n - 1)) else if interrupted then Returns (Inl Logic_error) else Blocks)"

definition Semaphore_notify :: "nat \<Rightarrow> sem_error + nat" where
  "Semaphore_notify n = (if n \<ge> SEM_VALUE_MAX then Inl Logic_error else Inr (n + 1))"

section \<open>Guards\<close>

record ScopedLockImpl =
  g_thread :: tid
  m_locked :: bool

fun take_lock :: "ScopedLockImpl \<Rightarrow> 'm lock_op \<Rightarrow> (ScopedLockImpl \<times> 'm) lock_op" where
  "take_lock g (Returns m) = Returns (g, m)"
| "take_lock g Blocks = Blocks"
| "take_lock g Undefined = Undefined"

definition new_ScopedLockImpl :: "(tid \<Rightarrow> 'm \<Rightarrow> 'm lock_op) \<Rightarrow> tid \<Rightarrow> 'm \<Rightarrow> (ScopedLockImpl \<times> 'm) lock_op" where
  "new_ScopedLockImpl lck t m = take_lock \<lparr>g_thread = t, m_locked = True\<rparr> (lck t m)"

definition ScopedLockImpl_lock :: "(tid \<Rightarrow> 'm \<Rightarrow> 'm lock_op) \<Rightarrow> ScopedLockImpl \<Rightarrow> 'm \<Rightarrow> (ScopedLockImpl \<times> 'm) lock_op" where
  "ScopedLockImpl_lock lck g m =
     (if \<not> m_locked g then take_lock (g\<lparr>m_locked := True\<rparr>) (lck (g_thread g) m) else Returns (g, m))"

definition ScopedLockImpl_unlock :: "(tid \<Rightarrow> 'm \<Rightarrow> 'm lock_op) \<Rightarrow> ScopedLockImpl \<Rightarrow> 'm \<Rightarrow> (ScopedLockImpl \<times> 'm) lock_op" where
  "ScopedLockImpl_unlock unl g m =
     (if m_locked g then take_lock (g\<lparr>m_locked := False\<rparr>) (unl (g_thread g) m) else Returns (g, m))"

definition ScopedLockImpl_destroy :: "(tid \<Rightarrow> 'm \<Rightarrow> 'm lock_op) \<Rightarrow> ScopedLockImpl \<Rightarrow> 'm \<Rightarrow> 'm lock_op" where
  "ScopedLockImpl_destroy unl g m =
     (case ScopedLockImpl_unlock unl g m of Returns (g', m') \<Rightarrow> Returns m' | Blocks \<Rightarrow> Blocks | Undefined \<Rightarrow> Undefined)"

text \<open>
  The three templates differ in the function they take the lock with: \<open>lock\<close>, \<open>rdlock\<close> for \<open>ReadScopedLockImpl\<close>, \<open>wrlock\<close> for
  \<open>WriteScopedLockImpl\<close>.
\<close>

datatype guard_kind = Exclusive | Shared

fun RWMutex_take :: "guard_kind \<Rightarrow> tid \<Rightarrow> rwlock \<Rightarrow> rwlock lock_op" where
  "RWMutex_take Shared = RWMutex_rdlock"
| "RWMutex_take Exclusive = RWMutex_wrlock"

section \<open>Guards of several threads on one lock\<close>

type_synonym 'm guards = "'m \<times> (guard_kind \<times> ScopedLockImpl) list"

inductive guard_step :: "(guard_kind \<Rightarrow> tid \<Rightarrow> 'm \<Rightarrow> 'm lock_op) \<Rightarrow> (tid \<Rightarrow> 'm \<Rightarrow> 'm lock_op) \<Rightarrow> 'm guards \<Rightarrow> 'm guards \<Rightarrow> bool"
  for lck unl where
  construct: "new_ScopedLockImpl (lck k) t m = Returns (g, m') \<Longrightarrow> guard_step lck unl (m, gs) (m', (k, g) # gs)"
| lock: "ScopedLockImpl_lock (lck k) g m = Returns (g', m') \<Longrightarrow> guard_step lck unl (m, xs @ (k, g) # ys) (m', xs @ (k, g') # ys)"
| unlock: "ScopedLockImpl_unlock unl g m = Returns (g', m') \<Longrightarrow> guard_step lck unl (m, xs @ (k, g) # ys) (m', xs @ (k, g') # ys)"
| destroy: "ScopedLockImpl_destroy unl g m = Returns m' \<Longrightarrow> guard_step lck unl (m, xs @ (k, g) # ys) (m', xs @ ys)"

abbreviation guard_reach ::
    "(guard_kind \<Rightarrow> tid \<Rightarrow> 'm \<Rightarrow> 'm lock_op) \<Rightarrow> (tid \<Rightarrow> 'm \<Rightarrow> 'm lock_op) \<Rightarrow> 'm \<Rightarrow> 'm \<Rightarrow> (guard_kind \<times> ScopedLockImpl) list \<Rightarrow> bool" where
  "guard_reach lck unl m0 m gs \<equiv> reachable (\<lambda>s. s = (m0, [])) (guard_step lck unl) (m, gs)"

definition locked :: "(guard_kind \<times> ScopedLockImpl) list \<Rightarrow> (guard_kind \<times> ScopedLockImpl) list" where
  "locked gs = filter (\<lambda>(k, g). m_locked g) gs"

definition holders :: "(guard_kind \<times> ScopedLockImpl) list \<Rightarrow> (guard_kind \<times> tid) multiset" where
  "holders gs = mset (map (\<lambda>(k, g). (k, g_thread g)) (locked gs))"

text \<open>No guard runs into undefined behaviour, and each of them can give back what it has.\<close>

definition guards_safe :: "(guard_kind \<Rightarrow> tid \<Rightarrow> 'm \<Rightarrow> 'm lock_op) \<Rightarrow> (tid \<Rightarrow> 'm \<Rightarrow> 'm lock_op) \<Rightarrow> 'm \<Rightarrow> (guard_kind \<times> ScopedLockImpl) list \<Rightarrow> bool" where
  "guards_safe lck unl m gs \<longleftrightarrow>
     (\<forall>(k, g)\<in>set gs. ScopedLockImpl_lock (lck k) g m \<noteq> Undefined \<and> (\<exists>g' m'. ScopedLockImpl_unlock unl g m = Returns (g', m')))"

lemma holders_simps [simp]:
  "holders [] = {#}"
  "holders ((k, g) # gs) = (if m_locked g then {#(k, g_thread g)#} else {#}) + holders gs"
  "holders (xs @ ys) = holders xs + holders ys"
  by (simp_all add: holders_def locked_def)

lemma size_holders: "size (holders gs) = length (locked gs)"
  by (simp add: holders_def)

lemma take_lock_Returns: "take_lock g r = Returns (g', m) \<longleftrightarrow> g' = g \<and> r = Returns m"
  by (cases r) auto

lemma take_lock_Undefined: "take_lock g r = Undefined \<longleftrightarrow> r = Undefined"
  by (cases r) auto

section \<open>The contract of a lock\<close>

text \<open>\<open>rights m H\<close>: the lock may be in state \<open>m\<close> when \<open>H\<close> are the threads that hold it, each in its mode.\<close>

locale lock_contract =
  fixes lck :: "guard_kind \<Rightarrow> tid \<Rightarrow> 'm \<Rightarrow> 'm lock_op" and unl :: "tid \<Rightarrow> 'm \<Rightarrow> 'm lock_op"
    and rights :: "'m \<Rightarrow> (guard_kind \<times> tid) multiset \<Rightarrow> bool" and m0 :: 'm
  assumes free: "rights m {#} \<longleftrightarrow> m = m0"
    and lock_defined: "lck k t m \<noteq> Undefined"
    and lock_rights: "rights m H \<Longrightarrow> lck k t m = Returns m' \<Longrightarrow> rights m' (add_mset (k, t) H)"
    and unlock_rights: "rights m (add_mset (k, t) H) \<Longrightarrow> \<exists>m'. unl t m = Returns m' \<and> rights m' H"
begin

lemma guard_step_rights:
  "guard_step lck unl s s' \<Longrightarrow> rights (fst s) (holders (snd s)) \<Longrightarrow> rights (fst s') (holders (snd s'))"
proof (induction rule: guard_step.induct)
  case (construct k t m g m' gs)
  then show ?case
    using lock_rights by (auto simp: new_ScopedLockImpl_def take_lock_Returns)
next
  case (lock k g m g' m' xs ys)
  then show ?case
    using lock_rights [of m "holders xs + holders ys" k "g_thread g" m']
    by (auto simp: ScopedLockImpl_lock_def take_lock_Returns split: if_splits)
next
  case (unlock g m g' m' xs k ys)
  then show ?case
    using unlock_rights [of m k "g_thread g" "holders xs + holders ys"]
    by (auto simp: ScopedLockImpl_unlock_def take_lock_Returns split: if_splits)
next
  case (destroy g m m' xs k ys)
  then show ?case
    using unlock_rights [of m k "g_thread g" "holders xs + holders ys"]
    by (auto simp: ScopedLockImpl_destroy_def ScopedLockImpl_unlock_def take_lock_Returns split: if_splits lock_op.splits)
qed

end

sublocale lock_contract \<subseteq> guards: step_invariant "\<lambda>s. s = (m0, [])" "guard_step lck unl" "\<lambda>s. rights (fst s) (holders (snd s))"
  by unfold_locales (auto simp: free intro: guard_step_rights)

context lock_contract
begin

lemma reach_rights: "guard_reach lck unl m0 m gs \<Longrightarrow> rights m (holders gs)"
  using guards.reachable_inv by fastforce

lemma reach_safe:
  assumes "guard_reach lck unl m0 m gs"
  shows "guards_safe lck unl m gs"
  unfolding guards_safe_def
proof clarify
  fix k g
  assume "(k, g) \<in> set gs"
  then obtain xs ys where gs: "gs = xs @ (k, g) # ys"
    by (meson split_list)
  have "ScopedLockImpl_lock (lck k) g m \<noteq> Undefined"
    by (simp add: ScopedLockImpl_lock_def take_lock_Undefined lock_defined)
  moreover have "\<exists>g' m'. ScopedLockImpl_unlock unl g m = Returns (g', m')"
    using reach_rights [OF assms] unlock_rights [of m k "g_thread g" "holders xs + holders ys"] gs
    by (auto simp: ScopedLockImpl_unlock_def take_lock_Returns)
  ultimately show "ScopedLockImpl_lock (lck k) g m \<noteq> Undefined \<and> (\<exists>g' m'. ScopedLockImpl_unlock unl g m = Returns (g', m'))"
    by blast
qed

lemma reach_free: "guard_reach lck unl m0 m gs \<Longrightarrow> locked gs = [] \<Longrightarrow> m = m0"
  using reach_rights [of m gs] free by (simp add: holders_def)

end

locale exclusive_lock = lock_contract lck unl rights m0
  for lck :: "guard_kind \<Rightarrow> tid \<Rightarrow> 'm \<Rightarrow> 'm lock_op" and unl rights m0 +
  fixes excl :: "guard_kind \<Rightarrow> bool"
  assumes alone: "rights m H \<Longrightarrow> (k, t) \<in># H \<Longrightarrow> excl k \<Longrightarrow> size H = 1"
begin

lemma reach_alone:
  assumes "guard_reach lck unl m0 m gs" "(k, g) \<in> set (locked gs)" "excl k"
  shows "locked gs = [(k, g)]"
proof -
  have "(k, g_thread g) \<in># holders gs"
    using assms(2) by (force simp: holders_def)
  then have "length (locked gs) = 1"
    using alone [OF reach_rights [OF assms(1)]] assms(3) by (simp add: size_holders)
  with assms(2) show ?thesis
    by (cases "locked gs") auto
qed

end

section \<open>The locks keep the contract\<close>

fun held_by :: "tid option \<Rightarrow> (guard_kind \<times> tid) multiset \<Rightarrow> bool" where
  "held_by None H \<longleftrightarrow> H = {#}"
| "held_by (Some t) H \<longleftrightarrow> (\<exists>k. H = {#(k, t)#})"

lemma held_by_single: "held_by m (add_mset (k, t) H) \<longleftrightarrow> m = Some t \<and> H = {#}"
  by (cases m) auto

interpretation mutex_guards: exclusive_lock "\<lambda>_. Mutex_lock" Mutex_unlock held_by None "\<lambda>_. True"
proof unfold_locales
  show "held_by m {#} \<longleftrightarrow> m = None" for m
    by (cases m) auto
  show "held_by m H \<Longrightarrow> (k, t) \<in># H \<Longrightarrow> size H = 1" for m H k t
    by (cases m) auto
qed (auto simp: Mutex_lock_def Mutex_unlock_def held_by_single split: option.splits)

interpretation spin_guards: exclusive_lock "\<lambda>_. Spinlock_lock" Spinlock_unlock held_by None "\<lambda>_. True"
  using mutex_guards.exclusive_lock_axioms
  unfolding Spinlock_lock_def [abs_def] Spinlock_unlock_def [abs_def] Mutex_lock_def [abs_def] Mutex_unlock_def [abs_def] .

interpretation cas_guards: exclusive_lock "\<lambda>_. CASLock_lock" CASLock_unlock "\<lambda>flag H. size H = of_bool flag" False "\<lambda>_. True"
  by unfold_locales (auto simp: CASLock_lock_def CASLock_unlock_def test_and_set_def of_bool_def split: if_splits)

interpretation null_guards: lock_contract "\<lambda>_. NullMutex_lock" NullMutex_unlock "\<lambda>_ _. True" "()"
  by unfold_locales (auto simp: NullMutex_lock_def NullMutex_unlock_def)

definition rw_rights :: "rwlock \<Rightarrow> (guard_kind \<times> tid) multiset \<Rightarrow> bool" where
  "rw_rights l H \<longleftrightarrow>
     (case rw_writer l of
        Some t \<Rightarrow> rw_readers l = [] \<and> H = {#(Exclusive, t)#}
      | None \<Rightarrow> H = image_mset (Pair Shared) (mset (rw_readers l)))"

lemma rw_unlock_rights:
  assumes "rw_rights l (add_mset (k, t) H)"
  shows "\<exists>l'. RWMutex_unlock t l = Returns l' \<and> rw_rights l' H"
proof (cases "rw_writer l")
  case None
  then have e: "add_mset (k, t) H = image_mset (Pair Shared) (mset (rw_readers l))"
    using assms by (simp add: rw_rights_def)
  then have "(k, t) \<in># image_mset (Pair Shared) (mset (rw_readers l))"
    by (metis union_single_eq_member)
  then have k: "k = Shared" "t \<in> set (rw_readers l)"
    by auto
  have "H = image_mset (Pair Shared) (mset (rw_readers l)) - {#(Shared, t)#}"
    using e k(1) by (metis add_mset_remove_trivial)
  also have "\<dots> = image_mset (Pair Shared) (mset (remove1 t (rw_readers l)))"
    using k(2) by (simp add: image_mset_Diff)
  finally show ?thesis
    using None k(2) by (simp add: RWMutex_unlock_def rw_rights_def)
next
  case (Some w)
  then show ?thesis
    using assms by (auto simp: RWMutex_unlock_def rw_rights_def)
qed

interpretation rw_guards: exclusive_lock RWMutex_take RWMutex_unlock rw_rights RWMutex "\<lambda>k. k = Exclusive"
proof unfold_locales
  show "rw_rights l {#} \<longleftrightarrow> l = RWMutex" for l
    by (cases l) (auto simp: rw_rights_def RWMutex_def split: option.splits)
  show "RWMutex_take k t l \<noteq> Undefined" for k t l
    by (cases k) (simp_all add: RWMutex_rdlock_def RWMutex_wrlock_def)
  show "rw_rights l' (add_mset (k, t) H)" if "rw_rights l H" "RWMutex_take k t l = Returns l'" for l l' H k t
    using that by (cases k) (auto simp: rw_rights_def RWMutex_rdlock_def RWMutex_wrlock_def split: if_splits)
  show "\<exists>l'. RWMutex_unlock t l = Returns l' \<and> rw_rights l' H" if "rw_rights l (add_mset (k, t) H)" for l k t H
    using rw_unlock_rights [OF that] .
  show "size H = 1" if "rw_rights l H" "(k, t) \<in># H" "k = Exclusive" for l H k t
    using that by (auto simp: rw_rights_def split: option.splits)
qed

section \<open>Properties\<close>



end
