(* ===== verification/Threads.thy ===== *)
theory Threads
  imports Locks
begin

text \<open>
  \<open>thread.cc\<close>: the object of a thread, its constructor, which waits until the new thread has told its identifier, and the function
  that the new thread runs.

  The object is shared by the thread that constructs it and the new one. The machine takes their statements in any
  order; it knows whether the object is still there and records every access of the new thread to an object that is gone. A signal may
  interrupt the constructor while it waits, if the program has handlers (the parameter \<open>signals\<close>).
\<close>

section \<open>The object and the thread-local variables\<close>

record 'c Thread =
  m_id :: int
  m_thread :: bool
  m_cb :: "'c option"
  m_name :: string
  m_semaphore :: nat

datatype creator = Creating | Waiting | Constructed | Threw
datatype runner = Not_started | Entered | Named | Swapped | Running | Ended

record 'c threads =
  object :: "'c Thread option"
  creator :: creator
  runner :: runner
  t_thread :: bool
  t_thread_name :: string
  calls :: "'c list"
  local_cb :: "'c option"
  run_dangling :: bool
  SetName_dangling :: bool

definition UNKNOW :: string where
  "UNKNOW = ''UNKNOW''"

definition new_thread_object :: "'c \<Rightarrow> string \<Rightarrow> 'c Thread" where
  "new_thread_object cb name =
     \<lparr>m_id = - 1, m_thread = False, m_cb = Some cb, m_name = (if name = [] then UNKNOW else name), m_semaphore = 0\<rparr>"

definition threads_start :: "'c \<Rightarrow> string \<Rightarrow> 'c threads" where
  "threads_start cb name =
     \<lparr>object = Some (new_thread_object cb name), creator = Creating, runner = Not_started, t_thread = False, t_thread_name = UNKNOW,
      calls = [], local_cb = None, run_dangling = False, SetName_dangling = False\<rparr>"

section \<open>The constructor\<close>

text \<open>\<open>pthread_create\<close>; if it fails the constructor throws, and the object is gone.\<close>

definition construct_create :: "bool \<Rightarrow> 'c threads \<Rightarrow> 'c threads" where
  "construct_create ok s =
     (if ok then s\<lparr>object := map_option (m_thread_update (\<lambda>_. True)) (object s), creator := Waiting, runner := Entered\<rparr>
      else s\<lparr>object := None, creator := Threw\<rparr>)"

text \<open>\<open>m_semaphore.wait()\<close>, which throws if it is interrupted; \<open>None\<close> while it waits.\<close>

definition construct_wait :: "bool \<Rightarrow> 'c threads \<Rightarrow> 'c threads option" where
  "construct_wait interrupted s =
     (case object s of
        None \<Rightarrow> None
      | Some th \<Rightarrow>
          (case Semaphore_wait interrupted (m_semaphore th) of
             Returns (Inr n) \<Rightarrow> Some (s\<lparr>object := Some (th\<lparr>m_semaphore := n\<rparr>), creator := Constructed\<rparr>)
           | Returns (Inl e) \<Rightarrow> Some (s\<lparr>object := None, creator := Threw\<rparr>)
           | _ \<Rightarrow> None))"

section \<open>The new thread\<close>

definition run_access :: "('c Thread \<Rightarrow> 'c threads \<Rightarrow> 'c threads) \<Rightarrow> 'c threads \<Rightarrow> 'c threads" where
  "run_access f s = (case object s of None \<Rightarrow> s\<lparr>run_dangling := True\<rparr> | Some th \<Rightarrow> f th s)"

definition run_enter :: "int \<Rightarrow> 'c threads \<Rightarrow> 'c threads" where
  "run_enter tid = run_access (\<lambda>th s.
     s\<lparr>t_thread := True, t_thread_name := m_name th, object := Some (th\<lparr>m_id := tid\<rparr>), runner := Named\<rparr>)"

definition run_swap :: "'c threads \<Rightarrow> 'c threads" where
  "run_swap = run_access (\<lambda>th s. s\<lparr>local_cb := m_cb th, object := Some (th\<lparr>m_cb := None\<rparr>), runner := Swapped\<rparr>)"

text \<open>\<open>notify\<close> cannot throw here: the semaphore starts with 0 and is notified once.\<close>

definition run_notify :: "'c threads \<Rightarrow> 'c threads" where
  "run_notify = run_access (\<lambda>th s.
     (case Semaphore_notify (m_semaphore th) of
        Inr n \<Rightarrow> s\<lparr>object := Some (th\<lparr>m_semaphore := n\<rparr>), runner := Running\<rparr>
      | Inl e \<Rightarrow> s\<lparr>runner := Ended\<rparr>))"

definition run_call :: "'c threads \<Rightarrow> 'c threads" where
  "run_call s = s\<lparr>calls := (case local_cb s of None \<Rightarrow> calls s | Some c \<Rightarrow> calls s @ [c]), runner := Ended\<rparr>"

definition SetName :: "string \<Rightarrow> 'c threads \<Rightarrow> 'c threads" where
  "SetName name s =
     (if name = [] then s
      else
        let s' = (if t_thread s
                  then (case object s of
                          None \<Rightarrow> s\<lparr>SetName_dangling := True\<rparr>
                        | Some th \<Rightarrow> s\<lparr>object := Some (th\<lparr>m_name := name\<rparr>)\<rparr>)
                  else s)
        in s'\<lparr>t_thread_name := name\<rparr>)"

section \<open>Joining and the destructor\<close>

text \<open>\<open>pthread_join\<close> returns when the thread has ended; a second \<open>join\<close> does nothing.\<close>

definition join :: "'c threads \<Rightarrow> 'c threads option" where
  "join s =
     (case object s of
        None \<Rightarrow> None
      | Some th \<Rightarrow>
          if m_thread th
          then (if runner s = Ended then Some (s\<lparr>object := Some (th\<lparr>m_thread := False\<rparr>)\<rparr>) else None)
          else Some s)"

definition destroy_thread :: "'c threads \<Rightarrow> 'c threads" where
  "destroy_thread s = s\<lparr>object := None\<rparr>"

section \<open>The interleavings\<close>

inductive thread_step :: "bool \<Rightarrow> int \<Rightarrow> 'c threads \<Rightarrow> 'c threads \<Rightarrow> bool" for signals tid where
  create: "creator s = Creating \<Longrightarrow> thread_step signals tid s (construct_create ok s)"
| wait: "creator s = Waiting \<Longrightarrow> interrupted \<longrightarrow> signals \<Longrightarrow> construct_wait interrupted s = Some s' \<Longrightarrow> thread_step signals tid s s'"
| enter: "runner s = Entered \<Longrightarrow> thread_step signals tid s (run_enter tid s)"
| swap: "runner s = Named \<Longrightarrow> thread_step signals tid s (run_swap s)"
| notify: "runner s = Swapped \<Longrightarrow> thread_step signals tid s (run_notify s)"
| set_name: "runner s = Running \<Longrightarrow> thread_step signals tid s (SetName name s)"
| call: "runner s = Running \<Longrightarrow> thread_step signals tid s (run_call s)"
| join: "creator s = Constructed \<Longrightarrow> join s = Some s' \<Longrightarrow> thread_step signals tid s s'"
| destroy: "creator s = Constructed \<Longrightarrow> thread_step signals tid s (destroy_thread s)"

lemmas thread_defs = construct_create_def construct_wait_def run_access_def run_enter_def run_swap_def run_notify_def run_call_def
  SetName_def join_def destroy_thread_def Semaphore_wait_def Semaphore_notify_def SEM_VALUE_MAX_def

abbreviation thread_reach :: "bool \<Rightarrow> int \<Rightarrow> 'c \<Rightarrow> string \<Rightarrow> 'c threads \<Rightarrow> bool" where
  "thread_reach signals tid cb name \<equiv> reachable (\<lambda>s. s = threads_start cb name) (thread_step signals tid)"

section \<open>The handshake\<close>

fun started :: "int \<Rightarrow> 'c \<Rightarrow> runner \<Rightarrow> 'c Thread \<Rightarrow> 'c option \<Rightarrow> bool" where
  "started tid cb Not_started th c \<longleftrightarrow> m_semaphore th = 0 \<and> m_cb th = Some cb"
| "started tid cb Entered th c \<longleftrightarrow> m_semaphore th = 0 \<and> m_cb th = Some cb"
| "started tid cb Named th c \<longleftrightarrow> m_semaphore th = 0 \<and> m_cb th = Some cb \<and> m_id th = tid"
| "started tid cb Swapped th c \<longleftrightarrow> m_semaphore th = 0 \<and> m_cb th = None \<and> m_id th = tid \<and> c = Some cb"
| "started tid cb _ th c \<longleftrightarrow> m_cb th = None \<and> m_id th = tid \<and> c = Some cb"

definition thread_inv :: "int \<Rightarrow> 'c \<Rightarrow> 'c threads \<Rightarrow> bool" where
  "thread_inv tid cb s \<longleftrightarrow> \<not> run_dangling s \<and>
     (case object s of None \<Rightarrow> creator s = Threw \<and> runner s = Not_started \<or> creator s = Constructed \<and> runner s \<in> {Running, Ended}
      | Some th \<Rightarrow> started tid cb (runner s) th (local_cb s) \<and>
          (creator s = Creating \<and> runner s = Not_started \<or> creator s = Waiting \<and> runner s \<noteq> Not_started \<or>
           creator s = Constructed \<and> runner s \<in> {Running, Ended})) \<and>
     (runner s \<in> {Running, Ended} \<longrightarrow> local_cb s = Some cb) \<and> calls s = (if runner s = Ended then [cb] else [])"

lemma started_keeps [simp]: "started tid cb r (th\<lparr>m_thread := v\<rparr>) c = started tid cb r th c"
  "started tid cb r (th\<lparr>m_name := n\<rparr>) c = started tid cb r th c"
  by (cases r; simp)+

lemma thread_inv_step:
  assumes "thread_step False tid s s'" and "thread_inv tid cb s"
  shows "thread_inv tid cb s'"
  using assms
proof (induction rule: thread_step.induct)
  case (wait s interrupted s')
  then show ?case
    by (cases "runner s") (auto simp: thread_defs thread_inv_def split: option.splits if_splits)
next
  case (create s ok)
  then show ?case
    by (auto simp: thread_defs thread_inv_def split: option.splits)
qed (auto simp: thread_defs thread_inv_def Let_def split: option.splits if_splits)

interpretation thread_machine: step_invariant "\<lambda>s. s = threads_start cb name" "thread_step False tid" "thread_inv tid cb" for cb name tid
proof unfold_locales
  show "thread_inv tid cb s" if "s = threads_start cb name" for s
    using that by (simp add: threads_start_def new_thread_object_def thread_inv_def)
qed (rule thread_inv_step)

text \<open>
  The constructor and the new thread, in every interleaving without signals: when the constructor has returned, the object has the
  identifier of the thread and the thread has taken its function, so that \<open>run\<close> never touches an object that is gone,
  even if the object is destroyed at once; and the function is called exactly once.
\<close>

theorem thread_handshake:
  assumes "thread_reach False tid cb name s"
  shows "\<not> run_dangling s \<and>
    (creator s = Constructed \<longrightarrow> (\<forall>th. object s = Some th \<longrightarrow> m_id th = tid \<and> m_cb th = None) \<and> local_cb s = Some cb) \<and>
    calls s = (if runner s = Ended then [cb] else [])"
  using thread_machine.reachable_inv [OF assms] by (auto simp: thread_inv_def split: option.splits)

text \<open>A signal that interrupts the wait makes the constructor throw, and the new thread then writes to an object that is gone.\<close>

lemma thread_interrupted: "\<exists>s. thread_reach True tid cb name s \<and> run_dangling s"
proof -
  let ?s0 = "threads_start cb name"
  let ?s1 = "construct_create True ?s0"
  let ?s2 = "?s1\<lparr>object := None, creator := Threw\<rparr>"
  have "thread_reach True tid cb name ?s1"
    by (rule reachable_step [OF reachable_init], simp, rule thread_step.create) (simp add: threads_start_def)
  then have "thread_reach True tid cb name ?s2"
    by (rule reachable_step, intro thread_step.wait [where interrupted = True])
      (simp_all add: thread_defs threads_start_def new_thread_object_def)
  then have "thread_reach True tid cb name (run_enter tid ?s2)"
    by (rule reachable_step, intro thread_step.enter) (simp add: thread_defs)
  then show ?thesis
    by (intro exI [of _ "run_enter tid ?s2"]) (simp add: thread_defs)
qed

text \<open>\<open>SetName\<close> in the function of a thread whose object is gone writes to that object, as \<open>t_thread\<close> is never reset.\<close>

lemma SetName_after_destroy:
  assumes "t_thread s" "name \<noteq> []"
  shows "SetName_dangling (SetName name (destroy_thread s))"
  using assms by (simp add: thread_defs)

end
