(* ===== verification/Daemon.thy ===== *)
theory Daemon
  imports Prelude
begin

text \<open>
  \<open>daemon.cc\<close>: a parent process that forks the program, waits for it and starts it again when it has crashed.

  The script says what each round of the loop meets: the answer of \<open>fork\<close>, and for the parent what \<open>waitpid\<close> stores, or that it
  fails and stores nothing. Both processes go on from \<open>fork\<close>; a script ends in the one or the other. \<open>None\<close> means that the
  script is used up and the parent still supervises. \<open>Time2Str\<close> is a parameter.
\<close>

record ProcessInfo =
  parent_id :: int
  main_id :: int
  parent_start_time :: u64
  main_start_time :: u64
  restart_count :: u32

definition new_ProcessInfo :: ProcessInfo where
  "new_ProcessInfo = \<lparr>parent_id = 0, main_id = 0, parent_start_time = 0, main_start_time = 0, restart_count = 0\<rparr>"

text \<open>Process identifiers are not negative.\<close>

definition ProcessInfo_toString :: "(u64 \<Rightarrow> string) \<Rightarrow> ProcessInfo \<Rightarrow> string" where
  "ProcessInfo_toString Time2Str I =
     ''[ProcessInfo parent_id='' @ dec_str (nat (parent_id I)) @ '' main_id='' @ dec_str (nat (main_id I)) @
     '' parent_start_time='' @ Time2Str (parent_start_time I) @ '' main_start_time='' @ Time2Str (main_start_time I) @
     '' restart_count='' @ dec_str (unat (restart_count I)) @ '']''"

datatype fork_round = Child int u64 | Fork_failed | Parent "int option"

datatype exit = Main_returned int | Supervisor_returned int

definition real_start :: "(string list \<Rightarrow> int) \<Rightarrow> string list \<Rightarrow> int" where
  "real_start main_cb argv = main_cb argv"

definition wait_status :: "int option \<Rightarrow> int" where
  "wait_status w = (case w of None \<Rightarrow> 0 | Some status \<Rightarrow> status)"

fun daemon_loop :: "(string list \<Rightarrow> int) \<Rightarrow> string list \<Rightarrow> fork_round list \<Rightarrow> ProcessInfo \<Rightarrow> (exit \<times> ProcessInfo) option" where
  "daemon_loop main_cb argv [] I = None"
| "daemon_loop main_cb argv (Child pid now # rs) I =
     Some (Main_returned (real_start main_cb argv), I\<lparr>main_id := pid, main_start_time := now\<rparr>)"
| "daemon_loop main_cb argv (Fork_failed # rs) I = Some (Supervisor_returned (- 1), I)"
| "daemon_loop main_cb argv (Parent w # rs) I =
     (if wait_status w \<noteq> 0 then daemon_loop main_cb argv rs (I\<lparr>restart_count := restart_count I + 1\<rparr>)
      else Some (Supervisor_returned 0, I))"

definition real_daemon :: "(string list \<Rightarrow> int) \<Rightarrow> string list \<Rightarrow> int \<Rightarrow> u64 \<Rightarrow> fork_round list \<Rightarrow> ProcessInfo \<Rightarrow> (exit \<times> ProcessInfo) option" where
  "real_daemon main_cb argv pid now rs I =
     daemon_loop main_cb argv rs (I\<lparr>parent_id := pid, parent_start_time := now\<rparr>)"

definition start_daemon :: "(string list \<Rightarrow> int) \<Rightarrow> string list \<Rightarrow> bool \<Rightarrow> int \<Rightarrow> u64 \<Rightarrow> fork_round list \<Rightarrow> ProcessInfo \<Rightarrow> (exit \<times> ProcessInfo) option" where
  "start_daemon main_cb argv is_daemon pid now rs I =
     (if \<not> is_daemon then Some (Main_returned (real_start main_cb argv), I) else real_daemon main_cb argv pid now rs I)"

lemma daemon_crashes:
  assumes "\<forall>w\<in>set crashes. wait_status w \<noteq> 0"
  shows "daemon_loop main_cb argv (map Parent crashes @ rs) I =
    daemon_loop main_cb argv rs (I\<lparr>restart_count := restart_count I + of_nat (length crashes)\<rparr>)"
  using assms by (induction crashes arbitrary: I) (simp_all add: ac_simps)

text \<open>
  The supervisor restarts the program as long as it crashes and no longer: after any number of crashes it still supervises; the
  process forked next runs the program once, with the number of crashes (modulo \<open>2 ^ 32\<close>) as its \<open>restart_count\<close>; and the parent
  returns just when a child ends with status 0 or \<open>fork\<close> fails.
\<close>

theorem daemon_supervises:
  assumes "\<forall>w\<in>set crashes. wait_status w \<noteq> 0"
  shows "start_daemon main_cb argv True pid now (map Parent crashes) new_ProcessInfo = None"
    "\<exists>I. start_daemon main_cb argv True pid now (map Parent crashes @ Child cpid cnow # rs) new_ProcessInfo =
       Some (Main_returned (main_cb argv), I) \<and> unat (restart_count I) = length crashes mod 2 ^ 32 \<and> parent_id I = pid \<and> main_id I = cpid"
    "\<exists>I. start_daemon main_cb argv True pid now (map Parent crashes @ Parent (Some 0) # rs) new_ProcessInfo =
       Some (Supervisor_returned 0, I)"
    "\<exists>I. start_daemon main_cb argv True pid now (map Parent crashes @ Fork_failed # rs) new_ProcessInfo =
       Some (Supervisor_returned (- 1), I)"
  using daemon_crashes [OF assms, of main_cb argv "[]"] daemon_crashes [OF assms, of main_cb argv]
  by (auto simp: start_daemon_def real_daemon_def real_start_def wait_status_def new_ProcessInfo_def unat_of_nat)

text \<open>A \<open>waitpid\<close> that is interrupted stores no status; the parent takes the child for finished and stops supervising it.\<close>

lemma daemon_wait_interrupted: "daemon_loop main_cb argv (Parent None # rs) I = Some (Supervisor_returned 0, I)"
  by (simp add: wait_status_def)

end
