(* ===== verification/Spec2Isabelle.thy ===== *)
theory Spec2Isabelle
  imports Http_Server Http_Client Byte_Codec Buffer_Streams Logging Hooks Configuration Tcp_Server Threads Daemon
begin

text \<open>
  A verification development for sylar, a C++ server framework: a coroutine scheduler with an I/O manager and timers,
  hooks that make blocking system calls switch coroutines, byte buffers, sockets and addresses, and on top of them
  an HTTP server and client around the C library \<^verbatim>\<open>http_parser\<close>. All sources are under
  \<^verbatim>\<open>src/sylar-from-scratch/sylar/\<close>; the file names below are relative to it.

  \<^bold>\<open>How the program fits together.\<close>
  \<^item> \<^verbatim>\<open>http/http-parser/http_parser.c\<close> is a byte-driven state machine with callbacks. \<^verbatim>\<open>http/http_parser.cc\<close> runs it
    with callbacks that fill the message objects of \<^verbatim>\<open>http/http.cc\<close>; \<^verbatim>\<open>http/http_session.cc\<close> and
    \<^verbatim>\<open>http/http_connection.cc\<close> feed it from a socket stream. \<^verbatim>\<open>http/http_server.cc\<close> serves a connection with the
    servlets of \<^verbatim>\<open>http/servlet.cc\<close>; the client and its pool of connections use \<^verbatim>\<open>uri.cc\<close> and \<^verbatim>\<open>address.cc\<close>.
  \<^item> \<^verbatim>\<open>scheduler.cc\<close> runs the fibers of \<^verbatim>\<open>fiber.cc\<close> on several threads. \<^verbatim>\<open>iomanager.cc\<close> extends it with events of
    descriptors and with the timers of \<^verbatim>\<open>timer.cc\<close>. \<^verbatim>\<open>hook.cc\<close> replaces the blocking calls: it keeps every
    socket in non-blocking mode (\<^verbatim>\<open>fd_manager.cc\<close>), registers an event and a timer, and yields.
  \<^item> \<^verbatim>\<open>bytearray.cc\<close>, \<^verbatim>\<open>endian.h\<close>, \<^verbatim>\<open>util.cpp\<close> and \<^verbatim>\<open>log.cpp\<close> are used by all of these.

  \<^bold>\<open>Theories.\<close> Each opens with its own account of the modelling; a state is a record with the members of the class, an
  operation a function from the old state to a result and the new one.
  \<^descr> \<open>Prelude\<close>, \<open>Std_Map\<close>: machine integers, characters, reachability and the locale \<open>step_invariant\<close>; the ordered
    containers of the standard library under the locale \<open>std_compare\<close>.
  \<^descr> \<open>Http_Enums\<close>, \<open>Http_Chars\<close>, \<open>Http_Exec\<close>: enumerations and tables of the C parser, its character classes, and
    \<open>http_parser_execute\<close> with one definition for each case of its switch and each of its control macros. The contract of
    callbacks is the locale \<open>http_callbacks\<close> of \<open>Http_Inv\<close>; \<open>Http_Safety\<close> proves that for every table of callbacks under
    this contract the parser returns, keeps its invariant, frames a body in one way only and bounds the bytes of headers.
    \<open>Http_Message\<close> and \<open>Http_Headers\<close> give the functional behaviour: methods, chunk sizes, content lengths, bodies, and the
    recognition of header names.
  \<^descr> \<open>Http_Url\<close>, \<open>Http_Url_Spec\<close>, \<open>Uri\<close>: the URL parser with its 16-bit table of fields, its safety, and the round trip of a URI
    through \<open>toString\<close> and \<open>Create\<close>.
  \<^descr> \<open>Util\<close>, \<open>Http_Objects\<close>: string functions (URL encoding and its round trip), \<open>HttpRequest\<close> and \<open>HttpResponse\<close> with their
    case-insensitive maps and lazily parsed parameters.
  \<^descr> \<open>Streams\<close>, \<open>Http_Parsers\<close>, \<open>Http_Server\<close>, \<open>Http_Client\<close>: sockets over a scripted network (every sequence of segments,
    partial writes and failures), the parser objects, sessions and connections, the dispatch to servlets, the loop of
    the server, and the client with its pool.
  \<^descr> \<open>Addresses\<close>: addresses as structures and as bytes in memory, their order, text, look-ups and network arithmetic.
  \<^descr> \<open>Tcp_Server\<close>: the life of sockets over the table of open descriptors, and the server that binds, accepts and stops.
  \<^descr> \<open>Timers\<close>, \<open>Scheduling\<close>, \<open>Io_Manager\<close>, \<open>Fd_Manager\<close>, \<open>Hooks\<close>: the concurrent part, as transition systems whose steps are
    the pieces of the code between locks, context switches and system calls; a property of the reachable states therefore
    holds for every interleaving.
  \<^descr> \<open>Byte_Array\<close>, \<open>Byte_Codec\<close>: the block buffer as a refinement of a flat sequence of bytes, and the typed values
    under the locale \<open>codec\<close>.
  \<^descr> \<open>Buffer_Streams\<close>: sockets that read and write a byte array through vectors of buffers in its blocks.
  \<^descr> \<open>Locks\<close>, \<open>Threads\<close>, \<open>Daemon\<close>: the locks and their guards under the locales \<open>lock_contract\<close> and \<open>exclusive_lock\<close>, the
    handshake of a new thread with the constructor of its object, and the process that restarts a crashed program.
  \<^descr> \<open>Configuration\<close>: the variables of the configuration with their listeners, loading them from YAML, and the arguments of
    the process.
  \<^descr> \<open>Logging\<close>: levels, the pattern compiler, appenders over a scripted output stream, loggers and the listener of the
    configuration.

  \<^bold>\<open>Interfaces.\<close> \<open>step_invariant\<close> is interpreted by every transition system (\<open>array_machine\<close>, \<open>timer_machine\<close>, \<open>sched_acct\<close>,
  \<open>sched_fiber\<close>, \<open>io_machine\<close>, \<open>fd_machine\<close>, \<open>io_call\<close>, \<open>pool_machine\<close>, \<open>thread_machine\<close>, and the guards of every lock); \<open>http_callbacks\<close> by the empty table and by the callbacks of the
  request and the response parser; \<open>std_compare\<close> by the order of header names, of timers and of addresses; \<open>codec\<close> and its
  extension \<open>length_codec\<close> by each of the encodings of \<open>ByteArray\<close>; \<open>lock_contract\<close> by the classes of locks, and its extension
  \<open>exclusive_lock\<close> by those that exclude.

  \<^bold>\<open>What is shown.\<close> For the parser: termination, absence of failed assertions, bounds, unambiguous framing, and what is read
  for each part of a message. For the streams and sessions: they return on every behaviour of the network, and the pieces
  in which bytes arrive make no difference. For the scheduler: no task is lost or run twice, its assertions hold, and a
  stopped scheduler ends. For the I/O manager: the interest list of the kernel, the contexts and the counter of pending events
  agree, and it refines a set of registrations. For locks and threads: guards exclude each other, and a new
  thread does not use its object after the constructor has returned, unless it calls \<open>SetName\<close>. For the hooks: sockets stay non-blocking below and look blocking
  above, and a call returns the answer of the kernel or a time-out. For addresses, look-ups, the client and its
  pool: exact results and the accounting of connections, up to the path from the text of a URL to the bytes on the
  wire, which is shown here. For the containers and codecs: refinement of a flat
  buffer, also while a socket fills or drains its blocks, and round trips. Some theorems describe defects instead: a report of an event that was removed aborts the
  manager, and a fiber that is scheduled before it has yielded is run while it is running.

  \<^bold>\<open>Loops and bounds.\<close> There is no fuel. Loops that are not structural are \<open>function\<close> with a termination measure, or, where the code
  may loop for ever as such (\<open>exec_loop\<close> of the parser, the loops that receive and serve messages), \<open>partial_function\<close>
  with a theorem that they return. Integers keep their width wherever they can wrap: the fields of URLs (16 bits), header sizes,
  content lengths, event masks, timeouts, addresses, counters. Sizes of memory are natural numbers.

  \<^bold>\<open>Parameters.\<close> What is not in the sources is an argument: the resolver, \<open>inet_pton\<close>, the list of interfaces, \<open>fnmatch\<close>,
  \<open>strftime\<close>, \<open>lexical_cast\<close>, the clock, the answers of the kernel and the network, the contents of fresh memory, the byte order.

  \<^bold>\<open>Not modelled.\<close> The models of the other components take a locked region as one step; theory \<open>Locks\<close> shows that
  guards keep such regions apart, but the two levels are not composed. The remaining functions of \<^verbatim>\<open>socket.cc\<close> (options, datagrams) and of
  \<^verbatim>\<open>util.cpp\<close> (files, clock, back traces) pass their arguments to system calls. Of \<^verbatim>\<open>log.cpp\<close> and
  \<^verbatim>\<open>config.h\<close> the conversions through the YAML library, which is not among the sources, are left out or are
  parameters. Fields that a class only stores and returns are the fields of its record.
\<close>

section \<open>From a URL to the bytes on the wire\<close>

lemma host_name_text: "IS_HOST_CHAR c \<Longrightarrow> c \<noteq> CHR '':'' \<and> c \<noteq> CHR ''['' \<and> c \<noteq> NUL"
  by (auto simp: IS_HOST_CHAR_def IS_ALPHANUM_def IS_ALPHA_def IS_NUM_def)

lemma lookup_name:
  assumes "node \<noteq> []" "\<forall>c\<in>set node. c \<noteq> CHR '':'' \<and> c \<noteq> CHR ''['' \<and> c \<noteq> NUL"
    and "gai node None \<lparr>ai_flags = 0, ai_family = family, ai_socktype = type, ai_protocol = protocol\<rparr> = Inr (map (\<lambda>a. Some (getAddr bo a)) (a # as))"
    and "\<forall>a\<in>set (a # as). address_made bo a \<and> is_IPAddress (Some a)"
  shows "LookupAnyIPAddress bo gai node family type protocol = Some (Some a)"
proof -
  have "lookup_split node = (node, None)"
    using assms(1,2) by (intro lookup_split_plain(1)) auto
  moreover have "c_str node = node"
    using assms(2) by (intro c_str_id) auto
  ultimately show ?thesis
    using assms(3,4) create_all_made [OF assms(4)] by (auto simp: LookupAnyIPAddress_def Lookup_def)
qed

text \<open>
  C25: A request by URL, from the text of the URL to the socket. Reading the URL, looking up its host, giving the
  address the port of the URL, building the request and sending it compose: \<open>DoGet\<close> of a printed URI asks the
  resolver for the host of the URI, connects to the first address of the answer with the port of the URI, sends there the
  text of a \<open>GET\<close> request for the path, query and fragment of the URI that names the host of the URI, and returns with the
  connection closed on every behaviour of the network.
\<close>

theorem get_url_end_to_end:
  assumes "uri_ok u" "length (Uri_toString u) < 65536"
    and "ce_gai E (m_host u) None \<lparr>ai_flags = 0, ai_family = AF_INET, ai_socktype = 0, ai_protocol = 0\<rparr> =
      Inr (map (\<lambda>a. Some (getAddr (ce_order E) a)) (a # as))"
    and "\<forall>a\<in>set (a # as). address_made (ce_order E) a \<and> is_IPAddress (Some a)"
    and "ce_dial E (IPAddress_setPort (ce_order E) (of_int (getPort u)) a) = Some s" "m_isConnected s"
    and "length (rq_dump (connection_request (HttpMethod HTTP_GET) u headers body)) < 2 ^ 31" "0 < ce_buff_size E" "ce_buff_size E < 2 ^ 31"
    and "\<forall>h\<in>set headers. strcasecmp (fst h) ''host'' \<noteq> 0"
  shows "\<exists>res S s' req. DoGet E (Uri_toString u) timeout_ms headers body = Some (Inr (res, Some S)) \<and>
    m_socket S = Some s' \<and> \<not> m_isConnected s' \<and> sent s' = sent s @ take (capacity (accepts s)) (rq_dump req) \<and>
    rq_method req = HttpMethod HTTP_GET \<and> rq_path req = m_path u \<and> rq_query req = m_query u \<and> rq_fragment req = m_fragment u \<and>
    rq_body req = body \<and> rq_getHeader req ''host'' [] = m_host u \<and>
    (hr_result res = error_num OK \<longleftrightarrow> hr_response res \<noteq> None)"
proof -
  let ?req = "connection_request (HttpMethod HTTP_GET) u headers body"
  have "LookupAnyIPAddress (ce_order E) (ce_gai E) (m_host u) AF_INET 0 0 = Some (Some a)"
    using assms(1) host_name_text assms(3,4) by (intro lookup_name [of "m_host u" "ce_gai E" AF_INET 0 0 "ce_order E" a as]) (auto simp: uri_ok_def)
  then have "createAddress (ce_order E) (ce_gai E) u = Some (Some (IPAddress_setPort (ce_order E) (of_int (getPort u)) a))"
    by (simp add: createAddress_def)
  from DoRequest_req_open [OF this assms(5-9), of timeout_ms]
  obtain res S s' where r: "DoRequest_req E ?req u timeout_ms = Some (res, Some S)" "m_socket S = Some s'" "\<not> m_isConnected s'"
    "sent s' = sent s @ take (capacity (accepts s)) (rq_dump ?req)" "hr_result res = error_num OK \<longleftrightarrow> hr_response res \<noteq> None"
    by blast
  have "DoGet E (Uri_toString u) timeout_ms headers body = Some (Inr (res, Some S))"
    using r(1) uri_printed_read [OF assms(1,2)] by (simp add: DoGet_def DoRequest_def DoRequest_uri_def)
  moreover have "rq_path ?req = m_path u"
    using assms(1) connection_request_target by (auto simp: getPath_def uri_ok_def)
  ultimately show ?thesis
    using r(2-5) connection_request_host [OF assms(10)]
    by (intro exI [of _ res] exI [of _ S] exI [of _ s'] exI [of _ ?req]) (simp add: connection_request_target)
qed

text \<open>The request for \<open>http://a/x?y=1\<close> with the example network of theory \<open>Http_Client\<close>, which takes three bytes.\<close>

theorem get_url_end_to_end_witness:
  "\<exists>res S s'. DoGet example_client ''http://a/x?y=1'' 1000 [] [] = Some (Inr (res, Some S)) \<and> m_socket S = Some s' \<and>
     \<not> m_isConnected s' \<and> length (sent s') \<le> 3"
proof -
  let ?u = "new_Uri\<lparr>m_scheme := ''http'', m_host := ''a'', m_path := ''/x'', m_query := ''y=1'', m_port := 80\<rparr>"
  have u: "uri_ok ?u" "Uri_toString ?u = ''http://a/x?y=1''"
    by code_simp+
  moreover have "address_made SYLAR_BIG_ENDIAN example_address"
    by (rule address_made.memory [of _ "Some (getAddr SYLAR_BIG_ENDIAN example_address)"], rule Create_getAddr)
      (simp_all add: example_address_def AF_INET_def zeros_def)
  moreover have "is_IPAddress (Some example_address)"
    by (simp add: example_address_def)
  moreover have "rq_dump (connection_request (HttpMethod HTTP_GET) ?u [] []) =
      ''GET /x?y=1 HTTP/1.1'' @ CRLF @ ''connection: close'' @ CRLF @ ''Host: a'' @ CRLF @ CRLF"
    by code_simp
  ultimately show ?thesis
    using get_url_end_to_end [of ?u example_client example_address "[]" example_socket "[]" "[]" 1000]
    by (auto simp: example_client_def example_socket_def)
qed

end
